(* ===== verification/Prelude.thy ===== *)
theory Prelude
  imports Main "HOL-Library.AList" "HOL-Library.Multiset" "HOL-Library.Sublist"
begin

text \<open>
  Shared vocabulary of the development: the fragment of the JavaScript run time that the
  modelled sources use, with the lemmas every component needs.

  \<^item> A JavaScript object used as a dictionary and a \<open>Map\<close> both iterate in insertion order;
    both are association lists here (\<open>rget\<close>, \<open>rput\<close>, \<open>rdel\<close>), where writing an existing
    key keeps its position. (An object enumerates integer-like keys first; the
    identifiers of this program are not integer-like.)
  \<^item> A string is a list of code units below 256; \<open>js_trim\<close> removes the white space that
    \<open>String.prototype.trim\<close> removes in that range.
  \<^item> \<open>map_where\<close>, \<open>upd_first\<close>, \<open>insert_after\<close>, \<open>uniq\<close>, \<open>sort_by\<close> are the list idioms
    (\<open>map\<close> with a guard, \<open>findIndex\<close> and assignment, \<open>splice\<close>, de-duplication with a
    \<open>Set\<close>, \<open>Array.prototype.sort\<close>) that recur in the sources.
\<close>

named_theorems store_simps \<open>lookups in updated stores\<close>
named_theorems frame_simps \<open>parts of a structure that an operation leaves unchanged\<close>

section \<open>Strings\<close>

definition js_ws :: "char \<Rightarrow> bool" where
  "js_ws c \<longleftrightarrow> of_char c \<in> {9, 10, 11, 12, 13, 32, 160 :: nat}"

definition trim_start :: "string \<Rightarrow> string" where
  "trim_start s = dropWhile js_ws s"

definition trim_end :: "string \<Rightarrow> string" where
  "trim_end s = rev (dropWhile js_ws (rev s))"

definition js_trim :: "string \<Rightarrow> string" where
  "js_trim s = trim_end (trim_start s)"

definition starts_with :: "string \<Rightarrow> string \<Rightarrow> bool" where
  "starts_with s p \<longleftrightarrow> take (length p) s = p"

text \<open>A string or \<open>null\<close>/\<open>undefined\<close> in a condition: falsy when absent or empty.\<close>

definition truthy :: "string option \<Rightarrow> bool" where
  "truthy x \<longleftrightarrow> (case x of None \<Rightarrow> False | Some s \<Rightarrow> s \<noteq> '''')"

lemma starts_with_append [simp]: "starts_with (p @ s) p"
  by (simp add: starts_with_def)

lemma starts_with_iff: "starts_with s p \<longleftrightarrow> (\<exists>t. s = p @ t)"
  by (metis append_take_drop_id starts_with_append starts_with_def)

lemma truthy_simps [simp]: "\<not> truthy None" "truthy (Some s) \<longleftrightarrow> s \<noteq> ''''"
  by (simp_all add: truthy_def)

lemma truthy_iff: "truthy x \<longleftrightarrow> (\<exists>s. x = Some s \<and> s \<noteq> '''')"
  by (cases x) simp_all

lemma dropWhile_idem: "dropWhile P (dropWhile P xs) = dropWhile P xs"
  by (induction xs) auto

lemma dropWhile_rev_dropWhile:
  "dropWhile P (rev (dropWhile P (rev (dropWhile P xs)))) = rev (dropWhile P (rev (dropWhile P xs)))"
proof (cases "dropWhile P xs")
  case Nil
  show ?thesis by (simp only: Nil dropWhile.simps rev.simps)
next
  case (Cons y ys)
  then have "\<not> P y" by (metis dropWhile_eq_Cons_conv)
  then have "dropWhile P (rev ys @ [y]) = dropWhile P (rev ys) @ [y]"
    by (induction ys rule: rev_induct) auto
  then show ?thesis using Cons \<open>\<not> P y\<close> by simp
qed

lemma js_trim_idem [simp]: "js_trim (js_trim s) = js_trim s"
  by (simp add: js_trim_def trim_start_def trim_end_def dropWhile_rev_dropWhile dropWhile_idem)

section \<open>Dictionaries in insertion order\<close>

type_synonym 'v jrec = "(string \<times> 'v) list"

abbreviation rget :: "('k \<times> 'v) list \<Rightarrow> 'k \<Rightarrow> 'v option" where
  "rget r k \<equiv> map_of r k"

abbreviation rput :: "'k \<Rightarrow> 'v \<Rightarrow> ('k \<times> 'v) list \<Rightarrow> ('k \<times> 'v) list" where
  "rput k v r \<equiv> AList.update k v r"

abbreviation rdel :: "'k \<Rightarrow> ('k \<times> 'v) list \<Rightarrow> ('k \<times> 'v) list" where
  "rdel k r \<equiv> AList.delete k r"

abbreviation rkeys :: "('k \<times> 'v) list \<Rightarrow> 'k list" where
  "rkeys r \<equiv> map fst r"

abbreviation rwf :: "('k \<times> 'v) list \<Rightarrow> bool" where
  "rwf r \<equiv> distinct (map fst r)"

lemma rget_rput [store_simps]: "rget (rput k v r) k' = (if k' = k then Some v else rget r k')"
  by (simp add: update_conv')

lemma rget_rdel [store_simps]: "rget (rdel k r) k' = (if k' = k then None else rget r k')"
  by (simp add: delete_conv')

lemma rwf_rput [intro]: "rwf r \<Longrightarrow> rwf (rput k v r)"
  by (rule distinct_update)

lemma rwf_rdel [intro]: "rwf r \<Longrightarrow> rwf (rdel k r)"
  by (simp add: AList.delete_eq distinct_map_filter)

lemma rget_filter:
  "rwf r \<Longrightarrow> rget (filter P r) k = (case rget r k of None \<Rightarrow> None | Some v \<Rightarrow> if P (k, v) then Some v else None)"
proof (induction r)
  case (Cons kv r)
  obtain k' v' where kv: "kv = (k', v')" by (cases kv)
  have no: "k' \<notin> fst ` set r" using Cons.prems kv by simp
  then have "rget (filter P r) k' = None" "rget r k' = None"
    by (auto simp: map_of_eq_None_iff)
  then show ?case using Cons kv by (auto split: option.split)
qed simp

lemma rget_map_values: "rget (map (\<lambda>(k, v). (k, f k v)) r) k = map_option (f k) (rget r k)"
  by (induction r) auto

text \<open>\<open>const v = r[k]; if (!v) return; r = {...r, [k]: f(v)}\<close>, the update of nearly every store.\<close>

definition rpatch :: "'k \<Rightarrow> ('v \<Rightarrow> 'v) \<Rightarrow> ('k \<times> 'v) list \<Rightarrow> ('k \<times> 'v) list" where
  "rpatch k f r = (case rget r k of None \<Rightarrow> r | Some v \<Rightarrow> rput k (f v) r)"

lemma rget_rpatch [store_simps]:
  "rget (rpatch k f r) k' = (if k' = k then map_option f (rget r k) else rget r k')"
  by (auto simp: rpatch_def store_simps split: option.split)

lemma rwf_rpatch [intro]: "rwf r \<Longrightarrow> rwf (rpatch k f r)"
  by (auto simp: rpatch_def split: option.split)

lemma rput_new: "k \<notin> set (rkeys r) \<Longrightarrow> rput k v r = r @ [(k, v)]"
  by (induction r) auto

lemma rkeys_rput_present: "k \<in> set (rkeys r) \<Longrightarrow> rkeys (rput k v r) = rkeys r"
  by (induction r) auto

lemma rkeys_rpatch [frame_simps, simp]: "rkeys (rpatch k f r) = rkeys r"
proof (cases "rget r k")
  case (Some v)
  then have "k \<in> set (rkeys r)" by (metis domI dom_map_of_conv_image_fst list.set_map)
  then show ?thesis by (simp add: rpatch_def Some rkeys_rput_present)
qed (simp add: rpatch_def)

section \<open>List idioms\<close>

lemma find_SomeD: "find P xs = Some x \<Longrightarrow> x \<in> set xs \<and> P x"
  by (auto simp: find_Some_iff)

definition map_where :: "('a \<Rightarrow> bool) \<Rightarrow> ('a \<Rightarrow> 'a) \<Rightarrow> 'a list \<Rightarrow> 'a list" where
  "map_where p f xs = map (\<lambda>x. if p x then f x else x) xs"

lemma length_map_where [frame_simps, simp]: "length (map_where p f xs) = length xs"
  by (simp add: map_where_def)

lemma set_map_where: "set (map_where p f xs) = f ` {x \<in> set xs. p x} \<union> {x \<in> set xs. \<not> p x}"
  by (auto simp: map_where_def image_iff)

lemma map_where_Nil [simp]: "map_where p f [] = []"
  and map_where_Cons [simp]: "map_where p f (x # xs) = (if p x then f x else x) # map_where p f xs"
  and map_where_append [simp]: "map_where p f (xs @ ys) = map_where p f xs @ map_where p f ys"
  by (simp_all add: map_where_def)

lemma map_where_none: "(\<And>x. x \<in> set xs \<Longrightarrow> \<not> p x) \<Longrightarrow> map_where p f xs = xs"
  by (induction xs) auto

lemma map_map_where_id:
  assumes "\<And>x. g (f x) = g x"
  shows "map g (map_where p f xs) = map g xs"
  using assms by (induction xs) auto

lemma map_where_compose:
  assumes "\<And>x. p x \<Longrightarrow> p (f x)"
  shows "map_where p g (map_where p f xs) = map_where p (g \<circ> f) xs"
  using assms by (induction xs) auto

text \<open>\<open>findIndex\<close> followed by an assignment at the index: only the first match changes.\<close>

fun upd_first :: "('a \<Rightarrow> bool) \<Rightarrow> ('a \<Rightarrow> 'a) \<Rightarrow> 'a list \<Rightarrow> 'a list" where
  "upd_first p f [] = []"
| "upd_first p f (x # xs) = (if p x then f x # xs else x # upd_first p f xs)"

lemma length_upd_first [frame_simps, simp]: "length (upd_first p f xs) = length xs"
  by (induction xs) auto

lemma upd_first_none: "(\<And>x. x \<in> set xs \<Longrightarrow> \<not> p x) \<Longrightarrow> upd_first p f xs = xs"
  by (induction xs) auto

lemma map_upd_first_id:
  assumes "\<And>x. p x \<Longrightarrow> g (f x) = g x"
  shows "map g (upd_first p f xs) = map g xs"
  using assms by (induction xs) auto

text \<open>\<open>idx >= 0 ? next[idx] = x : next.push(x)\<close>.\<close>

definition upsert_where :: "('a \<Rightarrow> bool) \<Rightarrow> 'a \<Rightarrow> 'a list \<Rightarrow> 'a list" where
  "upsert_where p x xs = (if \<exists>y\<in>set xs. p y then upd_first p (\<lambda>_. x) xs else xs @ [x])"

lemma upsert_where_in: "x \<in> set (upsert_where p x xs)"
proof -
  have "\<exists>y\<in>set xs. p y \<Longrightarrow> x \<in> set (upd_first p (\<lambda>_. x) xs)" by (induction xs) auto
  then show ?thesis by (auto simp: upsert_where_def)
qed

lemma filter_upsert_where_frame:
  assumes "\<And>y. p y \<Longrightarrow> \<not> q y" "\<not> q x"
  shows "filter q (upsert_where p x xs) = filter q xs"
proof -
  have "filter q (upd_first p (\<lambda>_. x) xs) = filter q xs" using assms by (induction xs) auto
  then show ?thesis using assms by (simp add: upsert_where_def)
qed

text \<open>\<open>steps.splice(idx + 1, 0, x)\<close> after the first match, or \<open>push\<close> when there is none.\<close>

fun insert_after :: "('a \<Rightarrow> bool) \<Rightarrow> 'a \<Rightarrow> 'a list \<Rightarrow> 'a list" where
  "insert_after p x [] = [x]"
| "insert_after p x (y # ys) = (if p y then y # x # ys else y # insert_after p x ys)"

lemma set_insert_after [simp]: "set (insert_after p x xs) = insert x (set xs)"
  by (induction xs) auto

lemma length_insert_after [simp]: "length (insert_after p x xs) = Suc (length xs)"
  by (induction xs) auto

lemma filter_insert_after: "\<not> q x \<Longrightarrow> filter q (insert_after p x xs) = filter q xs"
  by (induction xs) auto

lemma insert_after_none: "(\<And>y. y \<in> set xs \<Longrightarrow> \<not> p y) \<Longrightarrow> insert_after p x xs = xs @ [x]"
  by (induction xs) auto

text \<open>Keep the first occurrence of each element, as filtering through a \<open>Set\<close> of seen values does.\<close>

fun uniq_from :: "'a list \<Rightarrow> 'a list \<Rightarrow> 'a list" where
  "uniq_from seen [] = []"
| "uniq_from seen (x # xs) =
     (if x \<in> set seen then uniq_from seen xs else x # uniq_from (x # seen) xs)"

abbreviation uniq :: "'a list \<Rightarrow> 'a list" where
  "uniq xs \<equiv> uniq_from [] xs"

lemma set_uniq_from [simp]: "set (uniq_from seen xs) = set xs - set seen"
  by (induction seen xs rule: uniq_from.induct) auto

lemma distinct_uniq_from [simp]: "distinct (uniq_from seen xs)"
  by (induction seen xs rule: uniq_from.induct) auto

lemma uniq_from_distinct: "distinct xs \<Longrightarrow> set xs \<inter> set seen = {} \<Longrightarrow> uniq_from seen xs = xs"
  by (induction seen xs rule: uniq_from.induct) auto

lemma uniq_distinct: "distinct xs \<Longrightarrow> uniq xs = xs"
  by (rule uniq_from_distinct) auto

text \<open>\<open>Array.prototype.sort\<close> with a comparator is stable: a stable insertion sort.\<close>

fun insort_by :: "('a \<Rightarrow> 'a \<Rightarrow> int) \<Rightarrow> 'a \<Rightarrow> 'a list \<Rightarrow> 'a list" where
  "insort_by cmp x [] = [x]"
| "insort_by cmp x (y # ys) = (if cmp x y \<le> 0 then x # y # ys else y # insort_by cmp x ys)"

definition sort_by :: "('a \<Rightarrow> 'a \<Rightarrow> int) \<Rightarrow> 'a list \<Rightarrow> 'a list" where
  "sort_by cmp xs = foldr (insort_by cmp) xs []"

lemma mset_insort_by [simp]: "mset (insort_by cmp x xs) = add_mset x (mset xs)"
  by (induction xs) auto

lemma mset_sort_by [simp]: "mset (sort_by cmp xs) = mset xs"
  by (induction xs) (simp_all add: sort_by_def)

lemma set_sort_by [simp]: "set (sort_by cmp xs) = set xs"
  by (metis mset_sort_by set_mset_mset)

lemma length_sort_by [simp]: "length (sort_by cmp xs) = length xs"
  by (metis mset_sort_by size_mset)

lemma sort_by_sorted: "sorted_wrt (\<lambda>x y. cmp x y \<le> 0) xs \<Longrightarrow> sort_by cmp xs = xs"
proof (induction xs)
  case (Cons x xs)
  then have "sort_by cmp (x # xs) = insort_by cmp x xs" by (simp add: sort_by_def)
  with Cons.prems show ?case by (cases xs) simp_all
qed (simp add: sort_by_def)

text \<open>What the sources rely on of a comparator such as \<open>localeCompare\<close>.\<close>

locale comparator =
  fixes cmp :: "'a \<Rightarrow> 'a \<Rightarrow> int"
  assumes cmp_trans: "cmp x y \<le> 0 \<Longrightarrow> cmp y z \<le> 0 \<Longrightarrow> cmp x z \<le> 0"
    and cmp_total: "\<not> cmp x y \<le> 0 \<Longrightarrow> cmp y x \<le> 0"
begin

lemma sorted_insort_by:
  "sorted_wrt (\<lambda>x y. cmp x y \<le> 0) xs \<Longrightarrow> sorted_wrt (\<lambda>x y. cmp x y \<le> 0) (insort_by cmp a xs)"
proof (induction xs)
  case (Cons y ys)
  have "set (insort_by cmp a ys) = insert a (set ys)"
    by (metis mset_insort_by set_mset_add_mset_insert set_mset_mset)
  then show ?case using Cons by (auto intro: cmp_trans cmp_total)
qed simp

lemma sorted_sort_by: "sorted_wrt (\<lambda>x y. cmp x y \<le> 0) (sort_by cmp xs)"
  by (induction xs) (simp_all add: sort_by_def sorted_insort_by)

end

section \<open>JSON values\<close>

text \<open>A value of type \<open>unknown\<close>, as \<open>JSON.parse\<close> makes it. \<open>undefined\<close> is \<open>None\<close> of a \<open>json option\<close>.\<close>

datatype json = JNull | JBool bool | JNum int | JString string | JArr "json list" | JObj "(string \<times> json) list"

definition field :: "string \<Rightarrow> json \<Rightarrow> json option" where
  "field k j = (case j of JObj kvs \<Rightarrow> map_of kvs k | _ \<Rightarrow> None)"

section \<open>Numbers in template strings\<close>

text \<open>A number in decimal, as a template string shows it.\<close>

fun dec :: "nat \<Rightarrow> string" where
  "dec n = (if n < 10 then [char_of (48 + n)] else dec (n div 10) @ [char_of (48 + n mod 10)])"

declare dec.simps [simp del]

fun undec :: "nat \<Rightarrow> string \<Rightarrow> nat" where
  "undec a [] = a"
| "undec a (c # s) = undec (a * 10 + (of_char c - 48)) s"

lemma undec_append: "undec a (s @ t) = undec (undec a s) t"
  by (induction s arbitrary: a) simp_all

lemma undec_dec: "undec 0 (dec n) = n"
proof (induction n rule: less_induct)
  case (less n)
  have digit: "of_char (char_of (48 + d) :: char) = 48 + d" if "d < 10" for d :: nat
    using that by (simp add: of_char_of take_bit_eq_mod)
  show ?case
  proof (cases "n < 10")
    case True
    then show ?thesis by (subst dec.simps) (simp add: digit)
  next
    case False
    then have "undec 0 (dec (n div 10)) = n div 10" by (intro less) simp
    with False show ?thesis by (subst dec.simps) (simp add: undec_append digit)
  qed
qed

lemma dec_inj: "dec m = dec n \<Longrightarrow> m = n"
  by (metis undec_dec)

lemma dec_nonempty: "dec n \<noteq> ''''"
  by (subst dec.simps) simp

definition show_int :: "int \<Rightarrow> string" where
  "show_int i = (if i < 0 then ''-'' @ dec (nat (- i)) else dec (nat i))"

text \<open>The loops that look for the first unused number after a name.\<close>

definition numbered :: "string \<Rightarrow> string \<Rightarrow> nat \<Rightarrow> string" where
  "numbered sep base k = base @ sep @ dec k"

lemma numbered_inj: "numbered sep base m = numbered sep base n \<Longrightarrow> m = n"
  by (auto simp: numbered_def dest: dec_inj)

function free_number :: "string \<Rightarrow> string list \<Rightarrow> string \<Rightarrow> nat \<Rightarrow> nat" where
  "free_number sep used base k =
     (if numbered sep base k \<in> set used then free_number sep used base (Suc k) else k)"
  by pat_completeness auto
termination
proof (relation "measure (\<lambda>(sep, used, base, k). card {s \<in> set used. \<exists>j\<ge>k. s = numbered sep base j})")
  fix sep used base k assume used: "numbered sep base k \<in> set used"
  have "\<not> (\<exists>j\<ge>Suc k. numbered sep base k = numbered sep base j)" using numbered_inj by force
  with used have "{s \<in> set used. \<exists>j\<ge>Suc k. s = numbered sep base j}
      \<subset> {s \<in> set used. \<exists>j\<ge>k. s = numbered sep base j}"
    by (auto intro: Suc_leD)
  then show "((sep, used, base, Suc k), sep, used, base, k)
      \<in> measure (\<lambda>(sep, used, base, k). card {s \<in> set used. \<exists>j\<ge>k. s = numbered sep base j})"
    by (simp add: psubset_card_mono)
qed simp

declare free_number.simps [simp del]

lemma free_number_free: "numbered sep base (free_number sep used base k) \<notin> set used"
proof (induction sep used base k rule: free_number.induct)
  case (1 sep used base k)
  then show ?case by (subst free_number.simps) auto
qed

section \<open>Runs of a store\<close>

text \<open>
  A store is a state and the operations its clients call; a property that the initial
  state has and every operation keeps holds after any sequence of calls.
\<close>

locale store_machine =
  fixes start :: 's and step :: "'op \<Rightarrow> 's \<Rightarrow> 's" and inv :: "'s \<Rightarrow> bool"
  assumes inv_start: "inv start"
    and inv_step: "inv s \<Longrightarrow> inv (step a s)"
begin

lemma inv_run_from: "inv s \<Longrightarrow> inv (fold step ops s)"
  by (induction ops arbitrary: s) (simp_all add: inv_step)

lemma inv_run: "inv (fold step ops start)"
  by (rule inv_run_from) (rule inv_start)

end

end
