(* ===== verification/Descend.thy ===== *)
theory Descend
  imports Prelude
begin

text \<open>
  The loop that the conversation store and the protocol layout store both use to collect an
  item and everything below it: starting from a \<open>Set\<close> with the root, pass over all items and
  add those whose parent is in the set, until a pass adds nothing. The set is a list in
  insertion order. \<open>ident\<close> and \<open>parent\<close> read an item; an absent or empty parent is a root.
\<close>

definition desc_step ::
  "('a \<Rightarrow> string) \<Rightarrow> ('a \<Rightarrow> string option) \<Rightarrow> 'a \<Rightarrow> string list \<times> bool \<Rightarrow> string list \<times> bool" where
  "desc_step ident parent x acc =
     (let (ids, changed) = acc in
      case parent x of
        None \<Rightarrow> (ids, changed)
      | Some p \<Rightarrow> if p \<noteq> '''' \<and> p \<in> set ids \<and> ident x \<notin> set ids then (ids @ [ident x], True)
                  else (ids, changed))"

definition desc_pass ::
  "('a \<Rightarrow> string) \<Rightarrow> ('a \<Rightarrow> string option) \<Rightarrow> 'a list \<Rightarrow> string list \<Rightarrow> string list \<times> bool" where
  "desc_pass ident parent items ids = fold (desc_step ident parent) items (ids, False)"

text \<open>One pass only adds identifiers of items, and reports a change exactly when it added one.\<close>

lemma desc_fold_extends:
  "fold (desc_step ident parent) items (ids, ch) = (ids', ch') \<Longrightarrow>
     \<exists>new. ids' = ids @ new \<and> set new \<subseteq> ident ` set items \<and> set new \<inter> set ids = {}
        \<and> distinct new \<and> ch' = (ch \<or> new \<noteq> [])"
proof (induction items arbitrary: ids ch)
  case (Cons x items)
  obtain ids1 ch1 where s: "desc_step ident parent x (ids, ch) = (ids1, ch1)" by (meson surj_pair)
  then have cases1: "(ids1 = ids \<and> ch1 = ch) \<or> (ids1 = ids @ [ident x] \<and> ch1 \<and> ident x \<notin> set ids)"
    by (auto simp: desc_step_def split: option.splits if_splits)
  from Cons.prems s have "fold (desc_step ident parent) items (ids1, ch1) = (ids', ch')" by simp
  from Cons.IH [OF this] obtain new where new: "ids' = ids1 @ new" "set new \<subseteq> ident ` set items"
    "set new \<inter> set ids1 = {}" "distinct new" "ch' = (ch1 \<or> new \<noteq> [])" by blast
  from cases1 show ?case
  proof
    assume "ids1 = ids \<and> ch1 = ch"
    with new show ?thesis by auto
  next
    assume a: "ids1 = ids @ [ident x] \<and> ch1 \<and> ident x \<notin> set ids"
    with new show ?thesis by (intro exI [of _ "ident x # new"]) auto
  qed
qed simp

lemma desc_pass_extends:
  "desc_pass ident parent items ids = (ids', ch) \<Longrightarrow>
     \<exists>new. ids' = ids @ new \<and> set new \<subseteq> ident ` set items \<and> set new \<inter> set ids = {}
        \<and> distinct new \<and> ch = (new \<noteq> [])"
  using desc_fold_extends [of ident parent items ids False ids' ch] by (simp add: desc_pass_def)

function desc_close ::
  "('a \<Rightarrow> string) \<Rightarrow> ('a \<Rightarrow> string option) \<Rightarrow> 'a list \<Rightarrow> string list \<Rightarrow> string list" where
  "desc_close ident parent items ids =
     (let (ids', changed) = desc_pass ident parent items ids in
      if changed then desc_close ident parent items ids' else ids')"
  by pat_completeness auto
termination
proof (relation "measure (\<lambda>(ident, parent, items, ids). card (ident ` set items - set ids))")
  fix ident :: "'a \<Rightarrow> string" and parent items ids x ids' changed
  assume "x = desc_pass ident parent items ids" "(ids', changed) = x" changed
  then obtain new where new: "ids' = ids @ new" "set new \<subseteq> ident ` set items"
    "set new \<inter> set ids = {}" "new \<noteq> []"
    using desc_pass_extends [of ident parent items ids ids' changed] by auto
  then have "ident ` set items - set ids' \<subset> ident ` set items - set ids"
    by (cases new) auto
  then show "((ident, parent, items, ids'), ident, parent, items, ids)
      \<in> measure (\<lambda>(ident, parent, items, ids). card (ident ` set items - set ids))"
    by (simp add: psubset_card_mono)
qed simp

declare desc_close.simps [simp del]

text \<open>The parent relation of a list of items, and what lies below a root.\<close>

definition desc_edges :: "('a \<Rightarrow> string) \<Rightarrow> ('a \<Rightarrow> string option) \<Rightarrow> 'a list \<Rightarrow> (string \<times> string) set" where
  "desc_edges ident parent items =
     {(p, c). p \<noteq> '''' \<and> (\<exists>x\<in>set items. parent x = Some p \<and> ident x = c)}"

lemma desc_edges_map:
  "(\<And>x. x \<in> set xs \<Longrightarrow> ident (g x) = ident x \<and> parent (g x) = parent x)
     \<Longrightarrow> desc_edges ident parent (map g xs) = desc_edges ident parent xs"
  by (auto simp: desc_edges_def)

definition below :: "('a \<Rightarrow> string) \<Rightarrow> ('a \<Rightarrow> string option) \<Rightarrow> 'a list \<Rightarrow> string \<Rightarrow> string set" where
  "below ident parent items root = (desc_edges ident parent items)\<^sup>* `` {root}"

lemma desc_fold_sound:
  "fold (desc_step ident parent) xs (ids, ch) = (ids', ch') \<Longrightarrow> set xs \<subseteq> set items \<Longrightarrow>
     set ids \<subseteq> below ident parent items r \<Longrightarrow> set ids' \<subseteq> below ident parent items r"
proof (induction xs arbitrary: ids ch)
  case (Cons x xs)
  obtain ids1 ch1 where s: "desc_step ident parent x (ids, ch) = (ids1, ch1)" by (meson surj_pair)
  have "set ids1 \<subseteq> below ident parent items r"
  proof (cases "ids1 = ids")
    case False
    with s obtain p where p: "parent x = Some p" "p \<noteq> ''''" "p \<in> set ids" "ids1 = ids @ [ident x]"
      by (auto simp: desc_step_def split: option.splits if_splits)
    with Cons.prems(2) have "(p, ident x) \<in> desc_edges ident parent items"
      by (auto simp: desc_edges_def)
    with p Cons.prems(3) show ?thesis
      by (auto simp: below_def intro: rtrancl_into_rtrancl)
  qed (use Cons.prems in simp)
  with Cons s show ?case by auto
qed simp

lemma desc_fold_unchanged:
  "fold (desc_step ident parent) xs (ids, False) = (ids', False) \<Longrightarrow> x \<in> set xs \<Longrightarrow>
     parent x = Some p \<Longrightarrow> p \<noteq> '''' \<Longrightarrow> p \<in> set ids \<Longrightarrow> ident x \<in> set ids"
proof (induction xs)
  case (Cons y ys)
  obtain ids1 ch1 where s: "desc_step ident parent y (ids, False) = (ids1, ch1)" by (meson surj_pair)
  from Cons.prems(1) s have f: "fold (desc_step ident parent) ys (ids1, ch1) = (ids', False)" by simp
  then have "\<not> ch1" using desc_fold_extends [OF f] by auto
  with s have same: "ids1 = ids" "ch1 = False"
    and y: "y = x \<Longrightarrow> ident x \<in> set ids"
    using Cons.prems by (auto simp: desc_step_def split: option.splits if_splits)
  with f Cons.IH Cons.prems y show ?case by auto
qed simp

lemma desc_close_sound:
  "set ids \<subseteq> below ident parent items r \<Longrightarrow> set (desc_close ident parent items ids) \<subseteq> below ident parent items r"
proof (induction ident parent items ids rule: desc_close.induct)
  case (1 ident parent items ids)
  obtain ids' ch where p: "desc_pass ident parent items ids = (ids', ch)" by (meson surj_pair)
  then have "set ids' \<subseteq> below ident parent items r"
    using desc_fold_sound [of ident parent items ids False ids' ch items r] "1.prems"
    by (simp add: desc_pass_def)
  with "1.IH" [OF p [symmetric]] p show ?case
    by (subst desc_close.simps) (auto simp: Let_def)
qed

lemma desc_close_extends: "set ids \<subseteq> set (desc_close ident parent items ids)"
proof (induction ident parent items ids rule: desc_close.induct)
  case (1 ident parent items ids)
  obtain ids' ch where p: "desc_pass ident parent items ids = (ids', ch)" by (meson surj_pair)
  then have "set ids \<subseteq> set ids'" using desc_pass_extends by fastforce
  with "1.IH" [OF p [symmetric]] p show ?case
    by (subst desc_close.simps) (auto simp: Let_def)
qed

lemma desc_close_distinct: "distinct ids \<Longrightarrow> distinct (desc_close ident parent items ids)"
proof (induction ident parent items ids rule: desc_close.induct)
  case (1 ident parent items ids)
  obtain ids' ch where p: "desc_pass ident parent items ids = (ids', ch)" by (meson surj_pair)
  then have "distinct ids'" using desc_pass_extends "1.prems" by fastforce
  with "1.IH" [OF p [symmetric]] p show ?case
    by (subst desc_close.simps) (auto simp: Let_def)
qed

lemma desc_close_closed:
  "x \<in> set items \<Longrightarrow> parent x = Some p \<Longrightarrow> p \<noteq> '''' \<Longrightarrow>
     p \<in> set (desc_close ident parent items ids) \<Longrightarrow> ident x \<in> set (desc_close ident parent items ids)"
proof (induction ident parent items ids rule: desc_close.induct)
  case (1 ident parent items ids)
  obtain ids' ch where p: "desc_pass ident parent items ids = (ids', ch)" by (meson surj_pair)
  show ?case
  proof (cases ch)
    case True
    with p have e: "desc_close ident parent items ids = desc_close ident parent items ids'"
      by (subst desc_close.simps) simp
    with "1.IH" [OF refl p [symmetric] True] "1.prems" show ?thesis by metis
  next
    case False
    with p have e: "desc_close ident parent items ids = ids'" by (subst desc_close.simps) simp
    with False p have "ids' = ids" using desc_pass_extends by fastforce
    with e False p "1.prems" show ?thesis
      using desc_fold_unchanged [of ident parent items ids ids' x p] by (simp add: desc_pass_def)
  qed
qed

text \<open>The loop computes exactly the root and its transitive children.\<close>

lemma desc_close_below: "set (desc_close ident parent items [r]) = below ident parent items r"
proof
  show "set (desc_close ident parent items [r]) \<subseteq> below ident parent items r"
    by (rule desc_close_sound) (simp add: below_def)
  have "(r, c) \<in> (desc_edges ident parent items)\<^sup>* \<Longrightarrow> c \<in> set (desc_close ident parent items [r])" for c
  proof (induction rule: rtrancl_induct)
    case base
    then show ?case using desc_close_extends [of "[r]" ident parent items] by simp
  next
    case (step p c)
    then obtain x where "x \<in> set items" "parent x = Some p" "p \<noteq> ''''" "ident x = c"
      by (auto simp: desc_edges_def)
    with step.IH show ?case using desc_close_closed [of x items parent p ident "[r]"] by simp
  qed
  then show "below ident parent items r \<subseteq> set (desc_close ident parent items [r])"
    by (auto simp: below_def)
qed

section \<open>The contract of a cascading deletion\<close>

text \<open>
  \<open>kept r xs\<close>: what remains of the items after the subtree of \<open>r\<close> is deleted. The clients
  (stores) promise that it is the items whose identifier is not below \<open>r\<close>.
\<close>

locale cascade =
  fixes ident :: "'a \<Rightarrow> string" and parent :: "'a \<Rightarrow> string option"
    and kept :: "string \<Rightarrow> 'a list \<Rightarrow> 'a list"
  assumes kept_filter: "kept r xs = filter (\<lambda>x. ident x \<notin> below ident parent xs r) xs"
begin

lemma kept_no_orphan:
  assumes "x \<in> set (kept r xs)" "parent x = Some p" "p \<noteq> ''''"
  shows "p \<notin> below ident parent xs r"
proof
  assume "p \<in> below ident parent xs r"
  moreover from assms have "(p, ident x) \<in> desc_edges ident parent xs"
    by (auto simp: kept_filter desc_edges_def)
  ultimately have "ident x \<in> below ident parent xs r"
    by (auto simp: below_def intro: rtrancl_into_rtrancl)
  with assms(1) show False by (simp add: kept_filter)
qed

text \<open>If every parent named by an item existed before, every one exists afterwards.\<close>

lemma kept_parents_exist:
  assumes all: "\<And>x p. x \<in> set xs \<Longrightarrow> parent x = Some p \<Longrightarrow> p \<noteq> '''' \<Longrightarrow> p \<in> ident ` set xs"
    and x: "x \<in> set (kept r xs)" "parent x = Some p" "p \<noteq> ''''"
  shows "p \<in> ident ` set (kept r xs)"
proof -
  from x have "x \<in> set xs" by (simp add: kept_filter)
  from all [OF this x(2,3)] obtain y where "y \<in> set xs" "ident y = p" by auto
  with kept_no_orphan [OF x] show ?thesis by (auto simp: kept_filter)
qed

lemma kept_removes_root: "r \<notin> ident ` set (kept r xs)"
  by (auto simp: kept_filter below_def)

lemma distinct_kept: "distinct (map ident xs) \<Longrightarrow> distinct (map ident (kept r xs))"
  by (simp add: kept_filter distinct_map_filter)

end

end
