(* ===== verification/MessageParts.thy ===== *)
theory MessageParts
  imports Prelude
begin

text \<open>
  \<^bold>\<open>frontend/src/lib/ai/aiMessageParts.ts\<close>: the ordered parts of an assistant message (text,
  reasoning, tool calls, plans, question forms, sub-conversation clusters), the flat fields
  derived from them, and the streaming and display operations on part lists.
  \<open>Date.now()\<close> is the argument \<open>now\<close>. A TypeScript \<open>Partial<T>\<close> is the list of the fields
  it sets, applied left to right.
\<close>

section \<open>Data\<close>

datatype tool_status = ToolPending | ToolRunning | ToolCompleted | ToolFailed

record tool_call =
  tc_id :: string
  tc_name :: string
  tc_arguments :: string
  tc_result :: "string option"
  tc_status :: tool_status

datatype plan_step_status = StepPending | StepInProgress | StepCompleted | StepFailed | StepSkipped

record plan_step =
  ps_id :: string
  ps_title :: string
  ps_status :: plan_step_status
  ps_toolCallId :: "string option"
  ps_toolName :: "string option"
  ps_summary :: "string option"
  ps_error :: "string option"

datatype plan_status = Planning | Executing | PlanCompleted | PlanFailed | PlanCancelled

record plan_data =
  plan_id :: string
  plan_title :: string
  plan_steps :: "plan_step list"
  plan_status_of :: plan_status
  plan_createdAt :: int
  plan_updatedAt :: int

record spawn_spec =
  spawn_title :: string
  spawn_task :: string
  spawn_resourceId :: "string option"

text \<open>The five states shared by tasks, task children, clusters and cluster children.\<close>

datatype run_status = Pending | Running | Completed | Failed | Cancelled

record child_state =
  ch_conversationId :: string
  ch_index :: nat
  ch_title :: string
  ch_status :: run_status
  ch_summary :: "string option"
  ch_error :: "string option"
  ch_resourceId :: "string option"
  ch_spawnSpec :: spawn_spec
  ch_startedAt :: "int option"
  ch_finishedAt :: "int option"

datatype question_type = SingleChoice | MultiChoice | FreeText

record ask_option =
  ao_id :: string
  ao_label :: string

record ask_question =
  aq_id :: string
  aq_prompt :: string
  aq_type :: question_type
  aq_options :: "ask_option list option"
  aq_required :: "bool option"
  aq_placeholder :: "string option"

datatype form_status = FormPending | FormAnswered | FormSkipped | FormSuperseded

datatype answer = AnswerText string | AnswerMany "string list"

record question_form =
  qf_formId :: string
  qf_toolCallId :: string
  qf_conversationId :: string
  qf_title :: "string option"
  qf_questions :: "ask_question list"
  qf_status :: form_status
  qf_answers :: "answer jrec option"
  qf_createdAt :: int
  qf_updatedAt :: int

record cluster_part =
  cp_clusterId :: string
  cp_title :: string
  cp_toolCallId :: string
  cp_status :: run_status
  cp_children :: "child_state list"
  cp_aggregatedResult :: "string option"
  cp_createdAt :: int
  cp_finishedAt :: "int option"

datatype part =
    TextPart string
  | ReasoningPart string
  | ToolPart tool_call
  | PlanPart plan_data
  | QuestionPart question_form
  | ClusterPart cluster_part

record compat =
  co_content :: string
  co_reasoning :: "string option"
  co_toolCalls :: "tool_call list option"

section \<open>Flat fields\<close>

text \<open>The three accumulators of the loop of \<open>deriveCompatFields\<close>.\<close>

fun content_of :: "part list \<Rightarrow> string" where
  "content_of [] = ''''"
| "content_of (TextPart t # ps) = t @ content_of ps"
| "content_of (_ # ps) = content_of ps"

fun reasoning_of :: "part list \<Rightarrow> string" where
  "reasoning_of [] = ''''"
| "reasoning_of (ReasoningPart t # ps) = t @ reasoning_of ps"
| "reasoning_of (_ # ps) = reasoning_of ps"

fun tools_of :: "part list \<Rightarrow> tool_call list" where
  "tools_of [] = []"
| "tools_of (ToolPart c # ps) = c # tools_of ps"
| "tools_of (_ # ps) = tools_of ps"

definition deriveCompatFields :: "part list \<Rightarrow> compat" where
  "deriveCompatFields ps =
     \<lparr> co_content = content_of ps,
       co_reasoning = (if reasoning_of ps = '''' then None else Some (reasoning_of ps)),
       co_toolCalls = (if tools_of ps = [] then None else Some (tools_of ps)) \<rparr>"

text \<open>The argument of \<open>partsFromFlatFields\<close>: any object with the four optional fields.\<close>

record flat_msg =
  fm_content :: "string option"
  fm_reasoning :: "string option"
  fm_toolCalls :: "tool_call list option"
  fm_parts :: "part list option"

definition partsFromFlatFields :: "flat_msg \<Rightarrow> part list" where
  "partsFromFlatFields m =
     (case fm_parts m of
        Some (p # ps) \<Rightarrow> p # ps
      | _ \<Rightarrow>
          (case fm_reasoning m of Some r \<Rightarrow> if r = '''' then [] else [ReasoningPart r] | None \<Rightarrow> [])
          @ (case fm_content m of Some t \<Rightarrow> if t = '''' then [] else [TextPart t] | None \<Rightarrow> [])
          @ (case fm_toolCalls m of Some tcs \<Rightarrow> map ToolPart tcs | None \<Rightarrow> []))"

section \<open>Streaming text\<close>

datatype text_kind = KText | KReasoning

fun text_kind_of :: "part \<Rightarrow> text_kind option" where
  "text_kind_of (TextPart _) = Some KText"
| "text_kind_of (ReasoningPart _) = Some KReasoning"
| "text_kind_of _ = None"

fun text_part :: "text_kind \<Rightarrow> string \<Rightarrow> part" where
  "text_part KText t = TextPart t"
| "text_part KReasoning t = ReasoningPart t"

fun text_of_part :: "part \<Rightarrow> string" where
  "text_of_part (TextPart t) = t"
| "text_of_part (ReasoningPart t) = t"
| "text_of_part _ = ''''"

definition appendTextLikePart :: "part list \<Rightarrow> text_kind \<Rightarrow> string \<Rightarrow> part list" where
  "appendTextLikePart ps k chunk =
     (if chunk = '''' then ps
      else if ps \<noteq> [] \<and> text_kind_of (last ps) = Some k
      then butlast ps @ [text_part k (text_of_part (last ps) @ chunk)]
      else ps @ [text_part k chunk])"

section \<open>Leaked tool-call JSON\<close>

fun index_of :: "string \<Rightarrow> string \<Rightarrow> nat option" where
  "index_of [] needle = (if needle = [] then Some 0 else None)"
| "index_of (c # s) needle =
     (if starts_with (c # s) needle then Some 0 else map_option Suc (index_of s needle))"

text \<open>\<open>lastIndexOf(c, k)\<close>: the last position \<open>\<le> k\<close> that holds \<open>c\<close>.\<close>

fun last_index_upto :: "char \<Rightarrow> string \<Rightarrow> nat \<Rightarrow> nat option" where
  "last_index_upto c s 0 = (if s \<noteq> [] \<and> hd s = c then Some 0 else None)"
| "last_index_upto c s (Suc k) =
     (if Suc k < length s \<and> s ! Suc k = c then Some (Suc k) else last_index_upto c s k)"

definition tool_calls_key :: string where
  "tool_calls_key = CHR 34 # ''tool_calls'' @ [CHR 34]"

text \<open>\<open>[\s\S]*"tool_calls"\s*:\<close> somewhere in the string.\<close>

fun has_key_colon :: "string \<Rightarrow> bool" where
  "has_key_colon [] = False"
| "has_key_colon (c # s) =
     ((starts_with (c # s) tool_calls_key
        \<and> starts_with (dropWhile js_ws (drop (length tool_calls_key) (c # s))) '':'')
      \<or> has_key_colon s)"

definition leaked_object :: "string \<Rightarrow> bool" where
  "leaked_object s \<longleftrightarrow>
     (let t = dropWhile js_ws s in starts_with t ''{'' \<and> has_key_colon (drop 1 t))"

definition leaked_fence :: "string \<Rightarrow> bool" where
  "leaked_fence s \<longleftrightarrow>
     (let t = dropWhile js_ws s in
      starts_with t ''```''
      \<and> (let u = drop 3 t; v = (if starts_with u ''json'' then drop 4 u else u)
         in leaked_object v))"

definition stripLeakedToolCallsJson :: "string \<Rightarrow> string" where
  "stripLeakedToolCallsJson text =
     (let trimmed = js_trim text in
      if trimmed = '''' then ''''
      else if leaked_object trimmed \<or> leaked_fence trimmed then ''''
      else case index_of text tool_calls_key of
             None \<Rightarrow> text
           | Some k \<Rightarrow> (case last_index_upto (CHR ''{'') text k of
                 None \<Rightarrow> text
               | Some b \<Rightarrow> trim_end (take b text)))"

section \<open>Display layouts\<close>

text \<open>\<open>coalescePartsByToolSegments\<close>: the loop with its two segment buffers and the flush.\<close>

definition flush_segment :: "string \<Rightarrow> string \<Rightarrow> part list" where
  "flush_segment r t =
     (if r = '''' then [] else [ReasoningPart r])
     @ (if t = '''' then []
        else let cleaned = stripLeakedToolCallsJson t in
             if cleaned = '''' then [] else [TextPart cleaned])"

fun coalesce_segments :: "string \<Rightarrow> string \<Rightarrow> part list \<Rightarrow> part list" where
  "coalesce_segments r t [] = flush_segment r t"
| "coalesce_segments r t (ReasoningPart x # ps) = coalesce_segments (r @ x) t ps"
| "coalesce_segments r t (TextPart x # ps) = coalesce_segments r (t @ x) ps"
| "coalesce_segments r t (p # ps) = flush_segment r t @ p # coalesce_segments '''' '''' ps"

definition coalescePartsByToolSegments :: "part list \<Rightarrow> part list" where
  "coalescePartsByToolSegments ps =
     (if length ps \<le> 1 then ps else coalesce_segments '''' '''' ps)"

definition layoutAiMessagePartsForDisplay :: "part list \<Rightarrow> part list" where
  "layoutAiMessagePartsForDisplay ps = coalescePartsByToolSegments ps"

text \<open>\<open>coalesceToolsInThinkingPhases\<close>: other parts first, then the tools of the phase.\<close>

fun thinking_phases :: "part list \<Rightarrow> part list \<Rightarrow> part list \<Rightarrow> part list" where
  "thinking_phases others tools [] = others @ tools"
| "thinking_phases others tools (TextPart t # ps) =
     others @ tools @ TextPart t # thinking_phases [] [] ps"
| "thinking_phases others tools (QuestionPart f # ps) =
     others @ tools @ QuestionPart f # thinking_phases [] [] ps"
| "thinking_phases others tools (ToolPart c # ps) = thinking_phases others (tools @ [ToolPart c]) ps"
| "thinking_phases others tools (p # ps) = thinking_phases (others @ [p]) tools ps"

definition coalesceToolsInThinkingPhases :: "part list \<Rightarrow> part list" where
  "coalesceToolsInThinkingPhases ps =
     (if length ps \<le> 1 then ps else thinking_phases [] [] ps)"

definition ascii_alnum :: "char \<Rightarrow> bool" where
  "ascii_alnum c \<longleftrightarrow>
     (let n = of_char c :: nat in
      (65 \<le> n \<and> n \<le> 90) \<or> (97 \<le> n \<and> n \<le> 122) \<or> (48 \<le> n \<and> n \<le> 57))"

definition joinTextFragments :: "string \<Rightarrow> string \<Rightarrow> string" where
  "joinTextFragments l r =
     (if l = '''' then r
      else if r = '''' then l
      else if js_ws (last l) \<or> js_ws (hd r) then l @ r
      else if ascii_alnum (last l) \<and> ascii_alnum (hd r) then l @ '' '' @ r
      else l @ r)"

record display_acc =
  da_reasoning :: string
  da_text :: string
  da_tools :: "tool_call list"
  da_plans :: "plan_data list"
  da_clusters :: "cluster_part list"
  da_questions :: "question_form list"

fun display_step :: "part \<Rightarrow> display_acc \<Rightarrow> display_acc" where
  "display_step (ReasoningPart x) a = a\<lparr>da_reasoning := da_reasoning a @ x\<rparr>"
| "display_step (TextPart x) a =
     (let cleaned = stripLeakedToolCallsJson x in
      if cleaned = '''' then a else a\<lparr>da_text := joinTextFragments (da_text a) cleaned\<rparr>)"
| "display_step (ToolPart c) a =
     a\<lparr>da_tools := upsert_where (\<lambda>t. tc_id t = tc_id c) c (da_tools a)\<rparr>"
| "display_step (PlanPart p) a =
     a\<lparr>da_plans := upsert_where (\<lambda>q. plan_id q = plan_id p) p (da_plans a)\<rparr>"
| "display_step (ClusterPart c) a =
     a\<lparr>da_clusters := upsert_where (\<lambda>q. cp_clusterId q = cp_clusterId c) c (da_clusters a)\<rparr>"
| "display_step (QuestionPart f) a =
     a\<lparr>da_questions := upsert_where (\<lambda>q. qf_formId q = qf_formId f) f (da_questions a)\<rparr>"

definition display_start :: display_acc where
  "display_start = \<lparr>da_reasoning = '''', da_text = '''', da_tools = [], da_plans = [],
     da_clusters = [], da_questions = []\<rparr>"

definition coalescePartsForCoherentDisplay :: "part list \<Rightarrow> part list" where
  "coalescePartsForCoherentDisplay ps =
     (if length ps \<le> 1 then ps
      else let a = fold display_step ps display_start in
        (if da_reasoning a = '''' then [] else [ReasoningPart (da_reasoning a)])
        @ map ToolPart (da_tools a) @ map PlanPart (da_plans a) @ map ClusterPart (da_clusters a)
        @ (if da_text a = '''' then [] else [TextPart (da_text a)])
        @ map QuestionPart (da_questions a))"

section \<open>Updates by identifier\<close>

fun is_tool :: "string \<Rightarrow> part \<Rightarrow> bool" where
  "is_tool i (ToolPart c) = (tc_id c = i)"
| "is_tool i _ = False"

fun is_plan :: "string \<Rightarrow> part \<Rightarrow> bool" where
  "is_plan i (PlanPart p) = (plan_id p = i)"
| "is_plan i _ = False"

fun is_question :: "string \<Rightarrow> part \<Rightarrow> bool" where
  "is_question i (QuestionPart f) = (qf_formId f = i)"
| "is_question i _ = False"

fun is_cluster :: "string \<Rightarrow> part \<Rightarrow> bool" where
  "is_cluster i (ClusterPart c) = (cp_clusterId c = i)"
| "is_cluster i _ = False"

fun on_tool :: "(tool_call \<Rightarrow> tool_call) \<Rightarrow> part \<Rightarrow> part" where
  "on_tool f (ToolPart c) = ToolPart (f c)"
| "on_tool f p = p"

fun on_plan :: "(plan_data \<Rightarrow> plan_data) \<Rightarrow> part \<Rightarrow> part" where
  "on_plan f (PlanPart d) = PlanPart (f d)"
| "on_plan f p = p"

fun on_cluster :: "(cluster_part \<Rightarrow> cluster_part) \<Rightarrow> part \<Rightarrow> part" where
  "on_cluster f (ClusterPart c) = ClusterPart (f c)"
| "on_cluster f p = p"

definition upsertToolCallInParts :: "part list \<Rightarrow> string \<Rightarrow> string \<Rightarrow> string \<Rightarrow> part list" where
  "upsertToolCallInParts ps i name args =
     (if \<exists>p\<in>set ps. is_tool i p
      then upd_first (is_tool i) (on_tool (\<lambda>c. c\<lparr>tc_name := name, tc_arguments := args\<rparr>)) ps
      else ps @ [ToolPart \<lparr>tc_id = i, tc_name = name, tc_arguments = args, tc_result = None,
                           tc_status = ToolRunning\<rparr>])"

definition updateToolCallInParts ::
  "part list \<Rightarrow> string \<Rightarrow> tool_status \<Rightarrow> string option \<Rightarrow> part list" where
  "updateToolCallInParts ps i status result =
     map_where (is_tool i)
       (on_tool (\<lambda>c. (case result of None \<Rightarrow> c\<lparr>tc_status := status\<rparr>
                      | Some r \<Rightarrow> c\<lparr>tc_status := status, tc_result := Some r\<rparr>))) ps"

definition upsertPlanInParts :: "int \<Rightarrow> part list \<Rightarrow> plan_data \<Rightarrow> part list" where
  "upsertPlanInParts now ps plan =
     (if \<exists>p\<in>set ps. is_plan (plan_id plan) p
      then upd_first (is_plan (plan_id plan)) (\<lambda>_. PlanPart (plan\<lparr>plan_updatedAt := now\<rparr>)) ps
      else ps @ [PlanPart plan])"

definition upsertUserQuestionInParts :: "int \<Rightarrow> part list \<Rightarrow> question_form \<Rightarrow> part list" where
  "upsertUserQuestionInParts now ps form =
     upsert_where (is_question (qf_formId form)) (QuestionPart (form\<lparr>qf_updatedAt := now\<rparr>)) ps"

text \<open>\<open>Partial<PlanStep>\<close> and \<open>Partial<SubConversationChildState>\<close>.\<close>

datatype step_set =
    StepId string
  | StepTitle string
  | StepStatus plan_step_status
  | StepToolCallId "string option"
  | StepToolName "string option"
  | StepSummary "string option"
  | StepError "string option"

fun set_step :: "step_set \<Rightarrow> plan_step \<Rightarrow> plan_step" where
  "set_step (StepId x) s = s\<lparr>ps_id := x\<rparr>"
| "set_step (StepTitle x) s = s\<lparr>ps_title := x\<rparr>"
| "set_step (StepStatus x) s = s\<lparr>ps_status := x\<rparr>"
| "set_step (StepToolCallId x) s = s\<lparr>ps_toolCallId := x\<rparr>"
| "set_step (StepToolName x) s = s\<lparr>ps_toolName := x\<rparr>"
| "set_step (StepSummary x) s = s\<lparr>ps_summary := x\<rparr>"
| "set_step (StepError x) s = s\<lparr>ps_error := x\<rparr>"

datatype child_set =
    ChConversationId string
  | ChIndex nat
  | ChTitle string
  | ChStatus run_status
  | ChSummary "string option"
  | ChError "string option"
  | ChResourceId "string option"
  | ChSpawnSpec spawn_spec
  | ChStartedAt "int option"
  | ChFinishedAt "int option"

fun set_child :: "child_set \<Rightarrow> child_state \<Rightarrow> child_state" where
  "set_child (ChConversationId x) c = c\<lparr>ch_conversationId := x\<rparr>"
| "set_child (ChIndex x) c = c\<lparr>ch_index := x\<rparr>"
| "set_child (ChTitle x) c = c\<lparr>ch_title := x\<rparr>"
| "set_child (ChStatus x) c = c\<lparr>ch_status := x\<rparr>"
| "set_child (ChSummary x) c = c\<lparr>ch_summary := x\<rparr>"
| "set_child (ChError x) c = c\<lparr>ch_error := x\<rparr>"
| "set_child (ChResourceId x) c = c\<lparr>ch_resourceId := x\<rparr>"
| "set_child (ChSpawnSpec x) c = c\<lparr>ch_spawnSpec := x\<rparr>"
| "set_child (ChStartedAt x) c = c\<lparr>ch_startedAt := x\<rparr>"
| "set_child (ChFinishedAt x) c = c\<lparr>ch_finishedAt := x\<rparr>"

definition updatePlanStepInParts ::
  "int \<Rightarrow> part list \<Rightarrow> string \<Rightarrow> string \<Rightarrow> step_set list \<Rightarrow> part list" where
  "updatePlanStepInParts now ps planId stepId patch =
     map_where (is_plan planId)
       (on_plan (\<lambda>p. p\<lparr>plan_updatedAt := now,
          plan_steps := map_where (\<lambda>s. ps_id s = stepId) (fold set_step patch) (plan_steps p)\<rparr>)) ps"

definition addPlanStepInParts ::
  "int \<Rightarrow> part list \<Rightarrow> string \<Rightarrow> plan_step \<Rightarrow> string option \<Rightarrow> part list" where
  "addPlanStepInParts now ps planId st afterStepId =
     map_where (is_plan planId)
       (on_plan (\<lambda>p. p\<lparr>plan_steps :=
            (case afterStepId of
               Some a \<Rightarrow> if a \<noteq> '''' then insert_after (\<lambda>s. ps_id s = a) st (plan_steps p)
                        else plan_steps p @ [st]
             | None \<Rightarrow> plan_steps p @ [st]),
          plan_updatedAt := now\<rparr>)) ps"

definition upsertClusterInParts :: "part list \<Rightarrow> cluster_part \<Rightarrow> part list" where
  "upsertClusterInParts ps d = upsert_where (is_cluster (cp_clusterId d)) (ClusterPart d) ps"

definition updateClusterChildInParts ::
  "part list \<Rightarrow> string \<Rightarrow> string \<Rightarrow> child_set list \<Rightarrow> part list" where
  "updateClusterChildInParts ps clusterId conversationId patch =
     map_where (is_cluster clusterId)
       (on_cluster (\<lambda>c. c\<lparr>cp_children :=
          map_where (\<lambda>ch. ch_conversationId ch = conversationId) (fold set_child patch) (cp_children c)\<rparr>)) ps"

definition finish_time :: "run_status \<Rightarrow> int \<Rightarrow> int option" where
  "finish_time status now = (if status = Running \<or> status = Pending then None else Some now)"

definition updateClusterStatusInParts ::
  "int \<Rightarrow> part list \<Rightarrow> string \<Rightarrow> run_status \<Rightarrow> string option \<Rightarrow> part list" where
  "updateClusterStatusInParts now ps clusterId status aggregatedResult =
     map_where (is_cluster clusterId)
       (on_cluster (\<lambda>c.
          (case aggregatedResult of None \<Rightarrow> c\<lparr>cp_status := status\<rparr>
           | Some r \<Rightarrow> c\<lparr>cp_status := status, cp_aggregatedResult := Some r\<rparr>)
          \<lparr>cp_finishedAt := finish_time status now\<rparr>)) ps"

section \<open>Lemmas: flat fields and streaming\<close>

lemma content_of_append [simp]: "content_of (ps @ qs) = content_of ps @ content_of qs"
  by (induction ps rule: content_of.induct) auto

lemma reasoning_of_append [simp]: "reasoning_of (ps @ qs) = reasoning_of ps @ reasoning_of qs"
  by (induction ps rule: reasoning_of.induct) auto

lemma tools_of_append [simp]: "tools_of (ps @ qs) = tools_of ps @ tools_of qs"
  by (induction ps rule: tools_of.induct) auto

lemma tool_parts_only [simp]:
  "content_of (map ToolPart cs) = ''''" "reasoning_of (map ToolPart cs) = ''''"
  "tools_of (map ToolPart cs) = cs"
  by (induction cs) auto

lemma text_kind_of_Some [simp]: "text_kind_of p = Some k \<longleftrightarrow> p = text_part k (text_of_part p)"
  by (cases p; cases k) auto

lemma text_part_fields [simp]:
  "content_of [text_part k t] = (if k = KText then t else '''')"
  "reasoning_of [text_part k t] = (if k = KReasoning then t else '''')"
  "tools_of [text_part k t] = []"
  by (cases k; simp)+

lemma text_of_text_part [simp]: "text_of_part (text_part k t) = t"
  by (cases k) auto

lemma append_text_cases [case_names Empty Merge Push]:
  assumes "chunk = '''' \<Longrightarrow> appendTextLikePart ps k chunk = ps \<Longrightarrow> P"
    and "\<And>qs t. chunk \<noteq> '''' \<Longrightarrow> ps = qs @ [text_part k t]
      \<Longrightarrow> appendTextLikePart ps k chunk = qs @ [text_part k (t @ chunk)] \<Longrightarrow> P"
    and "chunk \<noteq> '''' \<Longrightarrow> ps = [] \<or> text_kind_of (last ps) \<noteq> Some k
      \<Longrightarrow> appendTextLikePart ps k chunk = ps @ [text_part k chunk] \<Longrightarrow> P"
  shows P
proof (cases "chunk = ''''")
  case True
  then show P by (intro assms(1)) (simp_all add: appendTextLikePart_def)
next
  case nonempty: False
  show P
  proof (cases "ps \<noteq> [] \<and> text_kind_of (last ps) = Some k")
    case True
    then obtain qs t where "ps = qs @ [text_part k t]"
      by (metis append_butlast_last_id text_kind_of_Some)
    with nonempty show P by (intro assms(2)) (simp_all add: appendTextLikePart_def)
  next
    case False
    with nonempty show P by (intro assms(3)) (auto simp: appendTextLikePart_def)
  qed
qed

lemma content_of_appendTextLikePart:
  "content_of (appendTextLikePart ps k chunk) = content_of ps @ (if k = KText then chunk else '''')"
  by (rule append_text_cases [of chunk ps k]) auto

lemma reasoning_of_appendTextLikePart:
  "reasoning_of (appendTextLikePart ps k chunk) = reasoning_of ps @ (if k = KReasoning then chunk else '''')"
  by (rule append_text_cases [of chunk ps k]) auto

lemma tools_of_appendTextLikePart: "tools_of (appendTextLikePart ps k chunk) = tools_of ps"
  by (rule append_text_cases [of chunk ps k]) auto

lemmas append_text_like_simps =
  content_of_appendTextLikePart reasoning_of_appendTextLikePart tools_of_appendTextLikePart

text \<open>A part list with no empty text fragment and no two neighbours of the same text kind.\<close>

definition nonempty_part :: "part \<Rightarrow> bool" where
  "nonempty_part p \<longleftrightarrow> p \<noteq> TextPart '''' \<and> p \<noteq> ReasoningPart ''''"

definition apart :: "part \<Rightarrow> part \<Rightarrow> bool" where
  "apart p q \<longleftrightarrow> text_kind_of p = None \<or> text_kind_of p \<noteq> text_kind_of q"

definition merged :: "part list \<Rightarrow> bool" where
  "merged ps \<longleftrightarrow> list_all nonempty_part ps \<and> successively apart ps"

lemma nonempty_text_part [simp]: "nonempty_part (text_part k t) \<longleftrightarrow> t \<noteq> ''''"
  by (cases k) (auto simp: nonempty_part_def)

lemma text_kind_of_text_part [simp]: "text_kind_of (text_part k t) = Some k"
  by (cases k) auto

lemma apart_text_part:
  "apart p (text_part k t) \<longleftrightarrow> text_kind_of p \<noteq> Some k"
  by (cases p; cases k) (auto simp: apart_def)

lemma merged_appendTextLikePart: "merged ps \<Longrightarrow> merged (appendTextLikePart ps k chunk)"
  by (rule append_text_cases [of chunk ps k])
     (auto simp: merged_def successively_append_iff apart_text_part simp del: text_kind_of_Some)

text \<open>A stream of deltas, as \<open>appendStreamContent\<close> and \<open>appendStreamReasoning\<close> receive them.\<close>

definition stream_parts :: "(text_kind \<times> string) list \<Rightarrow> part list \<Rightarrow> part list" where
  "stream_parts ds ps = fold (\<lambda>(k, chunk) qs. appendTextLikePart qs k chunk) ds ps"

definition stream_text :: "text_kind \<Rightarrow> (text_kind \<times> string) list \<Rightarrow> string" where
  "stream_text k ds = concat (map snd (filter (\<lambda>d. fst d = k) ds))"

lemma stream_parts_Nil [simp]: "stream_parts [] ps = ps"
  and stream_parts_Cons [simp]:
    "stream_parts ((k, chunk) # ds) ps = stream_parts ds (appendTextLikePart ps k chunk)"
  by (simp_all add: stream_parts_def)

lemma stream_text_simps [simp]:
  "stream_text k [] = ''''"
  "stream_text k ((k', chunk) # ds) = (if k' = k then chunk else '''') @ stream_text k ds"
  by (simp_all add: stream_text_def)

lemma stream_parts_fields:
  "content_of (stream_parts ds ps) = content_of ps @ stream_text KText ds"
  "reasoning_of (stream_parts ds ps) = reasoning_of ps @ stream_text KReasoning ds"
  "tools_of (stream_parts ds ps) = tools_of ps"
  by (induction ds arbitrary: ps) (auto simp: append_text_like_simps)

lemma stream_parts_merged: "merged ps \<Longrightarrow> merged (stream_parts ds ps)"
  by (induction ds arbitrary: ps) (auto simp: merged_appendTextLikePart)

section \<open>Lemmas: leaked JSON\<close>

lemma starts_with_take: "starts_with (take n s) p \<Longrightarrow> starts_with s p"
  by (metis append.assoc append_take_drop_id starts_with_iff)

lemma index_of_occurs: "starts_with (drop i s) p \<Longrightarrow> i \<le> length s \<Longrightarrow> \<exists>k\<le>i. index_of s p = Some k"
proof (induction s arbitrary: i)
  case (Cons c s)
  show ?case
  proof (cases i)
    case (Suc j)
    with Cons.IH [of j] Cons.prems show ?thesis by auto
  qed (use Cons.prems in auto)
qed (auto simp: starts_with_def)

lemma index_of_found: "index_of s p = Some k \<Longrightarrow> k \<le> length s \<and> starts_with (drop k s) p"
  by (induction s arbitrary: k) (auto simp: starts_with_def split: if_splits)

lemma index_of_take:
  assumes "index_of s p = Some k" "b \<le> k"  "p \<noteq> []"
  shows "index_of (take b s) p = None"
proof (rule ccontr)
  assume "index_of (take b s) p \<noteq> None"
  then obtain i where i: "index_of (take b s) p = Some i" by auto
  from index_of_found [OF this] have st: "starts_with (drop i (take b s)) p" by auto
  then have "drop i (take b s) \<noteq> []" using \<open>p \<noteq> []\<close> by (auto simp: starts_with_def)
  then have "i < b" "i \<le> length s" by auto
  moreover from st have "starts_with (drop i s) p" by (metis drop_take starts_with_take)
  ultimately obtain k' where "k' \<le> i" "index_of s p = Some k'"
    using index_of_occurs [of i s p] by auto
  with assms \<open>i < b\<close> show False by simp
qed

lemma last_index_upto_le: "last_index_upto c s k = Some b \<Longrightarrow> b \<le> k"
  by (induction k) (auto split: if_splits)

lemma index_of_None_iff: "p \<noteq> [] \<Longrightarrow> index_of s p = None \<longleftrightarrow> \<not> sublist p s"
proof
  assume none: "index_of s p = None"
  show "\<not> sublist p s"
  proof
    assume "sublist p s"
    then obtain a b where "s = a @ p @ b" by (auto simp: sublist_def)
    then have "starts_with (drop (length a) s) p" "length a \<le> length s" by auto
    from index_of_occurs [OF this] none show False by auto
  qed
next
  assume "\<not> sublist p s"
  then show "index_of s p = None"
    by (metis append_take_drop_id index_of_found option.exhaust starts_with_iff sublist_def)
qed

lemma tool_calls_key_nonempty [simp]: "tool_calls_key \<noteq> []"
  by (simp add: tool_calls_key_def)

lemma has_key_colon_sublist: "has_key_colon s \<Longrightarrow> sublist tool_calls_key s"
  by (induction s) (auto simp: starts_with_iff sublist_Cons_right)

lemma sublist_trim_start: "sublist (trim_start s) s"
  by (simp add: trim_start_def)

lemma sublist_trim_end: "sublist (trim_end s) s"
  by (metis trim_end_def rev_rev_ident sublist_dropWhile sublist_rev)

lemma sublist_js_trim: "sublist (js_trim s) s"
  unfolding js_trim_def by (meson sublist_order.order.trans sublist_trim_end sublist_trim_start)

lemma sublist_drop_ws: "sublist (dropWhile js_ws s) s"
  using sublist_trim_start by (simp add: trim_start_def)

lemma leaked_sublist:
  "leaked_object s \<Longrightarrow> sublist tool_calls_key s"
  "leaked_fence s \<Longrightarrow> sublist tool_calls_key s"
proof -
  have obj: "sublist tool_calls_key u" if "leaked_object u" for u
  proof -
    have "sublist tool_calls_key (drop 1 (dropWhile js_ws u))"
      using that by (auto simp: leaked_object_def Let_def dest: has_key_colon_sublist)
    then show ?thesis by (metis sublist_drop sublist_dropWhile sublist_order.order.trans)
  qed
  then show "leaked_object s \<Longrightarrow> sublist tool_calls_key s" .
  assume "leaked_fence s"
  then obtain v where "leaked_object v" "sublist v (dropWhile js_ws s)"
    by (auto simp: leaked_fence_def Let_def split: if_splits)
  with obj [of v] sublist_drop_ws [of s] show "sublist tool_calls_key s"
    by (meson sublist_order.order.trans)
qed

lemma strip_key_free:
  assumes "\<not> sublist tool_calls_key s"
  shows "stripLeakedToolCallsJson s = (if js_trim s = '''' then '''' else s)"
proof -
  have "\<not> sublist tool_calls_key (js_trim s)"
    using assms sublist_js_trim sublist_order.order.trans by blast
  then have "\<not> leaked_object (js_trim s)" "\<not> leaked_fence (js_trim s)"
    by (auto dest: leaked_sublist)
  moreover have "index_of s tool_calls_key = None" using assms by (simp add: index_of_None_iff)
  ultimately show ?thesis by (simp add: stripLeakedToolCallsJson_def)
qed

lemma trim_end_Nil: "trim_end s = [] \<longleftrightarrow> list_all js_ws s"
  by (simp add: trim_end_def list_all_iff)

lemma js_trim_Nil: "js_trim s = [] \<longleftrightarrow> list_all js_ws s"
proof (induction s)
  case (Cons c s)
  then show ?case by (auto simp: js_trim_def trim_start_def trim_end_Nil)
qed (simp add: js_trim_def trim_start_def trim_end_def)

lemma trim_end_idem [simp]: "trim_end (trim_end s) = trim_end s"
  by (simp add: trim_end_def dropWhile_idem)

lemma strip_idem [simp]:
  "stripLeakedToolCallsJson (stripLeakedToolCallsJson s) = stripLeakedToolCallsJson s"
proof -
  have nil: "stripLeakedToolCallsJson '''' = ''''" by (simp add: stripLeakedToolCallsJson_def js_trim_Nil)
  have cut: "stripLeakedToolCallsJson (trim_end (take b s)) = trim_end (take b s)"
    if "index_of s tool_calls_key = Some k" "last_index_upto (CHR ''{'') s k = Some b" for k b
  proof -
    let ?r = "trim_end (take b s)"
    have "index_of (take b s) tool_calls_key = None"
      using that last_index_upto_le index_of_take by simp
    then have "\<not> sublist tool_calls_key (take b s)" by (simp add: index_of_None_iff)
    then have "\<not> sublist tool_calls_key ?r" using sublist_trim_end sublist_order.order.trans by blast
    moreover have "?r = ''''" if "js_trim ?r = ''''"
      using that by (metis js_trim_Nil trim_end_Nil trim_end_idem)
    ultimately show ?thesis by (metis strip_key_free)
  qed
  show ?thesis
  proof (cases "js_trim s = '''' \<or> leaked_object (js_trim s) \<or> leaked_fence (js_trim s)")
    case True
    then have "stripLeakedToolCallsJson s = ''''" by (auto simp: stripLeakedToolCallsJson_def Let_def)
    then show ?thesis using nil by simp
  next
    case False
    then have e: "stripLeakedToolCallsJson s = (case index_of s tool_calls_key of
        None \<Rightarrow> s | Some k \<Rightarrow> (case last_index_upto (CHR ''{'') s k of None \<Rightarrow> s | Some b \<Rightarrow> trim_end (take b s)))"
      by (simp add: stripLeakedToolCallsJson_def Let_def)
    then have "stripLeakedToolCallsJson s = s
      \<or> (\<exists>k b. index_of s tool_calls_key = Some k \<and> last_index_upto (CHR ''{'') s k = Some b
                \<and> stripLeakedToolCallsJson s = trim_end (take b s))"
      by (auto split: option.splits)
    then show ?thesis using cut by auto
  qed
qed

section \<open>Lemmas: display layouts\<close>

lemma flush_segment_fields [simp]:
  "reasoning_of (flush_segment r t) = r"
  "tools_of (flush_segment r t) = []"
  "filter (\<lambda>p. text_kind_of p = None) (flush_segment r t) = []"
  by (simp_all add: flush_segment_def Let_def)

lemma coalesce_segments_fields:
  "reasoning_of (coalesce_segments r t ps) = r @ reasoning_of ps"
  "tools_of (coalesce_segments r t ps) = tools_of ps"
  "filter (\<lambda>p. text_kind_of p = None) (coalesce_segments r t ps) = filter (\<lambda>p. text_kind_of p = None) ps"
  by (induction r t ps rule: coalesce_segments.induct) auto

text \<open>Inside a segment: one reasoning part, then one text part, neither empty.\<close>

definition segment_order :: "part \<Rightarrow> part \<Rightarrow> bool" where
  "segment_order p q \<longleftrightarrow> text_kind_of p = None \<or> text_kind_of q = None
     \<or> (text_kind_of p = Some KReasoning \<and> text_kind_of q = Some KText)"

definition segmented :: "part list \<Rightarrow> bool" where
  "segmented ps \<longleftrightarrow> list_all nonempty_part ps \<and> successively segment_order ps"

lemma segmented_flush: "segmented (flush_segment r t)"
  by (auto simp: flush_segment_def segmented_def nonempty_part_def segment_order_def Let_def)

lemma segmented_boundary:
  "text_kind_of p = None \<Longrightarrow> segmented xs \<Longrightarrow> segmented ys \<Longrightarrow> segmented (xs @ p # ys)"
  by (cases p; cases ys) (auto simp: segmented_def successively_append_iff segment_order_def nonempty_part_def)

lemma segmented_coalesce: "segmented (coalesce_segments r t ps)"
  by (induction r t ps rule: coalesce_segments.induct)
     (auto simp: segmented_flush intro: segmented_boundary)

lemma coalesce_flush_boundary:
  "text_kind_of p = None \<Longrightarrow>
     coalesce_segments '''' '''' (flush_segment r t @ p # qs) = flush_segment r t @ p # coalesce_segments '''' '''' qs"
  by (cases p) (auto simp: flush_segment_def Let_def)

lemma coalesce_flush_end: "coalesce_segments '''' '''' (flush_segment r t) = flush_segment r t"
  by (auto simp: flush_segment_def Let_def)

lemma coalesce_segments_idem:
  "coalesce_segments '''' '''' (coalesce_segments r t ps) = coalesce_segments r t ps"
  by (induction r t ps rule: coalesce_segments.induct)
     (simp_all add: coalesce_flush_boundary coalesce_flush_end)

lemma thinking_phases_mset: "mset (thinking_phases xs ys ps) = mset xs + mset ys + mset ps"
  by (induction xs ys ps rule: thinking_phases.induct) (auto simp: ac_simps)

lemma thinking_phases_fields:
  "tools_of xs = [] \<Longrightarrow> content_of ys = '''' \<Longrightarrow> reasoning_of ys = '''' \<Longrightarrow>
   tools_of (thinking_phases xs ys ps) = tools_of ys @ tools_of ps
   \<and> content_of (thinking_phases xs ys ps) = content_of xs @ content_of ps
   \<and> reasoning_of (thinking_phases xs ys ps) = reasoning_of xs @ reasoning_of ps"
  by (induction xs ys ps rule: thinking_phases.induct) auto

section \<open>The contract of the identifier-keyed updates\<close>

text \<open>
  \<open>hit d p\<close>: the part \<open>p\<close> carries the identifier of \<open>d\<close>. What the streaming handlers
  rely on: afterwards the identifier is present, a present identifier is not duplicated, and
  the parts with another identifier are untouched and in order.
\<close>

locale keyed_upsert =
  fixes ups :: "'d \<Rightarrow> part list \<Rightarrow> part list" and hit :: "'d \<Rightarrow> part \<Rightarrow> bool"
  assumes ups_count: "length (filter (hit d) (ups d ps)) = max 1 (length (filter (hit d) ps))"
    and ups_frame: "filter (\<lambda>p. \<not> hit d p) (ups d ps) = filter (\<lambda>p. \<not> hit d p) ps"
begin

lemma ups_present: "\<exists>p\<in>set (ups d ps). hit d p"
proof -
  have "filter (hit d) (ups d ps) \<noteq> []" using ups_count [of d ps] by auto
  then show ?thesis by (auto simp: filter_empty_conv)
qed

lemma length_ups: "length (ups d ps) = max 1 (length (filter (hit d) ps)) + length (filter (\<lambda>p. \<not> hit d p) ps)"
  by (metis ups_count ups_frame sum_length_filter_compl)

lemma ups_unique:
  assumes "length (filter (hit d) ps) \<le> 1"
  shows "length (filter (hit d) (ups d ps)) = 1"
  using assms by (simp add: ups_count)

lemma length_ups_again: "length (ups d (ups d ps)) = length (ups d ps)"
  by (simp add: length_ups ups_count ups_frame)

end

lemma filter_upd_first:
  assumes "\<And>x. p x \<Longrightarrow> p (f x)"
  shows "filter (\<lambda>x. \<not> p x) (upd_first p f xs) = filter (\<lambda>x. \<not> p x) xs"
    and "length (filter p (upd_first p f xs)) = length (filter p xs)"
  using assms by (induction xs) auto

lemma upsert_by_upd_first:
  assumes "\<And>x. p x \<Longrightarrow> p (f x)" "p new"
  shows "length (filter p (if \<exists>x\<in>set xs. p x then upd_first p f xs else xs @ [new])) = max 1 (length (filter p xs))"
    and "filter (\<lambda>x. \<not> p x) (if \<exists>x\<in>set xs. p x then upd_first p f xs else xs @ [new]) = filter (\<lambda>x. \<not> p x) xs"
proof -
  have "filter p xs \<noteq> [] \<longleftrightarrow> (\<exists>x\<in>set xs. p x)" by (auto simp: filter_empty_conv)
  then have "(\<exists>x\<in>set xs. p x) \<Longrightarrow> 1 \<le> length (filter p xs)" by (simp add: Suc_le_eq)
  moreover have "\<not> (\<exists>x\<in>set xs. p x) \<Longrightarrow> filter p xs = []" by (auto simp: filter_empty_conv)
  ultimately show "length (filter p (if \<exists>x\<in>set xs. p x then upd_first p f xs else xs @ [new])) = max 1 (length (filter p xs))"
    using assms by (auto simp: filter_upd_first)
  show "filter (\<lambda>x. \<not> p x) (if \<exists>x\<in>set xs. p x then upd_first p f xs else xs @ [new]) = filter (\<lambda>x. \<not> p x) xs"
    using assms by (simp add: filter_upd_first)
qed

interpretation plan_ups: keyed_upsert
  "\<lambda>(now, d) ps. upsertPlanInParts now ps d" "\<lambda>(now, d). is_plan (plan_id d)"
  by unfold_locales (auto simp: upsertPlanInParts_def upsert_by_upd_first)

interpretation question_ups: keyed_upsert
  "\<lambda>(now, d) ps. upsertUserQuestionInParts now ps d" "\<lambda>(now, d). is_question (qf_formId d)"
  by unfold_locales (auto simp: upsertUserQuestionInParts_def upsert_where_def upsert_by_upd_first)

interpretation cluster_ups: keyed_upsert
  "\<lambda>d ps. upsertClusterInParts ps d" "\<lambda>d. is_cluster (cp_clusterId d)"
  by unfold_locales (auto simp: upsertClusterInParts_def upsert_where_def upsert_by_upd_first)

lemma is_tool_on_tool: "(\<And>c. tc_id (f c) = tc_id c) \<Longrightarrow> is_tool i (on_tool f p) = is_tool i p"
  by (cases p) auto

interpretation tool_ups: keyed_upsert
  "\<lambda>(i, n, a) ps. upsertToolCallInParts ps i n a" "\<lambda>(i, n, a). is_tool i"
  by unfold_locales (auto simp: upsertToolCallInParts_def upsert_by_upd_first is_tool_on_tool)

section \<open>Runs of the streaming operations\<close>

text \<open>The updates that the stream handlers of one assistant message apply to its parts.\<close>

datatype part_op =
    AppendText text_kind string
  | UpsertTool string string string
  | UpdateTool string tool_status "string option"
  | UpsertPlan int plan_data
  | UpsertQuestion int question_form
  | UpsertCluster cluster_part
  | UpdateClusterChild string string "child_set list"
  | UpdateClusterStatus int string run_status "string option"

fun apply_part_op :: "part_op \<Rightarrow> part list \<Rightarrow> part list" where
  "apply_part_op (AppendText k chunk) ps = appendTextLikePart ps k chunk"
| "apply_part_op (UpsertTool i n a) ps = upsertToolCallInParts ps i n a"
| "apply_part_op (UpdateTool i st r) ps = updateToolCallInParts ps i st r"
| "apply_part_op (UpsertPlan now d) ps = upsertPlanInParts now ps d"
| "apply_part_op (UpsertQuestion now f) ps = upsertUserQuestionInParts now ps f"
| "apply_part_op (UpsertCluster d) ps = upsertClusterInParts ps d"
| "apply_part_op (UpdateClusterChild c i patch) ps = updateClusterChildInParts ps c i patch"
| "apply_part_op (UpdateClusterStatus now c st r) ps = updateClusterStatusInParts now ps c st r"

definition tool_ids_distinct :: "part list \<Rightarrow> bool" where
  "tool_ids_distinct ps \<longleftrightarrow> distinct (map tc_id (tools_of ps))"

lemma tools_of_filter: "tools_of ps = tools_of (filter (\<lambda>p. \<exists>c. p = ToolPart c) ps)"
  by (induction ps rule: tools_of.induct) auto

lemma tools_of_upd_first_tool:
  "tools_of (upd_first (is_tool i) (on_tool f) ps) = upd_first (\<lambda>c. tc_id c = i) f (tools_of ps)"
  by (induction ps rule: tools_of.induct) auto

lemma tools_of_map_where_tool:
  "tools_of (map_where (is_tool i) (on_tool f) ps) = map_where (\<lambda>c. tc_id c = i) f (tools_of ps)"
  by (induction ps rule: tools_of.induct) auto

lemma tools_of_upd_first_other:
  assumes "\<And>p. h p \<Longrightarrow> tools_of [p] = []" "\<And>p. h p \<Longrightarrow> tools_of [f p] = []"
  shows "tools_of (upd_first h f ps) = tools_of ps"
proof (induction ps)
  case (Cons p ps)
  then show ?case
    using assms tools_of_append [of "[p]" ps] tools_of_append [of "[f p]" ps]
      tools_of_append [of "[p]" "upd_first h f ps"] tools_of_append [of "[f p]" "upd_first h f ps"] by auto
qed simp

lemma tools_of_map_where_other:
  assumes "\<And>p. h p \<Longrightarrow> tools_of [p] = []" "\<And>p. h p \<Longrightarrow> tools_of [f p] = []"
  shows "tools_of (map_where h f ps) = tools_of ps"
proof (induction ps)
  case (Cons p ps)
  then show ?case
    using assms tools_of_append [of "[p]" ps] tools_of_append [of "[f p]" ps]
      tools_of_append [of "[p]" "map_where h f ps"] tools_of_append [of "[f p]" "map_where h f ps"] by auto
qed simp

lemma no_tools_in:
  "is_plan i p \<Longrightarrow> tools_of [p] = []" "is_question i p \<Longrightarrow> tools_of [p] = []"
  "is_cluster i p \<Longrightarrow> tools_of [p] = []" "is_cluster i p \<Longrightarrow> tools_of [on_cluster g p] = []"
  by (cases p; simp)+

lemma tool_ids_of_upsert:
  "map tc_id (tools_of (upsertToolCallInParts ps i n a)) =
     (if i \<in> set (map tc_id (tools_of ps)) then map tc_id (tools_of ps) else map tc_id (tools_of ps) @ [i])"
proof -
  have "(\<exists>p\<in>set ps. is_tool i p) \<longleftrightarrow> i \<in> set (map tc_id (tools_of ps))"
    by (induction ps rule: tools_of.induct) auto
  then show ?thesis
    by (auto simp: upsertToolCallInParts_def tools_of_upd_first_tool map_upd_first_id)
qed

lemma tools_of_upsertPlan: "tools_of (upsertPlanInParts now ps d) = tools_of ps"
proof -
  have "tools_of (upd_first (is_plan (plan_id d)) (\<lambda>_. PlanPart (d\<lparr>plan_updatedAt := now\<rparr>)) ps) = tools_of ps"
    by (rule tools_of_upd_first_other) (simp_all add: no_tools_in)
  then show ?thesis by (simp add: upsertPlanInParts_def)
qed

lemma tools_of_upsertQuestion: "tools_of (upsertUserQuestionInParts now ps f) = tools_of ps"
proof -
  have "tools_of (upd_first (is_question (qf_formId f)) (\<lambda>_. QuestionPart (f\<lparr>qf_updatedAt := now\<rparr>)) ps) = tools_of ps"
    by (rule tools_of_upd_first_other) (simp_all add: no_tools_in)
  then show ?thesis by (simp add: upsertUserQuestionInParts_def upsert_where_def)
qed

lemma tools_of_upsertCluster: "tools_of (upsertClusterInParts ps d) = tools_of ps"
proof -
  have "tools_of (upd_first (is_cluster (cp_clusterId d)) (\<lambda>_. ClusterPart d) ps) = tools_of ps"
    by (rule tools_of_upd_first_other) (simp_all add: no_tools_in)
  then show ?thesis by (simp add: upsertClusterInParts_def upsert_where_def)
qed

lemma tools_of_updateClusterChild: "tools_of (updateClusterChildInParts ps c i patch) = tools_of ps"
  unfolding updateClusterChildInParts_def by (rule tools_of_map_where_other) (simp_all only: no_tools_in)

lemma tools_of_updateClusterStatus: "tools_of (updateClusterStatusInParts now ps c st r) = tools_of ps"
  unfolding updateClusterStatusInParts_def by (rule tools_of_map_where_other) (simp_all only: no_tools_in)

lemma tool_ids_of_update: "map tc_id (tools_of (updateToolCallInParts ps i st r)) = map tc_id (tools_of ps)"
  unfolding updateToolCallInParts_def tools_of_map_where_tool
  by (rule map_map_where_id) (simp split: option.split)

lemma tool_ids_distinct_op: "tool_ids_distinct ps \<Longrightarrow> tool_ids_distinct (apply_part_op a ps)"
  by (cases a)
     (simp_all add: tool_ids_distinct_def tool_ids_of_upsert tool_ids_of_update append_text_like_simps
        tools_of_upsertPlan tools_of_upsertQuestion tools_of_upsertCluster
        tools_of_updateClusterChild tools_of_updateClusterStatus del: set_map)

interpretation part_run: store_machine "[]" apply_part_op tool_ids_distinct
  by unfold_locales (simp_all add: tool_ids_distinct_op, simp add: tool_ids_distinct_def)

section \<open>Properties\<close>

text \<open>
  Streaming is lossless: whatever the order in which text and reasoning deltas arrive,
  the flat fields derived from the parts are the concatenation of the text deltas and of the
  reasoning deltas, no tool call appears, and the parts hold no empty fragment and no two
  neighbours of the same kind.
\<close>

theorem stream_deltas_lossless:
  "co_content (deriveCompatFields (stream_parts ds [])) = stream_text KText ds
   \<and> co_reasoning (deriveCompatFields (stream_parts ds [])) =
       (if stream_text KReasoning ds = '''' then None else Some (stream_text KReasoning ds))
   \<and> co_toolCalls (deriveCompatFields (stream_parts ds [])) = None
   \<and> merged (stream_parts ds [])"
  using stream_parts_merged [of "[]" ds]
  by (simp add: deriveCompatFields_def stream_parts_fields merged_def)

text \<open>
  Migration round trip: for an old message without parts, deriving the flat fields from
  the parts built from its flat fields gives its content, reasoning and tool calls back (absent
  and empty are identified, as the code does).
\<close>

theorem flat_fields_roundtrip:
  assumes "fm_parts m = None \<or> fm_parts m = Some []"
  shows "deriveCompatFields (partsFromFlatFields m) =
    \<lparr> co_content = (case fm_content m of None \<Rightarrow> '''' | Some t \<Rightarrow> t),
      co_reasoning = (case fm_reasoning m of None \<Rightarrow> None | Some r \<Rightarrow> if r = '''' then None else Some r),
      co_toolCalls = (case fm_toolCalls m of None \<Rightarrow> None | Some cs \<Rightarrow> if cs = [] then None else Some cs) \<rparr>"
  using assms by (auto simp: partsFromFlatFields_def deriveCompatFields_def split: option.splits)

theorem flat_fields_roundtrip_witness:
  "deriveCompatFields (partsFromFlatFields
      \<lparr> fm_content = Some ''hi'', fm_reasoning = Some '''', fm_toolCalls = Some [], fm_parts = None \<rparr>)
   = \<lparr> co_content = ''hi'', co_reasoning = None, co_toolCalls = None \<rparr>"
  by (subst flat_fields_roundtrip) simp_all

text \<open>
  The display layout (merging the double text/reasoning channel between tool calls) is
  idempotent, keeps the reasoning text, the tool calls and every other boundary part in order,
  and on a message of two or more parts leaves between two boundaries at most one reasoning part
  followed by at most one text part, neither empty.
\<close>

theorem display_layout_normal_form:
  "layoutAiMessagePartsForDisplay (layoutAiMessagePartsForDisplay ps) = layoutAiMessagePartsForDisplay ps
   \<and> reasoning_of (layoutAiMessagePartsForDisplay ps) = reasoning_of ps
   \<and> filter (\<lambda>p. text_kind_of p = None) (layoutAiMessagePartsForDisplay ps)
       = filter (\<lambda>p. text_kind_of p = None) ps
   \<and> (length ps \<ge> 2 \<longrightarrow> segmented (layoutAiMessagePartsForDisplay ps))"
  by (simp add: layoutAiMessagePartsForDisplay_def coalescePartsByToolSegments_def
        coalesce_segments_idem coalesce_segments_fields segmented_coalesce)

theorem display_layout_normal_form_witness:
  "segmented (layoutAiMessagePartsForDisplay [TextPart ''a'', ReasoningPart ''b'', TextPart ''c''])"
  using display_layout_normal_form [of "[TextPart ''a'', ReasoningPart ''b'', TextPart ''c'']"] by simp

text \<open>
  Whatever sequence of stream events a message receives, its parts never hold two tool
  calls with the same identifier: a repeated tool-call event updates the card it belongs to.
\<close>

theorem tool_call_cards_unique: "tool_ids_distinct (fold apply_part_op ops [])"
  by (rule part_run.inv_run)

end
