(* ===== verification/Agents.thy ===== *)
theory Agents
  imports Prelude
begin

text \<open>
  \<^bold>\<open>frontend/src/lib/ai/agents/\<close> and \<^bold>\<open>lib/ai/orchestration/childContextIds.ts\<close>: which logical
  agent answers a request, and which context identifiers a sub-conversation inherits. Agent
  identifiers are strings, as in the persisted conversations, which may hold retired ones.
\<close>

section \<open>The registry\<close>

datatype tools_policy =
    PolicyNone
  | PolicyModule string
  | PolicyAllowlist "string list" "string option"

record agent_definition =
  ad_id :: string
  ad_tools :: tools_policy
  ad_allowSkills :: bool
  ad_allowRag :: bool

definition moduleAgent :: "string \<Rightarrow> agent_definition" where
  "moduleAgent i = \<lparr> ad_id = i, ad_tools = PolicyModule i, ad_allowSkills = True, ad_allowRag = True \<rparr>"

definition AGENT_REGISTRY :: "(string \<times> agent_definition) list" where
  "AGENT_REGISTRY =
     [(''plan'', \<lparr> ad_id = ''plan'', ad_tools = PolicyModule ''web'', ad_allowSkills = True, ad_allowRag = True \<rparr>),
      (''run'', \<lparr> ad_id = ''run'', ad_tools = PolicyModule ''master'', ad_allowSkills = True, ad_allowRag = True \<rparr>)]
     @ map (\<lambda>i. (i, moduleAgent i))
         [''terminal'', ''database'', ''docker'', ''server'', ''files'', ''knowledge'', ''protocol'',
          ''workflow'', ''tasks'']"

definition ALL_AGENT_IDS :: "string list" where
  "ALL_AGENT_IDS = rkeys AGENT_REGISTRY"

text \<open>The names that the \<open>in\<close> operator also finds, on \<open>Object.prototype\<close>.\<close>

definition object_prototype_names :: "string list" where
  "object_prototype_names =
     [''constructor'', ''__defineGetter__'', ''__defineSetter__'', ''hasOwnProperty'',
      ''__lookupGetter__'', ''__lookupSetter__'', ''isPrototypeOf'', ''propertyIsEnumerable'',
      ''toString'', ''valueOf'', ''__proto__'', ''toLocaleString'']"

definition isAgentId :: "string option \<Rightarrow> bool" where
  "isAgentId v = (truthy v \<and> (the v \<in> set ALL_AGENT_IDS \<or> the v \<in> set object_prototype_names))"

definition agentIdForModule :: "string option \<Rightarrow> string" where
  "agentIdForModule moduleKey =
     (if \<not> truthy moduleKey then ''plan''
      else if moduleKey = Some ''ssh'' then ''terminal''
      else if isAgentId moduleKey then the moduleKey
      else ''plan'')"

section \<open>Resolution\<close>

definition ASSISTANT_PAGE_AGENT_ID :: string where
  "ASSISTANT_PAGE_AGENT_ID = ''run''"

definition isAssistantPageAgentId :: "string option \<Rightarrow> bool" where
  "isAssistantPageAgentId v = (v = Some ''plan'' \<or> v = Some ''run'')"

definition resolveAgentId :: "bool \<Rightarrow> string option \<Rightarrow> string option \<Rightarrow> string" where
  "resolveAgentId assistantPage conversationAgentId moduleKey =
     (if assistantPage
      then (if isAssistantPageAgentId conversationAgentId then the conversationAgentId
            else ASSISTANT_PAGE_AGENT_ID)
      else if conversationAgentId = Some ''chat'' then ''plan''
      else if isAgentId conversationAgentId then the conversationAgentId
      else agentIdForModule moduleKey)"

datatype tools_mode = ToolsNone | DirectInject "string option" "string list option"

fun toolsModeFromPolicy :: "tools_policy \<Rightarrow> tools_mode" where
  "toolsModeFromPolicy PolicyNone = ToolsNone"
| "toolsModeFromPolicy (PolicyAllowlist names flt) = DirectInject flt (Some names)"
| "toolsModeFromPolicy (PolicyModule flt) = DirectInject (Some flt) None"

record agent_runtime_config =
  rc_agentId :: string
  rc_toolsMode :: tools_mode
  rc_allowSkills :: bool
  rc_allowRag :: bool

text \<open>A name that is not an own key of the registry yields no definition: \<open>None\<close>.\<close>

definition buildAgentRuntimeConfig :: "string \<Rightarrow> agent_runtime_config option" where
  "buildAgentRuntimeConfig agentId =
     (case rget AGENT_REGISTRY agentId of
        None \<Rightarrow> None
      | Some d \<Rightarrow> Some \<lparr> rc_agentId = agentId, rc_toolsMode = toolsModeFromPolicy (ad_tools d),
                         rc_allowSkills = ad_allowSkills d, rc_allowRag = ad_allowRag d \<rparr>)"

definition resolveAgentRuntime ::
  "bool \<Rightarrow> string option \<Rightarrow> string option \<Rightarrow> agent_runtime_config option" where
  "resolveAgentRuntime assistantPage conversationAgentId moduleKey =
     buildAgentRuntimeConfig (resolveAgentId assistantPage conversationAgentId moduleKey)"

section \<open>Context of a sub-conversation\<close>

definition MODULE_APPEND_AGENT_IDS :: "string list" where
  "MODULE_APPEND_AGENT_IDS =
     [''database'', ''docker'', ''files'', ''knowledge'', ''protocol'', ''workflow'', ''tasks'', ''server'']"

record child_context_input =
  parentWorkspaceId :: "string option"
  childWorkspaceId :: "string option"
  childTerminalSessionId :: "string option"
  childAgentId :: "string option"
  spawnResourceId :: "string option"
  parentResourceId :: "string option"
  parentEnvTag :: "string option"

record child_context =
  cc_workspaceId :: "string option"
  cc_terminalSessionId :: "string option"
  cc_resourceId :: "string option"
  cc_envTag :: "string option"
  cc_moduleKeyForAppend :: "string option"

definition nullish :: "'a option \<Rightarrow> 'a option \<Rightarrow> 'a option" where
  "nullish a b = (case a of None \<Rightarrow> b | Some _ \<Rightarrow> a)"

definition resolveChildContextIds :: "child_context_input \<Rightarrow> child_context" where
  "resolveChildContextIds i =
     \<lparr> cc_workspaceId = nullish (childWorkspaceId i) (parentWorkspaceId i),
       cc_terminalSessionId = childTerminalSessionId i,
       cc_resourceId = nullish (spawnResourceId i) (parentResourceId i),
       cc_envTag = parentEnvTag i,
       cc_moduleKeyForAppend =
         (if truthy (childAgentId i) \<and> the (childAgentId i) \<in> set MODULE_APPEND_AGENT_IDS
             \<and> isAgentId (childAgentId i)
          then childAgentId i else None) \<rparr>"

section \<open>Properties\<close>

lemma nullish_simps [simp]: "nullish None b = b" "nullish (Some a) b = Some a"
  by (simp_all add: nullish_def)

lemma isAgentId_None [simp]: "\<not> isAgentId None"
  by (simp add: isAgentId_def)

lemma isAgentId_known:
  "v \<notin> set object_prototype_names \<Longrightarrow> isAgentId (Some v) \<longleftrightarrow> v \<in> set ALL_AGENT_IDS"
  by (auto simp: isAgentId_def ALL_AGENT_IDS_def AGENT_REGISTRY_def)

lemma registry_get: "v \<in> set ALL_AGENT_IDS \<Longrightarrow> \<exists>d. rget AGENT_REGISTRY v = Some d"
  unfolding ALL_AGENT_IDS_def by (metis domD dom_map_of_conv_image_fst list.set_map)

lemma ids_registered:
  "''plan'' \<in> set ALL_AGENT_IDS" "''run'' \<in> set ALL_AGENT_IDS" "''terminal'' \<in> set ALL_AGENT_IDS"
  by (simp_all add: ALL_AGENT_IDS_def AGENT_REGISTRY_def)

lemma agentIdForModule_registered:
  assumes "case m of None \<Rightarrow> True | Some v \<Rightarrow> v \<notin> set object_prototype_names"
  shows "agentIdForModule m \<in> set ALL_AGENT_IDS"
  using assms by (cases m) (auto simp: agentIdForModule_def ids_registered isAgentId_known)

lemma resolveAgentId_registered:
  assumes "case c of None \<Rightarrow> True | Some v \<Rightarrow> v \<notin> set object_prototype_names"
    and "case m of None \<Rightarrow> True | Some v \<Rightarrow> v \<notin> set object_prototype_names"
  shows "resolveAgentId p c m \<in> set ALL_AGENT_IDS"
  using assms agentIdForModule_registered [OF assms(2)]
  by (cases c) (auto simp: resolveAgentId_def ids_registered isAgentId_known isAssistantPageAgentId_def
      ASSISTANT_PAGE_AGENT_ID_def)

text \<open>Every request resolves to a registered agent, so it always has a runtime
  configuration, whatever a persisted conversation or a route names (a retired agent, no agent,
  an unknown module); on the assistant page only the plan and the run agent are ever used, and
  elsewhere a bound registered agent wins over the module. The only inputs excluded are the
  names of \<open>Object.prototype\<close>, which the \<open>in\<close> test of \<open>isAgentId\<close> accepts.\<close>

theorem every_request_has_an_agent:
  assumes "case c of None \<Rightarrow> True | Some v \<Rightarrow> v \<notin> set object_prototype_names"
    and "case m of None \<Rightarrow> True | Some v \<Rightarrow> v \<notin> set object_prototype_names"
  shows "resolveAgentRuntime p c m \<noteq> None
    \<and> (p \<longrightarrow> resolveAgentId p c m \<in> {''plan'', ''run''})
    \<and> (\<not> p \<and> c \<noteq> None \<and> the c \<in> set ALL_AGENT_IDS \<longrightarrow> resolveAgentId p c m = the c)"
proof (intro conjI impI)
  show "resolveAgentRuntime p c m \<noteq> None"
    using registry_get [OF resolveAgentId_registered [OF assms, of p]]
    by (auto simp: resolveAgentRuntime_def buildAgentRuntimeConfig_def)
  show "resolveAgentId p c m \<in> {''plan'', ''run''}" if p
    using that by (auto simp: resolveAgentId_def isAssistantPageAgentId_def ASSISTANT_PAGE_AGENT_ID_def)
  show "resolveAgentId p c m = the c" if "\<not> p \<and> c \<noteq> None \<and> the c \<in> set ALL_AGENT_IDS"
  proof -
    from that obtain v where v: "c = Some v" "\<not> p" "v \<in> set ALL_AGENT_IDS" by auto
    then have "v \<noteq> ''chat''" by (auto simp: ALL_AGENT_IDS_def AGENT_REGISTRY_def)
    with v assms(1) show ?thesis by (simp add: resolveAgentId_def isAgentId_known)
  qed
qed

theorem every_request_has_an_agent_witness:
  "resolveAgentRuntime False (Some ''ssh'') (Some ''ssh'') \<noteq> None"
  using every_request_has_an_agent [of "Some ''ssh''" "Some ''ssh''" False]
  by (simp add: object_prototype_names_def)

text \<open>The \<open>in\<close> test of \<open>isAgentId\<close> looks through the prototype chain: a conversation bound to
  the name of an inherited property counts as bound to an agent, is not replaced by the agent
  of its module, and has no runtime configuration.\<close>

theorem inherited_name_passes_as_agent:
  "isAgentId (Some ''constructor'')
   \<and> resolveAgentId False (Some ''constructor'') (Some ''docker'') = ''constructor''
   \<and> resolveAgentRuntime False (Some ''constructor'') (Some ''docker'') = None"
  by (simp add: isAgentId_def object_prototype_names_def resolveAgentId_def resolveAgentRuntime_def
      buildAgentRuntimeConfig_def AGENT_REGISTRY_def)

end
