(* ===== verification/AiStore.thy ===== *)
theory AiStore
  imports Descend MessageParts Agents
begin

text \<open>
  \<^bold>\<open>frontend/src/stores/aiStore.ts\<close>: the AI conversations, their messages, the streaming
  handlers, sub-conversations and deletion. The state is a record, an action a function on it.
  Generated identifiers (\<open>genId\<close>) and the clock are arguments; what other stores and
  \<open>lib/\<close> contribute to a new conversation is the record \<open>ai_env\<close>; the calls of
  \<open>scheduleConversationListSnapshotSync\<close> are logged in \<open>synced\<close>.
\<close>

section \<open>Data\<close>

datatype role = RoleUser | RoleAssistant | RoleSystem | RoleTool

record token_usage =
  inputTokens :: int
  outputTokens :: int

record message_timing =
  streamStartTime :: int
  firstTokenTime :: "int option"
  totalStreamTime :: "int option"
  totalChunks :: "int option"

record ai_message =
  m_id :: string
  m_role :: role
  m_parts :: "part list option"
  m_content :: string
  m_reasoningContent :: "string option"
  m_timestamp :: int
  m_toolCalls :: "tool_call list option"
  m_isStreaming :: "bool option"
  m_isReasoningStreaming :: "bool option"
  m_usage :: "token_usage option"
  m_timing :: "message_timing option"

record chip =
  chip_type :: string
  chip_label :: string

text \<open>\<open>'snap\<close> is the type of \<open>WorkspaceContextSnapshot\<close>, which the store only copies.\<close>

record 'snap conversation =
  cv_id :: string
  cv_title :: string
  cv_messages :: "ai_message list"
  cv_provider :: string
  cv_model :: string
  cv_modelSelectionId :: "string option"
  cv_selectedSkillIds :: "string list option"
  cv_agentId :: "string option"
  cv_createdAt :: int
  cv_updatedAt :: int
  cv_context :: "chip list option"
  cv_contextSnapshot :: "'snap option"
  cv_pinnedWorkspaceId :: "string option"
  cv_linkedTerminalSessionId :: "string option"
  cv_sourceBlockId :: "string option"
  cv_parentConversationId :: "string option"
  cv_rootConversationId :: "string option"
  cv_spawnedFromMessageId :: "string option"
  cv_spawnedFromClusterId :: "string option"
  cv_indexInCluster :: "nat option"

record agent_mcp =
  mcp_serviceId :: string
  mcp_serviceName :: string
  mcp_builtin :: bool
  mcp_toolCount :: int

datatype effort = EffortDefault | EffortLow | EffortMedium | EffortHigh
datatype list_placement = PlaceDropdown | PlaceRight

text \<open>\<open>Sync immediate deletedIds\<close>: one call of \<open>scheduleConversationListSnapshotSync\<close>.\<close>

datatype sync_event = Sync bool "string list"

record 'snap ai_state =
  conversations :: "'snap conversation list"
  activeConversationId :: "string option"
  drawerOpen :: bool
  currentProvider :: string
  currentModel :: string
  currentModelSelectionId :: "string option"
  currentSkillIds :: "string list"
  isGenerating :: bool
  draftPrompt :: string
  reasoningEffort :: effort
  connectedMcpServices :: "agent_mcp list"
  conversationListOpen :: bool
  conversationListPlacement :: list_placement
  conversationListWidth :: int
  viewingChildConversationId :: "string option"
  synced :: "sync_event list"

definition ai_init :: "'snap ai_state" where
  "ai_init = \<lparr> conversations = [], activeConversationId = None, drawerOpen = False,
     currentProvider = ''openai'', currentModel = ''gpt-4o'', currentModelSelectionId = None,
     currentSkillIds = [], isGenerating = False, draftPrompt = '''', reasoningEffort = EffortDefault, connectedMcpServices = [],
     conversationListOpen = False, conversationListPlacement = PlaceDropdown,
     conversationListWidth = 240, viewingChildConversationId = None, synced = [] \<rparr>"

text \<open>
  What \<open>useWorkspaceStore\<close>, \<open>useAiModelsStore\<close>, \<open>useSettingsStore\<close> and the model-selection
  helpers return during one action.
\<close>

record 'snap ai_env =
  env_now :: int
  env_snapshot :: 'snap
  env_resourceName :: "string option"
  env_settingsSelection :: "string option"
  env_scenario :: "string option \<Rightarrow> string option"
  env_parse :: "string \<Rightarrow> (string \<times> string) option"
  env_resolve :: "string \<Rightarrow> string option"

text \<open>The default title of a new conversation, as its UTF-8 bytes; it is only compared.\<close>

definition default_title :: string where
  "default_title = map char_of [0xE6, 0x96, 0xB0, 0xE7, 0x9A, 0x84, 0xE5, 0xAF, 0xB9, 0xE8, 0xAF, 0x9D :: nat]"

text \<open>\<open>a || b\<close> on strings.\<close>

definition js_or :: "string option \<Rightarrow> string \<Rightarrow> string" where
  "js_or a b = (if truthy a then the a else b)"

section \<open>Messages\<close>

definition flat_of :: "ai_message \<Rightarrow> flat_msg" where
  "flat_of m = \<lparr> fm_content = Some (m_content m), fm_reasoning = m_reasoningContent m,
                 fm_toolCalls = m_toolCalls m, fm_parts = m_parts m \<rparr>"

definition with_compat :: "part list \<Rightarrow> ai_message \<Rightarrow> ai_message" where
  "with_compat ps m =
     (let co = deriveCompatFields ps in
      m\<lparr>m_parts := Some ps, m_content := co_content co, m_reasoningContent := co_reasoning co,
        m_toolCalls := co_toolCalls co\<rparr>)"

definition normalizeAiMessage :: "ai_message \<Rightarrow> ai_message" where
  "normalizeAiMessage m = with_compat (partsFromFlatFields (flat_of m)) m"

text \<open>\<open>Partial<AiMessage>\<close>.\<close>

datatype msg_set =
    MsgId string
  | MsgRole role
  | MsgParts "part list option"
  | MsgContent string
  | MsgReasoning "string option"
  | MsgTimestamp int
  | MsgToolCalls "tool_call list option"
  | MsgStreaming "bool option"
  | MsgReasoningStreaming "bool option"
  | MsgUsage "token_usage option"
  | MsgTiming "message_timing option"

fun set_msg :: "msg_set \<Rightarrow> ai_message \<Rightarrow> ai_message" where
  "set_msg (MsgId x) m = m\<lparr>m_id := x\<rparr>"
| "set_msg (MsgRole x) m = m\<lparr>m_role := x\<rparr>"
| "set_msg (MsgParts x) m = m\<lparr>m_parts := x\<rparr>"
| "set_msg (MsgContent x) m = m\<lparr>m_content := x\<rparr>"
| "set_msg (MsgReasoning x) m = m\<lparr>m_reasoningContent := x\<rparr>"
| "set_msg (MsgTimestamp x) m = m\<lparr>m_timestamp := x\<rparr>"
| "set_msg (MsgToolCalls x) m = m\<lparr>m_toolCalls := x\<rparr>"
| "set_msg (MsgStreaming x) m = m\<lparr>m_isStreaming := x\<rparr>"
| "set_msg (MsgReasoningStreaming x) m = m\<lparr>m_isReasoningStreaming := x\<rparr>"
| "set_msg (MsgUsage x) m = m\<lparr>m_usage := x\<rparr>"
| "set_msg (MsgTiming x) m = m\<lparr>m_timing := x\<rparr>"

definition withUpdatedParts :: "ai_message \<Rightarrow> part list \<Rightarrow> msg_set list \<Rightarrow> ai_message" where
  "withUpdatedParts m ps extra = fold set_msg extra (with_compat ps m)"

text \<open>\<open>update.parts\<close>: the value the patch gives to \<open>parts\<close>, if any.\<close>

definition patch_parts :: "msg_set list \<Rightarrow> part list option" where
  "patch_parts us = fold (\<lambda>u acc. case u of MsgParts x \<Rightarrow> x | _ \<Rightarrow> acc) us None"

text \<open>Map over one conversation, and over one message of it.\<close>

definition on_conv ::
  "string \<Rightarrow> ('snap conversation \<Rightarrow> 'snap conversation) \<Rightarrow> 'snap ai_state \<Rightarrow> 'snap ai_state" where
  "on_conv cid f s = s\<lparr>conversations := map_where (\<lambda>c. cv_id c = cid) f (conversations s)\<rparr>"

definition on_message ::
  "string \<Rightarrow> string \<Rightarrow> (ai_message \<Rightarrow> ai_message) \<Rightarrow> 'snap ai_state \<Rightarrow> 'snap ai_state" where
  "on_message cid mid f =
     on_conv cid (\<lambda>c. c\<lparr>cv_messages := map_where (\<lambda>m. m_id m = mid) f (cv_messages c)\<rparr>)"

definition touch :: "string \<Rightarrow> int \<Rightarrow> 'snap ai_state \<Rightarrow> 'snap ai_state" where
  "touch cid now = on_conv cid (\<lambda>c. c\<lparr>cv_updatedAt := now\<rparr>)"

definition schedule_sync :: "bool \<Rightarrow> string list \<Rightarrow> 'snap ai_state \<Rightarrow> 'snap ai_state" where
  "schedule_sync immediate deletedIds s = s\<lparr>synced := synced s @ [Sync immediate deletedIds]\<rparr>"

section \<open>Conversations\<close>

definition toggleDrawer :: "'snap ai_state \<Rightarrow> 'snap ai_state" where
  "toggleDrawer s = s\<lparr>drawerOpen := \<not> drawerOpen s\<rparr>"

definition openDrawer :: "'snap ai_state \<Rightarrow> 'snap ai_state" where
  "openDrawer s = s\<lparr>drawerOpen := True\<rparr>"

definition closeDrawer :: "'snap ai_state \<Rightarrow> 'snap ai_state" where
  "closeDrawer s = s\<lparr>drawerOpen := False\<rparr>"

definition find_conv :: "string \<Rightarrow> 'snap ai_state \<Rightarrow> 'snap conversation option" where
  "find_conv cid s = find (\<lambda>c. cv_id c = cid) (conversations s)"

definition new_conversation ::
  "'snap ai_env \<Rightarrow> string \<Rightarrow> string option \<Rightarrow> string option \<Rightarrow> string \<Rightarrow> 'snap ai_state \<Rightarrow> 'snap conversation" where
  "new_conversation env newId provider model agentId s =
     (let modelSelectionId = env_scenario env (nullish (currentModelSelectionId s) (env_settingsSelection env));
          parsed = (if truthy modelSelectionId then env_parse env (the modelSelectionId) else None);
          resolved = (if truthy modelSelectionId then env_resolve env (the modelSelectionId) else None)
      in \<lparr> cv_id = newId, cv_title = default_title, cv_messages = [],
           cv_provider = js_or provider (js_or (map_option fst parsed) (currentProvider s)),
           cv_model = js_or model (js_or (map_option snd parsed) (js_or resolved (currentModel s))),
           cv_modelSelectionId = modelSelectionId, cv_selectedSkillIds = Some (currentSkillIds s),
           cv_agentId = Some agentId, cv_createdAt = env_now env, cv_updatedAt = env_now env,
           cv_context = Some (case env_resourceName env of None \<Rightarrow> []
             | Some n \<Rightarrow> [\<lparr>chip_type = ''resource'', chip_label = n\<rparr>]),
           cv_contextSnapshot = Some (env_snapshot env), cv_pinnedWorkspaceId = None,
           cv_linkedTerminalSessionId = None, cv_sourceBlockId = None, cv_parentConversationId = None,
           cv_rootConversationId = None, cv_spawnedFromMessageId = None,
           cv_spawnedFromClusterId = None, cv_indexInCluster = None \<rparr>)"

definition createConversation ::
  "'snap ai_env \<Rightarrow> string \<Rightarrow> string option \<Rightarrow> string option \<Rightarrow> string option \<Rightarrow> 'snap ai_state
     \<Rightarrow> string \<times> 'snap ai_state" where
  "createConversation env newId provider model agentOpt s =
     (let agentId = (case agentOpt of None \<Rightarrow> ASSISTANT_PAGE_AGENT_ID | Some a \<Rightarrow> a);
          active = Option.bind (activeConversationId s) (\<lambda>a. find_conv a s);
          fresh = (newId, schedule_sync True []
            (s\<lparr>conversations := new_conversation env newId provider model agentId s # conversations s,
               activeConversationId := Some newId\<rparr>))
      in case active of
           None \<Rightarrow> fresh
         | Some c \<Rightarrow>
             if cv_messages c = [] \<and> the (nullish (cv_agentId c) (Some ASSISTANT_PAGE_AGENT_ID)) = agentId
             then (cv_id c, s) else fresh)"

definition setActiveConversation :: "string \<Rightarrow> 'snap ai_state \<Rightarrow> 'snap ai_state" where
  "setActiveConversation cid s =
     (let c = find_conv cid s; sel = Option.bind c cv_modelSelectionId in
      s\<lparr>activeConversationId := Some cid, viewingChildConversationId := None,
        currentModelSelectionId := (if truthy sel then sel else currentModelSelectionId s),
        currentSkillIds := (case Option.bind c cv_selectedSkillIds of None \<Rightarrow> [] | Some ks \<Rightarrow> ks)\<rparr>)"

definition ensureConversationId ::
  "'snap ai_env \<Rightarrow> string \<Rightarrow> string \<Rightarrow> string option \<Rightarrow> 'snap ai_state \<Rightarrow> string \<times> 'snap ai_state" where
  "ensureConversationId env newId cid agentOpt s =
     (let wanted = js_trim cid in
      if wanted = '''' then createConversation env newId None None agentOpt s
      else case find_conv wanted s of
        Some _ \<Rightarrow> (wanted, setActiveConversation wanted s)
      | None \<Rightarrow>
          (wanted, schedule_sync True []
             (s\<lparr>conversations := new_conversation env wanted None None
                   (case agentOpt of None \<Rightarrow> ASSISTANT_PAGE_AGENT_ID | Some a \<Rightarrow> a) s # conversations s,
                activeConversationId := Some wanted, viewingChildConversationId := None\<rparr>)))"

definition setConversationAgentId :: "int \<Rightarrow> string \<Rightarrow> string \<Rightarrow> 'snap ai_state \<Rightarrow> 'snap ai_state" where
  "setConversationAgentId now cid agentId =
     on_conv cid (\<lambda>c. c\<lparr>cv_agentId := Some agentId, cv_updatedAt := now\<rparr>)"

definition renameConversation :: "int \<Rightarrow> string \<Rightarrow> string \<Rightarrow> 'snap ai_state \<Rightarrow> 'snap ai_state" where
  "renameConversation now cid title s =
     schedule_sync True [] (on_conv cid (\<lambda>c. c\<lparr>cv_title := title, cv_updatedAt := now\<rparr>) s)"

definition deleteConversation :: "string \<Rightarrow> 'snap ai_state \<Rightarrow> 'snap ai_state" where
  "deleteConversation cid s =
     (let remaining = filter (\<lambda>c. cv_id c \<noteq> cid) (conversations s) in
      schedule_sync True [cid]
        (s\<lparr>conversations := remaining,
           activeConversationId :=
             (if activeConversationId s = Some cid
              then (case remaining of [] \<Rightarrow> None | c # _ \<Rightarrow> Some (cv_id c))
              else activeConversationId s)\<rparr>))"

section \<open>Messages of a conversation\<close>

text \<open>The argument \<open>msg\<close> has no identifier and no time stamp yet: those fields are overwritten.\<close>

definition addMessage :: "int \<Rightarrow> string \<Rightarrow> string \<Rightarrow> ai_message \<Rightarrow> 'snap ai_state \<Rightarrow> 'snap ai_state" where
  "addMessage now msgId cid msg =
     (let seedParts = (case m_parts msg of
            None \<Rightarrow> if m_content msg = '''' then [] else [TextPart (m_content msg)]
          | Some ps \<Rightarrow> ps);
          fullMsg = normalizeAiMessage (msg\<lparr>m_parts := Some seedParts, m_id := msgId, m_timestamp := now\<rparr>)
      in on_conv cid (\<lambda>c. c\<lparr>cv_messages := cv_messages c @ [fullMsg],
           cv_title := (if cv_title c = default_title \<and> m_role msg = RoleUser
             then take 50 (m_content msg) @ (if length (m_content msg) > 50 then ''...'' else '''')
             else cv_title c),
           cv_updatedAt := now\<rparr>))"

definition updateMessage ::
  "int \<Rightarrow> string \<Rightarrow> string \<Rightarrow> msg_set list \<Rightarrow> 'snap ai_state \<Rightarrow> 'snap ai_state" where
  "updateMessage now cid mid update =
     touch cid now \<circ>
     on_message cid mid (\<lambda>m. case patch_parts update of
       Some ps \<Rightarrow> withUpdatedParts m ps update
     | None \<Rightarrow> fold set_msg update m)"

definition appendStreamContent ::
  "string \<Rightarrow> string \<Rightarrow> string \<Rightarrow> 'snap ai_state \<Rightarrow> 'snap ai_state" where
  "appendStreamContent cid mid chunk =
     on_message cid mid (\<lambda>m.
       withUpdatedParts m (appendTextLikePart (partsFromFlatFields (flat_of m)) KText chunk)
         [MsgReasoningStreaming (if chunk \<noteq> '''' then Some False else m_isReasoningStreaming m)])"

definition appendStreamReasoning ::
  "string \<Rightarrow> string \<Rightarrow> string \<Rightarrow> 'snap ai_state \<Rightarrow> 'snap ai_state" where
  "appendStreamReasoning cid mid chunk =
     on_message cid mid (\<lambda>m.
       withUpdatedParts m (appendTextLikePart (partsFromFlatFields (flat_of m)) KReasoning chunk)
         [MsgReasoningStreaming (Some True)])"

text \<open>The handlers that rewrite the parts of one message and touch the conversation.\<close>

definition on_parts ::
  "int \<Rightarrow> string \<Rightarrow> string \<Rightarrow> (part list \<Rightarrow> part list) \<Rightarrow> 'snap ai_state \<Rightarrow> 'snap ai_state" where
  "on_parts now cid mid f =
     touch cid now \<circ> on_message cid mid (\<lambda>m. withUpdatedParts m (f (partsFromFlatFields (flat_of m))) [])"

definition upsertStreamToolCall ::
  "int \<Rightarrow> string \<Rightarrow> string \<Rightarrow> string \<Rightarrow> string \<Rightarrow> string \<Rightarrow> 'snap ai_state \<Rightarrow> 'snap ai_state" where
  "upsertStreamToolCall now cid mid i name args =
     on_parts now cid mid (\<lambda>ps. upsertToolCallInParts ps i name args)"

definition updateStreamToolCall ::
  "int \<Rightarrow> string \<Rightarrow> string \<Rightarrow> string \<Rightarrow> tool_status \<Rightarrow> string option \<Rightarrow> 'snap ai_state \<Rightarrow> 'snap ai_state" where
  "updateStreamToolCall now cid mid i status result =
     on_parts now cid mid (\<lambda>ps. updateToolCallInParts ps i status result)"

definition upsertStreamPlan ::
  "int \<Rightarrow> string \<Rightarrow> string \<Rightarrow> plan_data \<Rightarrow> 'snap ai_state \<Rightarrow> 'snap ai_state" where
  "upsertStreamPlan now cid mid plan = on_parts now cid mid (\<lambda>ps. upsertPlanInParts now ps plan)"

definition upsertStreamUserQuestion ::
  "int \<Rightarrow> string \<Rightarrow> string \<Rightarrow> question_form \<Rightarrow> 'snap ai_state \<Rightarrow> 'snap ai_state" where
  "upsertStreamUserQuestion now cid mid form =
     on_parts now cid mid (\<lambda>ps. upsertUserQuestionInParts now ps form)"

definition upsertStreamCluster ::
  "int \<Rightarrow> string \<Rightarrow> string \<Rightarrow> cluster_part \<Rightarrow> 'snap ai_state \<Rightarrow> 'snap ai_state" where
  "upsertStreamCluster now cid mid cluster = on_parts now cid mid (\<lambda>ps. upsertClusterInParts ps cluster)"

definition updateStreamClusterChild ::
  "int \<Rightarrow> string \<Rightarrow> string \<Rightarrow> string \<Rightarrow> string \<Rightarrow> child_set list \<Rightarrow> 'snap ai_state \<Rightarrow> 'snap ai_state" where
  "updateStreamClusterChild now cid mid clusterId child patch =
     on_parts now cid mid (\<lambda>ps. updateClusterChildInParts ps clusterId child patch)"

definition setStreamClusterStatus ::
  "int \<Rightarrow> string \<Rightarrow> string \<Rightarrow> string \<Rightarrow> run_status \<Rightarrow> string option \<Rightarrow> 'snap ai_state \<Rightarrow> 'snap ai_state" where
  "setStreamClusterStatus now cid mid clusterId status aggregatedResult =
     on_parts now cid mid (\<lambda>ps. updateClusterStatusInParts now ps clusterId status aggregatedResult)"

section \<open>Settings of the panel and of a conversation\<close>

definition setCurrentProvider :: "string \<Rightarrow> string \<Rightarrow> 'snap ai_state \<Rightarrow> 'snap ai_state" where
  "setCurrentProvider provider model s = s\<lparr>currentProvider := provider, currentModel := model\<rparr>"

definition setCurrentModelSelectionId :: "string option \<Rightarrow> 'snap ai_state \<Rightarrow> 'snap ai_state" where
  "setCurrentModelSelectionId sel s = s\<lparr>currentModelSelectionId := sel\<rparr>"

definition setCurrentSkillIds :: "string list \<Rightarrow> 'snap ai_state \<Rightarrow> 'snap ai_state" where
  "setCurrentSkillIds ids s = s\<lparr>currentSkillIds := ids\<rparr>"

definition setIsGenerating :: "bool \<Rightarrow> 'snap ai_state \<Rightarrow> 'snap ai_state" where
  "setIsGenerating v s =
     (let s' = s\<lparr>isGenerating := v\<rparr> in if \<not> v then schedule_sync False [] s' else s')"

definition setDraftPrompt :: "string \<Rightarrow> 'snap ai_state \<Rightarrow> 'snap ai_state" where
  "setDraftPrompt prompt s = s\<lparr>draftPrompt := prompt\<rparr>"

definition clearDraftPrompt :: "'snap ai_state \<Rightarrow> 'snap ai_state" where
  "clearDraftPrompt s = s\<lparr>draftPrompt := ''''\<rparr>"

definition ctx_of :: "'snap conversation \<Rightarrow> chip list" where
  "ctx_of c = (case cv_context c of None \<Rightarrow> [] | Some cs \<Rightarrow> cs)"

definition setContext :: "string \<Rightarrow> chip list \<Rightarrow> 'snap ai_state \<Rightarrow> 'snap ai_state" where
  "setContext cid ctx = on_conv cid (\<lambda>c. c\<lparr>cv_context := Some ctx\<rparr>)"

definition addContext :: "string \<Rightarrow> chip \<Rightarrow> 'snap ai_state \<Rightarrow> 'snap ai_state" where
  "addContext cid ch = on_conv cid (\<lambda>c.
     if \<exists>x\<in>set (ctx_of c). chip_type x = chip_type ch \<and> chip_label x = chip_label ch then c
     else c\<lparr>cv_context := Some (ctx_of c @ [ch])\<rparr>)"

definition removeContext :: "string \<Rightarrow> string \<Rightarrow> 'snap ai_state \<Rightarrow> 'snap ai_state" where
  "removeContext cid ty = on_conv cid (\<lambda>c.
     c\<lparr>cv_context := Some (filter (\<lambda>x. chip_type x \<noteq> ty) (ctx_of c))\<rparr>)"

definition setReasoningEffort :: "effort \<Rightarrow> 'snap ai_state \<Rightarrow> 'snap ai_state" where
  "setReasoningEffort level s = s\<lparr>reasoningEffort := level\<rparr>"

definition setConnectedMcpServices :: "agent_mcp list \<Rightarrow> 'snap ai_state \<Rightarrow> 'snap ai_state" where
  "setConnectedMcpServices cs s = s\<lparr>connectedMcpServices := cs\<rparr>"

definition toggleConversationList :: "'snap ai_state \<Rightarrow> 'snap ai_state" where
  "toggleConversationList s = s\<lparr>conversationListOpen := \<not> conversationListOpen s\<rparr>"

definition setConversationListOpen :: "bool \<Rightarrow> 'snap ai_state \<Rightarrow> 'snap ai_state" where
  "setConversationListOpen b s = s\<lparr>conversationListOpen := b\<rparr>"

definition setConversationListPlacement :: "list_placement \<Rightarrow> 'snap ai_state \<Rightarrow> 'snap ai_state" where
  "setConversationListPlacement p s =
     s\<lparr>conversationListPlacement := p, conversationListOpen := (p = PlaceRight)\<rparr>"

definition setConversationListWidth :: "int \<Rightarrow> 'snap ai_state \<Rightarrow> 'snap ai_state" where
  "setConversationListWidth w s = s\<lparr>conversationListWidth := max 180 (min 420 w)\<rparr>"

definition setConversationModelSelectionId ::
  "'snap ai_env \<Rightarrow> string \<Rightarrow> string \<Rightarrow> 'snap ai_state \<Rightarrow> 'snap ai_state" where
  "setConversationModelSelectionId env cid sel s =
     (let parsed = env_parse env sel; resolved = env_resolve env sel in
      on_conv cid (\<lambda>c. c\<lparr>cv_modelSelectionId := Some sel,
          cv_provider := (case parsed of None \<Rightarrow> cv_provider c | Some p \<Rightarrow> fst p),
          cv_model := the (nullish (map_option snd parsed) (nullish resolved (Some (cv_model c)))),
          cv_updatedAt := env_now env\<rparr>)
        (s\<lparr>currentModelSelectionId := Some sel\<rparr>))"

definition setConversationSkillIds ::
  "int \<Rightarrow> string \<Rightarrow> string list \<Rightarrow> 'snap ai_state \<Rightarrow> 'snap ai_state" where
  "setConversationSkillIds now cid ids s =
     on_conv cid (\<lambda>c. c\<lparr>cv_selectedSkillIds := Some ids, cv_updatedAt := now\<rparr>)
       (s\<lparr>currentSkillIds := ids\<rparr>)"

definition replaceConversationMessages ::
  "int \<Rightarrow> string \<Rightarrow> ai_message list \<Rightarrow> 'snap ai_state \<Rightarrow> 'snap ai_state" where
  "replaceConversationMessages now cid msgs =
     on_conv cid (\<lambda>c. c\<lparr>cv_messages := map normalizeAiMessage msgs, cv_updatedAt := now\<rparr>)"

text \<open>\<open>workspaceName\<close>: the name of the workspace with that identifier in the workspace store.\<close>

definition pinConversationWorkspace ::
  "int \<Rightarrow> (string \<Rightarrow> string option) \<Rightarrow> string \<Rightarrow> string option \<Rightarrow> 'snap ai_state \<Rightarrow> 'snap ai_state" where
  "pinConversationWorkspace now workspaceName cid wid =
     on_conv cid (\<lambda>c.
       let ws = (if truthy wid then workspaceName (the wid) else None);
           context = filter (\<lambda>x. chip_type x \<noteq> ''workspace'') (ctx_of c);
           context' = (case ws of None \<Rightarrow> context
             | Some n \<Rightarrow> \<lparr>chip_type = ''workspace'', chip_label = n\<rparr> # context)
       in c\<lparr>cv_pinnedWorkspaceId := wid, cv_context := Some context', cv_updatedAt := now\<rparr>)"

definition attachTerminalSession ::
  "int \<Rightarrow> string \<Rightarrow> string option \<Rightarrow> 'snap ai_state \<Rightarrow> 'snap ai_state" where
  "attachTerminalSession now cid sid =
     on_conv cid (\<lambda>c. c\<lparr>cv_linkedTerminalSessionId := sid, cv_updatedAt := now\<rparr>)"

definition promoteInlineThread ::
  "'snap ai_env \<Rightarrow> string \<Rightarrow> string \<Rightarrow> ai_message list \<Rightarrow> string \<Rightarrow> string \<Rightarrow> string option
     \<Rightarrow> 'snap ai_state \<Rightarrow> string \<times> 'snap ai_state" where
  "promoteInlineThread env newId title msgs sid blockId target s =
     (let normalized = map normalizeAiMessage msgs in
      if truthy target then
        (the target,
         on_conv (the target) (\<lambda>c. c\<lparr>cv_messages := cv_messages c @ normalized,
             cv_linkedTerminalSessionId := Some sid, cv_sourceBlockId := Some blockId,
             cv_agentId := Some ''terminal'',
             cv_title := (if cv_title c = default_title then title else cv_title c),
             cv_updatedAt := env_now env\<rparr>)
           s\<lparr>activeConversationId := target\<rparr>)
      else
        (let (cid, s') = createConversation env newId None None (Some ''terminal'') s in
         (cid, on_conv cid (\<lambda>c. c\<lparr>cv_title := title, cv_messages := normalized,
                 cv_linkedTerminalSessionId := Some sid, cv_sourceBlockId := Some blockId,
                 cv_agentId := Some ''terminal'', cv_updatedAt := env_now env\<rparr>) s')))"

section \<open>Sub-conversations\<close>

datatype ai_error = ParentMissing string

text \<open>The root of a conversation's tree: \<open>c.rootConversationId ?? c.id\<close>.\<close>

definition root_of :: "'snap conversation \<Rightarrow> string" where
  "root_of c = (case cv_rootConversationId c of None \<Rightarrow> cv_id c | Some r \<Rightarrow> r)"

text \<open>The conversation is generated first, then its first message: two identifiers.\<close>

definition createSubConversation ::
  "int \<Rightarrow> string \<Rightarrow> string \<Rightarrow> string \<Rightarrow> string \<Rightarrow> string \<Rightarrow> string \<Rightarrow> nat \<Rightarrow> string \<Rightarrow> 'snap ai_state
     \<Rightarrow> ai_error + string \<times> 'snap ai_state" where
  "createSubConversation now newId msgId parentId parentMessageId clusterId title idx initialUserText s =
     (case find_conv parentId s of
        None \<Rightarrow> Inl (ParentMissing parentId)
      | Some p \<Rightarrow>
          (let first = normalizeAiMessage
                 \<lparr> m_id = msgId, m_role = RoleUser, m_parts = Some [TextPart initialUserText],
                   m_content = initialUserText, m_reasoningContent = None, m_timestamp = now,
                   m_toolCalls = None, m_isStreaming = None, m_isReasoningStreaming = None,
                   m_usage = None, m_timing = None \<rparr>;
               conv = \<lparr> cv_id = newId, cv_title = title,
                   cv_messages = (if initialUserText \<noteq> '''' then [first] else []),
                   cv_provider = cv_provider p, cv_model = cv_model p,
                   cv_modelSelectionId = cv_modelSelectionId p, cv_selectedSkillIds = cv_selectedSkillIds p,
                   cv_agentId = cv_agentId p, cv_createdAt = now, cv_updatedAt = now,
                   cv_context = cv_context p, cv_contextSnapshot = cv_contextSnapshot p,
                   cv_pinnedWorkspaceId = cv_pinnedWorkspaceId p,
                   cv_linkedTerminalSessionId = cv_linkedTerminalSessionId p, cv_sourceBlockId = None,
                   cv_parentConversationId = Some parentId, cv_rootConversationId = Some (root_of p),
                   cv_spawnedFromMessageId = Some parentMessageId, cv_spawnedFromClusterId = Some clusterId,
                   cv_indexInCluster = Some idx \<rparr>
           in Inr (newId, schedule_sync True [] (s\<lparr>conversations := conversations s @ [conv]\<rparr>))))"

definition setViewingChildConversation :: "string option \<Rightarrow> 'snap ai_state \<Rightarrow> 'snap ai_state" where
  "setViewingChildConversation v s =
     (case v of
        None \<Rightarrow> s\<lparr>viewingChildConversationId := None\<rparr>
      | Some cid \<Rightarrow>
          (case find_conv cid s of
             None \<Rightarrow> s
           | Some c \<Rightarrow> if truthy (cv_parentConversationId c)
                       then s\<lparr>viewingChildConversationId := Some cid\<rparr> else s))"

definition deleteConversationCascade :: "string \<Rightarrow> 'snap ai_state \<Rightarrow> 'snap ai_state" where
  "deleteConversationCascade cid s =
     (let toDelete = desc_close cv_id cv_parentConversationId (conversations s) [cid];
          remaining = filter (\<lambda>c. cv_id c \<notin> set toDelete) (conversations s);
          gone = (\<lambda>x. truthy x \<and> the x \<in> set toDelete)
      in schedule_sync True toDelete
           (s\<lparr>conversations := remaining,
              activeConversationId :=
                (if gone (activeConversationId s)
                 then map_option cv_id (find (\<lambda>c. \<not> truthy (cv_parentConversationId c)) remaining)
                 else activeConversationId s),
              viewingChildConversationId :=
                (if gone (viewingChildConversationId s) then None else viewingChildConversationId s)\<rparr>))"

section \<open>Persistence\<close>

record 'snap ai_persisted =
  p_conversations :: "'snap conversation list option"
  p_activeConversationId :: "string option"
  p_currentProvider :: string
  p_currentModel :: string
  p_currentModelSelectionId :: "string option"
  p_currentSkillIds :: "string list"
  p_reasoningEffort :: effort
  p_conversationListOpen :: bool
  p_conversationListPlacement :: list_placement
  p_conversationListWidth :: int
  p_drawerOpen :: bool
  p_viewingChildConversationId :: "string option"

definition partialize :: "'snap ai_state \<Rightarrow> 'snap ai_persisted" where
  "partialize s = \<lparr> p_conversations = Some (conversations s),
     p_activeConversationId = activeConversationId s, p_currentProvider = currentProvider s,
     p_currentModel = currentModel s, p_currentModelSelectionId = currentModelSelectionId s,
     p_currentSkillIds = currentSkillIds s, p_reasoningEffort = reasoningEffort s,
     p_conversationListOpen = conversationListOpen s,
     p_conversationListPlacement = conversationListPlacement s,
     p_conversationListWidth = conversationListWidth s, p_drawerOpen = drawerOpen s,
     p_viewingChildConversationId = viewingChildConversationId s \<rparr>"

definition on_convs ::
  "('snap conversation \<Rightarrow> 'snap conversation) \<Rightarrow> 'snap ai_persisted \<Rightarrow> 'snap ai_persisted" where
  "on_convs f p = p\<lparr>p_conversations := map_option (map f) (p_conversations p)\<rparr>"

definition infer_agent :: "'snap conversation \<Rightarrow> 'snap conversation" where
  "infer_agent c =
     (if isAgentId (cv_agentId c) then c
      else c\<lparr>cv_agentId := Some (if truthy (cv_sourceBlockId c) \<or> truthy (cv_linkedTerminalSessionId c)
                                 then ''terminal'' else ASSISTANT_PAGE_AGENT_ID)\<rparr>)"

definition rename_agent :: "string \<Rightarrow> string \<Rightarrow> 'snap conversation \<Rightarrow> 'snap conversation" where
  "rename_agent old new c = (if cv_agentId c = Some old then c\<lparr>cv_agentId := Some new\<rparr> else c)"

definition migrate :: "nat \<Rightarrow> 'snap ai_persisted \<Rightarrow> 'snap ai_persisted" where
  "migrate version p =
     (let p = (if version < 2
               then on_convs (\<lambda>c. c\<lparr>cv_messages := map normalizeAiMessage (cv_messages c)\<rparr>) p else p);
          p = (if version < 3 then p\<lparr>p_reasoningEffort := EffortDefault\<rparr> else p);
          p = (if version < 4 then on_convs infer_agent p else p);
          p = (if version < 5 then on_convs (rename_agent ''ssh'' ''terminal'') p else p);
          p = (if version < 6 then on_convs (rename_agent ''chat'' ''plan'') p else p);
          p = (if version < 7 \<and> p_conversations p \<noteq> None
               then (on_convs (\<lambda>c. if cv_parentConversationId c = None
                       then c\<lparr>cv_rootConversationId := Some (cv_id c)\<rparr> else c) p)
                    \<lparr>p_viewingChildConversationId := None\<rparr>
               else p)
      in p)"

section \<open>The conversation forest\<close>

text \<open>What the tree structure depends on: identifier, parent and root of a conversation.\<close>

definition skel :: "'snap conversation \<Rightarrow> string \<times> string option \<times> string option" where
  "skel c = (cv_id c, cv_parentConversationId c, cv_rootConversationId c)"

definition is_sub :: "'snap conversation \<Rightarrow> bool" where
  "is_sub c = truthy (cv_parentConversationId c)"

text \<open>
  A conversation is well placed after those in \<open>seen\<close>: a root conversation is its own root, a
  sub-conversation has its parent among them and the root of its parent.
\<close>

definition placed :: "'snap conversation list \<Rightarrow> 'snap conversation \<Rightarrow> bool" where
  "placed seen c =
     (if is_sub c
      then (\<exists>p\<in>set seen. cv_parentConversationId c = Some (cv_id p) \<and> root_of c = root_of p)
      else root_of c = cv_id c)"

fun forest :: "'snap conversation list \<Rightarrow> 'snap conversation list \<Rightarrow> bool" where
  "forest seen [] = True"
| "forest seen (c # cs) = (placed seen c \<and> forest (seen @ [c]) cs)"

definition viewing_ok :: "'snap ai_state \<Rightarrow> bool" where
  "viewing_ok s = (case viewingChildConversationId s of
     None \<Rightarrow> True | Some v \<Rightarrow> \<exists>c\<in>set (conversations s). cv_id c = v \<and> is_sub c)"

definition ai_inv :: "'snap ai_state \<Rightarrow> bool" where
  "ai_inv s \<longleftrightarrow> distinct (map cv_id (conversations s)) \<and> '''' \<notin> cv_id ` set (conversations s)
     \<and> forest [] (conversations s) \<and> viewing_ok s"

lemma placed_skel:
  fixes seen seen' :: "'snap conversation list"
  assumes "map skel seen = map skel seen'" "skel c = skel c'"
  shows "placed seen c = placed seen' c'"
proof -
  have step: "\<exists>p\<in>set ys. cv_id p = i \<and> root_of p = r"
    if "map skel xs = map skel ys" "\<exists>p\<in>set xs. cv_id p = i \<and> root_of p = r"
    for xs ys :: "'snap conversation list" and i r
  proof -
    from that(2) obtain p where p: "p \<in> set xs" "cv_id p = i" "root_of p = r" by blast
    then have "skel p \<in> set (map skel ys)" using that(1) by (metis image_eqI list.set_map)
    then obtain q where "q \<in> set ys" "skel q = skel p" by auto
    with p show ?thesis by (intro bexI [of _ q]) (auto simp: skel_def root_of_def split: option.splits)
  qed
  have "(\<exists>p\<in>set seen. cv_id p = i \<and> root_of p = r) = (\<exists>p\<in>set seen'. cv_id p = i \<and> root_of p = r)" for i r
    using step [of seen seen'] step [of seen' seen] assms(1) by metis
  moreover have "is_sub c = is_sub c'" "root_of c = root_of c'" "cv_id c = cv_id c'"
    "cv_parentConversationId c = cv_parentConversationId c'"
    using assms(2) by (auto simp: skel_def is_sub_def root_of_def split: option.splits)
  ultimately show ?thesis by (simp add: placed_def) metis
qed

lemma forest_skel:
  "map skel (seen :: 'snap conversation list) = map skel (seen' :: 'snap conversation list) \<Longrightarrow> map skel cs = map skel cs' \<Longrightarrow> forest seen cs = forest seen' cs'"
proof (induction cs arbitrary: cs' seen seen')
  case (Cons c cs)
  then obtain c' ds where cs': "cs' = c' # ds" "skel c = skel c'" "map skel cs = map skel ds"
    by (cases cs') auto
  have "forest (seen @ [c]) cs = forest (seen' @ [c']) ds"
    by (rule Cons.IH) (use Cons.prems cs' in simp_all)
  with cs' placed_skel [OF Cons.prems(1) cs'(2)] show ?case by simp
qed simp

lemma placed_mono: "placed seen c \<Longrightarrow> set seen \<subseteq> set seen' \<Longrightarrow> placed seen' c"
  by (auto simp: placed_def split: if_splits)

lemma forest_mono: "forest seen cs \<Longrightarrow> set seen \<subseteq> set seen' \<Longrightarrow> forest seen' cs"
proof (induction cs arbitrary: seen seen')
  case (Cons c cs)
  have "forest (seen' @ [c]) cs" by (rule Cons.IH [of "seen @ [c]"]) (use Cons.prems in auto)
  with Cons.prems show ?case by (auto intro: placed_mono)
qed simp

lemma forest_append: "forest seen (cs @ [c]) = (forest seen cs \<and> placed (seen @ cs) c)"
  by (induction cs arbitrary: seen) auto

lemma forest_filter:
  assumes "forest seen cs"
    and "\<And>c. c \<in> set cs \<Longrightarrow> P c \<Longrightarrow> is_sub c \<Longrightarrow> \<forall>p. cv_parentConversationId c = Some (cv_id p) \<longrightarrow> P p"
  shows "forest (filter P seen) (filter P cs)"
  using assms
proof (induction cs arbitrary: seen)
  case (Cons c cs)
  have "forest (filter P (seen @ [c])) (filter P cs)"
    by (rule Cons.IH) (use Cons.prems in auto)
  moreover have "placed (filter P seen) c" if "P c"
    using Cons.prems that by (fastforce simp: placed_def split: if_splits)
  ultimately show ?case by (cases "P c") simp_all
qed simp

lemma viewing_ok_skel:
  fixes s s' :: "'snap ai_state"
  assumes "map skel (conversations s') = map skel (conversations s)"
    and "viewingChildConversationId s' = viewingChildConversationId s" "viewing_ok s"
  shows "viewing_ok s'"
proof (cases "viewingChildConversationId s")
  case (Some v)
  then obtain c where c: "c \<in> set (conversations s)" "cv_id c = v" "is_sub c"
    using assms(3) by (auto simp: viewing_ok_def)
  then have "skel c \<in> set (map skel (conversations s'))" using assms(1) by (metis image_eqI list.set_map)
  then obtain d where "d \<in> set (conversations s')" "skel d = skel c" by auto
  with c Some assms(2) show ?thesis by (auto simp: viewing_ok_def skel_def is_sub_def)
qed (use assms in \<open>simp add: viewing_ok_def\<close>)

lemma ids_of_skel: "map cv_id cs = map fst (map skel cs)"
  by (simp add: skel_def)

text \<open>An operation that keeps every conversation's place keeps the invariant.\<close>

lemma ai_inv_frame:
  fixes s s' :: "'snap ai_state"
  assumes "map skel (conversations s') = map skel (conversations s)"
    and "viewingChildConversationId s' = viewingChildConversationId s \<or> viewingChildConversationId s' = None"
    and "ai_inv s"
  shows "ai_inv s'"
proof -
  have ids: "map cv_id (conversations s') = map cv_id (conversations s)"
    using assms(1) by (simp only: ids_of_skel)
  have "viewing_ok s'"
    using assms viewing_ok_skel [OF assms(1)] by (auto simp: ai_inv_def viewing_ok_def)
  moreover have "cv_id ` set (conversations s') = cv_id ` set (conversations s)"
    using ids by (metis list.set_map)
  ultimately show ?thesis
    using assms(3) forest_skel [OF _ assms(1), of "[]" "[]"] by (simp add: ai_inv_def ids)
qed

lemma skel_on_conv [frame_simps]:
  assumes "\<And>c. skel (f c) = skel c"
  shows "map skel (conversations (on_conv cid f s)) = map skel (conversations s)"
  by (simp add: on_conv_def map_map_where_id assms)

lemma viewing_on_conv [frame_simps, simp]:
  "viewingChildConversationId (on_conv cid f s) = viewingChildConversationId s"
  by (simp add: on_conv_def)

lemma schedule_sync_frame [frame_simps, simp]:
  "conversations (schedule_sync b ids s) = conversations s"
  "viewingChildConversationId (schedule_sync b ids s) = viewingChildConversationId s"
  "activeConversationId (schedule_sync b ids s) = activeConversationId s"
  by (simp_all add: schedule_sync_def)

lemma ai_inv_on_conv:
  assumes "\<And>c. skel (f c) = skel c" "ai_inv s"
  shows "ai_inv (on_conv cid f s)"
  by (rule ai_inv_frame) (use assms in \<open>simp_all add: frame_simps\<close>)

lemma ai_inv_on_message: "ai_inv s \<Longrightarrow> ai_inv (on_message cid mid f s)"
  unfolding on_message_def by (rule ai_inv_on_conv) (simp_all add: skel_def)

lemma ai_inv_touch: "ai_inv s \<Longrightarrow> ai_inv (touch cid now s)"
  unfolding touch_def by (rule ai_inv_on_conv) (simp_all add: skel_def)

lemma ai_inv_sync [simp]: "ai_inv (schedule_sync b ids s) = ai_inv s"
  by (auto simp: ai_inv_def viewing_ok_def schedule_sync_def split: option.splits)

section \<open>Coherence of the flat message fields\<close>

text \<open>The flat fields of a message are those derived from its parts.\<close>

definition coherent :: "ai_message \<Rightarrow> bool" where
  "coherent m = (case m_parts m of None \<Rightarrow> False | Some ps \<Rightarrow> with_compat ps m = m)"

definition messages_coherent :: "'snap ai_state \<Rightarrow> bool" where
  "messages_coherent s = (\<forall>c\<in>set (conversations s). \<forall>m\<in>set (cv_messages c). coherent m)"

text \<open>The fields that the callers of \<open>updateMessage\<close> patch.\<close>

fun status_field :: "msg_set \<Rightarrow> bool" where
  "status_field (MsgStreaming _) = True"
| "status_field (MsgReasoningStreaming _) = True"
| "status_field (MsgUsage _) = True"
| "status_field (MsgTiming _) = True"
| "status_field _ = False"

lemma coherent_with_compat [simp]: "coherent (with_compat ps m)"
  by (simp add: coherent_def with_compat_def Let_def)

lemma coherent_set_status: "status_field u \<Longrightarrow> coherent (set_msg u m) = coherent m"
proof -
  have eq: "with_compat ps m = m \<longleftrightarrow> m_parts m = Some ps \<and> m_content m = co_content (deriveCompatFields ps)
      \<and> m_reasoningContent m = co_reasoning (deriveCompatFields ps)
      \<and> m_toolCalls m = co_toolCalls (deriveCompatFields ps)" for ps and m :: ai_message
    by (cases m) (auto simp: with_compat_def Let_def)
  show "status_field u \<Longrightarrow> coherent (set_msg u m) = coherent m"
    by (cases u) (simp_all add: coherent_def eq split: option.splits)
qed

lemma coherent_fold_status: "list_all status_field us \<Longrightarrow> coherent (fold set_msg us m) = coherent m"
  by (induction us arbitrary: m) (simp_all add: coherent_set_status)

lemma patch_parts_status: "list_all status_field us \<Longrightarrow> patch_parts us = None"
proof -
  have "fold (\<lambda>u acc. case u of MsgParts x \<Rightarrow> x | _ \<Rightarrow> acc) us acc = acc"
    if "list_all status_field us" for acc
    using that
  proof (induction us)
    case (Cons u us)
    then show ?case by (cases u) auto
  qed simp
  then show "list_all status_field us \<Longrightarrow> patch_parts us = None" by (simp add: patch_parts_def)
qed

lemma coherent_withUpdatedParts: "list_all status_field us \<Longrightarrow> coherent (withUpdatedParts m ps us)"
  by (simp add: withUpdatedParts_def coherent_fold_status)

lemma coherent_normalize: "coherent (normalizeAiMessage m)"
  by (simp add: normalizeAiMessage_def)

lemma messages_coherent_on_conv:
  assumes "messages_coherent s"
    and "\<And>c m. m \<in> set (cv_messages (f c)) \<Longrightarrow> m \<in> set (cv_messages c) \<or> coherent m"
  shows "messages_coherent (on_conv cid f s)"
  using assms by (fastforce simp: messages_coherent_def on_conv_def set_map_where)

lemma messages_coherent_on_message:
  assumes "messages_coherent s" and "\<And>m. coherent m \<Longrightarrow> coherent (f m)"
  shows "messages_coherent (on_message cid mid f s)"
proof -
  have "coherent m" if "c \<in> set (conversations s)" "m \<in> set (map_where (\<lambda>m. m_id m = mid) f (cv_messages c))"
    for c m
    using that assms by (auto simp: messages_coherent_def set_map_where)
  then show ?thesis
    using assms(1) by (auto simp: messages_coherent_def on_message_def on_conv_def map_where_def)
qed

lemma messages_coherent_touch: "messages_coherent s \<Longrightarrow> messages_coherent (touch cid now s)"
  unfolding touch_def by (rule messages_coherent_on_conv) auto

lemma messages_coherent_same:
  "conversations s' = conversations s \<Longrightarrow> messages_coherent s \<Longrightarrow> messages_coherent s'"
  by (simp add: messages_coherent_def)

text \<open>A coherent message is read back from its flat fields as its own parts.\<close>

lemma parts_of_coherent:
  assumes "m_parts m = Some ps" "with_compat ps m = m"
  shows "partsFromFlatFields (flat_of m) = ps"
proof (cases "ps = []")
  case True
  from assms(2) have "m_content m = co_content (deriveCompatFields ps)"
    "m_reasoningContent m = co_reasoning (deriveCompatFields ps)"
    "m_toolCalls m = co_toolCalls (deriveCompatFields ps)"
    by (cases m; simp add: with_compat_def Let_def)+
  with True assms(1) show ?thesis
    by (simp add: partsFromFlatFields_def flat_of_def deriveCompatFields_def)
next
  case False
  with assms(1) show ?thesis
    by (cases ps) (simp_all add: partsFromFlatFields_def flat_of_def)
qed

section \<open>Streaming into a stored message\<close>

text \<open>The deltas of a run, each delivered by the handler of its kind.\<close>

fun stream_delta :: "string \<Rightarrow> string \<Rightarrow> text_kind \<times> string \<Rightarrow> 'snap ai_state \<Rightarrow> 'snap ai_state" where
  "stream_delta cid mid (KText, chunk) = appendStreamContent cid mid chunk"
| "stream_delta cid mid (KReasoning, chunk) = appendStreamReasoning cid mid chunk"

fun delta_message :: "text_kind \<times> string \<Rightarrow> ai_message \<Rightarrow> ai_message" where
  "delta_message (k, chunk) m =
     withUpdatedParts m (appendTextLikePart (partsFromFlatFields (flat_of m)) k chunk)
       [MsgReasoningStreaming
          (if k = KReasoning then Some True
           else if chunk \<noteq> '''' then Some False else m_isReasoningStreaming m)]"

definition message_map :: "string \<Rightarrow> string \<Rightarrow> (ai_message \<Rightarrow> ai_message)
    \<Rightarrow> 'snap conversation list \<Rightarrow> 'snap conversation list" where
  "message_map cid mid f = map_where (\<lambda>c. cv_id c = cid)
     (\<lambda>c. c\<lparr>cv_messages := map_where (\<lambda>m. m_id m = mid) f (cv_messages c)\<rparr>)"

lemma delta_message_id [simp]: "m_id (delta_message d m) = m_id m"
  by (cases d) (simp add: withUpdatedParts_def with_compat_def Let_def)

lemma stream_delta_message_map:
  "stream_delta cid mid d s = s\<lparr>conversations := message_map cid mid (delta_message d) (conversations s)\<rparr>"
proof (cases d)
  case (Pair k chunk)
  have "stream_delta cid mid (k, chunk) s = on_message cid mid (delta_message (k, chunk)) s"
    by (cases k) (auto simp: appendStreamContent_def appendStreamReasoning_def
        intro!: arg_cong [where f = "\<lambda>f. on_message cid mid f s"])
  with Pair show ?thesis by (simp add: on_message_def on_conv_def message_map_def)
qed

lemma message_map_compose:
  assumes "\<And>m. m_id (f m) = m_id m"
  shows "message_map cid mid g (message_map cid mid f cs) = message_map cid mid (g \<circ> f) cs"
proof -
  have "map_where (\<lambda>m. m_id m = mid) g (map_where (\<lambda>m. m_id m = mid) f ms)
      = map_where (\<lambda>m. m_id m = mid) (g \<circ> f) ms" for ms
    by (rule map_where_compose) (simp add: assms)
  then show ?thesis by (induction cs) (simp_all add: message_map_def)
qed

lemma message_map_id: "message_map cid mid (\<lambda>m. m) cs = cs"
  by (induction cs) (simp_all add: message_map_def map_where_def)

lemma stream_deltas_message_map:
  "fold (stream_delta cid mid) ds s =
     s\<lparr>conversations := message_map cid mid (fold delta_message ds) (conversations s)\<rparr>"
proof (induction ds arbitrary: s)
  case Nil
  have "message_map cid mid id (conversations s) = conversations s"
    by (simp add: message_map_id id_def)
  then show ?case by (simp add: message_map_id id_def)
next
  case (Cons d ds)
  then show ?case
    by (simp add: stream_delta_message_map message_map_compose fun_eq_iff comp_def)
qed

lemma delta_message_coherent:
  assumes "m_parts m = Some ps" "with_compat ps m = m"
  shows "m_parts (delta_message (k, chunk) m) = Some (appendTextLikePart ps k chunk)"
    and "with_compat (appendTextLikePart ps k chunk) (delta_message (k, chunk) m) = delta_message (k, chunk) m"
  by (simp_all add: parts_of_coherent [OF assms] withUpdatedParts_def with_compat_def Let_def)

lemma fold_delta_message:
  assumes "m_parts m = Some ps" "with_compat ps m = m"
  shows "m_parts (fold delta_message ds m) = Some (stream_parts ds ps)
     \<and> with_compat (stream_parts ds ps) (fold delta_message ds m) = fold delta_message ds m"
  using assms
proof (induction ds arbitrary: m ps)
  case (Cons d ds)
  obtain k chunk where d: "d = (k, chunk)" by (cases d)
  from Cons.IH [OF delta_message_coherent [OF Cons.prems, of k chunk]] show ?case
    by (simp only: d fold.simps comp_def stream_parts_Cons)
qed simp

lemma compat_fields:
  assumes "with_compat ps m = m"
  shows "m_content m = co_content (deriveCompatFields ps)"
    "m_reasoningContent m = co_reasoning (deriveCompatFields ps)"
    "m_toolCalls m = co_toolCalls (deriveCompatFields ps)"
  using assms by (cases m; simp add: with_compat_def Let_def)+

end
