(* ===== verification/Orchestration.thy ===== *)
theory Orchestration
  imports AiStore
begin

text \<open>
  \<^bold>\<open>frontend/src/stores/aiOrchestrationStore.ts\<close>: background tasks of the assistant, its plans
  and the run-time state of sub-conversation clusters, each a dictionary by identifier. What is
  persisted and how a restart settles what was running.
\<close>

section \<open>Data\<close>

record task_child =
  tk_id :: string
  tk_title :: string
  tk_status :: run_status
  tk_summary :: "string option"
  tk_error :: "string option"
  tk_resourceId :: "string option"

record task_parent =
  tp_id :: string
  tp_conversationId :: "string option"
  tp_title :: string
  tp_kind :: string
  tp_status :: run_status
  tp_children :: "task_child list"
  tp_startedAt :: int
  tp_finishedAt :: "int option"
  tp_resultSummary :: "string option"

record cluster =
  cl_clusterId :: string
  cl_title :: string
  cl_toolCallId :: string
  cl_parentConversationId :: string
  cl_parentMessageId :: string
  cl_status :: run_status
  cl_children :: "child_state list"
  cl_aggregatedResult :: "string option"
  cl_createdAt :: int
  cl_finishedAt :: "int option"

record orch_state =
  tasks :: "task_parent jrec"
  plans :: "plan_data jrec"
  clusters :: "cluster jrec"

definition orch_init :: orch_state where
  "orch_init = \<lparr> tasks = [], plans = [], clusters = [] \<rparr>"

definition unfinished :: "run_status \<Rightarrow> bool" where
  "unfinished s \<longleftrightarrow> s = Pending \<or> s = Running"

section \<open>Tasks\<close>

datatype task_child_set =
    TkId string
  | TkTitle string
  | TkStatus run_status
  | TkSummary "string option"
  | TkError "string option"
  | TkResourceId "string option"

fun set_task_child :: "task_child_set \<Rightarrow> task_child \<Rightarrow> task_child" where
  "set_task_child (TkId x) c = c\<lparr>tk_id := x\<rparr>"
| "set_task_child (TkTitle x) c = c\<lparr>tk_title := x\<rparr>"
| "set_task_child (TkStatus x) c = c\<lparr>tk_status := x\<rparr>"
| "set_task_child (TkSummary x) c = c\<lparr>tk_summary := x\<rparr>"
| "set_task_child (TkError x) c = c\<lparr>tk_error := x\<rparr>"
| "set_task_child (TkResourceId x) c = c\<lparr>tk_resourceId := x\<rparr>"

text \<open>The argument \<open>task\<close> has no start time yet and perhaps no status or identifier.\<close>

definition createTask ::
  "int \<Rightarrow> string \<Rightarrow> run_status option \<Rightarrow> task_parent \<Rightarrow> orch_state \<Rightarrow> string \<times> orch_state" where
  "createTask now newId status task s =
     (let i = (if tp_id task \<noteq> '''' then tp_id task else newId) in
      (i, s\<lparr>tasks := rput i (task\<lparr>tp_id := i,
              tp_status := (case status of None \<Rightarrow> Running | Some st \<Rightarrow> st),
              tp_startedAt := now\<rparr>) (tasks s)\<rparr>))"

definition updateChild :: "string \<Rightarrow> string \<Rightarrow> task_child_set list \<Rightarrow> orch_state \<Rightarrow> orch_state" where
  "updateChild parentId childId patch s =
     s\<lparr>tasks := rpatch parentId (\<lambda>p. p\<lparr>tp_children :=
          map_where (\<lambda>c. tk_id c = childId) (fold set_task_child patch) (tp_children p)\<rparr>) (tasks s)\<rparr>"

definition setParentStatus ::
  "int \<Rightarrow> string \<Rightarrow> run_status \<Rightarrow> string option \<Rightarrow> orch_state \<Rightarrow> orch_state" where
  "setParentStatus now parentId status resultSummary s =
     s\<lparr>tasks := rpatch parentId (\<lambda>p. p\<lparr>tp_status := status, tp_resultSummary := resultSummary,
          tp_finishedAt := finish_time status now\<rparr>) (tasks s)\<rparr>"

definition cancel_task :: "int \<Rightarrow> task_parent \<Rightarrow> task_parent" where
  "cancel_task now p = p\<lparr>tp_status := Cancelled, tp_finishedAt := Some now,
     tp_children := map_where (\<lambda>c. unfinished (tk_status c)) (\<lambda>c. c\<lparr>tk_status := Cancelled\<rparr>) (tp_children p)\<rparr>"

definition cancelTask :: "int \<Rightarrow> string \<Rightarrow> orch_state \<Rightarrow> orch_state" where
  "cancelTask now parentId s =
     (case rget (tasks s) parentId of
        None \<Rightarrow> s
      | Some p \<Rightarrow> s\<lparr>tasks := rput parentId (cancel_task now p) (tasks s)\<rparr>)"

definition removeTask :: "string \<Rightarrow> orch_state \<Rightarrow> orch_state" where
  "removeTask parentId s = s\<lparr>tasks := rdel parentId (tasks s)\<rparr>"

section \<open>Plans\<close>

datatype plan_set =
    PlTitle string
  | PlSteps "plan_step list"
  | PlStatus plan_status
  | PlCreatedAt int
  | PlUpdatedAt int

fun set_plan :: "plan_set \<Rightarrow> plan_data \<Rightarrow> plan_data" where
  "set_plan (PlTitle x) p = p\<lparr>plan_title := x\<rparr>"
| "set_plan (PlSteps x) p = p\<lparr>plan_steps := x\<rparr>"
| "set_plan (PlStatus x) p = p\<lparr>plan_status_of := x\<rparr>"
| "set_plan (PlCreatedAt x) p = p\<lparr>plan_createdAt := x\<rparr>"
| "set_plan (PlUpdatedAt x) p = p\<lparr>plan_updatedAt := x\<rparr>"

definition createPlan :: "plan_data \<Rightarrow> orch_state \<Rightarrow> orch_state" where
  "createPlan plan s = s\<lparr>plans := rput (plan_id plan) plan (plans s)\<rparr>"

definition updatePlan :: "int \<Rightarrow> string \<Rightarrow> plan_set list \<Rightarrow> orch_state \<Rightarrow> orch_state" where
  "updatePlan now planId patch s =
     s\<lparr>plans := rpatch planId (\<lambda>p. (fold set_plan patch p)\<lparr>plan_updatedAt := now\<rparr>) (plans s)\<rparr>"

definition updatePlanStep :: "int \<Rightarrow> string \<Rightarrow> string \<Rightarrow> step_set list \<Rightarrow> orch_state \<Rightarrow> orch_state" where
  "updatePlanStep now planId stepId patch s =
     s\<lparr>plans := rpatch planId (\<lambda>p. p\<lparr>plan_updatedAt := now,
          plan_steps := map_where (\<lambda>st. ps_id st = stepId) (fold set_step patch) (plan_steps p)\<rparr>) (plans s)\<rparr>"

definition addPlanStep ::
  "int \<Rightarrow> string \<Rightarrow> plan_step \<Rightarrow> string option \<Rightarrow> orch_state \<Rightarrow> orch_state" where
  "addPlanStep now planId st afterStepId s =
     s\<lparr>plans := rpatch planId (\<lambda>p. p\<lparr>plan_updatedAt := now,
          plan_steps := (if truthy afterStepId
            then insert_after (\<lambda>x. ps_id x = the afterStepId) st (plan_steps p)
            else plan_steps p @ [st])\<rparr>) (plans s)\<rparr>"

definition removePlan :: "string \<Rightarrow> orch_state \<Rightarrow> orch_state" where
  "removePlan planId s = s\<lparr>plans := rdel planId (plans s)\<rparr>"

definition inferred_status :: "plan_step list \<Rightarrow> plan_status" where
  "inferred_status steps =
     (let allDone = list_all (\<lambda>st. ps_status st = StepCompleted \<or> ps_status st = StepSkipped) steps;
          anyFailed = list_ex (\<lambda>st. ps_status st = StepFailed) steps
      in if anyFailed then PlanFailed else if allDone then PlanCompleted else Executing)"

definition sync_step ::
  "plan_step_status \<Rightarrow> string option \<Rightarrow> string option \<Rightarrow> plan_step \<Rightarrow> plan_step" where
  "sync_step status summary err st =
     st\<lparr>ps_status := status, ps_summary := nullish summary (ps_summary st),
        ps_error := nullish err (ps_error st)\<rparr>"

definition syncStepFromToolCall ::
  "int \<Rightarrow> string \<Rightarrow> string \<Rightarrow> plan_step_status \<Rightarrow> string option \<Rightarrow> string option \<Rightarrow> orch_state \<Rightarrow> orch_state" where
  "syncStepFromToolCall now planId stepId status summary err s =
     s\<lparr>plans := rpatch planId (\<lambda>p.
          let steps = map_where (\<lambda>st. ps_id st = stepId) (sync_step status summary err) (plan_steps p)
          in p\<lparr>plan_steps := steps, plan_status_of := inferred_status steps, plan_updatedAt := now\<rparr>)
        (plans s)\<rparr>"

section \<open>Clusters\<close>

datatype cluster_set =
    ClTitle string
  | ClToolCallId string
  | ClParentConversationId string
  | ClParentMessageId string
  | ClStatus run_status
  | ClChildren "child_state list"
  | ClAggregatedResult "string option"
  | ClCreatedAt int
  | ClFinishedAt "int option"

fun set_cluster :: "cluster_set \<Rightarrow> cluster \<Rightarrow> cluster" where
  "set_cluster (ClTitle x) c = c\<lparr>cl_title := x\<rparr>"
| "set_cluster (ClToolCallId x) c = c\<lparr>cl_toolCallId := x\<rparr>"
| "set_cluster (ClParentConversationId x) c = c\<lparr>cl_parentConversationId := x\<rparr>"
| "set_cluster (ClParentMessageId x) c = c\<lparr>cl_parentMessageId := x\<rparr>"
| "set_cluster (ClStatus x) c = c\<lparr>cl_status := x\<rparr>"
| "set_cluster (ClChildren x) c = c\<lparr>cl_children := x\<rparr>"
| "set_cluster (ClAggregatedResult x) c = c\<lparr>cl_aggregatedResult := x\<rparr>"
| "set_cluster (ClCreatedAt x) c = c\<lparr>cl_createdAt := x\<rparr>"
| "set_cluster (ClFinishedAt x) c = c\<lparr>cl_finishedAt := x\<rparr>"

definition createCluster :: "cluster \<Rightarrow> orch_state \<Rightarrow> orch_state" where
  "createCluster c s = s\<lparr>clusters := rput (cl_clusterId c) c (clusters s)\<rparr>"

definition updateCluster :: "string \<Rightarrow> cluster_set list \<Rightarrow> orch_state \<Rightarrow> orch_state" where
  "updateCluster clusterId patch s =
     s\<lparr>clusters := rpatch clusterId (fold set_cluster patch) (clusters s)\<rparr>"

definition updateClusterChild :: "string \<Rightarrow> string \<Rightarrow> child_set list \<Rightarrow> orch_state \<Rightarrow> orch_state" where
  "updateClusterChild clusterId conversationId patch s =
     s\<lparr>clusters := rpatch clusterId (\<lambda>c. c\<lparr>cl_children :=
          map_where (\<lambda>k. ch_conversationId k = conversationId) (fold set_child patch) (cl_children c)\<rparr>)
        (clusters s)\<rparr>"

definition setClusterStatus ::
  "int \<Rightarrow> string \<Rightarrow> run_status \<Rightarrow> string option \<Rightarrow> orch_state \<Rightarrow> orch_state" where
  "setClusterStatus now clusterId status aggregatedResult s =
     s\<lparr>clusters := rpatch clusterId (\<lambda>c. c\<lparr>cl_status := status,
          cl_aggregatedResult := nullish aggregatedResult (cl_aggregatedResult c),
          cl_finishedAt := finish_time status now\<rparr>) (clusters s)\<rparr>"

definition removeCluster :: "string \<Rightarrow> orch_state \<Rightarrow> orch_state" where
  "removeCluster clusterId s = s\<lparr>clusters := rdel clusterId (clusters s)\<rparr>"

section \<open>Persistence\<close>

definition orch_partialize :: "orch_state \<Rightarrow> orch_state" where
  "orch_partialize s =
     \<lparr> tasks = filter (\<lambda>(_, t). tp_kind t \<noteq> ''loop'') (tasks s), plans = plans s, clusters = clusters s \<rparr>"

definition settle_task :: "int \<Rightarrow> task_parent \<Rightarrow> task_parent" where
  "settle_task now t =
     (if tp_kind t = ''loop'' \<and> unfinished (tp_status t) then cancel_task now t else t)"

definition settle_cluster :: "int \<Rightarrow> cluster \<Rightarrow> cluster" where
  "settle_cluster now c =
     (if unfinished (cl_status c)
      then c\<lparr>cl_status := Cancelled, cl_finishedAt := Some now,
             cl_children := map_where (\<lambda>k. unfinished (ch_status k)) (\<lambda>k. k\<lparr>ch_status := Cancelled\<rparr>)
               (cl_children c)\<rparr>
      else c)"

definition orch_rehydrate :: "int \<Rightarrow> orch_state \<Rightarrow> orch_state" where
  "orch_rehydrate now s =
     s\<lparr>tasks := map (\<lambda>(i, t). (i, settle_task now t)) (tasks s),
       clusters := map (\<lambda>(i, c). (i, settle_cluster now c)) (clusters s)\<rparr>"

section \<open>Lemmas\<close>

lemma unfinished_simps [simp]:
  "unfinished Pending" "unfinished Running" "\<not> unfinished Completed" "\<not> unfinished Failed" "\<not> unfinished Cancelled"
  by (simp_all add: unfinished_def)

text \<open>Every dictionary of the store is keyed by the identifier of its values.\<close>

definition keyed :: "('v \<Rightarrow> string) \<Rightarrow> 'v jrec \<Rightarrow> bool" where
  "keyed ident r \<longleftrightarrow> rwf r \<and> (\<forall>(k, v) \<in> set r. ident v = k)"

lemma keyed_rput: "keyed ident r \<Longrightarrow> ident v = k \<Longrightarrow> keyed ident (rput k v r)"
proof -
  assume k: "keyed ident r" "ident v = k"
  have "set (rput k v r) \<subseteq> insert (k, v) (set r)" by (induction r) auto
  with k show ?thesis unfolding keyed_def by (fastforce intro: rwf_rput)
qed

lemma keyed_rdel: "keyed ident r \<Longrightarrow> keyed ident (rdel k r)"
  by (auto simp: keyed_def AList.delete_eq distinct_map_filter)

lemma keyed_rget: "keyed ident r \<Longrightarrow> rget r k = Some v \<Longrightarrow> ident v = k"
  by (auto simp: keyed_def dest!: map_of_SomeD)

lemma keyed_rpatch:
  assumes "keyed ident r" "\<And>v. ident (f v) = ident v"
  shows "keyed ident (rpatch k f r)"
  using assms by (auto simp: rpatch_def keyed_rget split: option.split intro!: keyed_rput)

lemma set_cluster_id [simp]: "cl_clusterId (fold set_cluster us c) = cl_clusterId c"
proof (induction us arbitrary: c)
  case (Cons u us)
  then show ?case by (cases u) simp_all
qed simp

lemma set_plan_id [simp]: "plan_id (fold set_plan us p) = plan_id p"
proof (induction us arbitrary: p)
  case (Cons u us)
  then show ?case by (cases u) simp_all
qed simp

datatype orch_op =
    CreateTask int string "run_status option" task_parent
  | UpdateChild string string "task_child_set list"
  | SetParentStatus int string run_status "string option"
  | CancelTask int string
  | RemoveTask string
  | CreatePlan plan_data
  | UpdatePlan int string "plan_set list"
  | UpdatePlanStep int string string "step_set list"
  | AddPlanStep int string plan_step "string option"
  | RemovePlan string
  | SyncStepFromToolCall int string string plan_step_status "string option" "string option"
  | CreateCluster cluster
  | UpdateCluster string "cluster_set list"
  | UpdateClusterChild string string "child_set list"
  | SetClusterStatus int string run_status "string option"
  | RemoveCluster string
  | Restart int

fun orch_apply :: "orch_op \<Rightarrow> orch_state \<Rightarrow> orch_state" where
  "orch_apply (CreateTask now i st t) s = snd (createTask now i st t s)"
| "orch_apply (UpdateChild p c us) s = updateChild p c us s"
| "orch_apply (SetParentStatus now p st r) s = setParentStatus now p st r s"
| "orch_apply (CancelTask now p) s = cancelTask now p s"
| "orch_apply (RemoveTask p) s = removeTask p s"
| "orch_apply (CreatePlan p) s = createPlan p s"
| "orch_apply (UpdatePlan now p us) s = updatePlan now p us s"
| "orch_apply (UpdatePlanStep now p st us) s = updatePlanStep now p st us s"
| "orch_apply (AddPlanStep now p st a) s = addPlanStep now p st a s"
| "orch_apply (RemovePlan p) s = removePlan p s"
| "orch_apply (SyncStepFromToolCall now p st x y z) s = syncStepFromToolCall now p st x y z s"
| "orch_apply (CreateCluster c) s = createCluster c s"
| "orch_apply (UpdateCluster k us) s = updateCluster k us s"
| "orch_apply (UpdateClusterChild k c us) s = updateClusterChild k c us s"
| "orch_apply (SetClusterStatus now k st r) s = setClusterStatus now k st r s"
| "orch_apply (RemoveCluster k) s = removeCluster k s"
| "orch_apply (Restart now) s = orch_rehydrate now (orch_partialize s)"

definition orch_keyed :: "orch_state \<Rightarrow> bool" where
  "orch_keyed s \<longleftrightarrow> keyed tp_id (tasks s) \<and> keyed plan_id (plans s) \<and> keyed cl_clusterId (clusters s)"

lemma keyed_map: "keyed ident r \<Longrightarrow> (\<And>v. ident (f v) = ident v) \<Longrightarrow> keyed ident (map (\<lambda>(i, v). (i, f v)) r)"
  by (fastforce simp: keyed_def comp_def split_beta)

lemma keyed_filter: "keyed ident r \<Longrightarrow> keyed ident (filter P r)"
  by (auto simp: keyed_def distinct_map_filter)

lemma keyed_cancelTask: "keyed tp_id (tasks s) \<Longrightarrow> keyed tp_id (tasks (cancelTask now p s))"
  by (auto simp: cancelTask_def cancel_task_def keyed_rget split: option.split intro!: keyed_rput)

lemma orch_keyed_step: "orch_keyed s \<Longrightarrow> orch_keyed (orch_apply a s)"
proof (cases a)
  case (CancelTask now p)
  assume "orch_keyed s"
  moreover have "plans (cancelTask now p s) = plans s" "clusters (cancelTask now p s) = clusters s"
    by (auto simp: cancelTask_def split: option.split)
  ultimately show ?thesis using CancelTask by (simp add: orch_keyed_def keyed_cancelTask)
qed (auto simp: orch_keyed_def createTask_def updateChild_def setParentStatus_def removeTask_def
    createPlan_def updatePlan_def updatePlanStep_def addPlanStep_def removePlan_def
    syncStepFromToolCall_def createCluster_def updateCluster_def updateClusterChild_def
    setClusterStatus_def removeCluster_def orch_rehydrate_def orch_partialize_def Let_def
    settle_task_def settle_cluster_def cancel_task_def
    intro!: keyed_rput keyed_rpatch keyed_rdel keyed_map keyed_filter)

interpretation orch_run: store_machine orch_init orch_apply orch_keyed
  by unfold_locales (simp add: orch_keyed_def orch_init_def keyed_def, rule orch_keyed_step)

section \<open>Properties\<close>

text \<open>A restart settles everything that was running: no loop task survives at all, no
  cluster is left pending or running, and neither is any child of a cluster that was; plans, the
  other tasks and finished clusters come back exactly as they were saved.\<close>

theorem restart_settles_running_work:
  fixes s :: orch_state and now :: int
  defines "s' \<equiv> orch_rehydrate now (orch_partialize s)"
  shows "plans s' = plans s
    \<and> tasks s' = filter (\<lambda>(_, t). tp_kind t \<noteq> ''loop'') (tasks s)
    \<and> rkeys (clusters s') = rkeys (clusters s)
    \<and> (\<forall>k c. rget (clusters s) k = Some c \<longrightarrow> (\<exists>c'. rget (clusters s') k = Some c'
          \<and> \<not> unfinished (cl_status c')
          \<and> (if unfinished (cl_status c)
             then cl_status c' = Cancelled
                  \<and> cl_children c' = map (\<lambda>ch. if unfinished (ch_status ch) then ch\<lparr>ch_status := Cancelled\<rparr> else ch)
                      (cl_children c)
             else c' = c)))"
proof (intro conjI allI impI)
  show "plans s' = plans s" by (simp add: s'_def orch_rehydrate_def orch_partialize_def)
  have "settle_task now t = t" if "tp_kind t \<noteq> ''loop''" for t
    using that by (simp add: settle_task_def)
  then have "map (\<lambda>(i, t). (i, settle_task now t)) (filter (\<lambda>(_, t). tp_kind t \<noteq> ''loop'') ts)
      = filter (\<lambda>(_, t). tp_kind t \<noteq> ''loop'') ts" for ts :: "task_parent jrec"
    by (induction ts) auto
  then show "tasks s' = filter (\<lambda>(_, t). tp_kind t \<noteq> ''loop'') (tasks s)"
    by (simp add: s'_def orch_rehydrate_def orch_partialize_def)
  have cl: "clusters s' = map (\<lambda>(i, c). (i, settle_cluster now c)) (clusters s)"
    by (simp add: s'_def orch_rehydrate_def orch_partialize_def)
  then show "rkeys (clusters s') = rkeys (clusters s)" by (simp add: comp_def split_beta)
  fix k c assume "rget (clusters s) k = Some c"
  then show "\<exists>c'. rget (clusters s') k = Some c' \<and> \<not> unfinished (cl_status c')
          \<and> (if unfinished (cl_status c)
             then cl_status c' = Cancelled
                  \<and> cl_children c' = map (\<lambda>ch. if unfinished (ch_status ch) then ch\<lparr>ch_status := Cancelled\<rparr> else ch)
                      (cl_children c)
             else c' = c)"
    by (simp add: cl rget_map_values settle_cluster_def map_where_def)
qed

definition demo_child :: "string \<Rightarrow> run_status \<Rightarrow> child_state" where
  "demo_child i st = \<lparr> ch_conversationId = i, ch_index = 0, ch_title = i, ch_status = st, ch_summary = None,
     ch_error = None, ch_resourceId = None,
     ch_spawnSpec = \<lparr> spawn_title = i, spawn_task = i, spawn_resourceId = None \<rparr>,
     ch_startedAt = None, ch_finishedAt = None \<rparr>"

definition demo_cluster :: "run_status \<Rightarrow> child_state list \<Rightarrow> cluster" where
  "demo_cluster st cs = \<lparr> cl_clusterId = ''k'', cl_title = '''', cl_toolCallId = ''t'',
     cl_parentConversationId = ''a'', cl_parentMessageId = ''m'', cl_status = st, cl_children = cs,
     cl_aggregatedResult = None, cl_createdAt = 0, cl_finishedAt = None \<rparr>"

theorem restart_settles_running_work_witness:
  "\<exists>c'. rget (clusters (orch_rehydrate 9 (orch_partialize
       (createCluster (demo_cluster Running [demo_child ''c'' Pending]) orch_init)))) ''k'' = Some c'
     \<and> cl_status c' = Cancelled"
proof -
  let ?c = "demo_cluster Running [demo_child ''c'' Pending]"
  have get: "rget (clusters (createCluster ?c orch_init)) ''k'' = Some ?c"
    by (simp add: createCluster_def orch_init_def demo_cluster_def)
  have "cl_status ?c = Running" by (simp add: demo_cluster_def)
  then show ?thesis
    using restart_settles_running_work [of 9 "createCluster ?c orch_init", THEN conjunct2, THEN conjunct2,
        THEN conjunct2, rule_format, OF get] by auto
qed

text \<open>When a tool call reports on a step of a plan, that step takes the reported status and the
  plan's status is inferred from all steps: failed when any failed, otherwise completed exactly
  when every step is completed or skipped, otherwise executing. Other plans are unchanged, and an
  unknown plan changes nothing.\<close>

theorem plan_status_follows_steps:
  fixes s :: orch_state and now :: int and pid sid :: string and st :: plan_step_status
    and summary err :: "string option"
  assumes "rget (plans s) pid = Some p"
  defines "s' \<equiv> syncStepFromToolCall now pid sid st summary err s"
  shows "\<exists>p'. rget (plans s') pid = Some p'
    \<and> map ps_id (plan_steps p') = map ps_id (plan_steps p)
    \<and> (\<forall>x\<in>set (plan_steps p'). ps_id x = sid \<longrightarrow> ps_status x = st)
    \<and> filter (\<lambda>x. ps_id x \<noteq> sid) (plan_steps p') = filter (\<lambda>x. ps_id x \<noteq> sid) (plan_steps p)
    \<and> (plan_status_of p' = PlanFailed \<longleftrightarrow> (\<exists>x\<in>set (plan_steps p'). ps_status x = StepFailed))
    \<and> (plan_status_of p' = PlanCompleted
          \<longleftrightarrow> (\<forall>x\<in>set (plan_steps p'). ps_status x \<in> {StepCompleted, StepSkipped}))
    \<and> plan_status_of p' \<in> {PlanFailed, PlanCompleted, Executing}
    \<and> (\<forall>q. q \<noteq> pid \<longrightarrow> rget (plans s') q = rget (plans s) q)"
proof -
  let ?steps = "map_where (\<lambda>x. ps_id x = sid) (sync_step st summary err) (plan_steps p)"
  let ?p = "p\<lparr>plan_steps := ?steps, plan_status_of := inferred_status ?steps, plan_updatedAt := now\<rparr>"
  have "rget (plans s') pid = Some ?p"
    by (simp add: s'_def syncStepFromToolCall_def store_simps assms(1) Let_def)
  moreover have "map ps_id ?steps = map ps_id (plan_steps p)"
    by (rule map_map_where_id) (simp add: sync_step_def)
  moreover have "\<forall>x\<in>set (map_where (\<lambda>x. ps_id x = sid) (sync_step st summary err) xs). ps_id x = sid \<longrightarrow> ps_status x = st" for xs
    by (induction xs) (simp_all add: sync_step_def)
  moreover have "filter (\<lambda>x. ps_id x \<noteq> sid) (map_where (\<lambda>x. ps_id x = sid) (sync_step st summary err) xs)
      = filter (\<lambda>x. ps_id x \<noteq> sid) xs" for xs
    by (induction xs) (simp_all add: sync_step_def)
  moreover have "inferred_status xs = PlanFailed \<longleftrightarrow> (\<exists>x\<in>set xs. ps_status x = StepFailed)"
    "inferred_status xs = PlanCompleted \<longleftrightarrow> (\<forall>x\<in>set xs. ps_status x \<in> {StepCompleted, StepSkipped})"
    "inferred_status xs \<in> {PlanFailed, PlanCompleted, Executing}" for xs
    by (auto simp: inferred_status_def Let_def list_all_iff list_ex_iff)
  moreover have "\<forall>q. q \<noteq> pid \<longrightarrow> rget (plans s') q = rget (plans s) q"
    by (simp add: s'_def syncStepFromToolCall_def store_simps)
  ultimately show ?thesis by (intro exI [of _ ?p]) simp
qed

definition demo_plan :: plan_data where
  "demo_plan = \<lparr> plan_id = ''p'', plan_title = '''', plan_steps =
     [\<lparr> ps_id = ''s1'', ps_title = '''', ps_status = StepInProgress, ps_toolCallId = None,
        ps_toolName = None, ps_summary = None, ps_error = None \<rparr>],
     plan_status_of = Executing, plan_createdAt = 0, plan_updatedAt = 0 \<rparr>"

theorem plan_status_follows_steps_witness:
  "\<exists>p'. rget (plans (syncStepFromToolCall 3 ''p'' ''s1'' StepFailed None (Some ''boom'')
       (createPlan demo_plan orch_init))) ''p'' = Some p'
     \<and> map ps_id (plan_steps p') = map ps_id (plan_steps demo_plan)"
proof -
  have "rget (plans (createPlan demo_plan orch_init)) ''p'' = Some demo_plan"
    by (simp add: createPlan_def orch_init_def demo_plan_def)
  from plan_status_follows_steps [OF this, of 3 "''s1''" StepFailed None "Some ''boom''"]
  show ?thesis by blast
qed

end
