(* ===== verification/AiRuns.thy ===== *)
theory AiRuns
  imports AiStore
begin

text \<open>
  Runs of the conversation store (\<^bold>\<open>frontend/src/stores/aiStore.ts\<close>): its actions as data, the
  states that sequences of actions reach, the invariant of the conversation tree and the
  correctness of streaming and of the cascading deletion.
\<close>

section \<open>Actions, runs and the invariant\<close>

datatype (plugins only: size) 'snap ai_op =
    ToggleDrawer | OpenDrawer | CloseDrawer
  | CreateConversation "'snap ai_env" string "string option" "string option" "string option"
  | EnsureConversationId "'snap ai_env" string string "string option"
  | SetConversationAgentId int string string
  | SetActiveConversation string
  | RenameConversation int string string
  | AddMessage int string string ai_message
  | UpdateMessage int string string "msg_set list"
  | AppendStreamContent string string string
  | AppendStreamReasoning string string string
  | UpsertStreamToolCall int string string string string string
  | UpdateStreamToolCall int string string string tool_status "string option"
  | UpsertStreamPlan int string string plan_data
  | UpsertStreamUserQuestion int string string question_form
  | UpsertStreamCluster int string string cluster_part
  | UpdateStreamClusterChild int string string string string "child_set list"
  | SetStreamClusterStatus int string string string run_status "string option"
  | SetCurrentProvider string string
  | SetCurrentModelSelectionId "string option"
  | SetCurrentSkillIds "string list"
  | SetIsGenerating bool
  | SetDraftPrompt string
  | ClearDraftPrompt
  | SetContext string "chip list"
  | AddContext string chip
  | RemoveContext string string
  | SetReasoningEffort effort
  | SetConnectedMcpServices "agent_mcp list"
  | ToggleConversationList
  | SetConversationListOpen bool
  | SetConversationListPlacement list_placement
  | SetConversationListWidth int
  | SetConversationModelSelectionId "'snap ai_env" string string
  | SetConversationSkillIds int string "string list"
  | ReplaceConversationMessages int string "ai_message list"
  | PinConversationWorkspace int "string \<Rightarrow> string option" string "string option"
  | AttachTerminalSession int string "string option"
  | PromoteInlineThread "'snap ai_env" string string "ai_message list" string string "string option"
  | CreateSubConversation int string string string string string string nat string
  | SetViewingChildConversation "string option"
  | DeleteConversationCascade string

fun ai_apply :: "'snap ai_op \<Rightarrow> 'snap ai_state \<Rightarrow> 'snap ai_state" where
  "ai_apply ToggleDrawer s = toggleDrawer s"
| "ai_apply OpenDrawer s = openDrawer s"
| "ai_apply CloseDrawer s = closeDrawer s"
| "ai_apply (CreateConversation env i pr mo ag) s = snd (createConversation env i pr mo ag s)"
| "ai_apply (EnsureConversationId env i cid ag) s = snd (ensureConversationId env i cid ag s)"
| "ai_apply (SetConversationAgentId now cid ag) s = setConversationAgentId now cid ag s"
| "ai_apply (SetActiveConversation cid) s = setActiveConversation cid s"
| "ai_apply (RenameConversation now cid t) s = renameConversation now cid t s"
| "ai_apply (AddMessage now i cid m) s = addMessage now i cid m s"
| "ai_apply (UpdateMessage now cid mid us) s = updateMessage now cid mid us s"
| "ai_apply (AppendStreamContent cid mid x) s = appendStreamContent cid mid x s"
| "ai_apply (AppendStreamReasoning cid mid x) s = appendStreamReasoning cid mid x s"
| "ai_apply (UpsertStreamToolCall now cid mid i n a) s = upsertStreamToolCall now cid mid i n a s"
| "ai_apply (UpdateStreamToolCall now cid mid i st r) s = updateStreamToolCall now cid mid i st r s"
| "ai_apply (UpsertStreamPlan now cid mid p) s = upsertStreamPlan now cid mid p s"
| "ai_apply (UpsertStreamUserQuestion now cid mid f) s = upsertStreamUserQuestion now cid mid f s"
| "ai_apply (UpsertStreamCluster now cid mid c) s = upsertStreamCluster now cid mid c s"
| "ai_apply (UpdateStreamClusterChild now cid mid k ch p) s = updateStreamClusterChild now cid mid k ch p s"
| "ai_apply (SetStreamClusterStatus now cid mid k st r) s = setStreamClusterStatus now cid mid k st r s"
| "ai_apply (SetCurrentProvider p m) s = setCurrentProvider p m s"
| "ai_apply (SetCurrentModelSelectionId i) s = setCurrentModelSelectionId i s"
| "ai_apply (SetCurrentSkillIds is) s = setCurrentSkillIds is s"
| "ai_apply (SetIsGenerating b) s = setIsGenerating b s"
| "ai_apply (SetDraftPrompt t) s = setDraftPrompt t s"
| "ai_apply ClearDraftPrompt s = clearDraftPrompt s"
| "ai_apply (SetContext cid cs) s = setContext cid cs s"
| "ai_apply (AddContext cid c) s = addContext cid c s"
| "ai_apply (RemoveContext cid t) s = removeContext cid t s"
| "ai_apply (SetReasoningEffort e) s = setReasoningEffort e s"
| "ai_apply (SetConnectedMcpServices cs) s = setConnectedMcpServices cs s"
| "ai_apply ToggleConversationList s = toggleConversationList s"
| "ai_apply (SetConversationListOpen b) s = setConversationListOpen b s"
| "ai_apply (SetConversationListPlacement p) s = setConversationListPlacement p s"
| "ai_apply (SetConversationListWidth w) s = setConversationListWidth w s"
| "ai_apply (SetConversationModelSelectionId env cid i) s = setConversationModelSelectionId env cid i s"
| "ai_apply (SetConversationSkillIds now cid is) s = setConversationSkillIds now cid is s"
| "ai_apply (ReplaceConversationMessages now cid ms) s = replaceConversationMessages now cid ms s"
| "ai_apply (PinConversationWorkspace now ws cid w) s = pinConversationWorkspace now ws cid w s"
| "ai_apply (AttachTerminalSession now cid t) s = attachTerminalSession now cid t s"
| "ai_apply (PromoteInlineThread env i t ms sid b tgt) s = snd (promoteInlineThread env i t ms sid b tgt s)"
| "ai_apply (CreateSubConversation now i mi p pm k t ix u) s =
     (case createSubConversation now i mi p pm k t ix u s of Inl e \<Rightarrow> s | Inr (_, s') \<Rightarrow> s')"
| "ai_apply (SetViewingChildConversation v) s = setViewingChildConversation v s"
| "ai_apply (DeleteConversationCascade cid) s = deleteConversationCascade cid s"

text \<open>
  What the callers guarantee: a generated identifier is new and not empty, and \<open>updateMessage\<close>
  patches status fields only.
\<close>

definition fresh_id :: "string \<Rightarrow> 'snap ai_state \<Rightarrow> bool" where
  "fresh_id i s = (i \<noteq> '''' \<and> i \<notin> cv_id ` set (conversations s))"

definition ai_allowed :: "'snap ai_op \<Rightarrow> 'snap ai_state \<Rightarrow> bool" where
  "ai_allowed a s =
     (case a of
        CreateConversation env i pr mo ag \<Rightarrow> fresh_id i s
      | EnsureConversationId env i cid ag \<Rightarrow> fresh_id i s
      | PromoteInlineThread env i t ms sid b tgt \<Rightarrow> fresh_id i s
      | CreateSubConversation now i mi p pm k t ix u \<Rightarrow> fresh_id i s
      | UpdateMessage now cid mid us \<Rightarrow> list_all status_field us
      | _ \<Rightarrow> True)"

inductive ai_reach :: "'snap ai_state \<Rightarrow> bool" where
  Start: "ai_reach ai_init"
| Act: "ai_reach s \<Longrightarrow> ai_allowed a s \<Longrightarrow> ai_reach (ai_apply a s)"

section \<open>Every action keeps the conversation tree\<close>

lemma is_sub_new [simp]: "\<not> is_sub (new_conversation env i pr mo ag s)"
  by (simp add: is_sub_def new_conversation_def Let_def)

lemma root_of_new [simp]: "root_of (new_conversation env i pr mo ag s) = i"
  and id_new [simp]: "cv_id (new_conversation env i pr mo ag s) = i"
  and messages_new [simp]: "cv_messages (new_conversation env i pr mo ag s) = []"
  by (simp_all add: root_of_def new_conversation_def Let_def)

lemma find_conv_Some: "find_conv i s = Some c \<Longrightarrow> c \<in> set (conversations s) \<and> cv_id c = i"
  by (auto simp: find_conv_def find_Some_iff)

lemma find_conv_None: "find_conv i s = None \<longleftrightarrow> i \<notin> cv_id ` set (conversations s)"
  by (auto simp: find_conv_def find_None_iff)

lemma ai_inv_id_nonempty: "ai_inv s \<Longrightarrow> c \<in> set (conversations s) \<Longrightarrow> cv_id c \<noteq> ''''"
  by (metis ai_inv_def image_eqI)

lemma ai_inv_prepend:
  assumes "ai_inv s" "fresh_id (cv_id c) s" "\<not> is_sub c" "root_of c = cv_id c"
    and "conversations s' = c # conversations s"
    and "viewingChildConversationId s' = viewingChildConversationId s \<or> viewingChildConversationId s' = None"
  shows "ai_inv s'"
proof -
  have "forest [c] (conversations s)"
    using assms(1) by (auto simp: ai_inv_def intro: forest_mono [of "[]"])
  moreover have "viewing_ok s'"
    using assms by (auto simp: ai_inv_def viewing_ok_def split: option.splits)
  ultimately show ?thesis
    using assms by (auto simp: ai_inv_def fresh_id_def placed_def)
qed

lemma ai_inv_createConversation:
  assumes "ai_inv s" "fresh_id i s"
  shows "ai_inv (snd (createConversation env i pr mo ag s))"
proof -
  have new: "ai_inv (s\<lparr>conversations := new_conversation env i pr mo a s # conversations s,
      activeConversationId := Some i\<rparr>)" for a
    by (rule ai_inv_prepend [OF assms(1), of "new_conversation env i pr mo a s"])
      (use assms(2) in simp_all)
  show ?thesis
    using assms(1) by (auto simp: createConversation_def Let_def new split: option.split)
qed

lemma ai_inv_setActive: "ai_inv s \<Longrightarrow> ai_inv (setActiveConversation cid s)"
  by (rule ai_inv_frame [of _ s]) (simp_all add: setActiveConversation_def Let_def)

lemma ai_inv_ensure:
  assumes "ai_inv s" "fresh_id i s"
  shows "ai_inv (snd (ensureConversationId env i cid ag s))"
proof -
  let ?w = "js_trim cid"
  have new: "ai_inv (s\<lparr>conversations := new_conversation env ?w None None a s # conversations s,
      activeConversationId := Some ?w, viewingChildConversationId := None\<rparr>)"
    if "?w \<noteq> ''''" "find_conv ?w s = None" for a
    by (rule ai_inv_prepend [OF assms(1), of "new_conversation env ?w None None a s"])
      (use that in \<open>simp_all add: fresh_id_def find_conv_None\<close>)
  show ?thesis
    using assms by (auto simp: ensureConversationId_def Let_def ai_inv_createConversation
        ai_inv_setActive new split: option.split)
qed

lemma ai_inv_promote:
  assumes "ai_inv s" "fresh_id i s"
  shows "ai_inv (snd (promoteInlineThread env i t ms sid b tgt s))"
proof -
  have act: "ai_inv (s\<lparr>activeConversationId := tgt\<rparr>)"
    by (rule ai_inv_frame [of _ s]) (use assms(1) in simp_all)
  have "ai_inv (snd (createConversation env i None None (Some ''terminal'') s))"
    using assms by (rule ai_inv_createConversation)
  moreover have "ai_inv s' \<Longrightarrow> ai_inv ((on_conv c f s')\<lparr>activeConversationId := a\<rparr>)"
    if "\<And>c. skel (f c) = skel c" for f c a and s' :: "'a ai_state"
    by (rule ai_inv_frame [of _ "on_conv c f s'"]) (use that in \<open>simp_all add: ai_inv_on_conv\<close>)
  ultimately show ?thesis
    using act assms(1)
    by (auto simp: promoteInlineThread_def Let_def split_beta skel_def intro!: ai_inv_on_conv)
qed

lemma ai_inv_createSub:
  assumes "ai_inv s" "fresh_id i s"
    and "createSubConversation now i mi p pm k t ix u s = Inr (j, s')"
  shows "ai_inv s'"
proof -
  from assms(3) obtain pc where pc: "find_conv p s = Some pc"
    by (cases "find_conv p s") (simp_all add: createSubConversation_def)
  then have p: "pc \<in> set (conversations s)" "cv_id pc = p" by (simp_all add: find_conv_Some)
  with assms(1) have "p \<noteq> ''''" using ai_inv_id_nonempty by blast
  from assms(3) pc obtain c where c: "conversations s' = conversations s @ [c]" "cv_id c = i"
      "cv_parentConversationId c = Some p" "cv_rootConversationId c = Some (root_of pc)"
      "viewingChildConversationId s' = viewingChildConversationId s"
    by (auto simp: createSubConversation_def Let_def)
  have "placed (conversations s) c"
    using p \<open>p \<noteq> ''''\<close> c by (auto simp: placed_def is_sub_def root_of_def intro!: bexI [of _ pc])
  then show ?thesis
    using assms(1,2) c by (auto simp: ai_inv_def fresh_id_def forest_append viewing_ok_def split: option.splits)
qed

lemma ai_inv_viewing: "ai_inv s \<Longrightarrow> ai_inv (setViewingChildConversation v s)"
  by (auto simp: setViewingChildConversation_def ai_inv_def viewing_ok_def is_sub_def
      dest: find_conv_Some split: option.splits)

definition conv_kept :: "string \<Rightarrow> 'snap conversation list \<Rightarrow> 'snap conversation list" where
  "conv_kept r cs = filter (\<lambda>c. cv_id c \<notin> set (desc_close cv_id cv_parentConversationId cs [r])) cs"

interpretation conv_cascade: cascade cv_id cv_parentConversationId conv_kept
  by unfold_locales (simp add: conv_kept_def desc_close_below)

lemma conversations_cascade:
  "conversations (deleteConversationCascade r s) = conv_kept r (conversations s)"
  by (simp add: deleteConversationCascade_def Let_def conv_kept_def)

lemma ai_inv_cascade:
  assumes "ai_inv s"
  shows "ai_inv (deleteConversationCascade r s)"
proof -
  let ?cs = "conversations s"
  have "forest (filter (\<lambda>c. cv_id c \<notin> below cv_id cv_parentConversationId ?cs r) [])
      (filter (\<lambda>c. cv_id c \<notin> below cv_id cv_parentConversationId ?cs r) ?cs)"
  proof (rule forest_filter)
    show "forest [] ?cs" using assms by (simp add: ai_inv_def)
    fix c assume c: "c \<in> set ?cs" "cv_id c \<notin> below cv_id cv_parentConversationId ?cs r" "is_sub c"
    then have "c \<in> set (conv_kept r ?cs)" by (simp add: conv_cascade.kept_filter)
    with c show "\<forall>p. cv_parentConversationId c = Some (cv_id p)
        \<longrightarrow> cv_id p \<notin> below cv_id cv_parentConversationId ?cs r"
      using conv_cascade.kept_no_orphan by (fastforce simp: is_sub_def)
  qed
  moreover have "viewing_ok (deleteConversationCascade r s)"
  proof (cases "viewingChildConversationId s")
    case (Some v)
    then obtain c where c: "c \<in> set ?cs" "cv_id c = v" "is_sub c"
      using assms by (auto simp: ai_inv_def viewing_ok_def)
    then have "v \<noteq> ''''" using assms ai_inv_id_nonempty by blast
    with Some c show ?thesis by (auto simp: viewing_ok_def deleteConversationCascade_def Let_def)
  qed (simp add: viewing_ok_def deleteConversationCascade_def Let_def)
  ultimately show ?thesis
    using assms conv_cascade.distinct_kept [of ?cs r]
    by (auto simp: ai_inv_def conversations_cascade conv_cascade.kept_filter)
qed

lemmas ai_frame_defs =
  setConversationAgentId_def renameConversation_def addMessage_def setContext_def addContext_def
  removeContext_def setConversationSkillIds_def setConversationModelSelectionId_def
  replaceConversationMessages_def pinConversationWorkspace_def attachTerminalSession_def

lemmas ai_plain_defs =
  toggleDrawer_def openDrawer_def closeDrawer_def setCurrentProvider_def setCurrentModelSelectionId_def
  setCurrentSkillIds_def setDraftPrompt_def clearDraftPrompt_def setReasoningEffort_def
  setConnectedMcpServices_def toggleConversationList_def setConversationListOpen_def
  setConversationListPlacement_def setConversationListWidth_def

lemmas ai_part_defs =
  upsertStreamToolCall_def updateStreamToolCall_def upsertStreamPlan_def upsertStreamUserQuestion_def
  upsertStreamCluster_def updateStreamClusterChild_def setStreamClusterStatus_def on_parts_def

lemma ai_inv_step:
  assumes "ai_inv s" "ai_allowed a s"
  shows "ai_inv (ai_apply a s)"
proof (cases a)
  case (CreateSubConversation now i mi p pm k t ix u)
  with assms show ?thesis
    by (auto simp: ai_allowed_def split: sum.split intro: ai_inv_createSub)
next
  case (PinConversationWorkspace now ws cid w)
  have "ai_inv (pinConversationWorkspace now ws cid w s)"
    unfolding pinConversationWorkspace_def
    by (rule ai_inv_on_conv) (simp_all add: skel_def Let_def assms)
  with PinConversationWorkspace show ?thesis by simp
next
  case (AddMessage now i cid m)
  have "ai_inv (addMessage now i cid m s)"
    unfolding addMessage_def Let_def by (rule ai_inv_on_conv) (simp_all add: skel_def assms)
  with AddMessage show ?thesis by simp
next
  case (SetConversationModelSelectionId env cid i)
  have "ai_inv (s\<lparr>currentModelSelectionId := Some i\<rparr>)"
    by (rule ai_inv_frame [of _ s]) (use assms in simp_all)
  with SetConversationModelSelectionId show ?thesis
    by (simp add: setConversationModelSelectionId_def Let_def) (rule ai_inv_on_conv; simp add: skel_def)
next
  case (SetConversationSkillIds now cid ks)
  have "ai_inv (s\<lparr>currentSkillIds := ks\<rparr>)"
    by (rule ai_inv_frame [of _ s]) (use assms in simp_all)
  with SetConversationSkillIds show ?thesis
    by (simp add: setConversationSkillIds_def) (rule ai_inv_on_conv; simp add: skel_def)
next
  case (SetIsGenerating b)
  have "ai_inv (s\<lparr>isGenerating := b\<rparr>)"
    by (rule ai_inv_frame [of _ s]) (use assms in simp_all)
  with SetIsGenerating show ?thesis by (cases b) (simp_all add: setIsGenerating_def Let_def)
qed (use assms in \<open>auto simp: ai_allowed_def ai_inv_createConversation ai_inv_ensure ai_inv_setActive
      ai_inv_promote ai_inv_viewing ai_inv_cascade ai_part_defs updateMessage_def
      appendStreamContent_def appendStreamReasoning_def
      intro!: ai_inv_touch ai_inv_on_message\<close>,
    (simp_all add: ai_frame_defs Let_def)?,
    ((rule ai_inv_on_conv; simp add: skel_def; fail)
      | (rule ai_inv_frame [of _ s]; simp add: ai_plain_defs; fail))+)

section \<open>Every action keeps the messages coherent\<close>

lemma messages_coherent_create:
  "messages_coherent s \<Longrightarrow> messages_coherent (snd (createConversation env i pr mo ag s))"
  by (auto simp: createConversation_def Let_def messages_coherent_def split: option.split)

lemma messages_coherent_setActive:
  "messages_coherent s \<Longrightarrow> messages_coherent (setActiveConversation cid s)"
  by (rule messages_coherent_same [of _ s]) (simp_all add: setActiveConversation_def Let_def)

lemma messages_coherent_ensure:
  "messages_coherent s \<Longrightarrow> messages_coherent (snd (ensureConversationId env i cid ag s))"
  by (auto simp: ensureConversationId_def Let_def messages_coherent_create messages_coherent_setActive
      split: option.split) (simp_all add: messages_coherent_def)

lemma messages_coherent_promote:
  assumes "messages_coherent s"
  shows "messages_coherent (snd (promoteInlineThread env i t ms sid b tgt s))"
proof -
  have on: "messages_coherent ((on_conv c f s')\<lparr>activeConversationId := a\<rparr>)"
    if "messages_coherent s'" "\<And>c m. m \<in> set (cv_messages (f c)) \<Longrightarrow> m \<in> set (cv_messages c) \<or> coherent m"
    for c f a and s' :: "'a ai_state"
    by (rule messages_coherent_same [of _ "on_conv c f s'"]) (use that in \<open>auto intro: messages_coherent_on_conv\<close>)
  have create: "messages_coherent (snd (createConversation env i None None (Some ''terminal'') s))"
    using assms by (rule messages_coherent_create)
  show ?thesis
    by (auto simp: promoteInlineThread_def Let_def split_beta coherent_normalize
        intro!: on messages_coherent_on_conv create assms)
qed

lemma messages_coherent_createSub:
  "messages_coherent s \<Longrightarrow> createSubConversation now i mi p pm k t ix u s = Inr (j, s') \<Longrightarrow> messages_coherent s'"
  by (auto simp: createSubConversation_def Let_def messages_coherent_def coherent_normalize
      split: option.splits if_splits)

lemma messages_coherent_cascade: "messages_coherent s \<Longrightarrow> messages_coherent (deleteConversationCascade r s)"
  by (auto simp: messages_coherent_def deleteConversationCascade_def Let_def)

lemma messages_coherent_sync [simp]: "messages_coherent (schedule_sync b ids s) = messages_coherent s"
  by (simp add: messages_coherent_def)

lemma messages_coherent_viewing: "messages_coherent s \<Longrightarrow> messages_coherent (setViewingChildConversation v s)"
  by (rule messages_coherent_same [of _ s])
    (auto simp: setViewingChildConversation_def split: option.split)

lemma messages_coherent_field [simp]:
  "messages_coherent (s\<lparr>currentModelSelectionId := x\<rparr>) = messages_coherent s"
  "messages_coherent (s\<lparr>currentSkillIds := y\<rparr>) = messages_coherent s"
  "messages_coherent (s\<lparr>isGenerating := z\<rparr>) = messages_coherent s"
  by (simp_all add: messages_coherent_def)

lemma messages_coherent_step:
  assumes "messages_coherent s" "ai_allowed a s"
  shows "messages_coherent (ai_apply a s)"
proof (cases a)
  case (CreateSubConversation now i mi p pm k t ix u)
  with assms show ?thesis
    by (auto split: sum.split intro: messages_coherent_createSub)
next
  case (UpdateMessage now cid mid us)
  with assms(2) have us: "list_all status_field us" by (simp add: ai_allowed_def)
  then have "messages_coherent (updateMessage now cid mid us s)"
    by (auto simp: updateMessage_def patch_parts_status coherent_fold_status
        intro!: messages_coherent_touch messages_coherent_on_message assms(1))
  with UpdateMessage show ?thesis by simp
next
  case (PinConversationWorkspace now ws cid w)
  have "messages_coherent (pinConversationWorkspace now ws cid w s)"
    unfolding pinConversationWorkspace_def
    by (rule messages_coherent_on_conv [OF assms(1)]) (simp add: Let_def)
  with PinConversationWorkspace show ?thesis by simp
next
  case (SetIsGenerating b)
  with assms(1) show ?thesis by (simp add: setIsGenerating_def Let_def)
next
  case (AddMessage now i cid m)
  have "messages_coherent (addMessage now i cid m s)"
    unfolding addMessage_def Let_def
    by (rule messages_coherent_on_conv [OF assms(1)]) (auto simp: coherent_normalize)
  with AddMessage show ?thesis by simp
next
  case (ReplaceConversationMessages now cid ms)
  have "messages_coherent (replaceConversationMessages now cid ms s)"
    unfolding replaceConversationMessages_def
    by (rule messages_coherent_on_conv [OF assms(1)]) (auto simp: coherent_normalize)
  with ReplaceConversationMessages show ?thesis by simp
qed (use assms(1) in \<open>auto simp: messages_coherent_create messages_coherent_ensure
      messages_coherent_setActive messages_coherent_promote messages_coherent_viewing
      messages_coherent_cascade ai_part_defs coherent_withUpdatedParts
      appendStreamContent_def appendStreamReasoning_def
      intro!: messages_coherent_touch messages_coherent_on_message\<close>,
    (simp_all add: ai_frame_defs Let_def)?,
    ((rule messages_coherent_on_conv; auto split: if_splits; fail)
      | (rule messages_coherent_same [of _ s]; simp add: ai_plain_defs; fail))+)

lemma ai_reach_inv: "ai_reach s \<Longrightarrow> ai_inv s"
proof (induction rule: ai_reach.induct)
  case Start
  show ?case by (simp add: ai_inv_def ai_init_def viewing_ok_def)
qed (rule ai_inv_step)

lemma ai_reach_coherent: "ai_reach s \<Longrightarrow> messages_coherent s"
proof (induction rule: ai_reach.induct)
  case Start
  show ?case by (simp add: messages_coherent_def ai_init_def)
qed (rule messages_coherent_step)

section \<open>The tree of a root conversation\<close>

abbreviation conv_below :: "'snap conversation list \<Rightarrow> string \<Rightarrow> string set" where
  "conv_below \<equiv> below cv_id cv_parentConversationId"

lemma forest_placed: "forest seen cs \<Longrightarrow> c \<in> set cs \<Longrightarrow> placed (seen @ cs) c"
proof (induction cs arbitrary: seen)
  case (Cons d cs)
  show ?case
  proof (cases "c = d")
    case True
    with Cons.prems show ?thesis by (auto intro: placed_mono [of seen])
  next
    case False
    with Cons.IH [of "seen @ [d]"] Cons.prems show ?thesis by simp
  qed
qed simp

lemma forest_reaches_root:
  assumes "forest seen cs" "set cs \<subseteq> set all" "\<forall>p\<in>set all. cv_id p \<noteq> ''''"
    and "\<And>p. p \<in> set seen \<Longrightarrow> p \<in> set all \<and> cv_id p \<in> conv_below all (root_of p)"
    and "c \<in> set cs"
  shows "cv_id c \<in> conv_below all (root_of c)"
  using assms
proof (induction cs arbitrary: seen)
  case (Cons d cs)
  have d: "cv_id d \<in> conv_below all (root_of d)"
  proof (cases "is_sub d")
    case True
    with Cons.prems(1) obtain p where p: "p \<in> set seen" "cv_parentConversationId d = Some (cv_id p)"
        "root_of d = root_of p"
      by (auto simp: placed_def)
    have "(cv_id p, cv_id d) \<in> desc_edges cv_id cv_parentConversationId all"
      using Cons.prems(2,3,4) p(1,2) by (auto simp: desc_edges_def)
    with Cons.prems(4) [OF p(1)] p(3) show ?thesis
      by (auto simp: below_def intro: rtrancl_into_rtrancl)
  qed (use Cons.prems(1) in \<open>simp add: placed_def below_def\<close>)
  show ?case
  proof (cases "c = d")
    case False
    show ?thesis
      by (rule Cons.IH [of "seen @ [d]"]) (use Cons.prems False d in auto)
  qed (use d in simp)
qed simp

lemma below_has_root:
  assumes inv: "ai_inv s" and r: "r \<in> set (conversations s)" "\<not> is_sub r"
    and x: "x \<in> conv_below (conversations s) (cv_id r)"
    and d: "d \<in> set (conversations s)" "cv_id d = x"
  shows "root_of d = cv_id r"
proof -
  have uniq: "a = b" if "a \<in> set (conversations s)" "b \<in> set (conversations s)" "cv_id a = cv_id b" for a b
    using inv that by (auto simp: ai_inv_def distinct_map dest: inj_onD)
  have placed: "placed (conversations s) a" if "a \<in> set (conversations s)" for a
    using inv that forest_placed [of "[]" "conversations s" a] by (simp add: ai_inv_def)
  have "(cv_id r, x) \<in> (desc_edges cv_id cv_parentConversationId (conversations s))\<^sup>*"
    using x by (simp add: below_def)
  then show ?thesis using d
  proof (induction arbitrary: d rule: rtrancl_induct)
    case base
    with uniq r(1) have "d = r" by metis
    with placed [OF r(1)] r(2) show ?case by (simp add: placed_def)
  next
    case (step p x)
    then obtain e where e: "e \<in> set (conversations s)" "cv_parentConversationId e = Some p" "p \<noteq> ''''" "cv_id e = x"
      by (auto simp: desc_edges_def)
    with step.prems uniq have "d = e" by metis
    with e placed [OF e(1)] obtain q where "q \<in> set (conversations s)" "cv_id q = p" "root_of d = root_of q"
      by (auto simp: placed_def is_sub_def)
    with step.IH show ?case by metis
  qed
qed

lemma below_iff_root:
  assumes inv: "ai_inv s" and r: "r \<in> set (conversations s)" "\<not> is_sub r"
    and d: "d \<in> set (conversations s)"
  shows "cv_id d \<in> conv_below (conversations s) (cv_id r) \<longleftrightarrow> root_of d = cv_id r"
proof
  assume "root_of d = cv_id r"
  moreover have "cv_id d \<in> conv_below (conversations s) (root_of d)"
  proof (rule forest_reaches_root [of "[]"])
    show "forest [] (conversations s)" using inv by (simp add: ai_inv_def)
    show "\<forall>p\<in>set (conversations s). cv_id p \<noteq> ''''" using ai_inv_id_nonempty [OF inv] by blast
  qed (use d in simp_all)
  ultimately show "cv_id d \<in> conv_below (conversations s) (cv_id r)" by simp
qed (use below_has_root [OF inv r _ d refl] in simp)

section \<open>Properties\<close>

text \<open>A small store: a root conversation, a sub-conversation of it, one of that, and another root.\<close>

definition demo_env :: "unit ai_env" where
  "demo_env = \<lparr> env_now = 5, env_snapshot = (), env_resourceName = None, env_settingsSelection = None,
     env_scenario = (\<lambda>x. x), env_parse = (\<lambda>_. None), env_resolve = (\<lambda>_. None) \<rparr>"

definition demo_ops :: "unit ai_op list" where
  "demo_ops = [EnsureConversationId demo_env ''x'' ''a'' None, EnsureConversationId demo_env ''x'' ''b'' None,
     CreateSubConversation 6 ''c'' ''m1'' ''a'' ''m0'' ''k'' ''sub'' 0 ''hello'',
     CreateSubConversation 7 ''d'' ''m2'' ''c'' ''m1'' ''k'' ''subsub'' 0 '''',
     SetViewingChildConversation (Some ''d''), SetActiveConversation ''d'',
     SetViewingChildConversation (Some ''d'')]"

definition demo_state :: "unit ai_state" where
  "demo_state = fold ai_apply demo_ops ai_init"

lemmas demo_eval_defs =
  demo_state_def demo_ops_def ai_init_def ensureConversationId_def createConversation_def find_conv_def
  schedule_sync_def createSubConversation_def setViewingChildConversation_def setActiveConversation_def
  js_trim_def trim_start_def trim_end_def js_ws_def ai_allowed_def fresh_id_def

lemma demo_reach: "ai_reach demo_state"
proof -
  have run: "ai_reach s \<Longrightarrow> (\<And>i. i < length as \<Longrightarrow> ai_allowed (as ! i) (fold ai_apply (take i as) s))
      \<Longrightarrow> ai_reach (fold ai_apply as s)" for as and s :: "unit ai_state"
  proof (induction as arbitrary: s)
    case (Cons a as)
    have "ai_reach (ai_apply a s)" using Cons.prems(2) [of 0] Cons.prems(1) by (simp add: ai_reach.Act)
    moreover have "ai_allowed (as ! i) (fold ai_apply (take i as) (ai_apply a s))" if "i < length as" for i
      using Cons.prems(2) [of "Suc i"] that by simp
    ultimately show ?case using Cons.IH by simp
  qed simp
  show ?thesis unfolding demo_state_def
    by (rule run [OF ai_reach.Start])
      (auto simp: demo_eval_defs less_Suc_eq numeral_eq_Suc Let_def)
qed

lemma demo_skel: "map skel (conversations demo_state) =
    [(''b'', None, None), (''a'', None, None), (''c'', Some ''a'', Some ''a''), (''d'', Some ''c'', Some ''a'')]"
  "viewingChildConversationId demo_state = Some ''d''" "activeConversationId demo_state = Some ''d''"
  by (simp_all add: demo_eval_defs Let_def skel_def new_conversation_def demo_env_def root_of_def)

lemma demo_root:
  "\<exists>c\<in>set (conversations demo_state). cv_id c = ''a'' \<and> \<not> is_sub c"
proof -
  have "(''a'', None, None) \<in> set (map skel (conversations demo_state))" by (simp add: demo_skel)
  then show ?thesis by (auto simp: skel_def is_sub_def)
qed



text \<open>(C19) Deleting a root conversation removes its whole tree and nothing else: exactly the
  conversations whose root identifier is the deleted one disappear, the others keep their order
  and content, and the identifiers recorded as deleted for the other devices are exactly those
  of the removed conversations, each once.\<close>

theorem delete_root_removes_its_tree:
  assumes "ai_reach s" "r \<in> set (conversations s)" "\<not> is_sub r"
  shows "conversations (deleteConversationCascade (cv_id r) s)
           = filter (\<lambda>c. root_of c \<noteq> cv_id r) (conversations s)
    \<and> (\<exists>ids. synced (deleteConversationCascade (cv_id r) s) = synced s @ [Sync True ids] \<and> distinct ids
          \<and> set ids = cv_id ` {c \<in> set (conversations s). root_of c = cv_id r})"
proof
  let ?ids = "desc_close cv_id cv_parentConversationId (conversations s) [cv_id r]"
  note iff = below_iff_root [OF ai_reach_inv [OF assms(1)] assms(2,3)]
  show "conversations (deleteConversationCascade (cv_id r) s)
      = filter (\<lambda>c. root_of c \<noteq> cv_id r) (conversations s)"
    by (auto simp: conversations_cascade conv_cascade.kept_filter iff intro: filter_cong)
  have "set ?ids \<subseteq> cv_id ` set (conversations s)"
  proof -
    have "(cv_id r, x) \<in> (desc_edges cv_id cv_parentConversationId (conversations s))\<^sup>*
        \<Longrightarrow> x \<in> cv_id ` set (conversations s)" for x
      by (erule rtranclE) (use assms(2) in \<open>auto simp: desc_edges_def\<close>)
    then show ?thesis by (auto simp: desc_close_below below_def)
  qed
  then have "set ?ids = cv_id ` {c \<in> set (conversations s). root_of c = cv_id r}"
    using iff by (auto simp: desc_close_below)
  then show "\<exists>ids. synced (deleteConversationCascade (cv_id r) s) = synced s @ [Sync True ids] \<and> distinct ids
      \<and> set ids = cv_id ` {c \<in> set (conversations s). root_of c = cv_id r}"
    by (intro exI [of _ ?ids]) (simp add: deleteConversationCascade_def Let_def schedule_sync_def desc_close_distinct)
qed

theorem delete_root_removes_its_tree_witness:
  "\<exists>r\<in>set (conversations demo_state). conversations (deleteConversationCascade (cv_id r) demo_state)
     = filter (\<lambda>c. root_of c \<noteq> cv_id r) (conversations demo_state)"
  using demo_root delete_root_removes_its_tree [OF demo_reach] by blast

text \<open>Whatever conversation is deleted with the cascade (root, sub-conversation or unknown),
  the subtree below it is what goes, and neither the active nor the viewed conversation is a
  deleted one afterwards: the active one falls back to the first remaining root conversation or
  to none, and the view of a deleted sub-conversation closes.\<close>

theorem cascade_leaves_no_dangling_selection:
  fixes s :: "'snap ai_state" and cid :: string
  assumes "activeConversationId s \<noteq> Some ''''" "viewingChildConversationId s \<noteq> Some ''''"
  defines "s' \<equiv> deleteConversationCascade cid s"
  shows "conversations s' = filter (\<lambda>c. cv_id c \<notin> conv_below (conversations s) cid) (conversations s)
    \<and> (\<forall>x \<in> conv_below (conversations s) cid.
          activeConversationId s' \<noteq> Some x \<and> viewingChildConversationId s' \<noteq> Some x)
    \<and> (activeConversationId s' = activeConversationId s \<or> activeConversationId s' = None
        \<or> (\<exists>c\<in>set (conversations s'). \<not> is_sub c \<and> activeConversationId s' = Some (cv_id c)))"
proof (intro conjI)
  show "conversations s' = filter (\<lambda>c. cv_id c \<notin> conv_below (conversations s) cid) (conversations s)"
    by (simp add: s'_def conversations_cascade conv_cascade.kept_filter)
  show "\<forall>x \<in> conv_below (conversations s) cid.
          activeConversationId s' \<noteq> Some x \<and> viewingChildConversationId s' \<noteq> Some x"
    using assms(1,2)
    by (auto simp: s'_def deleteConversationCascade_def Let_def desc_close_below truthy_iff
        dest!: find_SomeD split: if_splits)
  show "activeConversationId s' = activeConversationId s \<or> activeConversationId s' = None
        \<or> (\<exists>c\<in>set (conversations s'). \<not> is_sub c \<and> activeConversationId s' = Some (cv_id c))"
  proof (cases "activeConversationId s' = activeConversationId s")
    case False
    then have "activeConversationId s'
        = map_option cv_id (find (\<lambda>c. \<not> truthy (cv_parentConversationId c)) (conversations s'))"
      by (auto simp: s'_def deleteConversationCascade_def Let_def split: if_splits)
    then show ?thesis
      by (cases "find (\<lambda>c. \<not> truthy (cv_parentConversationId c)) (conversations s')")
         (auto simp: is_sub_def dest: find_SomeD)
  qed simp
qed

theorem cascade_leaves_no_dangling_selection_witness:
  "viewingChildConversationId (deleteConversationCascade ''c'' demo_state) \<noteq> Some ''c''"
  using cascade_leaves_no_dangling_selection [of demo_state "''c''"]
  by (simp add: demo_skel below_def)

text \<open>Streaming loses nothing in the store: after the text and reasoning deltas of a run are
  delivered, in any interleaving, to a message of the store, its content is the old content
  followed by all text deltas, its reasoning the old reasoning followed by all reasoning deltas
  (absent when empty), its tool calls are unchanged, and every other message and
  conversation is exactly as before.\<close>

theorem streaming_delivers_every_delta:
  assumes "ai_reach s" "c \<in> set (conversations s)" "cv_id c = cid"
    and "m \<in> set (cv_messages c)" "m_id m = mid"
  shows "fold (stream_delta cid mid) ds s
           = s\<lparr>conversations := message_map cid mid (fold delta_message ds) (conversations s)\<rparr>
    \<and> m_content (fold delta_message ds m) = m_content m @ stream_text KText ds
    \<and> (case m_reasoningContent (fold delta_message ds m) of None \<Rightarrow> '''' | Some r \<Rightarrow> r)
        = (case m_reasoningContent m of None \<Rightarrow> '''' | Some r \<Rightarrow> r) @ stream_text KReasoning ds
    \<and> m_toolCalls (fold delta_message ds m) = m_toolCalls m"
proof -
  have "coherent m" using ai_reach_coherent [OF assms(1)] assms by (simp add: messages_coherent_def)
  then obtain ps where ps: "m_parts m = Some ps" "with_compat ps m = m"
    by (auto simp: coherent_def split: option.splits)
  have after: "with_compat (stream_parts ds ps) (fold delta_message ds m) = fold delta_message ds m"
    using fold_delta_message [OF ps] by simp
  show ?thesis
    unfolding stream_deltas_message_map compat_fields [OF after] compat_fields [OF ps(2)]
    by (simp add: deriveCompatFields_def stream_parts_fields)
qed

theorem streaming_delivers_every_delta_witness:
  "\<exists>c\<in>set (conversations demo_state). \<exists>m\<in>set (cv_messages c).
     m_content (fold delta_message [(KReasoning, ''r''), (KText, ''x'')] m) = m_content m @ ''x''"
proof -
  have "(''c'', [''m1'']) \<in> set (map (\<lambda>c. (cv_id c, map m_id (cv_messages c))) (conversations demo_state))"
    by (simp add: demo_eval_defs Let_def new_conversation_def demo_env_def normalizeAiMessage_def with_compat_def)
  then obtain c m where "c \<in> set (conversations demo_state)" "cv_id c = ''c''" "m \<in> set (cv_messages c)" "m_id m = ''m1''"
    by (auto simp: map_eq_Cons_conv)
  with streaming_delivers_every_delta [OF demo_reach, of c "''c''" m "''m1''" "[(KReasoning, ''r''), (KText, ''x'')]"]
  show ?thesis by (intro bexI [of _ c] bexI [of _ m]) simp_all
qed

text \<open>The flat fields that the rest of the program reads (content, reasoning, tool calls) never
  drift from the ordered parts: in every reachable state each message's flat fields are the
  ones derived from its parts.\<close>

theorem flat_fields_never_drift:
  assumes "ai_reach s" "c \<in> set (conversations s)" "m \<in> set (cv_messages c)"
  shows "\<exists>ps. m_parts m = Some ps \<and> m_content m = content_of ps
    \<and> (case m_reasoningContent m of None \<Rightarrow> '''' | Some r \<Rightarrow> r) = reasoning_of ps
    \<and> (case m_toolCalls m of None \<Rightarrow> [] | Some ts \<Rightarrow> ts) = tools_of ps"
proof -
  have "coherent m" using ai_reach_coherent [OF assms(1)] assms by (simp add: messages_coherent_def)
  then obtain ps where ps: "m_parts m = Some ps" "with_compat ps m = m"
    by (auto simp: coherent_def split: option.splits)
  show ?thesis
    by (intro exI [of _ ps]) (simp add: ps(1) compat_fields [OF ps(2)] deriveCompatFields_def)
qed

theorem flat_fields_never_drift_witness:
  "\<exists>c\<in>set (conversations demo_state). \<exists>m\<in>set (cv_messages c). \<exists>ps. m_parts m = Some ps \<and> m_content m = content_of ps"
proof -
  have "(''c'', [''m1'']) \<in> set (map (\<lambda>c. (cv_id c, map m_id (cv_messages c))) (conversations demo_state))"
    by (simp add: demo_eval_defs Let_def new_conversation_def demo_env_def normalizeAiMessage_def with_compat_def)
  then obtain c m where "c \<in> set (conversations demo_state)" "m \<in> set (cv_messages c)"
    by (auto simp: map_eq_Cons_conv)
  with flat_fields_never_drift [OF demo_reach, of c m] show ?thesis by blast
qed

lemma rename_agent_simps [simp]:
  "cv_agentId (rename_agent a b c) = (if cv_agentId c = Some a then Some b else cv_agentId c)"
  "cv_id (rename_agent a b c) = cv_id c"
  "cv_parentConversationId (rename_agent a b c) = cv_parentConversationId c"
  by (simp_all add: rename_agent_def)

lemma infer_agent_simps [simp]:
  "isAgentId (cv_agentId (infer_agent c))"
  "cv_id (infer_agent c) = cv_id c"
  "cv_parentConversationId (infer_agent c) = cv_parentConversationId c"
  by (simp_all add: infer_agent_def isAgentId_def ASSISTANT_PAGE_AGENT_ID_def ids_registered)

lemma isAgentId_targets [simp]: "isAgentId (Some ''terminal'')" "isAgentId (Some ''plan'')"
  by (simp_all add: isAgentId_def ids_registered)

text \<open>What one persisted conversation becomes.\<close>

definition migrate_conv :: "nat \<Rightarrow> 'snap conversation \<Rightarrow> 'snap conversation" where
  "migrate_conv v c =
     (let c = (if v < 2 then c\<lparr>cv_messages := map normalizeAiMessage (cv_messages c)\<rparr> else c);
          c = (if v < 4 then infer_agent c else c);
          c = (if v < 5 then rename_agent ''ssh'' ''terminal'' c else c);
          c = (if v < 6 then rename_agent ''chat'' ''plan'' c else c)
      in if v < 7 \<and> cv_parentConversationId c = None then c\<lparr>cv_rootConversationId := Some (cv_id c)\<rparr> else c)"

lemma migrate_convs: "p_conversations (migrate v p) = map_option (map (migrate_conv v)) (p_conversations p)"
proof (cases "v < 7")
  case True
  then show ?thesis
    by (cases "p_conversations p") (auto simp: migrate_def migrate_conv_def on_convs_def Let_def)
next
  case False
  then have "migrate_conv v = (\<lambda>c. c :: 'a conversation)" by (simp add: migrate_conv_def fun_eq_iff)
  with False show ?thesis by (simp add: migrate_def option.map_ident)
qed

text \<open>Loading a conversation list saved by any earlier version gives conversations that are all
  bound to a registered agent (a retired one is replaced by its successor, a missing one by the
  agent its origin implies), keeps their identifiers and order, and, before version 7, makes
  every conversation without a parent its own root and closes the sub-conversation view.\<close>

theorem migration_yields_valid_conversations:
  assumes "p_conversations p = Some cs"
    and "\<And>c. c \<in> set cs \<Longrightarrow> v \<ge> 4 \<Longrightarrow> isAgentId (cv_agentId c)
           \<or> (v < 5 \<and> cv_agentId c = Some ''ssh'') \<or> (v < 6 \<and> cv_agentId c = Some ''chat'')"
  shows "\<exists>cs'. p_conversations (migrate v p) = Some cs' \<and> map cv_id cs' = map cv_id cs
    \<and> list_all (\<lambda>c. isAgentId (cv_agentId c)) cs'
    \<and> (v < 7 \<longrightarrow> p_viewingChildConversationId (migrate v p) = None
        \<and> list_all (\<lambda>c. cv_parentConversationId c = None \<longrightarrow> root_of c = cv_id c) cs')"
proof (intro exI conjI impI)
  show "p_conversations (migrate v p) = Some (map (migrate_conv v) cs)"
    by (simp add: migrate_convs assms(1))
  show "map cv_id (map (migrate_conv v) cs) = map cv_id cs"
    by (simp add: migrate_conv_def Let_def)
  have "isAgentId (cv_agentId (migrate_conv v c))" if "c \<in> set cs" for c
    using assms(2) [OF that] by (cases "v < 4") (auto simp: migrate_conv_def Let_def)
  then show "list_all (\<lambda>c. isAgentId (cv_agentId c)) (map (migrate_conv v) cs)"
    by (auto simp: list_all_iff)
  assume "v < 7"
  then show "p_viewingChildConversationId (migrate v p) = None"
    using assms(1) by (simp add: migrate_def on_convs_def Let_def)
  from \<open>v < 7\<close> show "list_all (\<lambda>c. cv_parentConversationId c = None \<longrightarrow> root_of c = cv_id c) (map (migrate_conv v) cs)"
    by (auto simp: list_all_iff migrate_conv_def Let_def root_of_def)
qed

theorem migration_yields_valid_conversations_witness:
  "\<exists>cs'. p_conversations (migrate 0 (partialize demo_state)) = Some cs'
     \<and> map cv_id cs' = [''b'', ''a'', ''c'', ''d'']"
proof -
  have "map cv_id (conversations demo_state) = [''b'', ''a'', ''c'', ''d'']"
    by (simp only: ids_of_skel demo_skel) simp
  then show ?thesis
    using migration_yields_valid_conversations [of "partialize demo_state" "conversations demo_state" 0]
    by (auto simp: partialize_def)
qed

text \<open>The non-cascading \<open>deleteConversation\<close> does not keep the tree: deleting the parent of the
  viewed sub-conversation's tree leaves sub-conversations whose parent no longer exists, and
  deleting the viewed sub-conversation itself leaves the view on a conversation that is gone.\<close>

theorem plain_delete_breaks_the_forest:
  "ai_reach demo_state
   \<and> \<not> forest [] (conversations (deleteConversation ''a'' demo_state))
   \<and> \<not> viewing_ok (deleteConversation ''d'' demo_state)"
proof (intro conjI)
  show "ai_reach demo_state" by (rule demo_reach)
  let ?keep = "\<lambda>t :: string \<times> string option \<times> string option. fst t \<noteq> ''a''"
  have "map skel (conversations (deleteConversation ''a'' demo_state))
      = filter ?keep (map skel (conversations demo_state))"
    by (simp add: deleteConversation_def Let_def filter_map comp_def skel_def)
  then have sk: "map skel (conversations (deleteConversation ''a'' demo_state))
      = [(''b'', None, None), (''c'', Some ''a'', Some ''a''), (''d'', Some ''c'', Some ''a'')]"
    by (simp add: demo_skel)
  then obtain b c d where cs: "conversations (deleteConversation ''a'' demo_state) = [b, c, d]"
    by (auto simp: map_eq_Cons_conv)
  with sk show "\<not> forest [] (conversations (deleteConversation ''a'' demo_state))"
    by (simp add: skel_def placed_def is_sub_def)
  show "\<not> viewing_ok (deleteConversation ''d'' demo_state)"
    by (auto simp: viewing_ok_def deleteConversation_def Let_def demo_skel)
qed

end
