(* ===== verification/ClusterRun.thy ===== *)
theory ClusterRun
  imports Orchestration AiRuns
begin

text \<open>
  \<^bold>\<open>frontend/src/lib/ai/orchestration/clusterCancellation.ts\<close> and the parts of
  \<^bold>\<open>subConversationRunner.ts\<close> that create a cluster and drive its children: the abort controllers
  with their links, cancellation from a cluster, a child or a conversation, the inference of a
  cluster's final status, and the worker pool. An \<open>AbortController\<close> is an address of \<open>w_aborted\<close>;
  a link is a listener that aborts the second controller when the first aborts. The calls of
  \<open>commands.aiChatCancel\<close> are logged in \<open>w_backend\<close>.
\<close>

section \<open>World\<close>

record 'snap world =
  w_ai :: "'snap ai_state"
  w_orch :: orch_state
  w_clusterCtl :: "nat jrec"
  w_childCtl :: "nat jrec"
  w_aborted :: "bool list"
  w_links :: "(nat \<times> nat) list"
  w_backend :: "string list"

definition new_controller :: "'snap world \<Rightarrow> nat \<times> 'snap world" where
  "new_controller w = (length (w_aborted w), w\<lparr>w_aborted := w_aborted w @ [False]\<rparr>)"

definition is_aborted :: "'snap world \<Rightarrow> nat \<Rightarrow> bool" where
  "is_aborted w a = (a < length (w_aborted w) \<and> w_aborted w ! a)"

text \<open>\<open>controller.abort()\<close>: sets the signal and runs its listeners, which abort linked controllers.\<close>

definition abort_controller :: "nat \<Rightarrow> 'snap world \<Rightarrow> 'snap world" where
  "abort_controller a w =
     w\<lparr>w_aborted := map (\<lambda>i. w_aborted w ! i \<or> i = a \<or> (a, i) \<in> set (w_links w)) [0..<length (w_aborted w)]\<rparr>"

definition getClusterAbortController :: "string \<Rightarrow> 'snap world \<Rightarrow> nat \<times> 'snap world" where
  "getClusterAbortController clusterId w =
     (case rget (w_clusterCtl w) clusterId of
        Some a \<Rightarrow> (a, w)
      | None \<Rightarrow> (let (a, w) = new_controller w in
                  (a, w\<lparr>w_clusterCtl := rput clusterId a (w_clusterCtl w)\<rparr>)))"

definition getChildAbortController :: "string \<Rightarrow> string \<Rightarrow> 'snap world \<Rightarrow> nat \<times> 'snap world" where
  "getChildAbortController clusterId child w =
     (case rget (w_childCtl w) child of
        Some a \<Rightarrow> (a, w)
      | None \<Rightarrow>
          (let (a, w) = new_controller w;
               (k, w) = getClusterAbortController clusterId w;
               w = (if is_aborted w k then abort_controller a w
                    else w\<lparr>w_links := (k, a) # w_links w\<rparr>)
           in (a, w\<lparr>w_childCtl := rput child a (w_childCtl w)\<rparr>)))"

definition cleanupClusterAbortController :: "string \<Rightarrow> 'snap world \<Rightarrow> 'snap world" where
  "cleanupClusterAbortController clusterId w = w\<lparr>w_clusterCtl := rdel clusterId (w_clusterCtl w)\<rparr>"

definition cleanupChildAbortController :: "string \<Rightarrow> 'snap world \<Rightarrow> 'snap world" where
  "cleanupChildAbortController child w = w\<lparr>w_childCtl := rdel child (w_childCtl w)\<rparr>"

section \<open>Cancellation\<close>

text \<open>\<open>if (controller && !controller.signal.aborted) controller.abort()\<close>.\<close>

definition abort_if :: "nat option \<Rightarrow> 'snap world \<Rightarrow> 'snap world" where
  "abort_if c w = (case c of None \<Rightarrow> w | Some a \<Rightarrow> if is_aborted w a then w else abort_controller a w)"

definition cancel_backend :: "string \<Rightarrow> 'snap world \<Rightarrow> 'snap world" where
  "cancel_backend child w = w\<lparr>w_backend := w_backend w @ [child]\<rparr>"

definition on_orch :: "(orch_state \<Rightarrow> orch_state) \<Rightarrow> 'snap world \<Rightarrow> 'snap world" where
  "on_orch f w = w\<lparr>w_orch := f (w_orch w)\<rparr>"

definition on_ai :: "('snap ai_state \<Rightarrow> 'snap ai_state) \<Rightarrow> 'snap world \<Rightarrow> 'snap world" where
  "on_ai f w = w\<lparr>w_ai := f (w_ai w)\<rparr>"

text \<open>Synchronise to the parent message, when the cluster names one.\<close>

definition on_parent :: "cluster \<Rightarrow> (string \<Rightarrow> string \<Rightarrow> 'snap ai_state \<Rightarrow> 'snap ai_state) \<Rightarrow> 'snap world \<Rightarrow> 'snap world" where
  "on_parent c f w =
     (if cl_parentConversationId c \<noteq> '''' \<and> cl_parentMessageId c \<noteq> ''''
      then on_ai (f (cl_parentConversationId c) (cl_parentMessageId c)) w else w)"

definition cancel_patch :: "int \<Rightarrow> child_set list" where
  "cancel_patch now = [ChStatus Cancelled, ChFinishedAt (Some now)]"

definition cancelCluster :: "int \<Rightarrow> string \<Rightarrow> 'snap world \<Rightarrow> 'snap world" where
  "cancelCluster now clusterId w =
     (case rget (clusters (w_orch w)) clusterId of
        None \<Rightarrow> w
      | Some c \<Rightarrow>
          (let pending = filter (\<lambda>ch. unfinished (ch_status ch)) (cl_children c);
               w = abort_if (rget (w_clusterCtl w) clusterId) w;
               w = fold (\<lambda>ch. cleanupChildAbortController (ch_conversationId ch)
                              \<circ> cancel_backend (ch_conversationId ch)) pending w;
               w = on_orch (setClusterStatus now clusterId Cancelled None) w;
               w = fold (\<lambda>ch. on_orch (updateClusterChild clusterId (ch_conversationId ch) (cancel_patch now)))
                     pending w;
               w = on_parent c (\<lambda>cid mid. setStreamClusterStatus now cid mid clusterId Cancelled None) w
           in cleanupClusterAbortController clusterId w))"

definition terminal :: "run_status \<Rightarrow> bool" where
  "terminal s \<longleftrightarrow> s = Completed \<or> s = Failed \<or> s = Cancelled"

definition final_status :: "child_state list \<Rightarrow> run_status" where
  "final_status chs =
     (if list_all (\<lambda>ch. ch_status ch = Cancelled) chs then Cancelled
      else if list_ex (\<lambda>ch. ch_status ch = Failed) chs then Failed else Completed)"

definition checkClusterCompletion :: "int \<Rightarrow> string \<Rightarrow> 'snap world \<Rightarrow> 'snap world" where
  "checkClusterCompletion now clusterId w =
     (case rget (clusters (w_orch w)) clusterId of
        None \<Rightarrow> w
      | Some c \<Rightarrow>
          if cl_status c \<noteq> Running \<and> cl_status c \<noteq> Pending then w
          else if \<not> list_all (\<lambda>ch. terminal (ch_status ch)) (cl_children c) then w
          else
            (let st = final_status (cl_children c);
                 w = on_orch (setClusterStatus now clusterId st None) w;
                 w = on_parent c (\<lambda>cid mid. setStreamClusterStatus now cid mid clusterId st None) w;
                 w = cleanupClusterAbortController clusterId w
             in fold (\<lambda>ch. cleanupChildAbortController (ch_conversationId ch)) (cl_children c) w))"

definition cancelClusterChild :: "int \<Rightarrow> string \<Rightarrow> string \<Rightarrow> 'snap world \<Rightarrow> 'snap world" where
  "cancelClusterChild now clusterId child w =
     (case rget (clusters (w_orch w)) clusterId of
        None \<Rightarrow> w
      | Some c \<Rightarrow>
          (case find (\<lambda>ch. ch_conversationId ch = child) (cl_children c) of
             None \<Rightarrow> w
           | Some ch \<Rightarrow>
               if ch_status ch \<noteq> Pending \<and> ch_status ch \<noteq> Running then w
               else
                 (let w = abort_if (rget (w_childCtl w) child) w;
                      w = cleanupChildAbortController child w;
                      w = cancel_backend child w;
                      w = on_orch (updateClusterChild clusterId child (cancel_patch now)) w;
                      w = on_parent c (\<lambda>cid mid.
                            updateStreamClusterChild now cid mid clusterId child (cancel_patch now)) w
                  in checkClusterCompletion now clusterId w)))"

text \<open>Both loops run over the values of the dictionary as it was when they started.\<close>

definition cancelConversationClusters :: "int \<Rightarrow> string \<Rightarrow> 'snap world \<Rightarrow> 'snap world" where
  "cancelConversationClusters now cid w =
     fold (\<lambda>c. if cl_parentConversationId c = cid then cancelCluster now (cl_clusterId c) else (\<lambda>w. w))
       (map snd (clusters (w_orch w))) w"

definition cancel_if_running :: "int \<Rightarrow> cluster \<Rightarrow> nat \<times> 'snap world \<Rightarrow> nat \<times> 'snap world" where
  "cancel_if_running now c acc =
     (if unfinished (cl_status c) then (Suc (fst acc), cancelCluster now (cl_clusterId c) (snd acc)) else acc)"

definition cancelAllRunningClusters :: "int \<Rightarrow> 'snap world \<Rightarrow> nat \<times> 'snap world" where
  "cancelAllRunningClusters now w = fold (cancel_if_running now) (map snd (clusters (w_orch w))) (0, w)"

section \<open>Creating a cluster\<close>

record spawn_options =
  so_parentConversationId :: string
  so_parentMessageId :: string
  so_clusterId :: string
  so_toolCallId :: string
  so_title :: string
  so_specs :: "spawn_spec list"

text \<open>
  \<open>ids\<close> are the two generated identifiers (conversation, first message) of each child. The
  exception of \<open>createSubConversation\<close> leaves the loop with the sub-conversations made so far.
\<close>

fun spawn_children ::
  "int \<Rightarrow> spawn_options \<Rightarrow> nat \<Rightarrow> (string \<times> string) list \<Rightarrow> spawn_spec list \<Rightarrow> 'snap ai_state
     \<Rightarrow> ai_error option \<times> child_state list \<times> 'snap ai_state" where
  "spawn_children now opts i ids [] s = (None, [], s)"
| "spawn_children now opts i [] (sp # sps) s = (None, [], s)"
| "spawn_children now opts i ((cid, mid) # ids) (sp # sps) s =
     (case createSubConversation now cid mid (so_parentConversationId opts) (so_parentMessageId opts)
             (so_clusterId opts) (spawn_title sp) i (spawn_task sp) s of
        Inl e \<Rightarrow> (Some e, [], s)
      | Inr (j, s') \<Rightarrow>
          (let (err, chs, s'') = spawn_children now opts (Suc i) ids sps s' in
           (err, \<lparr> ch_conversationId = j, ch_index = i, ch_title = spawn_title sp, ch_status = Pending,
                   ch_summary = None, ch_error = None, ch_resourceId = spawn_resourceId sp,
                   ch_spawnSpec = sp, ch_startedAt = None, ch_finishedAt = None \<rparr> # chs, s'')))"

definition initClusterRuntime ::
  "int \<Rightarrow> (string \<times> string) list \<Rightarrow> spawn_options \<Rightarrow> 'snap world \<Rightarrow> ai_error option \<times> 'snap world" where
  "initClusterRuntime now ids opts w =
     (let (err, chs, s) = spawn_children now opts 0 ids (so_specs opts) (w_ai w);
          w = w\<lparr>w_ai := s\<rparr>
      in case err of
           Some e \<Rightarrow> (Some e, w)
         | None \<Rightarrow>
             (None,
              on_ai (upsertStreamCluster now (so_parentConversationId opts) (so_parentMessageId opts)
                 \<lparr> cp_clusterId = so_clusterId opts, cp_title = so_title opts,
                   cp_toolCallId = so_toolCallId opts, cp_status = Pending, cp_children = chs,
                   cp_aggregatedResult = None, cp_createdAt = now, cp_finishedAt = None \<rparr>)
                (on_orch (createCluster
                   \<lparr> cl_clusterId = so_clusterId opts, cl_title = so_title opts,
                     cl_toolCallId = so_toolCallId opts,
                     cl_parentConversationId = so_parentConversationId opts,
                     cl_parentMessageId = so_parentMessageId opts, cl_status = Pending,
                     cl_children = chs, cl_aggregatedResult = None, cl_createdAt = now,
                     cl_finishedAt = None \<rparr>) w)))"

section \<open>The worker pool\<close>

text \<open>
  \<open>mapPool\<close>: \<open>n\<close> workers share the counter \<open>next\<close>; each, when free, checks \<open>shouldAbort\<close>, takes the
  next index or stops, and runs it to the end. \<open>idle\<close>, \<open>busy\<close> (the indices being run) and
  \<open>stopped\<close> count the workers; \<open>finished\<close> are the results in order of arrival. The condition of
  \<open>shouldAbort\<close> may become true at any time and stays so.
\<close>

record pool =
  p_next :: nat
  p_idle :: nat
  p_busy :: "nat list"
  p_stopped :: nat
  p_finished :: "nat list"
  p_abort :: bool

definition pool_start :: "nat \<Rightarrow> nat \<Rightarrow> pool" where
  "pool_start limit items =
     \<lparr> p_next = 0, p_idle = min limit (max 1 items), p_busy = [], p_stopped = 0, p_finished = [], p_abort = False \<rparr>"

inductive pool_step :: "nat \<Rightarrow> pool \<Rightarrow> pool \<Rightarrow> bool" for items where
  StopAborted: "p_idle p = Suc k \<Longrightarrow> p_abort p \<Longrightarrow>
     pool_step items p (p\<lparr>p_idle := k, p_stopped := Suc (p_stopped p)\<rparr>)"
| StopDone: "p_idle p = Suc k \<Longrightarrow> \<not> p_abort p \<Longrightarrow> p_next p \<ge> items \<Longrightarrow>
     pool_step items p (p\<lparr>p_idle := k, p_next := Suc (p_next p), p_stopped := Suc (p_stopped p)\<rparr>)"
| Take: "p_idle p = Suc k \<Longrightarrow> \<not> p_abort p \<Longrightarrow> p_next p < items \<Longrightarrow>
     pool_step items p (p\<lparr>p_idle := k, p_next := Suc (p_next p), p_busy := p_next p # p_busy p\<rparr>)"
| Finish: "i \<in> set (p_busy p) \<Longrightarrow>
     pool_step items p (p\<lparr>p_busy := remove1 i (p_busy p), p_idle := Suc (p_idle p),
       p_finished := p_finished p @ [i]\<rparr>)"
| Abort: "pool_step items p (p\<lparr>p_abort := True\<rparr>)"

inductive pool_reach :: "nat \<Rightarrow> nat \<Rightarrow> pool \<Rightarrow> bool" for limit items where
  PoolStart: "pool_reach limit items (pool_start limit items)"
| PoolStep: "pool_reach limit items p \<Longrightarrow> pool_step items p q \<Longrightarrow> pool_reach limit items q"

inductive_cases pool_stepE: "pool_step items p q"

section \<open>Frame lemmas\<close>

lemma world_frames [simp]:
  "w_orch (abort_controller a w) = w_orch w" "w_ai (abort_controller a w) = w_ai w"
  "w_backend (abort_controller a w) = w_backend w" "w_links (abort_controller a w) = w_links w"
  "w_clusterCtl (abort_controller a w) = w_clusterCtl w" "w_childCtl (abort_controller a w) = w_childCtl w"
  "w_orch (cancel_backend x w) = w_orch w" "w_ai (cancel_backend x w) = w_ai w"
  "w_orch (cleanupChildAbortController x w) = w_orch w" "w_ai (cleanupChildAbortController x w) = w_ai w"
  "w_orch (cleanupClusterAbortController x w) = w_orch w" "w_ai (cleanupClusterAbortController x w) = w_ai w"
  "w_orch (on_orch f w) = f (w_orch w)" "w_ai (on_orch f w) = w_ai w"
  "w_orch (on_ai g w) = w_orch w" "w_ai (on_ai g w) = g (w_ai w)"
  by (simp_all add: abort_controller_def cancel_backend_def cleanupChildAbortController_def
      cleanupClusterAbortController_def on_orch_def on_ai_def)

lemma abort_if_frames [simp]:
  "w_orch (abort_if x w) = w_orch w" "w_ai (abort_if x w) = w_ai w" "w_backend (abort_if x w) = w_backend w"
  by (auto simp: abort_if_def split: option.split)

lemma on_parent_frames [simp]:
  "w_orch (on_parent c f w) = w_orch w" "w_backend (on_parent c f w) = w_backend w"
  "w_aborted (on_parent c f w) = w_aborted w" "w_clusterCtl (on_parent c f w) = w_clusterCtl w"
  by (simp_all add: on_parent_def on_ai_def)

lemma aborted_frames [simp]:
  "w_aborted (cancel_backend x w) = w_aborted w"
  "w_aborted (cleanupChildAbortController x w) = w_aborted w"
  "w_aborted (cleanupClusterAbortController x w) = w_aborted w"
  "w_aborted (on_orch f w) = w_aborted w"
  "w_backend (cleanupChildAbortController x w) = w_backend w"
  "w_backend (cleanupClusterAbortController x w) = w_backend w"
  "w_backend (on_orch f w) = w_backend w"
  "w_backend (cancel_backend x w) = w_backend w @ [x]"
  by (simp_all add: cancel_backend_def cleanupChildAbortController_def cleanupClusterAbortController_def on_orch_def)

lemma cleanup_loop [simp]:
  "w_orch (fold (\<lambda>ch. cleanupChildAbortController (f ch) \<circ> cancel_backend (f ch)) chs w) = w_orch w"
  "w_aborted (fold (\<lambda>ch. cleanupChildAbortController (f ch) \<circ> cancel_backend (f ch)) chs w) = w_aborted w"
  "w_backend (fold (\<lambda>ch. cleanupChildAbortController (f ch) \<circ> cancel_backend (f ch)) chs w) = w_backend w @ map f chs"
  "w_ai (fold (\<lambda>ch. cleanupChildAbortController (f ch) \<circ> cancel_backend (f ch)) chs w) = w_ai w"
  by (induction chs arbitrary: w) simp_all

lemma cleanup_children_loop [simp]:
  "w_orch (fold (\<lambda>ch. cleanupChildAbortController (f ch)) chs w) = w_orch w"
  "w_aborted (fold (\<lambda>ch. cleanupChildAbortController (f ch)) chs w) = w_aborted w"
  "w_backend (fold (\<lambda>ch. cleanupChildAbortController (f ch)) chs w) = w_backend w"
  by (induction chs arbitrary: w) simp_all

lemma orch_loop [simp]:
  "w_orch (fold (\<lambda>ch. on_orch (g ch)) chs w) = fold g chs (w_orch w)"
  "w_aborted (fold (\<lambda>ch. on_orch (g ch)) chs w) = w_aborted w"
  "w_backend (fold (\<lambda>ch. on_orch (g ch)) chs w) = w_backend w"
  "w_ai (fold (\<lambda>ch. on_orch (g ch)) chs w) = w_ai w"
  by (induction chs arbitrary: w) simp_all

section \<open>The children of a cancelled cluster\<close>

definition cancel_child :: "int \<Rightarrow> child_state \<Rightarrow> child_state" where
  "cancel_child now ch = ch\<lparr>ch_status := Cancelled, ch_finishedAt := Some now\<rparr>"

lemma fold_cancel_patch [simp]: "fold set_child (cancel_patch now) = cancel_child now"
  by (simp add: cancel_patch_def cancel_child_def fun_eq_iff)

lemma cancel_child_simps [simp]:
  "ch_conversationId (cancel_child now ch) = ch_conversationId ch"
  "ch_status (cancel_child now ch) = Cancelled"
  "cancel_child now (cancel_child now ch) = cancel_child now ch"
  by (simp_all add: cancel_child_def)

lemma map_where_any:
  "map_where (\<lambda>x. ident x = i) f (map_where (\<lambda>x. ident x \<in> A) f xs) = map_where (\<lambda>x. ident x \<in> insert i A) f xs"
  if "\<And>x. ident (f x) = ident x" "\<And>x. f (f x) = f x"
  using that by (induction xs) auto

lemma fold_map_where_any:
  assumes "\<And>x. ident (f x) = ident x" "\<And>x. f (f x) = f x"
  shows "fold (\<lambda>i. map_where (\<lambda>x. ident x = i) f) is (map_where (\<lambda>x. ident x \<in> A) f xs)
    = map_where (\<lambda>x. ident x \<in> A \<union> set is) f xs"
proof (induction "is" arbitrary: A)
  case (Cons i "is")
  from Cons [of "insert i A"] show ?case
    by (simp add: map_where_any [of ident f, OF assms]) 
qed simp

lemma cancel_all_children:
  assumes "distinct (map ch_conversationId chs)"
  shows "fold (\<lambda>ch. map_where (\<lambda>x. ch_conversationId x = ch_conversationId ch) (cancel_child now))
      (filter (\<lambda>ch. unfinished (ch_status ch)) chs) chs
    = map_where (\<lambda>ch. unfinished (ch_status ch)) (cancel_child now) chs"
proof -
  let ?ids = "map ch_conversationId (filter (\<lambda>ch. unfinished (ch_status ch)) chs)"
  have "fold (\<lambda>ch. map_where (\<lambda>x. ch_conversationId x = ch_conversationId ch) (cancel_child now))
      (filter (\<lambda>ch. unfinished (ch_status ch)) chs) chs
      = fold (\<lambda>i. map_where (\<lambda>x. ch_conversationId x = i) (cancel_child now)) ?ids chs"
    by (simp add: fold_map comp_def)
  also have "\<dots> = map_where (\<lambda>x. ch_conversationId x \<in> set ?ids) (cancel_child now) chs"
    using fold_map_where_any [of ch_conversationId "cancel_child now" ?ids "{}" chs]
    by (simp add: map_where_none)
  also have "\<dots> = map_where (\<lambda>ch. unfinished (ch_status ch)) (cancel_child now) chs"
  proof -
    have "ch_conversationId x \<in> set ?ids \<longleftrightarrow> unfinished (ch_status x)" if "x \<in> set chs" for x
      using that assms by (auto simp: distinct_map dest: inj_onD)
    then show ?thesis by (simp add: map_where_def)
  qed
  finally show ?thesis .
qed

lemma cluster_after_child_loop:
  "rget (clusters s) k = Some c \<Longrightarrow>
   rget (clusters (fold (\<lambda>ch. updateClusterChild k (ch_conversationId ch) us) chs s)) k
     = Some (c\<lparr>cl_children := fold (\<lambda>ch. map_where (\<lambda>x. ch_conversationId x = ch_conversationId ch) (fold set_child us))
         chs (cl_children c)\<rparr>)"
  by (induction chs arbitrary: s c) (simp_all add: updateClusterChild_def store_simps)

lemma child_loop_frame:
  "k' \<noteq> k \<Longrightarrow> rget (clusters (fold (\<lambda>ch. updateClusterChild k (ch_conversationId ch) us) chs s)) k' = rget (clusters s) k'"
  by (induction chs arbitrary: s) (simp_all add: updateClusterChild_def store_simps)

lemma child_loop_keys:
  "rkeys (clusters (fold (\<lambda>ch. updateClusterChild k (ch_conversationId ch) us) chs s)) = rkeys (clusters s)"
  by (induction chs arbitrary: s) (simp_all add: updateClusterChild_def)

definition cancelled_cluster :: "int \<Rightarrow> cluster \<Rightarrow> cluster" where
  "cancelled_cluster now c = c\<lparr>cl_status := Cancelled, cl_finishedAt := Some now,
     cl_children := map_where (\<lambda>ch. unfinished (ch_status ch)) (cancel_child now) (cl_children c)\<rparr>"

lemma cancelCluster_orch:
  assumes "rget (clusters (w_orch w)) k = Some c" "distinct (map ch_conversationId (cl_children c))"
  shows "rget (clusters (w_orch (cancelCluster now k w))) k = Some (cancelled_cluster now c)"
    and "k' \<noteq> k \<Longrightarrow> rget (clusters (w_orch (cancelCluster now k w))) k' = rget (clusters (w_orch w)) k'"
    and "rkeys (clusters (w_orch (cancelCluster now k w))) = rkeys (clusters (w_orch w))"
proof -
  let ?s = "setClusterStatus now k Cancelled None (w_orch w)"
  let ?c = "c\<lparr>cl_status := Cancelled, cl_finishedAt := Some now\<rparr>"
  have s: "rget (clusters ?s) k = Some ?c"
    by (simp add: setClusterStatus_def store_simps assms(1) finish_time_def)
  have w: "w_orch (cancelCluster now k w)
      = fold (\<lambda>ch. updateClusterChild k (ch_conversationId ch) (cancel_patch now))
          (filter (\<lambda>ch. unfinished (ch_status ch)) (cl_children c)) ?s"
    by (simp add: cancelCluster_def assms(1) Let_def)
  show "rget (clusters (w_orch (cancelCluster now k w))) k = Some (cancelled_cluster now c)"
    unfolding w cluster_after_child_loop [OF s]
    using cancel_all_children [OF assms(2), of now] by (simp add: cancelled_cluster_def)
  show "k' \<noteq> k \<Longrightarrow> rget (clusters (w_orch (cancelCluster now k w))) k' = rget (clusters (w_orch w)) k'"
    unfolding w by (simp add: child_loop_frame setClusterStatus_def store_simps)
  show "rkeys (clusters (w_orch (cancelCluster now k w))) = rkeys (clusters (w_orch w))"
    unfolding w child_loop_keys by (simp add: setClusterStatus_def)
qed

section \<open>Abort links\<close>

text \<open>
  Every controller that is registered or linked is allocated, and links lead from cluster
  controllers to child controllers only, so that an abort never has to travel further than one link.
\<close>

definition ctl_wf :: "'snap world \<Rightarrow> bool" where
  "ctl_wf w \<longleftrightarrow> (\<forall>k a. rget (w_clusterCtl w) k = Some a \<longrightarrow> a < length (w_aborted w))
     \<and> (\<forall>(a, b) \<in> set (w_links w). a < length (w_aborted w) \<and> b < length (w_aborted w))
     \<and> fst ` set (w_links w) \<inter> snd ` set (w_links w) = {}
     \<and> (\<forall>k a. rget (w_clusterCtl w) k = Some a \<longrightarrow> a \<notin> snd ` set (w_links w))"

text \<open>A child's controller hangs on the cluster's: aborted, or linked to the registered one.\<close>

definition hangs_on :: "'snap world \<Rightarrow> string \<Rightarrow> nat \<Rightarrow> bool" where
  "hangs_on w k a \<longleftrightarrow> a < length (w_aborted w)
     \<and> (w_aborted w ! a \<or> (\<exists>c. rget (w_clusterCtl w) k = Some c \<and> \<not> is_aborted w c \<and> (c, a) \<in> set (w_links w)))"

lemma getCluster_cases:
  assumes "getClusterAbortController k w = (c, w')"
  obtains (Old) "rget (w_clusterCtl w) k = Some c" "w' = w"
  | (New) "rget (w_clusterCtl w) k = None" "c = length (w_aborted w)"
      "w' = w\<lparr>w_aborted := w_aborted w @ [False], w_clusterCtl := rput k c (w_clusterCtl w)\<rparr>"
  using assms by (auto simp: getClusterAbortController_def new_controller_def Let_def split: option.splits)

lemma ctl_wf_alloc:
  "ctl_wf w \<Longrightarrow> ctl_wf (w\<lparr>w_aborted := w_aborted w @ [False], w_clusterCtl := rput k (length (w_aborted w)) (w_clusterCtl w)\<rparr>)"
  by (auto simp: ctl_wf_def store_simps less_Suc_eq split: if_splits)

lemma hangs_on_alloc:
  assumes "ctl_wf w" "hangs_on w k a" "rget (w_clusterCtl w) k' = None"
  shows "hangs_on (w\<lparr>w_aborted := w_aborted w @ [False], w_clusterCtl := rput k' (length (w_aborted w)) (w_clusterCtl w)\<rparr>) k a"
  using assms by (auto simp: hangs_on_def ctl_wf_def is_aborted_def store_simps nth_append less_Suc_eq)

lemma getCluster_keeps:
  assumes "getClusterAbortController k' w = (c, w')" "ctl_wf w"
  shows "ctl_wf w'" "c < length (w_aborted w')" "rget (w_clusterCtl w') k' = Some c"
    "hangs_on w k a \<Longrightarrow> hangs_on w' k a"
    "length (w_aborted w) \<le> length (w_aborted w')"
    "w_orch w' = w_orch w" "w_links w' = w_links w"
    "rget (w_clusterCtl w') k2 = Some x \<Longrightarrow> rget (w_clusterCtl w) k2 = Some x \<or> x = length (w_aborted w)"
  using assms(1)
  by (rule getCluster_cases; use assms(2) in
      \<open>auto simp: ctl_wf_alloc hangs_on_alloc store_simps split: if_splits, (simp_all add: ctl_wf_def)?\<close>)+

lemma abort_keeps:
  "ctl_wf w \<Longrightarrow> ctl_wf (abort_controller a w)"
  "a < length (w_aborted w) \<Longrightarrow> is_aborted (abort_controller a w) a"
  "is_aborted w b \<Longrightarrow> is_aborted (abort_controller a w) b"
  "(a, b) \<in> set (w_links w) \<Longrightarrow> b < length (w_aborted w) \<Longrightarrow> is_aborted (abort_controller a w) b"
  by (simp_all add: abort_controller_def ctl_wf_def is_aborted_def)

lemma hangs_on_abort:
  assumes "ctl_wf w" "hangs_on w k b" "a < length (w_aborted w)"
  shows "hangs_on (abort_controller a w) k b"
proof (cases "w_aborted w ! b")
  case True
  with assms show ?thesis by (simp add: hangs_on_def abort_controller_def)
next
  case False
  with assms(2) obtain c where c: "rget (w_clusterCtl w) k = Some c" "\<not> is_aborted w c" "(c, b) \<in> set (w_links w)"
    by (auto simp: hangs_on_def)
  then have "c < length (w_aborted w)" "c \<notin> snd ` set (w_links w)" "b < length (w_aborted w)"
    using assms(1,2) by (simp_all add: ctl_wf_def hangs_on_def)
  then have wf: "c < length (w_aborted w)" "b < length (w_aborted w)" "(a, c) \<notin> set (w_links w)"
    by (auto intro: rev_image_eqI)
  show ?thesis
  proof (cases "a = c")
    case True
    with c wf show ?thesis by (simp add: hangs_on_def abort_controller_def)
  next
    case False
    with c wf have "\<not> is_aborted (abort_controller a w) c" by (simp add: is_aborted_def abort_controller_def)
    moreover have "length (w_aborted (abort_controller a w)) = length (w_aborted w)" by (simp add: abort_controller_def)
    ultimately show ?thesis using c wf unfolding hangs_on_def by (intro conjI disjI2 exI [of _ c]) simp_all
  qed
qed

lemma getChild_keeps:
  assumes "getChildAbortController k' ch w = (b, w')" "ctl_wf w"
  shows "ctl_wf w' \<and> w_orch w' = w_orch w \<and> (hangs_on w k a \<longrightarrow> hangs_on w' k a)
    \<and> (rget (w_childCtl w) ch = None \<longrightarrow> hangs_on w' k' b)"
proof (cases "rget (w_childCtl w) ch")
  case (Some x)
  with assms show ?thesis by (auto simp: getChildAbortController_def)
next
  case None
  define w1 where "w1 = w\<lparr>w_aborted := w_aborted w @ [False]\<rparr>"
  obtain c w2 where c: "getClusterAbortController k' w1 = (c, w2)" by (meson surj_pair)
  let ?b = "length (w_aborted w)"
  have w1: "ctl_wf w1" "hangs_on w k a \<Longrightarrow> hangs_on w1 k a" "w_orch w1 = w_orch w"
    using assms(2) by (auto simp: w1_def ctl_wf_def hangs_on_def is_aborted_def nth_append less_Suc_eq)
  note g = getCluster_keeps [OF c w1(1)]
  have b: "?b < length (w_aborted w2)" using g(5) by (simp add: w1_def)
  let ?w3 = "if is_aborted w2 c then abort_controller ?b w2 else w2\<lparr>w_links := (c, ?b) # w_links w2\<rparr>"
  have w': "w' = ?w3\<lparr>w_childCtl := rput ch ?b (w_childCtl ?w3)\<rparr>" "b = ?b"
    using assms(1) None c by (auto simp: getChildAbortController_def new_controller_def w1_def Let_def)
  have frame: "ctl_wf (x\<lparr>w_childCtl := y\<rparr>) = ctl_wf x" "hangs_on (x\<lparr>w_childCtl := y\<rparr>) k z = hangs_on x k z"
    for x :: "'a world" and y k z
    by (simp_all add: ctl_wf_def hangs_on_def is_aborted_def)
  have fresh: "?b \<notin> fst ` set (w_links w2)" "?b \<notin> snd ` set (w_links w2)"
    using assms(2) g(7) by (auto simp: ctl_wf_def w1_def)
  have reg: "rget (w_clusterCtl w2) k2 \<noteq> Some ?b" for k2
    using g(8) [of k2 ?b] assms(2) by (auto simp: ctl_wf_def w1_def)
  have "ctl_wf (w2\<lparr>w_links := (c, ?b) # w_links w2\<rparr>)"
    using g(1,2,3) b fresh reg by (auto simp: ctl_wf_def)
  moreover have "hangs_on w2 k a \<Longrightarrow> hangs_on (w2\<lparr>w_links := (c, ?b) # w_links w2\<rparr>) k a"
    by (auto simp: hangs_on_def is_aborted_def)
  moreover have "\<not> is_aborted w2 c \<Longrightarrow> hangs_on (w2\<lparr>w_links := (c, ?b) # w_links w2\<rparr>) k' ?b"
    using g(3) b by (auto simp: hangs_on_def is_aborted_def)
  ultimately have link: "ctl_wf (w2\<lparr>w_links := (c, ?b) # w_links w2\<rparr>)"
    "hangs_on w2 k a \<Longrightarrow> hangs_on (w2\<lparr>w_links := (c, ?b) # w_links w2\<rparr>) k a"
    "\<not> is_aborted w2 c \<Longrightarrow> hangs_on (w2\<lparr>w_links := (c, ?b) # w_links w2\<rparr>) k' ?b" by blast+
  show ?thesis
  proof (cases "is_aborted w2 c")
    case True
    have "hangs_on (abort_controller ?b w2) k' ?b"
      using b abort_keeps(2) [OF b] by (simp add: hangs_on_def is_aborted_def)
    with True show ?thesis using g w1 w' b hangs_on_abort [OF g(1) _ b] abort_keeps(1)
      by (simp add: frame)
  next
    case False
    with link show ?thesis using g w1 w' by (simp add: frame)
  qed
qed

lemma cancelCluster_backend:
  "rget (clusters (w_orch w)) k = Some c \<Longrightarrow> w_backend (cancelCluster now k w)
     = w_backend w @ map ch_conversationId (filter (\<lambda>ch. unfinished (ch_status ch)) (cl_children c))"
  by (simp add: cancelCluster_def Let_def)

lemma cancelCluster_aborted:
  "rget (clusters (w_orch w)) k = Some c \<Longrightarrow>
     w_aborted (cancelCluster now k w) = w_aborted (abort_if (rget (w_clusterCtl w) k) w)"
  by (simp add: cancelCluster_def Let_def)

lemma cancelCluster_ai:
  "rget (clusters (w_orch w)) k = Some c \<Longrightarrow> cl_parentConversationId c \<noteq> '''' \<Longrightarrow> cl_parentMessageId c \<noteq> '''' \<Longrightarrow>
     w_ai (cancelCluster now k w)
       = setStreamClusterStatus now (cl_parentConversationId c) (cl_parentMessageId c) k Cancelled None (w_ai w)"
  by (simp add: cancelCluster_def Let_def on_parent_def)

lemma hangs_on_cancelled:
  assumes "hangs_on w k a" "ctl_wf w" "rget (clusters (w_orch w)) k = Some c"
  shows "is_aborted (cancelCluster now k w) a"
proof (cases "w_aborted w ! a")
  case True
  with assms(1) show ?thesis
    by (auto simp: is_aborted_def cancelCluster_aborted [OF assms(3)] hangs_on_def abort_if_def
        abort_controller_def split: option.split)
next
  case False
  with assms(1) obtain x where "rget (w_clusterCtl w) k = Some x" "\<not> is_aborted w x" "(x, a) \<in> set (w_links w)"
    "a < length (w_aborted w)"
    by (auto simp: hangs_on_def)
  then show ?thesis
    by (auto simp: is_aborted_def cancelCluster_aborted [OF assms(3)] abort_if_def abort_controller_def)
qed

section \<open>Properties\<close>


definition demo_world :: "run_status \<Rightarrow> child_state list \<Rightarrow> unit world" where
  "demo_world st chs = \<lparr> w_ai = demo_state, w_orch = createCluster (demo_cluster st chs) orch_init,
     w_clusterCtl = [], w_childCtl = [], w_aborted = [], w_links = [], w_backend = [] \<rparr>"

lemma demo_world_cluster: "rget (clusters (w_orch (demo_world st chs))) ''k'' = Some (demo_cluster st chs)"
  by (simp add: demo_world_def createCluster_def orch_init_def demo_cluster_def)


text \<open>Cancelling a cluster reaches its children through their abort signals: the controller that
  a child was given for the cluster is aborted afterwards, whatever controllers of this or other
  clusters were created before or in between.\<close>

theorem cluster_abort_reaches_children:
  assumes "ctl_wf w" "rget (w_childCtl w) child = None" "rget (clusters (w_orch w)) k \<noteq> None"
    and "getChildAbortController k child w = (a, w1)"
    and "w2 = fold (\<lambda>(k', ch') w. snd (getChildAbortController k' ch' w)) others w1"
  shows "is_aborted (cancelCluster now k w2) a"
proof -
  have start: "ctl_wf w1 \<and> w_orch w1 = w_orch w \<and> hangs_on w1 k a"
    using getChild_keeps [OF assms(4,1)] assms(2) by blast
  have "ctl_wf v \<Longrightarrow> hangs_on v k a \<Longrightarrow>
      ctl_wf (fold (\<lambda>(k', ch') w. snd (getChildAbortController k' ch' w)) others v)
      \<and> w_orch (fold (\<lambda>(k', ch') w. snd (getChildAbortController k' ch' w)) others v) = w_orch v
      \<and> hangs_on (fold (\<lambda>(k', ch') w. snd (getChildAbortController k' ch' w)) others v) k a" for v :: "'a world"
  proof (induction others arbitrary: v)
    case (Cons x others)
    obtain k' ch' where x: "x = (k', ch')" by (cases x)
    obtain b v' where g: "getChildAbortController k' ch' v = (b, v')" by (meson surj_pair)
    from getChild_keeps [OF g Cons.prems(1), of k a] Cons.prems(2) Cons.IH [of v'] show ?case
      by (simp add: x g)
  qed simp
  with start assms(5) have "ctl_wf w2 \<and> w_orch w2 = w_orch w \<and> hangs_on w2 k a" by simp
  with assms(3) show ?thesis by (auto intro: hangs_on_cancelled)
qed

theorem cluster_abort_reaches_children_witness:
  "is_aborted (cancelCluster 3 ''k'' (snd (getChildAbortController ''k'' ''x'' (demo_world Running [demo_child ''x'' Running])))) 0"
proof -
  have wf: "ctl_wf (demo_world Running [demo_child ''x'' Running])"
    by (simp add: ctl_wf_def demo_world_def)
  have g: "getChildAbortController ''k'' ''x'' (demo_world Running [demo_child ''x'' Running])
      = (0, snd (getChildAbortController ''k'' ''x'' (demo_world Running [demo_child ''x'' Running])))"
    by (simp add: getChildAbortController_def new_controller_def Let_def demo_world_def split_beta)
  show ?thesis
    using cluster_abort_reaches_children [OF wf _ _ g, of _ "[]" 3]
    by (simp add: demo_world_cluster) (simp add: demo_world_def)
qed

text \<open>The check after each child decides a running cluster exactly when its last child
  has ended: cancelled when all were cancelled, otherwise failed when any failed, otherwise
  completed; a cluster that has an unfinished child or is already settled is left alone.\<close>

theorem cluster_completes_with_its_last_child:
  assumes "rget (clusters (w_orch w)) k = Some c"
  shows "\<exists>c'. rget (clusters (w_orch (checkClusterCompletion now k w))) k = Some c'
    \<and> cl_children c' = cl_children c
    \<and> (if unfinished (cl_status c) \<and> (\<forall>ch\<in>set (cl_children c). \<not> unfinished (ch_status ch))
       then \<not> unfinished (cl_status c') \<and> cl_finishedAt c' = Some now
          \<and> (cl_status c' = Cancelled \<longleftrightarrow> (\<forall>ch\<in>set (cl_children c). ch_status ch = Cancelled))
          \<and> (cl_status c' = Failed \<longleftrightarrow> (\<exists>ch\<in>set (cl_children c). ch_status ch = Failed))
       else checkClusterCompletion now k w = w)"
proof -
  have term_iff: "terminal s \<longleftrightarrow> \<not> unfinished s" for s by (cases s) (simp_all add: terminal_def)
  show ?thesis
  proof (cases "unfinished (cl_status c) \<and> (\<forall>ch\<in>set (cl_children c). \<not> unfinished (ch_status ch))")
    case True
    let ?st = "final_status (cl_children c)"
    have "w_orch (checkClusterCompletion now k w) = setClusterStatus now k ?st None (w_orch w)"
      using True by (auto simp: checkClusterCompletion_def assms Let_def term_iff list_all_iff unfinished_def)
    moreover have "\<not> unfinished ?st" by (simp add: final_status_def)
    ultimately show ?thesis using True
      by (auto simp: setClusterStatus_def store_simps assms finish_time_def final_status_def list_all_iff list_ex_iff)
  next
    case False
    then have "checkClusterCompletion now k w = w"
      by (auto simp: checkClusterCompletion_def assms term_iff list_all_iff unfinished_def)
    with False assms show ?thesis by (intro exI [of _ c]) simp
  qed
qed

theorem cluster_completes_with_its_last_child_witness:
  "\<exists>c'. rget (clusters (w_orch (checkClusterCompletion 3 ''k''
       (demo_world Running [demo_child ''x'' Completed, demo_child ''y'' Failed])))) ''k'' = Some c'
     \<and> cl_status c' = Failed"
proof -
  let ?c = "demo_cluster Running [demo_child ''x'' Completed, demo_child ''y'' Failed]"
  have "unfinished (cl_status ?c)" "map ch_status (cl_children ?c) = [Completed, Failed]"
    by (simp_all add: demo_cluster_def demo_child_def)
  with cluster_completes_with_its_last_child [OF demo_world_cluster, where now = 3] show ?thesis
    by (force simp: demo_cluster_def demo_child_def)
qed

text \<open>A child that was never started stays pending in the message: cancelling a cluster marks its
  unfinished children cancelled in the run-time store, but the card persisted in the parent message
  only gets the cluster's own status, so the two copies of a child disagree afterwards.\<close>

theorem cancelled_card_keeps_pending_child:
  "\<exists>w :: unit world. (\<exists>c. rget (clusters (w_orch (cancelCluster 3 ''k'' w))) ''k'' = Some c
       \<and> map ch_status (cl_children c) = [Cancelled])
     \<and> (\<exists>p. map (map m_parts \<circ> cv_messages) (conversations (w_ai (cancelCluster 3 ''k'' w))) = [[Some [ClusterPart p]]]
       \<and> cp_status p = Cancelled \<and> map ch_status (cp_children p) = [Pending])"
proof -
  let ?m = "normalizeAiMessage \<lparr> m_id = ''m'', m_role = RoleAssistant,
      m_parts = Some [ClusterPart \<lparr> cp_clusterId = ''k'', cp_title = '''', cp_toolCallId = ''t'', cp_status = Pending,
        cp_children = [demo_child ''x'' Pending], cp_aggregatedResult = None, cp_createdAt = 0, cp_finishedAt = None \<rparr>],
      m_content = '''', m_reasoningContent = None, m_timestamp = 0, m_toolCalls = None, m_isStreaming = None,
      m_isReasoningStreaming = None, m_usage = None, m_timing = None \<rparr>"
  let ?s = "ai_init\<lparr>conversations := [(new_conversation demo_env ''a'' None None ''run'' ai_init)\<lparr>cv_messages := [?m]\<rparr>]\<rparr>"
  let ?w = "(demo_world Pending [demo_child ''x'' Pending])\<lparr>w_ai := ?s\<rparr>"
  have cl: "rget (clusters (w_orch ?w)) ''k'' = Some (demo_cluster Pending [demo_child ''x'' Pending])"
    using demo_world_cluster by simp
  have "rget (clusters (w_orch (cancelCluster 3 ''k'' ?w))) ''k''
      = Some (cancelled_cluster 3 (demo_cluster Pending [demo_child ''x'' Pending]))"
    by (rule cancelCluster_orch [OF cl]) (simp add: demo_cluster_def)
  moreover have "map ch_status (cl_children (cancelled_cluster 3 (demo_cluster Pending [demo_child ''x'' Pending]))) = [Cancelled]"
    by (simp add: cancelled_cluster_def demo_cluster_def demo_child_def)
  moreover have "w_ai (cancelCluster 3 ''k'' ?w) = setStreamClusterStatus 3 ''a'' ''m'' ''k'' Cancelled None ?s"
    using cancelCluster_ai [OF cl, of 3] by (simp add: demo_cluster_def)
  moreover have "\<exists>p. map (map m_parts \<circ> cv_messages)
        (conversations (setStreamClusterStatus 3 ''a'' ''m'' ''k'' Cancelled None ?s)) = [[Some [ClusterPart p]]]
      \<and> cp_status p = Cancelled \<and> map ch_status (cp_children p) = [Pending]"
    by (simp add: setStreamClusterStatus_def on_parts_def on_message_def on_conv_def touch_def
        withUpdatedParts_def with_compat_def normalizeAiMessage_def Let_def flat_of_def
        partsFromFlatFields_def updateClusterStatusInParts_def demo_child_def map_where_def)
  ultimately show ?thesis by (intro exI [of _ ?w]) simp
qed

lemma cancel_each:
  assumes "distinct (map cl_clusterId cs)"
    and "\<And>c. c \<in> set cs \<Longrightarrow> rget (clusters (w_orch w)) (cl_clusterId c) = Some c
           \<and> distinct (map ch_conversationId (cl_children c))"
  shows "\<exists>w'. fold (cancel_if_running now) cs (n, w) = (n + length (filter (\<lambda>c. unfinished (cl_status c)) cs), w')
    \<and> (\<forall>k. rget (clusters (w_orch w')) k =
          (if k \<in> cl_clusterId ` set (filter (\<lambda>c. unfinished (cl_status c)) cs)
           then map_option (cancelled_cluster now) (rget (clusters (w_orch w)) k)
           else rget (clusters (w_orch w)) k))"
  using assms
proof (induction cs arbitrary: n w)
  case (Cons c cs)
  have c: "rget (clusters (w_orch w)) (cl_clusterId c) = Some c" "distinct (map ch_conversationId (cl_children c))"
    using Cons.prems(2) [of c] by simp_all
  show ?case
  proof (cases "unfinished (cl_status c)")
    case False
    with Cons.IH [of w n] Cons.prems show ?thesis by (simp add: cancel_if_running_def)
  next
    case True
    let ?w = "cancelCluster now (cl_clusterId c) w"
    have new: "cl_clusterId d \<noteq> cl_clusterId c" if "d \<in> set cs" for d
      using Cons.prems(1) that by (metis distinct.simps(2) image_eqI list.set_map list.simps(9))
    have other: "rget (clusters (w_orch ?w)) (cl_clusterId d) = Some d" if "d \<in> set cs" for d
      using cancelCluster_orch(2) [OF c new [OF that], of now] Cons.prems(2) [of d] that by simp
    obtain w' where w': "fold (cancel_if_running now) cs (Suc n, ?w) = (Suc n + length (filter (\<lambda>c. unfinished (cl_status c)) cs), w')"
      "\<And>k. rget (clusters (w_orch w')) k =
          (if k \<in> cl_clusterId ` set (filter (\<lambda>c. unfinished (cl_status c)) cs)
           then map_option (cancelled_cluster now) (rget (clusters (w_orch ?w)) k)
           else rget (clusters (w_orch ?w)) k)"
      using Cons.IH [of ?w "Suc n"] Cons.prems other by auto
    have "rget (clusters (w_orch w')) k =
          (if k \<in> cl_clusterId ` set (filter (\<lambda>c. unfinished (cl_status c)) (c # cs))
           then map_option (cancelled_cluster now) (rget (clusters (w_orch w)) k)
           else rget (clusters (w_orch w)) k)" for k
    proof (cases "k = cl_clusterId c")
      case True
      then have "k \<notin> cl_clusterId ` set (filter (\<lambda>c. unfinished (cl_status c)) cs)" using new by force
      then show ?thesis
        using True c \<open>unfinished (cl_status c)\<close> cancelCluster_orch(1) [OF c, of now] by (simp add: w'(2))
    next
      case False
      then show ?thesis using cancelCluster_orch(2) [OF c False, of now] by (auto simp: w'(2))
    qed
    moreover have "fold (cancel_if_running now) (c # cs) (n, w)
        = (n + length (filter (\<lambda>c. unfinished (cl_status c)) (c # cs)), w')"
      using True w'(1) by (simp add: cancel_if_running_def [of now c "(n, w)"])
    ultimately show ?thesis by blast
  qed
qed simp

text \<open>Cancel all: afterwards no cluster is pending or running, the number returned is the number
  of clusters that were, and clusters that had already ended are untouched.\<close>

theorem cancel_all_leaves_nothing_running:
  assumes "orch_keyed (w_orch w)"
    and "\<And>k c. rget (clusters (w_orch w)) k = Some c \<Longrightarrow> distinct (map ch_conversationId (cl_children c))"
    and "cancelAllRunningClusters now w = (n, w')"
  shows "n = length (filter (\<lambda>c. unfinished (cl_status c)) (map snd (clusters (w_orch w))))
    \<and> (\<forall>k c. rget (clusters (w_orch w')) k = Some c \<longrightarrow> \<not> unfinished (cl_status c))
    \<and> (\<forall>k c. rget (clusters (w_orch w)) k = Some c \<and> \<not> unfinished (cl_status c)
          \<longrightarrow> rget (clusters (w_orch w')) k = Some c)"
proof -
  let ?r = "clusters (w_orch w)"
  have keyed: "rwf ?r" "\<And>k c. (k, c) \<in> set ?r \<Longrightarrow> cl_clusterId c = k"
    using assms(1) by (auto simp: orch_keyed_def keyed_def)
  have "map cl_clusterId (map snd ?r) = rkeys ?r" using keyed(2) by auto
  then have dist: "distinct (map cl_clusterId (map snd ?r))" using keyed(1) by (simp only:)
  have each: "rget ?r (cl_clusterId c) = Some c \<and> distinct (map ch_conversationId (cl_children c))"
    if c: "c \<in> set (map snd ?r)" for c
  proof -
    from c obtain k where "(k, c) \<in> set ?r" by auto
    with keyed have "rget ?r (cl_clusterId c) = Some c" by (auto intro!: map_of_is_SomeI)
    with assms(2) show ?thesis by blast
  qed
  obtain v where v: "cancelAllRunningClusters now w
        = (length (filter (\<lambda>c. unfinished (cl_status c)) (map snd ?r)), v)"
      "\<And>k. rget (clusters (w_orch v)) k =
          (if k \<in> cl_clusterId ` set (filter (\<lambda>c. unfinished (cl_status c)) (map snd ?r))
           then map_option (cancelled_cluster now) (rget ?r k) else rget ?r k)"
    using cancel_each [OF dist each, of now 0] unfolding cancelAllRunningClusters_def add_0 by blast
  have mem: "k \<in> cl_clusterId ` set (filter (\<lambda>c. unfinished (cl_status c)) (map snd ?r)) \<longleftrightarrow> unfinished (cl_status c)"
    if "rget ?r k = Some c" for k c
  proof
    assume "k \<in> cl_clusterId ` set (filter (\<lambda>c. unfinished (cl_status c)) (map snd ?r))"
    then obtain d where "(k, d) \<in> set ?r" "unfinished (cl_status d)" using keyed(2) by auto
    with keyed(1) that show "unfinished (cl_status c)" by (metis map_of_eq_Some_iff option.inject)
  next
    assume "unfinished (cl_status c)"
    with map_of_SomeD [OF that] keyed(2) show "k \<in> cl_clusterId ` set (filter (\<lambda>c. unfinished (cl_status c)) (map snd ?r))"
      by force
  qed
  have dec: "\<not> unfinished (cl_status c)" if "rget (clusters (w_orch v)) k = Some c" for k c
    using that mem [of k] by (cases "rget ?r k") (auto simp: v(2) cancelled_cluster_def split: if_splits)
  have res: "n = length (filter (\<lambda>c. unfinished (cl_status c)) (map snd ?r))" "w' = v"
    using v(1) assms(3) by simp_all
  have "rget (clusters (w_orch v)) k = Some c" if "rget ?r k = Some c" "\<not> unfinished (cl_status c)" for k c
    using v(2) [of k] mem [OF that(1)] that by simp
  with dec show ?thesis unfolding res by blast
qed

theorem cancel_all_leaves_nothing_running_witness:
  "fst (cancelAllRunningClusters 3 (demo_world Running [demo_child ''x'' Pending])) = 1"
proof -
  let ?w = "demo_world Running [demo_child ''x'' Pending]"
  have "orch_keyed (w_orch ?w)"
    by (simp add: orch_keyed_def demo_world_def createCluster_def orch_init_def keyed_def demo_cluster_def)
  moreover have "distinct (map ch_conversationId (cl_children c))" if "rget (clusters (w_orch ?w)) k = Some c" for k c
    using that by (auto simp: demo_world_def createCluster_def orch_init_def demo_cluster_def split: if_splits)
  moreover obtain n w' where r: "cancelAllRunningClusters 3 ?w = (n, w')" by (meson surj_pair)
  ultimately have "n = length (filter (\<lambda>c. unfinished (cl_status c)) (map snd (clusters (w_orch ?w))))"
    using cancel_all_leaves_nothing_running [of ?w 3 n w'] by blast
  with r show ?thesis by (simp add: demo_world_def createCluster_def orch_init_def demo_cluster_def)
qed

section \<open>The worker pool\<close>

definition pool_inv :: "nat \<Rightarrow> nat \<Rightarrow> pool \<Rightarrow> bool" where
  "pool_inv limit items p \<longleftrightarrow>
     p_idle p + length (p_busy p) + p_stopped p = min limit (max 1 items)
     \<and> distinct (p_busy p @ p_finished p)
     \<and> set (p_busy p @ p_finished p) = {..<min (p_next p) items}
     \<and> (p_abort p \<or> p_stopped p = 0 \<or> items \<le> p_next p)"

lemma lessThan_min_Suc: "n < items \<Longrightarrow> {..<min (Suc n) items} = insert n {..<min n items}"
  by auto

lemma pool_invD:
  assumes "pool_inv limit items p"
  shows "p_idle p + length (p_busy p) + p_stopped p = min limit (max 1 items)"
    and "distinct (p_busy p @ p_finished p)"
    and "set (p_busy p @ p_finished p) = {..<min (p_next p) items}"
    and "p_abort p \<or> p_stopped p = 0 \<or> items \<le> p_next p"
  using assms by (simp_all only: pool_inv_def)

lemma pool_inv_step: "pool_step items p q \<Longrightarrow> pool_inv limit items p \<Longrightarrow> pool_inv limit items q"
proof (erule pool_stepE)
  fix k assume "pool_inv limit items p" "p_idle p = Suc k" "p_abort p"
    "q = p\<lparr>p_idle := k, p_stopped := Suc (p_stopped p)\<rparr>"
  then show ?thesis by (simp add: pool_inv_def)
next
  fix k assume a: "pool_inv limit items p" "p_idle p = Suc k" "\<not> p_abort p" "items \<le> p_next p"
    "q = p\<lparr>p_idle := k, p_next := Suc (p_next p), p_stopped := Suc (p_stopped p)\<rparr>"
  then have "min (Suc (p_next p)) items = min (p_next p) items" by simp
  with a show ?thesis by (simp add: pool_inv_def)
next
  fix k assume a: "pool_inv limit items p" "p_idle p = Suc k" "\<not> p_abort p" "p_next p < items"
    "q = p\<lparr>p_idle := k, p_next := Suc (p_next p), p_busy := p_next p # p_busy p\<rparr>"
  then have s: "set (p_busy p @ p_finished p) = {..<min (p_next p) items}" by (simp add: pool_inv_def)
  then have "p_next p \<notin> set (p_busy p @ p_finished p)" by (simp only: s) simp
  moreover have "set (p_next p # p_busy p @ p_finished p) = {..<min (Suc (p_next p)) items}"
    unfolding list.set(2) s by (rule lessThan_min_Suc [OF a(4), symmetric])
  moreover have "p_stopped p = 0 \<or> items \<le> Suc (p_next p)"
    using pool_invD(4) [OF a(1)] a(3) le_SucI by (elim disjE) simp_all
  moreover have "k + length (p_next p # p_busy p) + p_stopped p = min limit (max 1 items)"
    using pool_invD(1) [OF a(1)] a(2) by (simp only: list.size add_Suc add_Suc_right add_0_right)
  moreover have q: "p_idle q = k" "p_busy q = p_next p # p_busy p" "p_stopped q = p_stopped p"
    "p_next q = Suc (p_next p)" "p_finished q = p_finished p" "p_abort q = p_abort p"
    by (simp_all add: a(5))
  ultimately show ?thesis
    using pool_invD(2) [OF a(1)] unfolding pool_inv_def q append_Cons distinct.simps
    by (simp only: simp_thms)
next
  fix i assume a: "pool_inv limit items p" "i \<in> set (p_busy p)"
    "q = p\<lparr>p_busy := remove1 i (p_busy p), p_idle := Suc (p_idle p), p_finished := p_finished p @ [i]\<rparr>"
  have ms: "mset (remove1 i (p_busy p) @ p_finished p @ [i]) = mset (p_busy p @ p_finished p)"
    using a(2) by simp
  have "length (p_busy p) = Suc (length (remove1 i (p_busy p)))"
    using a(2) length_pos_if_in_set [OF a(2)] by (simp add: length_remove1)
  moreover have "distinct (remove1 i (p_busy p) @ p_finished p @ [i]) = distinct (p_busy p @ p_finished p)"
    using ms by (rule mset_eq_imp_distinct_iff)
  moreover have "set (remove1 i (p_busy p) @ p_finished p @ [i]) = set (p_busy p @ p_finished p)"
    using ms by (rule mset_eq_setD)
  moreover have q: "p_idle q = Suc (p_idle p)" "p_busy q = remove1 i (p_busy p)" "p_stopped q = p_stopped p"
    "p_next q = p_next p" "p_finished q = p_finished p @ [i]" "p_abort q = p_abort p"
    by (simp_all add: a(3))
  ultimately show ?thesis
    using pool_invD [OF a(1)] unfolding pool_inv_def q by (simp only: simp_thms add_Suc add_Suc_right)
next
  assume "pool_inv limit items p" "q = p\<lparr>p_abort := True\<rparr>"
  then show ?thesis by (simp add: pool_inv_def)
qed

lemma pool_reach_inv: "pool_reach limit items p \<Longrightarrow> pool_inv limit items p"
proof (induction rule: pool_reach.induct)
  case PoolStart
  show ?case by (simp add: pool_inv_def pool_start_def)
qed (rule pool_inv_step)

lemma pool_runs_all:
  assumes "pool_reach limit items p" "0 < limit" "p_idle p = 0" "p_busy p = []" "\<not> p_abort p"
  shows "mset (p_finished p) = mset [0..<items]"
proof -
  have inv: "pool_inv limit items p" by (rule pool_reach_inv [OF assms(1)])
  have st: "p_stopped p = min limit (max 1 items)" "distinct (p_finished p)"
    "set (p_finished p) = {..<min (p_next p) items}" "p_stopped p = 0 \<or> items \<le> p_next p"
    using pool_invD [OF inv] assms(3-5) by (simp_all only: list.size append_Nil add_0 add_0_right simp_thms)
  have "0 < min limit (max 1 items)" using assms(2) by simp
  with st have "items \<le> p_next p" by linarith
  with st have "set (p_finished p) = {0..<items}" by (simp add: atLeast0LessThan min_absorb2)
  with mset_set_set [OF st(2)] show ?thesis by (simp only: mset_upt)
qed

text \<open>(C21) The pool that runs the children of a cluster never runs more than its limit at once, starts
  each child at most once and in order, and, when all workers have stopped and no cancellation was
  seen, has run every child exactly once.\<close>

theorem pool_runs_each_child_once:
  assumes "pool_reach limit items p"
  shows "length (p_busy p) \<le> limit
    \<and> distinct (p_busy p @ p_finished p)
    \<and> set (p_busy p @ p_finished p) = {..<min (p_next p) items}
    \<and> (0 < limit \<and> p_idle p = 0 \<and> p_busy p = [] \<and> \<not> p_abort p \<longrightarrow> mset (p_finished p) = mset [0..<items])"
proof -
  have inv: "pool_inv limit items p" by (rule pool_reach_inv [OF assms])
  have "mset (p_finished p) = mset [0..<items]"
    if "0 < limit \<and> p_idle p = 0 \<and> p_busy p = [] \<and> \<not> p_abort p"
    using that by (intro pool_runs_all [OF assms]) simp_all
  moreover have "length (p_busy p) \<le> limit" using pool_invD(1) [OF inv] by linarith
  ultimately show ?thesis using pool_invD(2,3) [OF inv] by (intro conjI impI) simp_all
qed

theorem pool_runs_each_child_once_witness:
  "\<exists>p. pool_reach 5 1 p \<and> p_busy p = [0] \<and> length (p_busy p) \<le> 5"
proof -
  have "pool_reach 5 1 ((pool_start 5 1)\<lparr>p_idle := 0, p_next := Suc 0, p_busy := [0]\<rparr>)"
    using pool_reach.PoolStep [OF pool_reach.PoolStart pool_step.Take [of "pool_start 5 1" 0 1]]
    by (simp add: pool_start_def)
  from this pool_runs_each_child_once [OF this] show ?thesis
    by (intro exI [of _ "(pool_start 5 1)\<lparr>p_idle := 0, p_next := Suc 0, p_busy := [0]\<rparr>"]) simp
qed

section \<open>Creating a cluster\<close>

lemma find_append_Some: "find P xs = Some x \<Longrightarrow> find P (xs @ ys) = Some x"
  by (induction xs) (auto split: if_splits)

lemma spawn_children_result:
  assumes "find_conv (so_parentConversationId opts) s = Some p" "length ids = length sps"
  shows "\<exists>chs s'. spawn_children now opts i ids sps s = (None, chs, s')
    \<and> map skel (conversations s') = map skel (conversations s)
        @ map (\<lambda>x. (fst x, Some (so_parentConversationId opts), Some (root_of p))) ids
    \<and> map ch_conversationId chs = map fst ids \<and> map ch_index chs = [i..<i + length sps]
    \<and> map ch_spawnSpec chs = sps \<and> list_all (\<lambda>ch. ch_status ch = Pending) chs"
  using assms
proof (induction now opts i ids sps s rule: spawn_children.induct)
  case (3 now opts i cid mid ids sp sps s)
  obtain s1 where s1: "createSubConversation now cid mid (so_parentConversationId opts) (so_parentMessageId opts)
      (so_clusterId opts) (spawn_title sp) i (spawn_task sp) s = Inr (cid, s1)"
    "map skel (conversations s1) = map skel (conversations s)
        @ [(cid, Some (so_parentConversationId opts), Some (root_of p))]"
    "find_conv (so_parentConversationId opts) s1 = Some p"
    using "3.prems"(1) by (simp add: createSubConversation_def Let_def skel_def find_conv_def find_append_Some)
  from "3.IH" [OF s1(1) refl s1(3)] "3.prems"(2) obtain chs s' where
    "spawn_children now opts (Suc i) ids sps s1 = (None, chs, s')"
    "map skel (conversations s') = map skel (conversations s1)
        @ map (\<lambda>x. (fst x, Some (so_parentConversationId opts), Some (root_of p))) ids"
    "map ch_conversationId chs = map fst ids" "map ch_index chs = [Suc i..<Suc i + length sps]"
    "map ch_spawnSpec chs = sps" "list_all (\<lambda>ch. ch_status ch = Pending) chs"
    by auto
  with s1 show ?case by (simp add: Let_def upt_conv_Cons del: upt_Suc)
qed simp_all

lemma map_skel_on_parts: "map skel (conversations (on_parts now cid mid f s)) = map skel (conversations s)"
  unfolding on_parts_def on_message_def touch_def comp_def by (simp add: frame_simps skel_def)

text \<open>Creating a cluster builds its two sides together: one sub-conversation per specification is
  appended, each a child of the parent conversation and in its tree, and the run-time cluster lists
  exactly these, in order and all pending. When the parent conversation does not exist the
  exception leaves both stores as they were.\<close>

theorem init_cluster_creates_its_children:
  assumes "length ids = length (so_specs opts)" "so_specs opts \<noteq> []"
    and "initClusterRuntime now ids opts w = (err, w')"
  shows "case find_conv (so_parentConversationId opts) (w_ai w) of
      None \<Rightarrow> err = Some (ParentMissing (so_parentConversationId opts)) \<and> w' = w
    | Some p \<Rightarrow> err = None
        \<and> map skel (conversations (w_ai w')) = map skel (conversations (w_ai w))
            @ map (\<lambda>x. (fst x, Some (so_parentConversationId opts), Some (root_of p))) ids
        \<and> (\<exists>c. rget (clusters (w_orch w')) (so_clusterId opts) = Some c \<and> cl_status c = Pending
             \<and> map ch_conversationId (cl_children c) = map fst ids
             \<and> map ch_spawnSpec (cl_children c) = so_specs opts
             \<and> list_all (\<lambda>ch. ch_status ch = Pending) (cl_children c))"
proof (cases "find_conv (so_parentConversationId opts) (w_ai w)")
  case None
  obtain i ids' sp sps where "ids = i # ids'" "so_specs opts = sp # sps"
    using assms(1,2) by (cases ids; cases "so_specs opts") auto
  with None assms(3) show ?thesis
    by (cases i) (simp add: initClusterRuntime_def createSubConversation_def)
next
  case (Some p)
  obtain chs s' where sp: "spawn_children now opts 0 ids (so_specs opts) (w_ai w) = (None, chs, s')"
    "map skel (conversations s') = map skel (conversations (w_ai w))
        @ map (\<lambda>x. (fst x, Some (so_parentConversationId opts), Some (root_of p))) ids"
    "map ch_conversationId chs = map fst ids" "map ch_spawnSpec chs = so_specs opts"
    "list_all (\<lambda>ch. ch_status ch = Pending) chs"
    using spawn_children_result [OF Some assms(1), of now 0] by blast
  with assms(3) Some show ?thesis
    by (auto simp: initClusterRuntime_def createCluster_def store_simps upsertStreamCluster_def map_skel_on_parts)
qed

theorem init_cluster_creates_its_children_witness:
  "map skel (conversations (w_ai (snd (initClusterRuntime 4 [(''e'', ''m9'')]
      \<lparr> so_parentConversationId = ''b'', so_parentMessageId = ''m'', so_clusterId = ''k2'', so_toolCallId = ''t'',
        so_title = '''', so_specs = [\<lparr> spawn_title = ''x'', spawn_task = ''y'', spawn_resourceId = None \<rparr>] \<rparr>
      (demo_world Pending []))))) = map skel (conversations demo_state) @ [(''e'', Some ''b'', Some ''b'')]"
proof -
  let ?o = "\<lparr> so_parentConversationId = ''b'', so_parentMessageId = ''m'', so_clusterId = ''k2'', so_toolCallId = ''t'',
        so_title = '''', so_specs = [\<lparr> spawn_title = ''x'', spawn_task = ''y'', spawn_resourceId = None \<rparr>] \<rparr>"
  have ai: "w_ai (demo_world Pending []) = demo_state" by (simp add: demo_world_def)
  obtain b rest where b: "conversations demo_state = b # rest" "skel b = (''b'', None, None)"
    using demo_skel(1) by (cases "conversations demo_state") auto
  then have f: "find_conv ''b'' demo_state = Some b" "root_of b = ''b''"
    by (simp_all add: find_conv_def skel_def root_of_def)
  obtain err w' where r: "initClusterRuntime 4 [(''e'', ''m9'')] ?o (demo_world Pending []) = (err, w')"
    by (meson surj_pair)
  show ?thesis
    using init_cluster_creates_its_children [OF _ _ r] r f by (simp add: ai)
qed

end
