(* ===== verification/DockLayout.thy ===== *)
theory DockLayout
  imports Prelude
begin

text \<open>
  \<^bold>\<open>frontend/src/components/dock/dockViewLayout.ts\<close>: the serialised layout of the docking area (a
  tree of groups of panels, and a dictionary of panels) and what the program does to it before it
  gives it to the docking library: merging with the open tabs, removing panels, normalising, and
  deciding whether it can be loaded. Sizes are integers; the library's other fields are flags of
  presence. Sets of identifiers are lists in insertion order. \<open>cloneLayout\<close>, a copy through
  JSON, drops the parameters whose value is \<open>undefined\<close>.
\<close>

section \<open>Data\<close>

record dgroup =
  dg_id :: "string option"
  dg_views :: "string list option"
  dg_activeView :: "string option"
  dg_headerPosition :: "string option"
  dg_tabGroups :: bool

datatype node =
    Leaf dgroup "int option" "bool option"
  | Branch "node list" "int option"

datatype jval = JUndef | JStr string | JBool bool

record dpanel =
  dp_id :: string
  dp_contentComponent :: string
  dp_title :: string
  dp_params :: "jval jrec"

record layout =
  dl_root :: node
  dl_height :: int
  dl_width :: int
  dl_orientation :: "string option"
  dl_panels :: "dpanel jrec"
  dl_activeGroup :: "string option"
  dl_edgeGroups :: bool
  dl_floatingGroups :: bool
  dl_popoutGroups :: bool

definition no_group :: dgroup where
  "no_group = \<lparr> dg_id = None, dg_views = None, dg_activeView = None, dg_headerPosition = None, dg_tabGroups = False \<rparr>"

definition view_list :: "dgroup \<Rightarrow> string list" where
  "view_list g = (case dg_views g of None \<Rightarrow> [] | Some vs \<Rightarrow> vs)"

definition uniqueViewIds :: "string list option \<Rightarrow> string list" where
  "uniqueViewIds views = (case views of None \<Rightarrow> [] | Some vs \<Rightarrow> uniq (filter (\<lambda>v. v \<noteq> '''') vs))"

definition isEmptyGroup :: "dgroup \<Rightarrow> bool" where
  "isEmptyGroup g = (uniqueViewIds (dg_views g) = [])"

definition size_or :: "int option \<Rightarrow> int option" where
  "size_or s = (case s of None \<Rightarrow> Some 1000 | Some x \<Rightarrow> Some x)"

fun toGridNode :: "node \<Rightarrow> node" where
  "toGridNode (Leaf g sz visible) = Leaf g (size_or sz) visible"
| "toGridNode (Branch cs sz) = Branch (map toGridNode cs) (size_or sz)"

fun fromGridNode :: "node \<Rightarrow> node" where
  "fromGridNode (Leaf g sz visible) = Leaf g (size_or sz) visible"
| "fromGridNode (Branch cs sz) = Branch (map fromGridNode cs) (size_or sz)"

definition collectPanelIds :: "layout \<Rightarrow> string list" where
  "collectPanelIds l = rkeys (dl_panels l)"

definition canApplyDockLayoutIncrementally :: "string list \<Rightarrow> string list \<Rightarrow> string list \<Rightarrow> bool" where
  "canApplyDockLayoutIncrementally api lay tabs =
     (if lay = [] then False
      else list_all (\<lambda>i. i \<in> set api) lay \<and> list_all (\<lambda>i. i \<in> set lay \<or> i \<notin> set tabs) api)"

definition new_panel :: "string \<Rightarrow> dpanel" where
  "new_panel i = \<lparr> dp_id = i, dp_contentComponent = ''dockable-content'', dp_title = i,
                   dp_params = [(''tabId'', JStr i)] \<rparr>"

definition group_name :: "string \<Rightarrow> string" where
  "group_name s = ''group-'' @ s"

definition createDefaultLayout :: "string list \<Rightarrow> string \<Rightarrow> layout" where
  "createDefaultLayout tabIds activeTabId =
     (let base = \<lparr> dl_root = toGridNode (Branch [Leaf no_group None None] None), dl_height = 0, dl_width = 0,
            dl_orientation = Some ''HORIZONTAL'', dl_panels = [], dl_activeGroup = None,
            dl_edgeGroups = False, dl_floatingGroups = False, dl_popoutGroups = False \<rparr>
      in if tabIds = [] then base
         else
           (let activeId = (if activeTabId \<in> set tabIds then activeTabId else hd tabIds);
                groupId = group_name activeId
            in base\<lparr>dl_root := toGridNode (Branch [Leaf (no_group\<lparr>dg_id := Some groupId,
                      dg_views := Some tabIds, dg_activeView := Some activeId\<rparr>) None None] None),
                    dl_panels := fold (\<lambda>i. rput i (new_panel i)) tabIds [],
                    dl_activeGroup := Some groupId\<rparr>))"

definition cloneLayout :: "layout \<Rightarrow> layout" where
  "cloneLayout l = l\<lparr>dl_panels := map (\<lambda>(i, p). (i, p\<lparr>dp_params := filter (\<lambda>(_, v). v \<noteq> JUndef) (dp_params p)\<rparr>))
     (dl_panels l)\<rparr>"

section \<open>Neighbours in a tab strip\<close>

fun index_in :: "'a \<Rightarrow> 'a list \<Rightarrow> nat option" where
  "index_in x [] = None"
| "index_in x (y # ys) = (if y = x then Some 0 else map_option Suc (index_in x ys))"

text \<open>The nearest accepted element to the left of a position, else the nearest to the right.\<close>

definition nearest :: "('a \<Rightarrow> bool) \<Rightarrow> 'a list \<Rightarrow> nat \<Rightarrow> 'a option" where
  "nearest ok xs i = (case find ok (rev (take i xs)) of Some x \<Rightarrow> Some x | None \<Rightarrow> find ok (drop (Suc i) xs))"

definition first_of :: "'a list \<Rightarrow> 'a option" where
  "first_of xs = (case xs of [] \<Rightarrow> None | x # _ \<Rightarrow> Some x)"

definition or_else :: "'a option \<Rightarrow> 'a option \<Rightarrow> 'a option" where
  "or_else a b = (case a of None \<Rightarrow> b | Some _ \<Rightarrow> a)"

definition filterGroupViews :: "dgroup \<Rightarrow> string list \<Rightarrow> dgroup" where
  "filterGroupViews g allowed =
     (let oldViews = uniqueViewIds (dg_views g);
          views = filter (\<lambda>i. i \<in> set allowed) oldViews;
          next = g\<lparr>dg_views := Some views\<rparr>
      in if truthy (dg_activeView g) \<and> the (dg_activeView g) \<notin> set allowed
         then
           (let nextActive = Option.bind (index_in (the (dg_activeView g)) oldViews)
                  (nearest (\<lambda>i. i \<in> set allowed) oldViews)
            in next\<lparr>dg_activeView := or_else nextActive (first_of views)\<rparr>)
         else next)"

fun pruneRoot :: "string list \<Rightarrow> node \<Rightarrow> node option" where
  "pruneRoot allowed (Leaf g sz visible) =
     (let g' = filterGroupViews g allowed in if isEmptyGroup g' then None else Some (Leaf g' sz visible))"
| "pruneRoot allowed (Branch cs sz) =
     (let cs' = concat (map (\<lambda>c. case pruneRoot allowed c of None \<Rightarrow> [] | Some n \<Rightarrow> [n]) cs)
      in if cs' = [] then None else Some (Branch cs' sz))"

definition stripMissingPanels :: "layout \<Rightarrow> string list \<Rightarrow> layout" where
  "stripMissingPanels l allowed =
     (let next = cloneLayout l;
          filteredPanels = filter (\<lambda>(i, _). i \<in> set allowed) (dl_panels next);
          next = next\<lparr>dl_panels := filteredPanels\<rparr>
      in case pruneRoot (rkeys filteredPanels) (fromGridNode (dl_root next)) of
           Some (Branch cs sz) \<Rightarrow> next\<lparr>dl_root := toGridNode (Branch cs sz)\<rparr>
         | Some (Leaf g sz visible) \<Rightarrow> next\<lparr>dl_root := toGridNode (Branch [Leaf g sz visible] None)\<rparr>
         | None \<Rightarrow> next\<lparr>dl_root := toGridNode (Branch [Leaf no_group None None] None)\<rparr>)"

fun firstLeafWithPanels :: "node \<Rightarrow> string list \<Rightarrow> dgroup option" where
  "firstLeafWithPanels (Leaf g sz visible) allowed =
     (let filtered = filter (\<lambda>i. i \<in> set allowed) (view_list g)
      in if filtered = [] then None else Some (g\<lparr>dg_views := Some filtered\<rparr>))"
| "firstLeafWithPanels (Branch cs sz) allowed =
     foldr (\<lambda>c acc. or_else (firstLeafWithPanels c allowed) acc) cs None"

fun mapRoot :: "(dgroup \<Rightarrow> dgroup) \<Rightarrow> node \<Rightarrow> node" where
  "mapRoot f (Leaf g sz visible) = Leaf (f g) sz visible"
| "mapRoot f (Branch cs sz) = Branch (map (mapRoot f) cs) sz"

definition addMissingPanels :: "layout \<Rightarrow> string list \<Rightarrow> string option \<Rightarrow> layout" where
  "addMissingPanels l missing activeTabId =
     (let next = cloneLayout l;
          next = next\<lparr>dl_panels := fold (\<lambda>i. rput i (new_panel i)) missing (dl_panels next)\<rparr>;
          allowed = rkeys (dl_panels next);
          root = fromGridNode (dl_root next)
      in case firstLeafWithPanels root allowed of
           Some target \<Rightarrow>
             (let updatedViews = view_list target @ missing;
                  updatedActive = or_else activeTabId (or_else (dg_activeView target) (first_of missing));
                  updated = mapRoot (\<lambda>g. if list_ex (\<lambda>i. i \<in> set allowed) (view_list g)
                      then g\<lparr>dg_views := Some updatedViews, dg_activeView := updatedActive\<rparr> else g) root
              in next\<lparr>dl_root := toGridNode updated\<rparr>)
         | None \<Rightarrow>
             (let activeId = or_else activeTabId (first_of missing);
                  groupId = group_name (case activeId of None \<Rightarrow> ''undefined'' | Some a \<Rightarrow> a);
                  newLeaf = Leaf (no_group\<lparr>dg_id := Some groupId, dg_views := Some missing,
                     dg_activeView := activeId\<rparr>) None None
              in next\<lparr>dl_root := toGridNode (Branch [newLeaf] None), dl_activeGroup := Some groupId\<rparr>))"

definition reorder_group :: "string list \<Rightarrow> dgroup \<Rightarrow> dgroup" where
  "reorder_group tabIds g =
     (let originalViews = uniqueViewIds (dg_views g);
          views = filter (\<lambda>i. i \<in> set tabIds) originalViews
      in if views = [] then g
         else
           (let ordered = filter (\<lambda>i. i \<in> set views) tabIds;
                trailing = filter (\<lambda>i. i \<notin> set ordered) views;
                finalViews = ordered @ trailing;
                activeView = (if truthy (dg_activeView g) \<and> the (dg_activeView g) \<in> set tabIds
                    then dg_activeView g
                    else or_else
                      (if truthy (dg_activeView g)
                       then Option.bind (index_in (the (dg_activeView g)) originalViews)
                              (nearest (\<lambda>i. i \<in> set tabIds) originalViews)
                       else None)
                      (first_of finalViews))
            in g\<lparr>dg_views := Some finalViews, dg_activeView := activeView\<rparr>))"

definition reorderLayoutViews :: "layout \<Rightarrow> string list \<Rightarrow> layout" where
  "reorderLayoutViews l tabIds =
     (if tabIds = [] then l
      else (let next = cloneLayout l in
            next\<lparr>dl_root := toGridNode (mapRoot (reorder_group tabIds) (fromGridNode (dl_root next)))\<rparr>))"

section \<open>Normalising\<close>

text \<open>\<open>activeView\<close> kept when it is one of the views, else the first view.\<close>

definition active_in :: "string option \<Rightarrow> string list \<Rightarrow> string option" where
  "active_in a views = (if truthy a \<and> the a \<in> set views then a else first_of views)"

text \<open>A walk over the leaves from left to right that threads a set of seen identifiers.\<close>

fun mapRootS :: "(dgroup \<Rightarrow> 's \<Rightarrow> dgroup \<times> 's) \<Rightarrow> node \<Rightarrow> 's \<Rightarrow> node \<times> 's"
  and mapRootsS :: "(dgroup \<Rightarrow> 's \<Rightarrow> dgroup \<times> 's) \<Rightarrow> node list \<Rightarrow> 's \<Rightarrow> node list \<times> 's" where
  "mapRootS f (Leaf g sz visible) s = (let (g', s') = f g s in (Leaf g' sz visible, s'))"
| "mapRootS f (Branch cs sz) s = (let (cs', s') = mapRootsS f cs s in (Branch cs' sz, s'))"
| "mapRootsS f [] s = ([], s)"
| "mapRootsS f (c # cs) s =
     (let (c', s') = mapRootS f c s; (cs', s'') = mapRootsS f cs s' in (c' # cs', s''))"

definition dedupe_group :: "dgroup \<Rightarrow> string list \<Rightarrow> dgroup \<times> string list" where
  "dedupe_group g seen =
     (let views = filter (\<lambda>i. i \<notin> set seen) (uniqueViewIds (dg_views g))
      in (g\<lparr>dg_views := Some views, dg_activeView := active_in (dg_activeView g) views\<rparr>, seen @ views))"

definition dedupeViewsAcrossLeaves :: "node \<Rightarrow> string list \<Rightarrow> node \<times> string list" where
  "dedupeViewsAcrossLeaves = mapRootS dedupe_group"

fun pruneEmptyLeaves :: "node \<Rightarrow> node option" where
  "pruneEmptyLeaves (Leaf g sz visible) =
     (if uniqueViewIds (dg_views g) = [] then None else Some (Leaf g sz visible))"
| "pruneEmptyLeaves (Branch cs sz) =
     (case concat (map (\<lambda>c. case pruneEmptyLeaves c of None \<Rightarrow> [] | Some n \<Rightarrow> [n]) cs) of
        [] \<Rightarrow> None
      | [Leaf g _ visible] \<Rightarrow> Some (Leaf g sz visible)
      | cs' \<Rightarrow> Some (Branch cs' sz))"

definition strip_group :: "dgroup \<Rightarrow> dgroup" where
  "strip_group g =
     (let views = uniqueViewIds (dg_views g)
      in g\<lparr>dg_headerPosition := None, dg_tabGroups := False, dg_views := Some views,
           dg_activeView := active_in (dg_activeView g) views\<rparr>)"

definition unique_group :: "dgroup \<Rightarrow> string list \<Rightarrow> dgroup \<times> string list" where
  "unique_group g used =
     (let id0 = js_trim (case dg_id g of None \<Rightarrow> '''' | Some i \<Rightarrow> i);
          label = (if truthy (dg_activeView g) then the (dg_activeView g)
                   else if truthy (first_of (view_list g)) then the (first_of (view_list g))
                   else dec (length used));
          base = group_name label;
          gid = (if id0 = '''' \<or> id0 \<in> set used then (if base \<in> set used then numbered ''-'' base (free_number ''-'' used base 1) else base)
                 else id0)
      in (g\<lparr>dg_id := Some gid\<rparr>, used @ [gid]))"

definition stripSideHeaderLayout :: "layout \<Rightarrow> layout" where
  "stripSideHeaderLayout l =
     (let next = (cloneLayout l)\<lparr>dl_edgeGroups := False, dl_floatingGroups := False, dl_popoutGroups := False\<rparr>;
          stripped = mapRoot strip_group (fromGridNode (dl_root next));
          deduped = fst (dedupeViewsAcrossLeaves stripped [])
      in case pruneEmptyLeaves deduped of
           None \<Rightarrow> next\<lparr>dl_root := toGridNode (Branch [] None)\<rparr>
         | Some pruned \<Rightarrow>
             next\<lparr>dl_root := toGridNode
               (case fst (mapRootS unique_group pruned []) of
                  Leaf g sz visible \<Rightarrow> Branch [Leaf g sz visible] None
                | Branch cs sz \<Rightarrow> Branch cs sz)\<rparr>)"

definition normalizeDockLayout :: "layout option \<Rightarrow> layout option" where
  "normalizeDockLayout l = map_option stripSideHeaderLayout l"

section \<open>Checks\<close>

fun leaves :: "node \<Rightarrow> dgroup list" where
  "leaves (Leaf g sz visible) = [g]"
| "leaves (Branch cs sz) = concat (map leaves cs)"

definition collectViewIds :: "layout \<Rightarrow> string list" where
  "collectViewIds l = concat (map view_list (leaves (dl_root l)))"

definition collectViewOrder :: "layout \<Rightarrow> string list" where
  "collectViewOrder l = uniq (collectViewIds l)"

definition layoutNeedsMerge :: "layout \<Rightarrow> string list \<Rightarrow> bool" where
  "layoutNeedsMerge base tabIds =
     (length (collectPanelIds base) \<noteq> length (uniq tabIds)
      \<or> list_ex (\<lambda>i. i \<notin> set (collectPanelIds base)) tabIds
      \<or> list_ex (\<lambda>i. i \<notin> set tabIds) (collectViewIds base))"

text \<open>The seen views and groups, or \<open>None\<close> at the first risk.\<close>

definition group_risk :: "dgroup \<Rightarrow> string list \<times> string list \<Rightarrow> (string list \<times> string list) option" where
  "group_risk g seen =
     (if dg_tabGroups g \<or> truthy (dg_headerPosition g) then None
      else if \<not> truthy (dg_id g) \<or> the (dg_id g) \<in> set (snd seen) then None
      else if list_ex (\<lambda>v. v \<in> set (fst seen)) (uniqueViewIds (dg_views g)) then None
      else Some (fst seen @ uniqueViewIds (dg_views g), snd seen @ [the (dg_id g)]))"

fun walk_risk :: "node \<Rightarrow> string list \<times> string list \<Rightarrow> (string list \<times> string list) option"
  and walk_risks :: "node list \<Rightarrow> string list \<times> string list \<Rightarrow> (string list \<times> string list) option" where
  "walk_risk (Leaf g sz visible) seen = group_risk g seen"
| "walk_risk (Branch cs sz) seen = walk_risks cs seen"
| "walk_risks [] seen = Some seen"
| "walk_risks (c # cs) seen = Option.bind (walk_risk c seen) (walk_risks cs)"

fun is_branch :: "node \<Rightarrow> bool" where
  "is_branch (Leaf _ _ _) = False"
| "is_branch (Branch _ _) = True"

definition layoutHasFromJsonRisk :: "layout \<Rightarrow> bool" where
  "layoutHasFromJsonRisk l \<longleftrightarrow>
     dl_edgeGroups l \<or> dl_floatingGroups l \<or> dl_popoutGroups l \<or> \<not> is_branch (dl_root l)
     \<or> walk_risk (dl_root l) ([], []) = None"

fun usable_node :: "string list \<Rightarrow> node \<Rightarrow> bool" where
  "usable_node panelIds (Leaf g sz visible) =
     (truthy (dg_id g) \<and> uniqueViewIds (dg_views g) \<noteq> []
      \<and> list_all (\<lambda>v. v \<in> set panelIds) (uniqueViewIds (dg_views g)))"
| "usable_node panelIds (Branch cs sz) = (cs \<noteq> [] \<and> list_all (usable_node panelIds) cs)"

definition isLayoutUsable :: "layout option \<Rightarrow> bool" where
  "isLayoutUsable lo =
     (case lo of None \<Rightarrow> False
      | Some l \<Rightarrow> rkeys (dl_panels l) \<noteq> [] \<and> usable_node (rkeys (dl_panels l)) (dl_root l)
          \<and> leaves (dl_root l) \<noteq> [] \<and> \<not> layoutHasFromJsonRisk l)"

section \<open>Merging and removing\<close>

definition applyActiveViewToLayout :: "layout \<Rightarrow> string \<Rightarrow> layout" where
  "applyActiveViewToLayout l activeTabId =
     (if activeTabId = '''' then l
      else
        (let root = fromGridNode (dl_root l);
             updated = mapRoot (\<lambda>g. if activeTabId \<in> set (view_list g)
               then g\<lparr>dg_activeView := Some activeTabId\<rparr> else g) root
         in if \<not> list_ex (\<lambda>g. activeTabId \<in> set (view_list g)) (leaves root) then l
            else (cloneLayout l)\<lparr>dl_root := toGridNode updated\<rparr>))"

definition mergePanelsIntoLayout :: "layout option \<Rightarrow> string list \<Rightarrow> string \<Rightarrow> layout option" where
  "mergePanelsIntoLayout base tabIds activeTabId =
     (if tabIds = [] then None
      else case base of
        None \<Rightarrow> Some (createDefaultLayout tabIds activeTabId)
      | Some b \<Rightarrow>
          if \<not> layoutNeedsMerge b tabIds
          then Some (applyActiveViewToLayout (stripSideHeaderLayout (reorderLayoutViews b tabIds)) activeTabId)
          else
            (let cleaned = stripMissingPanels b tabIds in
             if \<not> isLayoutUsable (Some cleaned)
             then Some (stripSideHeaderLayout
                    (reorderLayoutViews (addMissingPanels cleaned tabIds (Some activeTabId)) tabIds))
             else
               (let missing = filter (\<lambda>i. i \<notin> set (collectPanelIds cleaned)) tabIds in
                if missing = []
                then Some (stripSideHeaderLayout
                       (reorderLayoutViews (applyActiveViewToLayout cleaned activeTabId) tabIds))
                else Some (stripSideHeaderLayout
                       (reorderLayoutViews (addMissingPanels cleaned missing (Some activeTabId)) tabIds)))))"

definition resolveActiveAfterRemove ::
  "layout \<Rightarrow> string list \<Rightarrow> string list \<Rightarrow> string option \<Rightarrow> string option" where
  "resolveActiveAfterRemove l removedIds remaining preferred =
     (if truthy preferred \<and> the preferred \<in> set remaining then preferred
      else
        (let viewOrder = collectViewOrder l;
             near = foldr (\<lambda>r acc. case index_in r viewOrder of
                 None \<Rightarrow> acc
               | Some i \<Rightarrow> or_else (nearest (\<lambda>v. v \<in> set remaining) viewOrder i) acc) removedIds None
         in or_else near (or_else (find (\<lambda>v. v \<in> set remaining) viewOrder) (first_of remaining))))"

definition removePanelsFromLayout ::
  "layout option \<Rightarrow> string list \<Rightarrow> string option \<Rightarrow> layout option" where
  "removePanelsFromLayout lo panelIds activeTabId =
     (case lo of
        None \<Rightarrow> None
      | Some l \<Rightarrow>
          if panelIds = [] then Some l
          else
            (let remaining = filter (\<lambda>i. i \<notin> set panelIds) (collectPanelIds l) in
             if remaining = [] then None
             else
               (let fallback = the (resolveActiveAfterRemove l panelIds remaining activeTabId) in
                case mergePanelsIntoLayout (Some l) remaining fallback of
                  None \<Rightarrow> Some (createDefaultLayout remaining fallback)
                | Some m \<Rightarrow> Some m)))"

definition removePanelFromLayout :: "layout option \<Rightarrow> string \<Rightarrow> string option \<Rightarrow> layout option" where
  "removePanelFromLayout lo panelId activeTabId = removePanelsFromLayout lo [panelId] activeTabId"

definition safeLayoutForFromJson :: "layout option \<Rightarrow> string list \<Rightarrow> string \<Rightarrow> layout option" where
  "safeLayoutForFromJson lo tabIds activeTabId =
     (if tabIds = [] then None
      else
        (let normalized = normalizeDockLayout (mergePanelsIntoLayout lo tabIds activeTabId) in
         if normalized \<noteq> None \<and> isLayoutUsable normalized \<and> \<not> layoutHasFromJsonRisk (the normalized)
         then normalized
         else Some (createDefaultLayout tabIds (if activeTabId = '''' then hd tabIds else activeTabId))))"

definition diffRemovedPanelIds :: "layout \<Rightarrow> layout \<Rightarrow> string list" where
  "diffRemovedPanelIds prev next = filter (\<lambda>i. i \<notin> set (collectPanelIds next)) (collectPanelIds prev)"

section \<open>Tab titles and positions\<close>

record tab_meta =
  tm_id :: string
  tm_label :: string
  tm_icon :: "string option"
  tm_tooltip :: "string option"
  tm_status :: "string option"
  tm_type :: "string option"
  tm_dirty :: "bool option"
  tm_saved :: "bool option"

definition param :: "jval jrec \<Rightarrow> string \<Rightarrow> jval" where
  "param ps k = (case rget ps k of None \<Rightarrow> JUndef | Some v \<Rightarrow> v)"

definition str_or :: "string option \<Rightarrow> jval \<Rightarrow> jval" where
  "str_or a d = (case a of None \<Rightarrow> d | Some x \<Rightarrow> JStr x)"

definition bool_or :: "bool option \<Rightarrow> jval \<Rightarrow> jval" where
  "bool_or a d = (case a of None \<Rightarrow> d | Some x \<Rightarrow> JBool x)"

definition next_params :: "tab_meta \<Rightarrow> jval jrec \<Rightarrow> jval jrec" where
  "next_params t prev =
     fold (\<lambda>(k, v). rput k v)
       [(''tabId'', JStr (tm_id t)), (''label'', JStr (tm_label t)),
        (''icon'', str_or (tm_icon t) (param prev ''icon'')),
        (''tooltip'', JStr (case tm_tooltip t of None \<Rightarrow> tm_label t | Some x \<Rightarrow> x)),
        (''status'', str_or (tm_status t) (param prev ''status'')),
        (''type'', str_or (tm_type t) (param prev ''type'')),
        (''dirty'', bool_or (tm_dirty t) (param prev ''dirty'')),
        (''saved'', bool_or (tm_saved t) (param prev ''saved''))] prev"

definition enrich_panel :: "tab_meta \<Rightarrow> dpanel \<Rightarrow> dpanel" where
  "enrich_panel t p =
     (let prev = dp_params p; np = next_params t prev;
          prevLabel = (case param prev ''label'' of JStr x \<Rightarrow> Some x | _ \<Rightarrow> None);
          metaChanged = list_ex (\<lambda>k. param prev k \<noteq> param np k)
            [''icon'', ''status'', ''type'', ''dirty'', ''saved'', ''tooltip''];
          needsUpdate = dp_title p \<noteq> tm_label t \<or> prevLabel \<noteq> Some (tm_label t) \<or> \<not> truthy prevLabel
            \<or> prevLabel = Some (tm_id t) \<or> dp_title p = tm_id t \<or> metaChanged
      in if needsUpdate then p\<lparr>dp_title := tm_label t, dp_params := np\<rparr> else p)"

text \<open>A \<open>Map\<close> built from the tabs keeps the last tab of an identifier.\<close>

definition tab_by_id :: "tab_meta list \<Rightarrow> string \<Rightarrow> tab_meta option" where
  "tab_by_id tabs i = find (\<lambda>t. tm_id t = i) (rev tabs)"

definition enrichLayoutWithTabMeta :: "layout \<Rightarrow> tab_meta list \<Rightarrow> layout" where
  "enrichLayoutWithTabMeta l tabs =
     (if tabs = [] then l
      else l\<lparr>dl_panels := map (\<lambda>(i, p). (i, case tab_by_id tabs i of None \<Rightarrow> p | Some t \<Rightarrow> enrich_panel t p))
        (dl_panels l)\<rparr>)"

record region =
  rg_top :: bool
  rg_right :: bool
  rg_bottom :: bool
  rg_left :: bool

record group_snapshot =
  gs_id :: string
  gs_views :: "string list"
  gs_activeView :: "string option"
  gs_size :: "int option"
  gs_path :: string
  gs_region :: region

record placement =
  pl_id :: string
  pl_groupId :: string
  pl_tabIndex :: nat
  pl_isActiveInGroup :: bool
  pl_groupPath :: string
  pl_groupSize :: "int option"

record layout_snapshot =
  ls_activeGroup :: "string option"
  ls_orientation :: "string option"
  ls_groups :: "group_snapshot list"
  ls_panels :: "placement list"

datatype orient = Horizontal | Vertical

definition splitOrientationAtDepth :: "string \<Rightarrow> nat \<Rightarrow> orient" where
  "splitOrientationAtDepth rootOrientation depth =
     (let root = (if rootOrientation = ''VERTICAL'' then Vertical else Horizontal) in
      if even depth then root else if root = Horizontal then Vertical else Horizontal)"

definition applySplitConstraint :: "region \<Rightarrow> orient \<Rightarrow> nat \<Rightarrow> nat \<Rightarrow> region" where
  "applySplitConstraint r o' index siblingCount =
     (if o' = Vertical
      then r\<lparr>rg_top := rg_top r \<and> \<not> 0 < index, rg_bottom := rg_bottom r \<and> \<not> index + 1 < siblingCount\<rparr>
      else r\<lparr>rg_left := rg_left r \<and> \<not> 0 < index, rg_right := rg_right r \<and> \<not> index + 1 < siblingCount\<rparr>)"

definition branch_name :: "nat \<Rightarrow> string" where
  "branch_name i = ''branch['' @ dec i @ '']''"

definition child_path :: "string \<Rightarrow> nat \<Rightarrow> string" where
  "child_path path i = (if path = '''' then branch_name i else path @ '' > '' @ branch_name i)"

fun walkGridLeaves :: "node \<Rightarrow> string \<Rightarrow> string \<Rightarrow> nat \<Rightarrow> region \<Rightarrow> group_snapshot list"
  and walkChildren :: "node list \<Rightarrow> nat \<Rightarrow> nat \<Rightarrow> string \<Rightarrow> string \<Rightarrow> nat \<Rightarrow> region \<Rightarrow> group_snapshot list" where
  "walkGridLeaves (Leaf g sz visible) path rootO depth r =
     [\<lparr> gs_id = (case dg_id g of None \<Rightarrow> path | Some i \<Rightarrow> i), gs_views = view_list g,
        gs_activeView = dg_activeView g, gs_size = sz, gs_path = (if path = '''' then ''leaf'' else path),
        gs_region = r \<rparr>]"
| "walkGridLeaves (Branch cs sz) path rootO depth r = walkChildren cs 0 (length cs) path rootO depth r"
| "walkChildren [] i n path rootO depth r = []"
| "walkChildren (c # cs) i n path rootO depth r =
     walkGridLeaves c (child_path path i) rootO (Suc depth)
       (applySplitConstraint r (splitOrientationAtDepth rootO depth) i n)
     @ walkChildren cs (Suc i) n path rootO depth r"

definition placements :: "group_snapshot \<Rightarrow> placement list" where
  "placements g = map (\<lambda>(i, v). \<lparr> pl_id = v, pl_groupId = gs_id g, pl_tabIndex = i,
       pl_isActiveInGroup = (gs_activeView g = Some v), pl_groupPath = gs_path g, pl_groupSize = gs_size g \<rparr>)
     (zip [0..<length (gs_views g)] (gs_views g))"

definition describeDockLayout :: "layout option \<Rightarrow> layout_snapshot option" where
  "describeDockLayout lo =
     (case lo of None \<Rightarrow> None
      | Some l \<Rightarrow>
          (let groups = walkGridLeaves (fromGridNode (dl_root l)) ''''
                 (case dl_orientation l of None \<Rightarrow> ''HORIZONTAL'' | Some x \<Rightarrow> x) 0
                 \<lparr> rg_top = True, rg_right = True, rg_bottom = True, rg_left = True \<rparr>
           in Some \<lparr> ls_activeGroup = dl_activeGroup l, ls_orientation = dl_orientation l,
                     ls_groups = groups, ls_panels = concat (map placements groups) \<rparr>))"

section \<open>Leaves of transformed trees\<close>

lemma leaves_toGridNode [simp]: "leaves (toGridNode n) = leaves n"
  by (induction n) (simp_all cong: map_cong)

lemma leaves_fromGridNode [simp]: "leaves (fromGridNode n) = leaves n"
  by (induction n) (simp_all cong: map_cong)

lemma leaves_mapRoot [simp]: "leaves (mapRoot f n) = map f (leaves n)"
  by (induction n) (simp_all add: map_concat cong: map_cong)

lemma is_branch_grid [simp]: "is_branch (toGridNode n) = is_branch n" "is_branch (fromGridNode n) = is_branch n"
  by (cases n; simp)+

fun map_fold :: "('a \<Rightarrow> 's \<Rightarrow> 'a \<times> 's) \<Rightarrow> 'a list \<Rightarrow> 's \<Rightarrow> 'a list \<times> 's" where
  "map_fold f [] s = ([], s)"
| "map_fold f (x # xs) s = (let (x', s') = f x s; (xs', s'') = map_fold f xs s' in (x' # xs', s''))"

lemma map_fold_append:
  "map_fold f (xs @ ys) s = (let (xs', s') = map_fold f xs s; (ys', s'') = map_fold f ys s' in (xs' @ ys', s''))"
  by (induction xs arbitrary: s) (simp_all add: split_beta Let_def)

lemma leaves_mapRootS:
  "(leaves (fst (mapRootS f n s)), snd (mapRootS f n s)) = map_fold f (leaves n) s"
  "(concat (map leaves (fst (mapRootsS f ns s))), snd (mapRootsS f ns s)) = map_fold f (concat (map leaves ns)) s"
proof (induction f n s and f ns s rule: mapRootS_mapRootsS.induct)
  case (4 f c cs s)
  obtain c' s' where c: "mapRootS f c s = (c', s')" by (meson surj_pair)
  obtain cs' s'' where cs: "mapRootsS f cs s' = (cs', s'')" by (meson surj_pair)
  from 4(1) 4(2) [OF c [symmetric] refl] c cs show ?case
    by (simp add: map_fold_append split_beta Let_def) (metis fst_conv snd_conv)
qed (simp_all add: split_beta Let_def)

lemma leaves_mapRootS_fst: "leaves (fst (mapRootS f n s)) = fst (map_fold f (leaves n) s)"
  using leaves_mapRootS(1) [of f n s] by (metis fst_conv)

lemma concat_opt: "concat (map (\<lambda>c. case f c of None \<Rightarrow> [] | Some n \<Rightarrow> [n]) cs) = List.map_filter f cs"
  by (induction cs) (simp_all add: List.map_filter_def split: option.split)

lemma leaves_pruneEmpty:
  "filter (\<lambda>g. uniqueViewIds (dg_views g) \<noteq> []) (leaves n)
     = (case pruneEmptyLeaves n of None \<Rightarrow> [] | Some m \<Rightarrow> leaves m)"
proof (induction n)
  case (Branch cs sz)
  let ?cs = "concat (map (\<lambda>c. case pruneEmptyLeaves c of None \<Rightarrow> [] | Some n \<Rightarrow> [n]) cs)"
  have "filter (\<lambda>g. uniqueViewIds (dg_views g) \<noteq> []) (concat (map leaves cs)) = concat (map leaves ?cs)"
    using Branch.IH by (induction cs) (auto split: option.splits)
  then show ?case by (auto split: list.split node.split)
qed simp

section \<open>What can be loaded\<close>

fun group_fold :: "dgroup list \<Rightarrow> string list \<times> string list \<Rightarrow> (string list \<times> string list) option" where
  "group_fold [] seen = Some seen"
| "group_fold (g # gs) seen = Option.bind (group_risk g seen) (group_fold gs)"

lemma group_fold_append: "group_fold (gs @ hs) seen = Option.bind (group_fold gs seen) (group_fold hs)"
proof (induction gs arbitrary: seen)
  case (Cons g gs)
  show ?case by (cases "group_risk g seen") (simp_all add: Cons)
qed simp

lemma walk_risk_leaves:
  "walk_risk n seen = group_fold (leaves n) seen"
  "walk_risks ns seen = group_fold (concat (map leaves ns)) seen"
proof (induction n seen and ns seen rule: walk_risk_walk_risks.induct)
  case (4 c cs seen)
  show ?case
  proof (cases "walk_risk c seen")
    case None
    with 4(1) have "group_fold (leaves c) seen = None" by simp
    with None show ?thesis by (simp add: group_fold_append)
  next
    case (Some s)
    with 4(1) have "group_fold (leaves c) seen = Some s" by simp
    with Some 4(2) [OF Some] show ?thesis by (simp add: group_fold_append)
  qed
next
  case (1 g sz visible seen)
  show ?case by (cases "group_risk g seen") simp_all
qed simp_all

abbreviation uviews :: "dgroup \<Rightarrow> string list" where
  "uviews g \<equiv> uniqueViewIds (dg_views g)"

definition plain_group :: "dgroup \<Rightarrow> bool" where
  "plain_group g \<longleftrightarrow> \<not> dg_tabGroups g \<and> \<not> truthy (dg_headerPosition g)"

lemma group_fold_ok:
  assumes "list_all plain_group gs" "list_all (\<lambda>g. truthy (dg_id g)) gs"
    and "distinct (is @ map (the \<circ> dg_id) gs)" "distinct (vs @ concat (map uviews gs))"
  shows "group_fold gs (vs, is) \<noteq> None"
  using assms
proof (induction gs arbitrary: vs "is")
  case (Cons g gs)
  then have "group_risk g (vs, is) = Some (vs @ uviews g, is @ [the (dg_id g)])"
    by (auto simp: group_risk_def plain_group_def list_ex_iff)
  moreover have "group_fold gs (vs @ uviews g, is @ [the (dg_id g)]) \<noteq> None"
    by (rule Cons.IH) (use Cons.prems in simp_all)
  ultimately show ?case by simp
qed simp

lemma distinct_uniqueViewIds [simp]: "distinct (uniqueViewIds vs)" "'''' \<notin> set (uniqueViewIds vs)"
  by (auto simp: uniqueViewIds_def split: option.split)

lemma set_uniqueViewIds: "set (uniqueViewIds (Some vs)) = set vs - {''''}"
  by (auto simp: uniqueViewIds_def)

lemma uniqueViewIds_clean [simp]: "distinct vs \<Longrightarrow> '''' \<notin> set vs \<Longrightarrow> uniqueViewIds (Some vs) = vs"
proof -
  assume vs: "distinct vs" "'''' \<notin> set vs"
  then have "filter (\<lambda>v. v \<noteq> '''') vs = vs" by (induction vs) auto
  with vs(1) show ?thesis by (simp add: uniqueViewIds_def uniq_distinct)
qed

lemma uniq_from_filter: "distinct xs \<Longrightarrow> uniq_from seen xs = filter (\<lambda>x. x \<notin> set seen) xs"
proof (induction xs arbitrary: seen)
  case (Cons x xs)
  then have "filter (\<lambda>y. y \<noteq> x \<and> y \<notin> set seen) xs = filter (\<lambda>y. y \<notin> set seen) xs"
    by (auto intro: filter_cong)
  with Cons show ?case by simp
qed simp

lemma uniq_from_cong: "set seen = set seen' \<Longrightarrow> uniq_from seen xs = uniq_from seen' xs"
proof (induction xs arbitrary: seen seen')
  case (Cons x xs)
  have "uniq_from (x # seen) xs = uniq_from (x # seen') xs" by (rule Cons.IH) (simp add: Cons.prems)
  with Cons.IH [OF Cons.prems] show ?case using Cons.prems by simp
qed simp

lemma uniq_from_append: "uniq_from seen (xs @ ys) = uniq_from seen xs @ uniq_from (seen @ xs) ys"
proof (induction xs arbitrary: seen)
  case (Cons x xs)
  have "uniq_from (x # seen @ xs) ys = uniq_from (seen @ x # xs) ys" by (rule uniq_from_cong) auto
  moreover have "uniq_from (seen @ xs) ys = uniq_from (seen @ x # xs) ys" if "x \<in> set seen"
    by (rule uniq_from_cong) (use that in auto)
  ultimately show ?case using Cons by simp
qed simp

lemma map_fold_Cons_fst: "f x s = (x', s') \<Longrightarrow> fst (map_fold f (x # xs) s) = x' # fst (map_fold f xs s')"
  by (simp add: split_beta)

lemma clone_frames [simp]:
  "dl_root (cloneLayout l) = dl_root l" "rkeys (dl_panels (cloneLayout l)) = rkeys (dl_panels l)"
  "dl_orientation (cloneLayout l) = dl_orientation l" "dl_activeGroup (cloneLayout l) = dl_activeGroup l"
  "dl_edgeGroups (cloneLayout l) = dl_edgeGroups l" "dl_floatingGroups (cloneLayout l) = dl_floatingGroups l"
  "dl_popoutGroups (cloneLayout l) = dl_popoutGroups l"
  by (simp_all add: cloneLayout_def split_beta comp_def)

lemma dedupe_views:
  "concat (map uviews (fst (map_fold dedupe_group gs seen))) = uniq_from seen (concat (map uviews gs))"
proof (induction gs arbitrary: seen)
  case (Cons g gs)
  let ?vs = "filter (\<lambda>i. i \<notin> set seen) (uviews g)"
  have "uniqueViewIds (Some ?vs) = ?vs" by simp
  moreover have "uniq_from (seen @ ?vs) ys = uniq_from (seen @ uviews g) ys" for ys
    by (rule uniq_from_cong) auto
  ultimately show ?case
    using Cons by (simp add: dedupe_group_def Let_def split_beta uniq_from_append uniq_from_filter)
qed simp

lemma dedupe_plain:
  "list_all plain_group gs \<Longrightarrow> list_all plain_group (fst (map_fold dedupe_group gs seen))"
  by (induction gs arbitrary: seen) (simp_all add: dedupe_group_def Let_def split_beta plain_group_def)

lemma concat_uviews_filter: "concat (map uviews (filter (\<lambda>g. uviews g \<noteq> []) gs)) = concat (map uviews gs)"
  by (induction gs) auto

lemma unique_group_fields:
  assumes "unique_group g used = (g', used')"
  shows "used' = used @ [the (dg_id g')]" "truthy (dg_id g')" "the (dg_id g') \<notin> set used"
    "dg_views g' = dg_views g" "plain_group g' = plain_group g"
proof -
  have "group_name l \<noteq> ''''" for l by (simp add: group_name_def)
  then have ne: "numbered sep (group_name l) k \<noteq> ''''" "group_name l \<noteq> ''''" for sep l k
    by (simp_all add: numbered_def)
  then show "used' = used @ [the (dg_id g')]" "truthy (dg_id g')" "the (dg_id g') \<notin> set used"
    "dg_views g' = dg_views g" "plain_group g' = plain_group g"
    using assms free_number_free ne by (auto simp: unique_group_def Let_def plain_group_def split: if_splits)
qed

lemma unique_groups_all:
  "map dg_views (fst (map_fold unique_group gs used)) = map dg_views gs
   \<and> (list_all plain_group gs \<longrightarrow> list_all plain_group (fst (map_fold unique_group gs used)))
   \<and> list_all (\<lambda>g. truthy (dg_id g)) (fst (map_fold unique_group gs used))
   \<and> (distinct used \<longrightarrow> distinct (used @ map (the \<circ> dg_id) (fst (map_fold unique_group gs used))))"
proof (induction gs arbitrary: used)
  case (Cons g gs)
  obtain g' used' where g: "unique_group g used = (g', used')" by (meson surj_pair)
  note f = unique_group_fields [OF g]
  have step: "fst (map_fold unique_group (g # gs) used) = g' # fst (map_fold unique_group gs used')"
    by (rule map_fold_Cons_fst) (rule g)
  show ?case unfolding step using Cons [of used'] f by simp
qed simp

lemmas unique_groups =
  unique_groups_all [THEN conjunct1]
  unique_groups_all [THEN conjunct2, THEN conjunct1, rule_format]
  unique_groups_all [THEN conjunct2, THEN conjunct2, THEN conjunct1]
  unique_groups_all [THEN conjunct2, THEN conjunct2, THEN conjunct2, rule_format]

text \<open>The groups that normalising leaves: cleaned, deduplicated, non-empty and renamed.\<close>

definition clean_groups :: "dgroup list \<Rightarrow> dgroup list" where
  "clean_groups gs = fst (map_fold unique_group
     (filter (\<lambda>g. uviews g \<noteq> []) (fst (map_fold dedupe_group (map strip_group gs) []))) [])"

lemma leaves_strip: "leaves (dl_root (stripSideHeaderLayout l)) = clean_groups (leaves (dl_root l))"
proof -
  let ?d = "fst (dedupeViewsAcrossLeaves (mapRoot strip_group (fromGridNode (dl_root l))) [])"
  have d: "leaves ?d = fst (map_fold dedupe_group (map strip_group (leaves (dl_root l))) [])"
    by (simp add: dedupeViewsAcrossLeaves_def leaves_mapRootS_fst)
  have one: "leaves (case n of Leaf g sz visible \<Rightarrow> Branch [Leaf g sz visible] None | Branch cs sz \<Rightarrow> Branch cs sz)
      = leaves n" for n
    by (cases n) simp_all
  show ?thesis
  proof (cases "pruneEmptyLeaves ?d")
    case None
    with leaves_pruneEmpty [of ?d] have "filter (\<lambda>g. uviews g \<noteq> []) (leaves ?d) = []" by simp
    with None show ?thesis
      by (simp add: stripSideHeaderLayout_def Let_def d clean_groups_def)
  next
    case (Some m)
    with leaves_pruneEmpty [of ?d] have "filter (\<lambda>g. uviews g \<noteq> []) (leaves ?d) = leaves m" by simp
    with Some show ?thesis
      by (simp add: stripSideHeaderLayout_def Let_def d clean_groups_def one leaves_mapRootS_fst)
  qed
qed

lemma uviews_strip_group [simp]: "uviews (strip_group g) = uviews g"
  by (simp add: strip_group_def Let_def)

lemma clean_groups_views: "concat (map uviews (clean_groups gs)) = uniq (concat (map uviews gs))"
proof -
  let ?ds = "filter (\<lambda>g. uviews g \<noteq> []) (fst (map_fold dedupe_group (map strip_group gs) []))"
  have "map uviews (clean_groups gs) = map uniqueViewIds (map dg_views (clean_groups gs))" by simp
  also have "\<dots> = map uniqueViewIds (map dg_views ?ds)"
    by (simp only: clean_groups_def unique_groups(1))
  finally have "map uviews (clean_groups gs) = map uviews ?ds" by simp
  then show ?thesis by (simp only: concat_uviews_filter dedupe_views) (simp add: comp_def)
qed

lemma clean_groups_nonempty: "list_all (\<lambda>g. uviews g \<noteq> []) (clean_groups gs)"
proof -
  have "list_all (\<lambda>vs. uniqueViewIds vs \<noteq> []) (map dg_views (clean_groups gs))"
    by (simp only: clean_groups_def unique_groups(1)) (simp add: list_all_iff)
  then show ?thesis by (simp add: list_all_iff)
qed

lemma clean_groups_ok:
  "list_all plain_group (clean_groups gs)" "list_all (\<lambda>g. truthy (dg_id g)) (clean_groups gs)"
  "distinct (map (the \<circ> dg_id) (clean_groups gs))"
proof -
  have "list_all plain_group (map strip_group gs)"
    by (simp add: list_all_iff strip_group_def plain_group_def Let_def)
  then have "list_all plain_group (fst (map_fold dedupe_group (map strip_group gs) []))"
    by (rule dedupe_plain)
  then show "list_all plain_group (clean_groups gs)"
    unfolding clean_groups_def by (intro unique_groups(2)) (simp add: list_all_iff)
  show "list_all (\<lambda>g. truthy (dg_id g)) (clean_groups gs)" "distinct (map (the \<circ> dg_id) (clean_groups gs))"
    using unique_groups(3) unique_groups(4) [of "[]"] by (simp_all add: clean_groups_def)
qed

lemma clean_groups_view_list: "list_all (\<lambda>g. view_list g = uviews g) (clean_groups gs)"
proof -
  let ?ok = "\<lambda>vs. vs \<noteq> None \<and> distinct (the vs) \<and> '''' \<notin> set (the vs)"
  let ?ds = "fst (map_fold dedupe_group (map strip_group gs) [])"
  have "list_all (\<lambda>g. ?ok (dg_views g)) (fst (map_fold dedupe_group gs seen))" for gs seen
    by (induction gs arbitrary: seen) (simp_all add: dedupe_group_def Let_def split_beta)
  from this [of "map strip_group gs" "[]"] have "list_all ?ok (map dg_views (filter (\<lambda>g. uviews g \<noteq> []) ?ds))"
    by (simp add: list_all_iff)
  then have "list_all ?ok (map dg_views (clean_groups gs))"
    by (simp only: clean_groups_def unique_groups(1))
  then show ?thesis by (auto simp: list_all_iff view_list_def)
qed

lemma strip_no_risk: "\<not> layoutHasFromJsonRisk (stripSideHeaderLayout l)"
proof -
  let ?n = "stripSideHeaderLayout l"
  have "walk_risk (dl_root ?n) ([], []) \<noteq> None"
    unfolding walk_risk_leaves leaves_strip
    by (rule group_fold_ok) (simp_all add: clean_groups_ok clean_groups_views)
  moreover have "is_branch (dl_root ?n)"
    by (auto simp: stripSideHeaderLayout_def Let_def split: option.split node.split)
  moreover have "\<not> dl_edgeGroups ?n" "\<not> dl_floatingGroups ?n" "\<not> dl_popoutGroups ?n"
    by (auto simp: stripSideHeaderLayout_def Let_def split: option.split)
  ultimately show ?thesis by (simp add: layoutHasFromJsonRisk_def)
qed

section \<open>Shape\<close>

text \<open>No branch is empty.\<close>

fun solid :: "node \<Rightarrow> bool" where
  "solid (Leaf g sz visible) = True"
| "solid (Branch cs sz) = (cs \<noteq> [] \<and> list_all solid cs)"

definition good_leaf :: "string list \<Rightarrow> dgroup \<Rightarrow> bool" where
  "good_leaf ids g \<longleftrightarrow> truthy (dg_id g) \<and> uviews g \<noteq> [] \<and> set (uviews g) \<subseteq> set ids"

lemma usable_node_iff: "usable_node ids n \<longleftrightarrow> solid n \<and> list_all (good_leaf ids) (leaves n)"
proof (induction n)
  case (Branch cs sz)
  then show ?case by (auto simp: list_all_iff)
qed (auto simp: good_leaf_def list_all_iff)

lemma solid_leaves: "solid n \<Longrightarrow> leaves n \<noteq> []"
proof (induction n)
  case (Branch cs sz)
  then show ?case by (cases cs) auto
qed simp

lemma solid_grid [simp]: "solid (toGridNode n) = solid n" "solid (fromGridNode n) = solid n"
  by (induction n) (auto simp: list_all_iff)

lemma solid_mapRoot [simp]: "solid (mapRoot f n) = solid n"
  by (induction n) (auto simp: list_all_iff)

lemma solid_mapRootS:
  "solid (fst (mapRootS f n s)) = solid n"
  "list_all solid (fst (mapRootsS f ns s)) = list_all solid ns \<and> (fst (mapRootsS f ns s) = []) = (ns = [])"
proof (induction f n s and f ns s rule: mapRootS_mapRootsS.induct)
  case (4 f c cs s)
  obtain c' s' where c: "mapRootS f c s = (c', s')" by (meson surj_pair)
  with 4 show ?case by (simp add: split_beta Let_def)
qed (simp_all add: split_beta Let_def)

lemma solid_pruneEmpty: "pruneEmptyLeaves n = Some m \<Longrightarrow> solid m"
proof (induction n arbitrary: m)
  case (Branch cs sz)
  have "list_all solid (concat (map (\<lambda>c. case pruneEmptyLeaves c of None \<Rightarrow> [] | Some n \<Rightarrow> [n]) cs))"
    using Branch.IH by (auto simp: list_all_iff split: option.splits)
  with Branch.prems show ?case by (auto split: list.splits node.splits)
qed (auto split: if_splits)

lemma solid_pruneRoot: "pruneRoot ids n = Some m \<Longrightarrow> solid m"
proof (induction n arbitrary: m)
  case (Branch cs sz)
  have "list_all solid (concat (map (\<lambda>c. case pruneRoot ids c of None \<Rightarrow> [] | Some n \<Rightarrow> [n]) cs))"
    using Branch.IH by (auto simp: list_all_iff split: option.splits)
  with Branch.prems show ?case by (auto simp: Let_def split: if_splits)
qed (auto simp: Let_def split: if_splits)

lemma leaves_pruneRoot:
  "filter (\<lambda>g. uviews g \<noteq> []) (map (\<lambda>g. filterGroupViews g ids) (leaves n))
     = (case pruneRoot ids n of None \<Rightarrow> [] | Some m \<Rightarrow> leaves m)"
proof (induction n)
  case (Branch cs sz)
  let ?cs = "concat (map (\<lambda>c. case pruneRoot ids c of None \<Rightarrow> [] | Some n \<Rightarrow> [n]) cs)"
  have "filter (\<lambda>g. uviews g \<noteq> []) (map (\<lambda>g. filterGroupViews g ids) (concat (map leaves cs))) = concat (map leaves ?cs)"
    using Branch.IH by (induction cs) (auto split: option.splits)
  then show ?case by (auto simp: Let_def)
qed (simp add: Let_def isEmptyGroup_def)

lemma filterGroupViews_fields:
  "uviews (filterGroupViews g ids) = filter (\<lambda>i. i \<in> set ids) (uviews g)"
  "dg_id (filterGroupViews g ids) = dg_id g" "plain_group (filterGroupViews g ids) = plain_group g"
  by (simp_all add: filterGroupViews_def Let_def plain_group_def)

lemma group_fold_imp:
  assumes "group_fold gs (vs, is) \<noteq> None" "distinct is" "distinct vs"
  shows "list_all plain_group gs \<and> distinct (is @ map (the \<circ> dg_id) gs) \<and> distinct (vs @ concat (map uviews gs))"
  using assms
proof (induction gs arbitrary: vs "is")
  case (Cons g gs)
  then have g: "plain_group g" "the (dg_id g) \<notin> set is" "set vs \<inter> set (uviews g) = {}"
      "group_risk g (vs, is) = Some (vs @ uviews g, is @ [the (dg_id g)])"
    by (auto simp: group_risk_def plain_group_def list_ex_iff split: if_splits)
  then have "group_fold gs (vs @ uviews g, is @ [the (dg_id g)]) \<noteq> None" using Cons.prems(1) by simp
  from Cons.IH [OF this] g Cons.prems(2,3) show ?case by simp
qed simp

text \<open>A usable layout, in terms of its leaves.\<close>

lemma isLayoutUsable_iff:
  "isLayoutUsable (Some l) \<longleftrightarrow> rkeys (dl_panels l) \<noteq> [] \<and> is_branch (dl_root l) \<and> solid (dl_root l)
     \<and> \<not> dl_edgeGroups l \<and> \<not> dl_floatingGroups l \<and> \<not> dl_popoutGroups l
     \<and> list_all (good_leaf (rkeys (dl_panels l))) (leaves (dl_root l))
     \<and> list_all plain_group (leaves (dl_root l)) \<and> distinct (map (the \<circ> dg_id) (leaves (dl_root l)))
     \<and> distinct (concat (map uviews (leaves (dl_root l))))"
proof -
  have "walk_risk (dl_root l) ([], []) \<noteq> None \<longleftrightarrow> list_all plain_group (leaves (dl_root l))
      \<and> distinct (map (the \<circ> dg_id) (leaves (dl_root l))) \<and> distinct (concat (map uviews (leaves (dl_root l))))"
    if "list_all (good_leaf (rkeys (dl_panels l))) (leaves (dl_root l))"
    unfolding walk_risk_leaves
    using group_fold_ok [of "leaves (dl_root l)" "[]" "[]"] group_fold_imp [of "leaves (dl_root l)" "[]" "[]"] that
    by (auto simp: good_leaf_def list_all_iff)
  then show ?thesis
    by (auto simp: isLayoutUsable_def usable_node_iff layoutHasFromJsonRisk_def dest: solid_leaves)
qed

abbreviation shown :: "layout \<Rightarrow> string list" where
  "shown l \<equiv> concat (map uviews (leaves (dl_root l)))"

lemma set_fold_rput: "set (rkeys (fold (\<lambda>i. rput i (f i)) ids r)) = set ids \<union> set (rkeys r)"
proof (induction ids arbitrary: r)
  case (Cons i ids)
  have "set (rkeys (rput i (f i) r)) = insert i (set (rkeys r))" by (induction r) auto
  with Cons show ?case by auto
qed simp

lemma default_usable:
  assumes "t \<in> set tabIds" "t \<noteq> ''''"
  shows "isLayoutUsable (Some (createDefaultLayout tabIds a))"
proof -
  have "tabIds \<noteq> []" "group_name x \<noteq> ''''" for x using assms by (auto simp: group_name_def)
  moreover have "uniqueViewIds (Some tabIds) \<noteq> []"
    using assms set_uniqueViewIds [of tabIds] by (metis Diff_iff emptyE list.set(1) singletonD)
  moreover have keys: "set (rkeys (fold (\<lambda>i. rput i (new_panel i)) tabIds [])) = set tabIds"
    using set_fold_rput [of new_panel tabIds "[]"] by simp
  moreover have "rkeys (fold (\<lambda>i. rput i (new_panel i)) tabIds []) \<noteq> []"
    using keys assms(1) by (metis emptyE list.set(1))
  ultimately show ?thesis
    by (simp add: isLayoutUsable_iff createDefaultLayout_def Let_def no_group_def good_leaf_def plain_group_def)
       (auto simp: set_uniqueViewIds)
qed

text \<open>Normalising a layout with something to show.\<close>

lemma stripSideHeader_usable:
  assumes "set (shown l) \<subseteq> set (rkeys (dl_panels l))" "shown l \<noteq> []"
  shows "isLayoutUsable (Some (stripSideHeaderLayout l))"
    and "set (shown (stripSideHeaderLayout l)) = set (shown l)"
    and "rkeys (dl_panels (stripSideHeaderLayout l)) = rkeys (dl_panels l)"
proof -
  let ?n = "stripSideHeaderLayout l"
  have shown: "shown ?n = uniq (shown l)" by (simp add: leaves_strip clean_groups_views)
  then show "set (shown ?n) = set (shown l)" by simp
  show keys: "rkeys (dl_panels ?n) = rkeys (dl_panels l)"
    by (auto simp: stripSideHeaderLayout_def Let_def split: option.split)
  have "clean_groups (leaves (dl_root l)) \<noteq> []"
    using clean_groups_views [of "leaves (dl_root l)"] assms(2) set_uniq_from [of "[]" "shown l"]
    by (metis Diff_empty concat.simps(1) list.set(1) list.simps(8) set_empty)
  then have "leaves (dl_root ?n) \<noteq> []" by (simp add: leaves_strip)
  then have "solid (dl_root ?n)"
    by (auto simp: stripSideHeaderLayout_def Let_def solid_mapRootS dest!: solid_pruneEmpty
        split: option.splits node.splits) (metis solid.simps(2) solid_mapRootS(1))+
  moreover have "list_all (good_leaf (rkeys (dl_panels l))) (leaves (dl_root ?n))"
  proof -
    have "set (uviews g) \<subseteq> set (rkeys (dl_panels l))" if "g \<in> set (leaves (dl_root ?n))" for g
    proof -
      have "set (uviews g) \<subseteq> set (shown ?n)" using that by auto
      with assms(1) \<open>set (shown ?n) = set (shown l)\<close> show ?thesis by simp
    qed
    then show ?thesis
      using clean_groups_ok(2) [of "leaves (dl_root l)"] clean_groups_nonempty [of "leaves (dl_root l)"]
      by (auto simp: list_all_iff good_leaf_def leaves_strip)
  qed
  moreover have "\<not> layoutHasFromJsonRisk ?n" by (rule strip_no_risk)
  moreover have "rkeys (dl_panels l) \<noteq> []" using assms by (metis list.set(1) set_empty subset_empty)
  ultimately show "isLayoutUsable (Some ?n)"
    unfolding isLayoutUsable_def by (simp add: usable_node_iff keys solid_leaves)
qed

section \<open>Merging with nothing to add\<close>

lemma is_branch_mapRoot [simp]: "is_branch (mapRoot f n) = is_branch n"
  by (cases n) simp_all

text \<open>A rewriting of the groups that keeps views, identifiers and header fields.\<close>

definition same_shape :: "layout \<Rightarrow> layout \<Rightarrow> bool" where
  "same_shape l m \<longleftrightarrow> dl_edgeGroups m = dl_edgeGroups l \<and> dl_floatingGroups m = dl_floatingGroups l
     \<and> dl_popoutGroups m = dl_popoutGroups l \<and> rkeys (dl_panels m) = rkeys (dl_panels l)
     \<and> is_branch (dl_root m) = is_branch (dl_root l) \<and> solid (dl_root m) = solid (dl_root l)
     \<and> map (\<lambda>g. (dg_id g, dg_views g, plain_group g)) (leaves (dl_root m))
         = map (\<lambda>g. (dg_id g, dg_views g, plain_group g)) (leaves (dl_root l))"

lemma same_shape_usable:
  assumes "same_shape l m"
  shows "isLayoutUsable (Some m) = isLayoutUsable (Some l)" "shown m = shown l"
    "rkeys (dl_panels m) = rkeys (dl_panels l)"
proof -
  let ?k = "\<lambda>g. (dg_id g, dg_views g, plain_group g)"
  let ?L = "map ?k (leaves (dl_root l))" and ?M = "map ?k (leaves (dl_root m))"
  have M: "?M = ?L" using assms by (simp add: same_shape_def)
  have ids: "map dg_id (leaves (dl_root m)) = map dg_id (leaves (dl_root l))"
    and views: "map dg_views (leaves (dl_root m)) = map dg_views (leaves (dl_root l))"
    and plain: "map plain_group (leaves (dl_root m)) = map plain_group (leaves (dl_root l))"
  proof -
    have "map fst ?M = map fst ?L" "map (fst \<circ> snd) ?M = map (fst \<circ> snd) ?L" "map (snd \<circ> snd) ?M = map (snd \<circ> snd) ?L"
      by (simp_all only: M)
    then show "map dg_id (leaves (dl_root m)) = map dg_id (leaves (dl_root l))"
      "map dg_views (leaves (dl_root m)) = map dg_views (leaves (dl_root l))"
      "map plain_group (leaves (dl_root m)) = map plain_group (leaves (dl_root l))" by (simp_all add: comp_def)
  qed
  have good: "list_all (good_leaf is) (leaves n) = list_all (\<lambda>k. truthy (fst k) \<and> uniqueViewIds (fst (snd k)) \<noteq> []
      \<and> set (uniqueViewIds (fst (snd k))) \<subseteq> set is) (map ?k (leaves n))" for "is" n
    by (simp add: list_all_iff good_leaf_def)
  have idmap: "map (the \<circ> dg_id) gs = map the (map dg_id gs)" for gs by simp
  have plainall: "list_all plain_group gs = list_all (\<lambda>b. b) (map plain_group gs)" for gs by (simp add: list_all_iff)
  have uv: "map uviews gs = map uniqueViewIds (map dg_views gs)" for gs by simp
  show "shown m = shown l" by (simp only: uv views)
  then show "isLayoutUsable (Some m) = isLayoutUsable (Some l)"
    unfolding isLayoutUsable_iff good idmap plainall ids plain M using assms by (simp add: same_shape_def)
  show "rkeys (dl_panels m) = rkeys (dl_panels l)" using assms by (simp add: same_shape_def)
qed

lemma same_shape_active: "same_shape l (applyActiveViewToLayout l a)"
  by (auto simp: same_shape_def applyActiveViewToLayout_def Let_def comp_def plain_group_def)

lemma reorder_group_views:
  assumes "set (uviews g) \<subseteq> set ids"
  shows "set (uviews (reorder_group ids g)) = set (uviews g)"
proof -
  have "filter (\<lambda>i. i \<in> set ids) (uviews g) = uviews g" using assms by (intro filter_True) auto
  moreover have "set (uniqueViewIds (Some (filter (\<lambda>i. i \<in> set (uviews g)) ids
      @ filter (\<lambda>i. i \<notin> set (filter (\<lambda>i. i \<in> set (uviews g)) ids)) (uviews g)))) = set (uviews g)"
    unfolding set_uniqueViewIds using assms by auto
  ultimately show ?thesis by (simp add: reorder_group_def Let_def del: filter_filter)
qed

lemma reorder_shown:
  assumes "set (shown l) \<subseteq> set ids"
  shows "set (shown (reorderLayoutViews l ids)) = set (shown l)"
    "rkeys (dl_panels (reorderLayoutViews l ids)) = rkeys (dl_panels l)"
proof -
  have "set (uviews (reorder_group ids g)) = set (uviews g)" if "g \<in> set (leaves (dl_root l))" for g
    using that assms by (intro reorder_group_views) auto
  then show "set (shown (reorderLayoutViews l ids)) = set (shown l)"
    by (simp add: reorderLayoutViews_def Let_def)
  show "rkeys (dl_panels (reorderLayoutViews l ids)) = rkeys (dl_panels l)"
    by (simp add: reorderLayoutViews_def Let_def)
qed

lemma strip_reorder:
  assumes "set (shown l) \<subseteq> set ids" "set (shown l) \<subseteq> set (rkeys (dl_panels l))" "shown l \<noteq> []"
  defines "m \<equiv> stripSideHeaderLayout (reorderLayoutViews l ids)"
  shows "isLayoutUsable (Some m)" "set (shown m) = set (shown l)" "rkeys (dl_panels m) = rkeys (dl_panels l)"
proof -
  note r = reorder_shown [OF assms(1)]
  have "shown (reorderLayoutViews l ids) \<noteq> []" using r(1) assms(3) by (metis set_empty)
  then show "isLayoutUsable (Some m)" "set (shown m) = set (shown l)" "rkeys (dl_panels m) = rkeys (dl_panels l)"
    using stripSideHeader_usable [of "reorderLayoutViews l ids"] r assms(2) unfolding m_def by simp_all
qed

lemma rkeys_filter: "rkeys (filter (\<lambda>(i, _). P i) r) = filter P (rkeys r)"
  by (induction r) auto

lemma filter_groups_ids:
  "distinct (map (the \<circ> dg_id) gs) \<Longrightarrow> distinct (map (the \<circ> dg_id) (filter P (map (\<lambda>g. filterGroupViews g ids) gs)))"
proof -
  have eq: "map (the \<circ> dg_id) gs = map (the \<circ> dg_id) (map (\<lambda>g. filterGroupViews g ids) gs)"
    by (simp add: filterGroupViews_fields)
  assume "distinct (map (the \<circ> dg_id) gs)"
  then show ?thesis unfolding eq by (rule distinct_map_filter)
qed

lemma shown_filter_groups:
  "concat (map uviews (filter (\<lambda>g. uviews g \<noteq> []) (map (\<lambda>g. filterGroupViews g ids) gs)))
     = filter (\<lambda>i. i \<in> set ids) (concat (map uviews gs))"
  unfolding concat_uviews_filter by (simp add: comp_def filterGroupViews_fields filter_concat)

lemma strip_missing_usable:
  assumes "isLayoutUsable (Some l)" "\<exists>t. t \<in> set ids \<and> t \<in> set (shown l)"
  defines "m \<equiv> stripMissingPanels l ids"
  shows "isLayoutUsable (Some m)" "set (shown m) = set (shown l) \<inter> set ids"
    "rkeys (dl_panels m) = filter (\<lambda>i. i \<in> set ids) (rkeys (dl_panels l))"
proof -
  note u = assms(1) [unfolded isLayoutUsable_iff]
  let ?ks = "filter (\<lambda>i. i \<in> set ids) (rkeys (dl_panels l))"
  let ?gs = "filter (\<lambda>g. uviews g \<noteq> []) (map (\<lambda>g. filterGroupViews g ?ks) (leaves (dl_root l)))"
  have sub: "set (shown l) \<subseteq> set (rkeys (dl_panels l))"
    using u by (auto simp: list_all_iff good_leaf_def)
  have shown: "concat (map uviews ?gs) = filter (\<lambda>i. i \<in> set ?ks) (shown l)" by (rule shown_filter_groups)
  obtain t where "t \<in> set ids" "t \<in> set (shown l)" using assms(2) by blast
  with sub have "t \<in> set (filter (\<lambda>i. i \<in> set ?ks) (shown l))" by auto
  then have "concat (map uviews ?gs) \<noteq> []" unfolding shown by (metis empty_iff list.set(1))
  then have ne: "?gs \<noteq> []" by (metis concat.simps(1) list.simps(8))
  have gs: "?gs = (case pruneRoot ?ks (fromGridNode (dl_root l)) of None \<Rightarrow> [] | Some m \<Rightarrow> leaves m)"
    using leaves_pruneRoot [of ?ks "fromGridNode (dl_root l)"] by (simp only: leaves_fromGridNode)
  obtain n where n: "pruneRoot ?ks (fromGridNode (dl_root l)) = Some n"
    using ne unfolding gs by (cases "pruneRoot ?ks (fromGridNode (dl_root l))") auto
  then have leaves: "leaves n = ?gs" by (simp add: gs)
  have solid: "solid n" by (rule solid_pruneRoot) (rule n)
  have keys: "rkeys (filter (\<lambda>(i, _). i \<in> set ids) (dl_panels (cloneLayout l))) = ?ks"
    by (simp add: rkeys_filter)
  have m: "leaves (dl_root m) = ?gs" "solid (dl_root m)" "is_branch (dl_root m)" "rkeys (dl_panels m) = ?ks"
      "dl_edgeGroups m = dl_edgeGroups l" "dl_floatingGroups m = dl_floatingGroups l"
      "dl_popoutGroups m = dl_popoutGroups l"
    using n solid leaves keys
    by (auto simp: m_def stripMissingPanels_def Let_def simp del: toGridNode.simps split: node.split)
  show "rkeys (dl_panels m) = ?ks" by (rule m)
  show "set (shown m) = set (shown l) \<inter> set ids" unfolding m(1) shown using sub by auto
  have "list_all plain_group ?gs" using u by (auto simp: list_all_iff filterGroupViews_fields)
  moreover have "list_all (good_leaf ?ks) ?gs"
    using u by (auto simp: list_all_iff good_leaf_def filterGroupViews_fields)
  moreover have "distinct (map (the \<circ> dg_id) ?gs)" using u by (intro filter_groups_ids) simp
  moreover have "distinct (concat (map uviews ?gs))" unfolding shown using u by simp
  moreover have "?ks \<noteq> []" using assms(2) sub by (auto simp: filter_empty_conv)
  ultimately show "isLayoutUsable (Some m)" unfolding isLayoutUsable_iff m using u m by simp
qed

lemma shape_strip_active:
  assumes "isLayoutUsable (Some l)" "set (shown l) = ids" "set (rkeys (dl_panels l)) = ps"
  shows "isLayoutUsable (Some (applyActiveViewToLayout l a))"
    "set (shown (applyActiveViewToLayout l a)) = ids"
    "set (rkeys (dl_panels (applyActiveViewToLayout l a))) = ps"
  using same_shape_usable [OF same_shape_active [of l a]] assms by simp_all

lemma usable_shown: "isLayoutUsable (Some l) \<Longrightarrow> set (shown l) \<subseteq> set (rkeys (dl_panels l)) \<and> shown l \<noteq> []"
proof -
  assume u: "isLayoutUsable (Some l)"
  then have "leaves (dl_root l) \<noteq> []" "list_all (good_leaf (rkeys (dl_panels l))) (leaves (dl_root l))"
    by (auto simp: isLayoutUsable_iff dest: solid_leaves)
  then show ?thesis by (cases "leaves (dl_root l)") (auto simp: list_all_iff good_leaf_def)
qed

lemma merge_present:
  assumes u: "isLayoutUsable (Some b)" and all: "set (shown b) = set (collectPanelIds b)"
    and ids: "tabIds \<noteq> []" "set tabIds \<subseteq> set (collectPanelIds b)"
  shows "\<exists>m. mergePanelsIntoLayout (Some b) tabIds a = Some m \<and> isLayoutUsable (Some m)
     \<and> set (shown m) = set tabIds \<and> set (collectPanelIds m) = set tabIds"
proof (cases "layoutNeedsMerge b tabIds")
  case False
  have "set (shown b) \<subseteq> set (collectViewIds b)"
    by (auto simp: collectViewIds_def view_list_def uniqueViewIds_def split: option.splits)
  also have "\<dots> \<subseteq> set tabIds" using False by (auto simp: layoutNeedsMerge_def list_ex_iff)
  finally have sub: "set (shown b) \<subseteq> set tabIds" .
  then have eq: "set (shown b) = set tabIds" using ids(2) all by auto
  let ?m = "stripSideHeaderLayout (reorderLayoutViews b tabIds)"
  have "isLayoutUsable (Some ?m)" "set (shown ?m) = set tabIds" "set (rkeys (dl_panels ?m)) = set tabIds"
    using strip_reorder [OF sub] usable_shown [OF u] eq all by (simp_all add: collectPanelIds_def)
  from shape_strip_active [OF this] show ?thesis
    using False ids(1) by (simp add: mergePanelsIntoLayout_def collectPanelIds_def)
next
  case True
  let ?c = "stripMissingPanels b tabIds"
  have "\<exists>t. t \<in> set tabIds \<and> t \<in> set (shown b)" using ids all by (cases tabIds) auto
  note c = strip_missing_usable [OF u this]
  have shown: "set (shown ?c) = set tabIds" and keys: "set (rkeys (dl_panels ?c)) = set tabIds"
    using c(2,3) ids(2) all by (auto simp: collectPanelIds_def)
  have none: "filter (\<lambda>i. i \<notin> set (collectPanelIds ?c)) tabIds = []"
    using keys by (auto simp: filter_empty_conv collectPanelIds_def)
  note d = shape_strip_active [OF c(1) shown keys, of a]
  let ?m = "stripSideHeaderLayout (reorderLayoutViews (applyActiveViewToLayout ?c a) tabIds)"
  have "set (shown (applyActiveViewToLayout ?c a)) \<subseteq> set tabIds" using d(2) by simp
  from strip_reorder [OF this] have "isLayoutUsable (Some ?m)" "set (shown ?m) = set tabIds"
      "set (rkeys (dl_panels ?m)) = set tabIds"
    using d usable_shown [OF d(1)] by simp_all
  moreover have "mergePanelsIntoLayout (Some b) tabIds a = Some ?m"
    unfolding mergePanelsIntoLayout_def option.case Let_def none using True ids(1) c(1) by simp
  ultimately show ?thesis by (simp add: collectPanelIds_def)
qed

section \<open>Properties\<close>


text \<open>(C23) whatever was saved, the layout that is handed to the docking library for a non-empty list of
  tabs exists and is usable: every group has an identifier and shows at least one panel of the
  dictionary, and there is no feature that \<open>fromJSON\<close> rejects.\<close>

theorem safe_layout_is_usable:
  assumes "t \<in> set tabIds" "t \<noteq> ''''"
  shows "isLayoutUsable (safeLayoutForFromJson lo tabIds a)"
  using assms by (auto simp: safeLayoutForFromJson_def Let_def intro: default_usable)

text \<open>closing tabs of a usable layout whose groups show all its panels leaves a usable layout, with
  exactly the panels that were not closed, all of them shown; closing them all leaves no layout.\<close>

theorem remove_keeps_the_others:
  assumes "isLayoutUsable (Some l)" and "set (shown l) = set (collectPanelIds l)" and "ids \<noteq> []"
  shows "case removePanelsFromLayout (Some l) ids a of
      None \<Rightarrow> set (collectPanelIds l) \<subseteq> set ids
    | Some m \<Rightarrow> isLayoutUsable (Some m) \<and> set (collectPanelIds m) = set (collectPanelIds l) - set ids
         \<and> set (shown m) = set (collectPanelIds l) - set ids \<and> \<not> set (collectPanelIds l) \<subseteq> set ids"
proof -
  let ?rest = "filter (\<lambda>i. i \<notin> set ids) (collectPanelIds l)"
  show ?thesis
  proof (cases "?rest = []")
    case True
    then show ?thesis using assms(3) by (auto simp: removePanelsFromLayout_def filter_empty_conv)
  next
    case False
    have "set ?rest \<subseteq> set (collectPanelIds l)" by auto
    then obtain m where "mergePanelsIntoLayout (Some l) ?rest (the (resolveActiveAfterRemove l ids ?rest a)) = Some m"
        "isLayoutUsable (Some m)" "set (shown m) = set ?rest" "set (collectPanelIds m) = set ?rest"
      using merge_present [OF assms(1,2) False] by blast
    with False assms(3) show ?thesis
      by (auto simp: removePanelsFromLayout_def Let_def filter_empty_conv)
  qed
qed

definition two_groups :: layout where
  "two_groups = (createDefaultLayout [''a'', ''b''] ''a'')\<lparr>dl_root := Branch
     [Leaf (no_group\<lparr>dg_id := Some ''g1'', dg_views := Some [''a''], dg_activeView := Some ''a''\<rparr>) None None,
      Leaf (no_group\<lparr>dg_id := Some ''g2'', dg_views := Some [''b''], dg_activeView := Some ''b''\<rparr>) None None] None\<rparr>"

lemma two_groups_ok: "isLayoutUsable (Some two_groups) \<and> set (shown two_groups) = set (collectPanelIds two_groups)"
  by code_simp

theorem safe_layout_is_usable_witness:
  "isLayoutUsable (safeLayoutForFromJson (Some two_groups) [''a'', ''c''] ''c'')"
  by (rule safe_layout_is_usable [where t = "''a''"]) simp_all

theorem remove_keeps_the_others_witness:
  "isLayoutUsable (removePanelsFromLayout (Some two_groups) [''a''] None)
   \<and> removePanelsFromLayout (Some two_groups) [''a'', ''b''] None = None"
proof -
  have *: "set (collectPanelIds two_groups) = {''a'', ''b''}" by code_simp
  have "[''a''] \<noteq> []" "[''a'', ''b''] \<noteq> []" by simp_all
  note this = remove_keeps_the_others [OF two_groups_ok [THEN conjunct1] two_groups_ok [THEN conjunct2] this(1)]
    remove_keeps_the_others [OF two_groups_ok [THEN conjunct1] two_groups_ok [THEN conjunct2] this(2)]
  from this(1) [of None] this(2) [of None] show ?thesis
    unfolding * by (auto split: option.splits)
qed

text \<open>With two groups side by side, opening a third tab loses a panel: the function that adds the
  missing panels writes the first group's views into every group, so the second group's tab is in the
  dictionary of panels and in no group, although the layout passes for usable.\<close>

theorem opening_a_tab_drops_other_groups:
  "map_option (\<lambda>l. (collectViewIds l, collectPanelIds l, isLayoutUsable (Some l)))
     (safeLayoutForFromJson (Some two_groups) [''a'', ''b'', ''c''] ''c'')
   = Some ([''a'', ''c''], [''a'', ''b'', ''c''], True)"
  by code_simp

end
