(* ===== verification/DockVisit.thy ===== *)
theory DockVisit
  imports Prelude
begin

text \<open>
  \<^bold>\<open>frontend/src/components/dock/dockTabVisit.ts\<close>: which tabs of the docking area have their content
  mounted, and the least-recently-used list of visited tabs that bounds how many stay mounted. Sets are
  lists in insertion order.
\<close>

section \<open>Operations\<close>

definition DEFAULT_STICKY_VISIT_MAX :: int where
  "DEFAULT_STICKY_VISIT_MAX = 5"

definition shouldMountDockTabContent :: "bool \<Rightarrow> bool \<Rightarrow> bool \<Rightarrow> bool \<Rightarrow> bool" where
  "shouldMountDockTabContent active visited contentSuspended keepVisitedWhileSuspended =
     (if contentSuspended then keepVisitedWhileSuspended \<and> visited else active \<or> visited)"

definition markDockTabVisitedMru :: "string list \<Rightarrow> string option \<Rightarrow> string list" where
  "markDockTabVisitedMru prev tabId =
     (if \<not> truthy tabId then prev
      else if prev = [the tabId] then prev
      else if prev \<noteq> [] \<and> last prev = the tabId then prev
      else filter (\<lambda>i. i \<noteq> the tabId) prev @ [the tabId])"

text \<open>The loop that fills up from the most recent tab to the oldest.\<close>

fun keep_recent :: "nat \<Rightarrow> string list \<Rightarrow> string list \<Rightarrow> string list" where
  "keep_recent lim [] kept = kept"
| "keep_recent lim (x # xs) kept =
     (if lim \<le> length kept then kept
      else keep_recent lim xs (if x \<in> set kept then kept else kept @ [x]))"

definition protected_ids :: "string list option \<Rightarrow> string list" where
  "protected_ids p = uniq (filter (\<lambda>i. i \<noteq> '''') (map js_trim (case p of None \<Rightarrow> [] | Some is \<Rightarrow> is)))"

definition kept_ids :: "string list \<Rightarrow> int \<Rightarrow> string list option \<Rightarrow> string list" where
  "kept_ids order mx protect =
     keep_recent (max (nat mx) (length (protected_ids protect))) (rev order) (protected_ids protect)"

definition trimDockTabVisitedMru :: "string list \<Rightarrow> int \<Rightarrow> string list option \<Rightarrow> string list" where
  "trimDockTabVisitedMru order mx protect =
     (if order = [] \<and> protected_ids protect = [] then []
      else (let result = filter (\<lambda>i. i \<in> set (kept_ids order mx protect)) order
            in fold (\<lambda>i r. if i \<in> set r then r else r @ [i]) (protected_ids protect) result))"

definition markDockTabVisited :: "string list \<Rightarrow> string option \<Rightarrow> string list" where
  "markDockTabVisited prev tabId =
     (if \<not> truthy tabId then prev
      else (let order = markDockTabVisitedMru prev tabId
            in if length order = length prev \<and> the tabId \<in> set prev then prev else uniq order))"

definition createInitialDockTabVisited :: "string option \<Rightarrow> string list" where
  "createInitialDockTabVisited active = (if truthy active then [the active] else [])"

definition createInitialDockTabVisitedOrder :: "string option \<Rightarrow> string list" where
  "createInitialDockTabVisitedOrder active = (if truthy active then [the active] else [])"

definition dockTabKeysToBump :: "string jrec \<Rightarrow> string jrec \<Rightarrow> string list" where
  "dockTabKeysToBump prev next =
     filter (\<lambda>i. rget prev i \<noteq> None \<and> rget prev i \<noteq> rget next i) (rkeys next)"

section \<open>Lemmas\<close>

lemma keep_recent_grows: "\<exists>ys. keep_recent lim xs kept = kept @ ys \<and> set ys \<subseteq> set xs"
proof (induction lim xs kept rule: keep_recent.induct)
  case (2 lim x xs kept)
  then show ?case
  proof (cases "lim \<le> length kept")
    case False
    from 2 [OF this] obtain ys
      where "keep_recent lim xs (if x \<in> set kept then kept else kept @ [x])
         = (if x \<in> set kept then kept else kept @ [x]) @ ys" "set ys \<subseteq> set xs" by blast
    with False show ?thesis by (cases "x \<in> set kept") auto
  qed simp
qed simp

lemma keep_recent_length: "length kept \<le> lim \<Longrightarrow> length (keep_recent lim xs kept) \<le> lim"
  by (induction lim xs kept rule: keep_recent.induct) simp_all

lemma keep_recent_distinct: "distinct kept \<Longrightarrow> distinct (keep_recent lim xs kept)"
  by (induction lim xs kept rule: keep_recent.induct) simp_all

text \<open>What is left out is older than everything that is taken.\<close>

lemma keep_recent_skips:
  "x \<notin> set (keep_recent lim (xs @ x # ys) kept)
     \<Longrightarrow> set (keep_recent lim (xs @ x # ys) kept) \<subseteq> set kept \<union> set xs"
proof (induction xs arbitrary: kept)
  case Nil
  have "x \<in> set (keep_recent lim ys (if x \<in> set kept then kept else kept @ [x]))"
    using keep_recent_grows [of lim ys "if x \<in> set kept then kept else kept @ [x]"] by (auto split: if_splits)
  with Nil show ?case by (auto split: if_splits)
next
  case (Cons z xs)
  then show ?case by (fastforce split: if_splits)
qed

lemma set_push_new: "set (fold (\<lambda>i r. if i \<in> set r then r else r @ [i]) ps r) = set r \<union> set ps"
  by (induction ps arbitrary: r) auto

lemma distinct_push_new: "distinct r \<Longrightarrow> distinct (fold (\<lambda>i r. if i \<in> set r then r else r @ [i]) ps r)"
  by (induction ps arbitrary: r) auto

lemma kept_ids_fields:
  "set (protected_ids p) \<subseteq> set (kept_ids order mx p)"
  "set (kept_ids order mx p) \<subseteq> set (protected_ids p) \<union> set order"
  "length (kept_ids order mx p) \<le> max (nat mx) (length (protected_ids p))" "distinct (kept_ids order mx p)"
  using keep_recent_grows [of "max (nat mx) (length (protected_ids p))" "rev order" "protected_ids p"]
  by (auto simp: kept_ids_def keep_recent_length protected_ids_def intro!: keep_recent_distinct)

lemma trim_set: "set (trimDockTabVisitedMru order mx p) = set (kept_ids order mx p)"
proof (cases "order = [] \<and> protected_ids p = []")
  case True
  then show ?thesis by (simp add: trimDockTabVisitedMru_def kept_ids_def)
next
  case False
  then have "set (trimDockTabVisitedMru order mx p) = (set order \<inter> set (kept_ids order mx p)) \<union> set (protected_ids p)"
    by (auto simp: trimDockTabVisitedMru_def Let_def set_push_new)
  with kept_ids_fields(1) [of p order mx] kept_ids_fields(2) [of order mx p] show ?thesis by blast
qed

section \<open>Properties\<close>

text \<open>Trimming the list of visited tabs keeps every protected tab, adds nothing else, keeps no tab
  twice, and leaves at most the allowed number of tabs, or the protected ones where these are more.\<close>

theorem trim_is_bounded:
  assumes "distinct order"
  shows "distinct (trimDockTabVisitedMru order mx p)
    \<and> set (protected_ids p) \<subseteq> set (trimDockTabVisitedMru order mx p)
    \<and> set (trimDockTabVisitedMru order mx p) \<subseteq> set order \<union> set (protected_ids p)
    \<and> length (trimDockTabVisitedMru order mx p) \<le> max (nat mx) (length (protected_ids p))"
proof -
  have d: "distinct (trimDockTabVisitedMru order mx p)"
    using assms by (auto simp: trimDockTabVisitedMru_def Let_def intro!: distinct_push_new)
  have "length (trimDockTabVisitedMru order mx p) = length (kept_ids order mx p)"
    using d kept_ids_fields(4) [of order mx p] by (metis distinct_card trim_set)
  with d kept_ids_fields [where p = p and order = order and mx = mx] show ?thesis
    unfolding trim_set by (simp add: Un_commute)
qed

theorem trim_is_bounded_witness:
  "trimDockTabVisitedMru [''a'', ''b'', ''c'', ''d''] 2 (Some ['' a '']) = [''a'', ''d'']
   \<and> length (trimDockTabVisitedMru [''a'', ''b'', ''c'', ''d''] 2 (Some ['' a ''])) \<le> 2"
proof -
  have "distinct [''a'', ''b'', ''c'', ''d'']" by simp
  from trim_is_bounded [OF this, of 2 "Some ['' a '']"] show ?thesis by (simp, code_simp)
qed

text \<open>What is trimmed is the least recently used: when a tab is dropped, every older tab that is not
  protected is dropped with it; and the tab just visited is the last of the list, with the other tabs in
  their order before it.\<close>

theorem trim_drops_the_oldest:
  assumes "order = older @ x # newer" "distinct order" "x \<notin> set (trimDockTabVisitedMru order mx p)"
  shows "set older \<inter> set (trimDockTabVisitedMru order mx p) \<subseteq> set (protected_ids p)
    \<and> markDockTabVisitedMru order (Some x) = (if x = '''' \<or> newer = [] then order else older @ newer @ [x])"
proof -
  let ?lim = "max (nat mx) (length (protected_ids p))"
  have "x \<notin> set (keep_recent ?lim (rev newer @ x # rev older) (protected_ids p))"
    using assms(1,3) by (simp add: trim_set kept_ids_def)
  from keep_recent_skips [OF this] have "set (kept_ids order mx p) \<subseteq> set (protected_ids p) \<union> set newer"
    using assms(1) by (simp add: kept_ids_def)
  moreover have "filter (\<lambda>i. i \<noteq> x) older = older" "filter (\<lambda>i. i \<noteq> x) newer = newer"
    using assms(1,2) by (auto intro!: filter_True)
  then have "filter (\<lambda>i. i \<noteq> x) order = older @ newer" using assms(1) by simp
  moreover have "newer \<noteq> [] \<Longrightarrow> last newer \<noteq> x" using assms(1,2) by (metis Un_iff distinct.simps(2) distinct_append last_in_set)
  moreover have "older @ x # newer = [x] \<longleftrightarrow> older = [] \<and> newer = []" by (cases older) auto
  ultimately show ?thesis using assms(1,2) by (auto simp: trim_set markDockTabVisitedMru_def)
qed

theorem trim_drops_the_oldest_witness:
  "set [''a''] \<inter> set (trimDockTabVisitedMru [''a'', ''b'', ''c''] 1 None) \<subseteq> set (protected_ids None)
   \<and> markDockTabVisitedMru [''a'', ''b'', ''c''] (Some ''b'') = [''a'', ''c'', ''b'']"
proof -
  have split: "[''a'', ''b'', ''c''] = [''a''] @ ''b'' # [''c'']" and dist: "distinct [''a'', ''b'', ''c'']" by simp_all
  have out: "''b'' \<notin> set (trimDockTabVisitedMru [''a'', ''b'', ''c''] 1 None)" by code_simp
  show ?thesis using trim_drops_the_oldest [OF split dist out] by simp
qed

end
