(* ===== verification/Sync.thy ===== *)
theory Sync
  imports Prelude "HOL-Library.List_Lexorder" "HOL-Library.Char_ord"
begin

text \<open>
  What keeps two devices of one account in step: the store of tombstones
  (\<^bold>\<open>frontend/src/stores/clientSyncTombstoneStore.ts\<close>), the merge of two lists of conversations
  (\<^bold>\<open>frontend/src/modules/clientSync/merge.ts\<close>) and the bundle that is uploaded
  (\<^bold>\<open>frontend/src/modules/clientSync/payload.ts\<close>).
  The clock is an argument of the operations that read it. A field of a conversation that came from
  another device may be missing or of the wrong type: \<open>None\<close>. The text of a bundle (JSON) is parsed
  outside the model; \<open>parse_bundle\<close> is what follows the parsing.
\<close>

section \<open>Tombstones\<close>

datatype tombstone_kind = Conversation | Connection | Database | Knowledge | HttpRequest | HttpCollection
  | HttpEnvironment | Workspace | CustomPanel

fun kind_name :: "tombstone_kind \<Rightarrow> string" where
  "kind_name Conversation = ''conversation''"
| "kind_name Connection = ''connection''"
| "kind_name Database = ''database''"
| "kind_name Knowledge = ''knowledge''"
| "kind_name HttpRequest = ''httpRequest''"
| "kind_name HttpCollection = ''httpCollection''"
| "kind_name HttpEnvironment = ''httpEnvironment''"
| "kind_name Workspace = ''workspace''"
| "kind_name CustomPanel = ''customPanel''"

record tombstone =
  ts_id :: "string option"
  ts_deletedAt :: "int option"

type_synonym tombstones = "int jrec"

definition TOMBSTONE_TTL_MS :: int where
  "TOMBSTONE_TTL_MS = 30 * 24 * 60 * 60 * 1000"

text \<open>\<open>Number(x) || 0\<close>.\<close>

definition num_or_zero :: "int option \<Rightarrow> int" where
  "num_or_zero n = (case n of None \<Rightarrow> 0 | Some x \<Rightarrow> x)"

definition keyOf :: "tombstone_kind \<Rightarrow> string \<Rightarrow> string" where
  "keyOf kind i = kind_name kind @ '':'' @ i"

definition parseKey :: "string \<Rightarrow> (string \<times> string) option" where
  "parseKey key =
     (let k = takeWhile (\<lambda>c. c \<noteq> CHR '':'') key
      in if k = '''' \<or> length k = length key then None else Some (k, drop (Suc (length k)) key))"

definition mark_one :: "tombstone_kind \<Rightarrow> int \<Rightarrow> string \<Rightarrow> tombstones \<Rightarrow> tombstones" where
  "mark_one kind deletedAt i next =
     (let trimmed = js_trim i; k = keyOf kind trimmed
      in if trimmed = '''' then next
         else if num_or_zero (rget next k) \<le> deletedAt then rput k deletedAt next else next)"

definition markDeleted :: "tombstone_kind \<Rightarrow> string list \<Rightarrow> int \<Rightarrow> tombstones \<Rightarrow> tombstones" where
  "markDeleted kind ids deletedAt st = (if ids = [] then st else fold (mark_one kind deletedAt) ids st)"

definition pruneExpired :: "int \<Rightarrow> tombstones \<Rightarrow> tombstones" where
  "pruneExpired now st = filter (\<lambda>(_, at). now - at \<le> TOMBSTONE_TTL_MS) st"

definition is_kind :: "tombstone_kind \<Rightarrow> string \<Rightarrow> bool" where
  "is_kind kind key \<longleftrightarrow> parseKey key \<noteq> None \<and> fst (the (parseKey key)) = kind_name kind"

definition listByKind :: "tombstone_kind \<Rightarrow> int \<Rightarrow> tombstones \<Rightarrow> tombstone list \<times> tombstones" where
  "listByKind kind now st =
     (let st' = pruneExpired now st
      in (map (\<lambda>(key, at). \<lparr>ts_id = Some (snd (the (parseKey key))), ts_deletedAt = Some at\<rparr>)
            (filter (\<lambda>(key, _). is_kind kind key) st'), st'))"

definition markConversationDeleted :: "string list \<Rightarrow> int \<Rightarrow> tombstones \<Rightarrow> tombstones" where
  "markConversationDeleted = markDeleted Conversation"

definition listConversationTombstones :: "int \<Rightarrow> tombstones \<Rightarrow> tombstone list \<times> tombstones" where
  "listConversationTombstones = listByKind Conversation"

definition trimmed_id :: "string option \<Rightarrow> string" where
  "trimmed_id i = (case i of None \<Rightarrow> '''' | Some s \<Rightarrow> js_trim s)"

definition merge_one :: "tombstone_kind \<Rightarrow> tombstone \<Rightarrow> tombstones \<Rightarrow> tombstones" where
  "merge_one kind t next =
     (let i = trimmed_id (ts_id t); at = num_or_zero (ts_deletedAt t); k = keyOf kind i
      in if i = '''' \<or> at \<le> 0 then next
         else if num_or_zero (rget next k) \<le> at then rput k at next else next)"

definition mergeRemote :: "tombstone_kind \<Rightarrow> tombstone list \<Rightarrow> tombstones \<Rightarrow> tombstones" where
  "mergeRemote kind remote st = (if remote = [] then st else fold (merge_one kind) remote st)"

definition clearIfResurrected :: "tombstone_kind \<Rightarrow> string \<Rightarrow> int \<Rightarrow> tombstones \<Rightarrow> tombstones" where
  "clearIfResurrected kind conversationId updatedAt st =
     (let i = js_trim conversationId; k = keyOf kind i
      in if i = '''' then st
         else case rget st k of None \<Rightarrow> st | Some at \<Rightarrow> if updatedAt \<le> at then st else rdel k st)"

definition clearByIdPrefix :: "tombstone_kind \<Rightarrow> string \<Rightarrow> tombstones \<Rightarrow> tombstones" where
  "clearByIdPrefix kind prfx st =
     (if prfx = '''' then st
      else filter (\<lambda>(key, _). \<not> (is_kind kind key \<and> starts_with (snd (the (parseKey key))) prfx)) st)"

definition clearAll :: "tombstones \<Rightarrow> tombstones" where
  "clearAll st = []"

text \<open>Version 1 held conversations only, under their bare identifiers.\<close>

definition migrateTombstones :: "tombstones option \<Rightarrow> int \<Rightarrow> tombstones" where
  "migrateTombstones persisted fromVersion =
     (let deleted = (case persisted of None \<Rightarrow> [] | Some d \<Rightarrow> d)
      in if fromVersion < 2
         then fold (\<lambda>(k, at). rput (if CHR '':'' \<in> set k then k else ''conversation:'' @ k) at) deleted []
         else deleted)"

section \<open>Merging conversations\<close>

record ('m, 'o) sync_conv =
  sc_id :: "string option"
  sc_title :: "string option"
  sc_createdAt :: "int option"
  sc_updatedAt :: "int option"
  sc_messages :: "'m list option"
  sc_other :: 'o

definition tombstoneMap :: "tombstone list \<Rightarrow> int jrec" where
  "tombstoneMap ts = fold (\<lambda>t m.
     (let i = trimmed_id (ts_id t); at = num_or_zero (ts_deletedAt t)
      in if i = '''' then m else if num_or_zero (rget m i) < at then rput i at m else m)) ts []"

definition normalizeConversation :: "('m, 'o) sync_conv \<Rightarrow> ('m, 'o) sync_conv" where
  "normalizeConversation raw =
     raw\<lparr>sc_messages := Some (case sc_messages raw of None \<Rightarrow> [] | Some ms \<Rightarrow> ms),
         sc_createdAt := Some (num_or_zero (sc_createdAt raw)),
         sc_updatedAt := Some (num_or_zero (sc_updatedAt raw))\<rparr>"

definition message_count :: "('m, 'o) sync_conv \<Rightarrow> nat" where
  "message_count c = (case sc_messages c of None \<Rightarrow> 0 | Some ms \<Rightarrow> length ms)"

definition updated :: "('m, 'o) sync_conv \<Rightarrow> int" where
  "updated c = num_or_zero (sc_updatedAt c)"

definition show_opt :: "string option \<Rightarrow> string" where
  "show_opt x = (case x of None \<Rightarrow> ''undefined'' | Some s \<Rightarrow> s)"

definition conv_line :: "('m, 'o) sync_conv \<Rightarrow> string" where
  "conv_line c = show_opt (sc_id c) @ '':'' @ show_opt (map_option show_int (sc_updatedAt c)) @ '':''
     @ dec (message_count c) @ '':'' @ show_opt (sc_title c)"

fun join :: "string \<Rightarrow> string list \<Rightarrow> string" where
  "join sep [] = ''''"
| "join sep [x] = x"
| "join sep (x # y # ys) = x @ sep @ join sep (y # ys)"

definition fingerprint :: "('m, 'o) sync_conv list \<Rightarrow> string" where
  "fingerprint cs = join ''|'' (sort (map conv_line cs))"

text \<open>A conversation that its tombstone, if any, does not delete.\<close>

definition conv_alive :: "int jrec \<Rightarrow> ('m, 'o) sync_conv \<Rightarrow> bool" where
  "conv_alive deleted c \<longleftrightarrow>
     \<not> (0 < num_or_zero (rget deleted (the (sc_id c)))
        \<and> updated c \<le> num_or_zero (rget deleted (the (sc_id c))))"

definition consider_conv :: "int jrec \<Rightarrow> ('m, 'o) sync_conv
    \<Rightarrow> ('m, 'o) sync_conv jrec \<Rightarrow> ('m, 'o) sync_conv jrec" where
  "consider_conv deleted raw byId =
     (if \<not> truthy (sc_id raw) then byId
      else
        (let conv = normalizeConversation raw; i = the (sc_id conv)
         in if \<not> conv_alive deleted conv then byId
            else case rget byId i of
                None \<Rightarrow> rput i conv byId
              | Some prev \<Rightarrow>
                  if updated prev < updated conv then rput i conv byId
                  else if updated conv = updated prev
                  then (if message_count prev < message_count conv then rput i conv byId else byId)
                  else byId))"

definition newest :: "('m, 'o) sync_conv \<Rightarrow> ('m, 'o) sync_conv \<Rightarrow> int" where
  "newest a b = updated b - updated a"

definition mergeConversations ::
  "('m, 'o) sync_conv list \<Rightarrow> ('m, 'o) sync_conv list \<Rightarrow> tombstone list \<Rightarrow> ('m, 'o) sync_conv list \<times> bool" where
  "mergeConversations local_convs remote ts =
     (let deleted = tombstoneMap ts;
          byId = fold (consider_conv deleted) remote (fold (consider_conv deleted) local_convs []);
          conversations = sort_by newest (map snd byId)
      in (conversations, fingerprint conversations \<noteq> fingerprint local_convs))"

section \<open>Bundles\<close>

record ('m, 'o) sync_bundle =
  bu_schemaVersion :: int
  bu_kind :: string
  bu_updatedAt :: int
  bu_deviceId :: "string option"
  bu_conversations :: "('m, 'o) sync_conv list"
  bu_deleted :: "tombstone list"

record ('m, 'o) raw_bundle =
  rb_schemaVersion :: "int option"
  rb_updatedAt :: "int option"
  rb_deviceId :: "string option"
  rb_conversations :: "('m, 'o) sync_conv list option"
  rb_deleted :: "tombstone list option"

definition list_or_empty :: "'a list option \<Rightarrow> 'a list" where
  "list_or_empty x = (case x of None \<Rightarrow> [] | Some xs \<Rightarrow> xs)"

text \<open>\<open>parseConversationsBundle\<close> after \<open>JSON.parse\<close>, which gives \<open>None\<close> for what is not an object.\<close>

definition parse_bundle :: "('m, 'o) raw_bundle option \<Rightarrow> ('m, 'o) sync_bundle option" where
  "parse_bundle parsed =
     (case parsed of None \<Rightarrow> None
      | Some raw \<Rightarrow>
          if num_or_zero (rb_schemaVersion raw) < 1 then None
          else Some \<lparr> bu_schemaVersion = num_or_zero (rb_schemaVersion raw), bu_kind = ''ai-conversations'',
                 bu_updatedAt = num_or_zero (rb_updatedAt raw), bu_deviceId = rb_deviceId raw,
                 bu_conversations = list_or_empty (rb_conversations raw),
                 bu_deleted = list_or_empty (rb_deleted raw) \<rparr>)"

definition trimConversation :: "('m, 'o) sync_conv \<Rightarrow> ('m, 'o) sync_conv" where
  "trimConversation c = c\<lparr>sc_messages := Some (list_or_empty (sc_messages c))\<rparr>"

definition buildConversationsBundle ::
  "('m, 'o) sync_conv list \<Rightarrow> tombstone list \<Rightarrow> string option \<Rightarrow> int \<Rightarrow> ('m, 'o) sync_bundle" where
  "buildConversationsBundle conversations deleted deviceId now =
     \<lparr> bu_schemaVersion = 1, bu_kind = ''ai-conversations'', bu_updatedAt = now, bu_deviceId = deviceId,
       bu_conversations = map trimConversation (sort_by newest conversations), bu_deleted = deleted \<rparr>"

text \<open>The bundle as the other device reads it back from its JSON text.\<close>

definition raw_of :: "('m, 'o) sync_bundle \<Rightarrow> ('m, 'o) raw_bundle" where
  "raw_of b = \<lparr> rb_schemaVersion = Some (bu_schemaVersion b), rb_updatedAt = Some (bu_updatedAt b),
     rb_deviceId = bu_deviceId b, rb_conversations = Some (bu_conversations b), rb_deleted = Some (bu_deleted b) \<rparr>"

section \<open>Lemmas on tombstones\<close>

lemma rget_mark_one:
  "rget (mark_one kind at i st) k =
     (if js_trim i \<noteq> '''' \<and> k = keyOf kind (js_trim i) \<and> num_or_zero (rget st k) \<le> at then Some at else rget st k)"
  by (auto simp: mark_one_def Let_def store_simps)

lemma kind_name_plain: "CHR '':'' \<notin> set (kind_name kind)" "kind_name kind \<noteq> ''''"
  by (cases kind; simp)+

lemma parseKey_keyOf [simp]: "parseKey (keyOf kind i) = Some (kind_name kind, i)"
proof -
  have "takeWhile (\<lambda>c. c \<noteq> CHR '':'') (keyOf kind i) = kind_name kind"
    using kind_name_plain(1) [of kind] by (auto simp: keyOf_def takeWhile_append)
  then show ?thesis using kind_name_plain(2) [of kind] by (simp add: parseKey_def Let_def keyOf_def)
qed

lemma keyOf_inj: "keyOf kind i = keyOf kind' j \<longleftrightarrow> kind_name kind = kind_name kind' \<and> i = j"
  by (metis option.inject parseKey_keyOf prod.inject keyOf_def)

lemma kind_name_inj [simp]: "kind_name k = kind_name k' \<longleftrightarrow> k = k'"
  by (cases k; cases k') simp_all

text \<open>Deletion times only grow.\<close>

abbreviation deleted_at :: "tombstones \<Rightarrow> string \<Rightarrow> int" where
  "deleted_at st k \<equiv> num_or_zero (rget st k)"

lemma mark_all_grows: "deleted_at st k \<le> deleted_at (fold (mark_one kind at) ids st) k"
proof (induction ids arbitrary: st)
  case (Cons i ids)
  have "deleted_at st k \<le> deleted_at (mark_one kind at i st) k" by (auto simp: rget_mark_one num_or_zero_def)
  also have "\<dots> \<le> deleted_at (fold (mark_one kind at) (i # ids) st) k" using Cons by simp
  finally show ?case .
qed simp

lemma mark_all_reaches:
  "i \<in> set ids \<Longrightarrow> js_trim i \<noteq> '''' \<Longrightarrow> at \<le> deleted_at (fold (mark_one kind at) ids st) (keyOf kind (js_trim i))"
proof (induction ids arbitrary: st)
  case (Cons j ids)
  show ?case
  proof (cases "i = j")
    case True
    have "at \<le> deleted_at (mark_one kind at i st) (keyOf kind (js_trim i))"
      using Cons.prems(2) by (auto simp: rget_mark_one num_or_zero_def)
    also have "\<dots> \<le> deleted_at (fold (mark_one kind at) ids (mark_one kind at i st)) (keyOf kind (js_trim i))"
      by (rule mark_all_grows)
    finally show ?thesis using True by simp
  qed (use Cons in simp)
qed simp

lemma mark_all_frame:
  "k \<notin> keyOf kind ` js_trim ` set ids \<Longrightarrow> rget (fold (mark_one kind at) ids st) k = rget st k"
  by (induction ids arbitrary: st) (simp_all add: rget_mark_one)

lemma rget_merge_one:
  "rget (merge_one kind t st) k =
     (if trimmed_id (ts_id t) \<noteq> '''' \<and> k = keyOf kind (trimmed_id (ts_id t)) \<and> 0 < num_or_zero (ts_deletedAt t)
         \<and> deleted_at st k \<le> num_or_zero (ts_deletedAt t)
      then Some (num_or_zero (ts_deletedAt t)) else rget st k)"
  by (auto simp: merge_one_def Let_def store_simps)

text \<open>The times that a list of tombstones gives an identifier.\<close>

definition times_of :: "string \<Rightarrow> tombstone list \<Rightarrow> int set" where
  "times_of i ts = {at. 0 < at \<and> (\<exists>t \<in> set ts. trimmed_id (ts_id t) = i \<and> num_or_zero (ts_deletedAt t) = at)}"

lemma times_of_simps [simp]:
  "times_of i [] = {}"
  "times_of i (t # ts) = (if trimmed_id (ts_id t) = i \<and> 0 < num_or_zero (ts_deletedAt t)
     then insert (num_or_zero (ts_deletedAt t)) (times_of i ts) else times_of i ts)"
  by (auto simp: times_of_def)

lemma finite_times_of [simp]: "finite (times_of i ts)"
  by (induction ts) simp_all

lemma max_join:
  fixes d :: int
  assumes "finite A" "finite B"
  shows "Max (insert (Max (insert d A)) B) = Max (insert d (A \<union> B))"
proof -
  have "Max (insert (Max (insert d A)) B) = Max (insert d A \<union> insert d B)"
    using assms by (cases "B = {}"; cases "A = {}") (auto simp: Max_Un max.assoc max.commute max.left_commute)
  then show ?thesis by (simp add: Un_commute)
qed

lemma merge_all_max:
  assumes "i \<noteq> ''''" "0 \<le> deleted_at st (keyOf kind i)"
  shows "deleted_at (fold (merge_one kind) ts st) (keyOf kind i)
    = Max (insert (deleted_at st (keyOf kind i)) (times_of i ts))"
  using assms(2)
proof (induction ts arbitrary: st)
  case (Cons t ts)
  let ?d = "deleted_at (merge_one kind t st) (keyOf kind i)"
  have "?d = (if trimmed_id (ts_id t) = i \<and> 0 < num_or_zero (ts_deletedAt t)
      then max (num_or_zero (ts_deletedAt t)) (deleted_at st (keyOf kind i)) else deleted_at st (keyOf kind i))"
    using assms(1) by (auto simp: rget_merge_one keyOf_inj num_or_zero_def)
  moreover have "deleted_at (fold (merge_one kind) (t # ts) st) (keyOf kind i) = Max (insert ?d (times_of i ts))"
    using Cons.prems calculation Cons.IH [of "merge_one kind t st"] by (auto split: if_splits)
  ultimately show ?case
    by (cases "times_of i ts = {}") (auto simp: max.assoc max.left_commute max.commute)
qed simp

lemma merge_all_frame:
  "k \<notin> range (keyOf kind) \<Longrightarrow> rget (fold (merge_one kind) ts st) k = rget st k"
  by (induction ts arbitrary: st) (auto simp: rget_merge_one)

lemma tombstoneMap_max:
  assumes "i \<noteq> ''''"
  shows "num_or_zero (rget (tombstoneMap ts) i) = Max (insert 0 (times_of i ts))"
proof -
  let ?f = "\<lambda>t m. (let i = trimmed_id (ts_id t); at = num_or_zero (ts_deletedAt t)
      in if i = '''' then m else if num_or_zero (rget m i) < at then rput i at m else m)"
  have "0 \<le> num_or_zero (rget m i) \<Longrightarrow> num_or_zero (rget (fold ?f us m) i)
      = Max (insert (num_or_zero (rget m i)) (times_of i us))" for us m
  proof (induction us arbitrary: m)
    case (Cons t us)
    let ?d = "num_or_zero (rget (?f t m) i)"
    have "?d = (if trimmed_id (ts_id t) = i \<and> 0 < num_or_zero (ts_deletedAt t)
        then max (num_or_zero (ts_deletedAt t)) (num_or_zero (rget m i)) else num_or_zero (rget m i))"
      using assms Cons.prems by (auto simp: Let_def store_simps num_or_zero_def)
    moreover have "num_or_zero (rget (fold ?f (t # us) m) i) = Max (insert ?d (times_of i us))"
      using Cons.prems calculation Cons.IH [of "?f t m"] by (auto split: if_splits)
    ultimately show ?case
      by (cases "times_of i us = {}") (auto simp: max.assoc max.left_commute max.commute)
  qed simp
  from this [of "[]" ts] show ?thesis by (simp add: tombstoneMap_def num_or_zero_def)
qed

section \<open>Lemmas on the merge\<close>

definition beats :: "('m, 'o) sync_conv \<Rightarrow> ('m, 'o) sync_conv \<Rightarrow> bool" where
  "beats c d \<longleftrightarrow> updated d < updated c \<or> updated c = updated d \<and> message_count d < message_count c"

definition candidate :: "int jrec \<Rightarrow> ('m, 'o) sync_conv \<Rightarrow> bool" where
  "candidate deleted c \<longleftrightarrow> truthy (sc_id c) \<and> conv_alive deleted (normalizeConversation c)"

lemma normalize_fields [simp]:
  "sc_id (normalizeConversation c) = sc_id c" "sc_title (normalizeConversation c) = sc_title c"
  "updated (normalizeConversation c) = updated c" "message_count (normalizeConversation c) = message_count c"
  "normalizeConversation (normalizeConversation c) = normalizeConversation c"
  by (simp_all add: normalizeConversation_def updated_def message_count_def num_or_zero_def split: option.split)

lemma normalize_candidate [simp]: "candidate deleted (normalizeConversation c) = candidate deleted c"
  "conv_alive deleted (normalizeConversation c) = conv_alive deleted c"
  "beats (normalizeConversation c) d = beats c d" "beats c (normalizeConversation d) = beats c d"
  by (simp_all add: candidate_def conv_alive_def beats_def)

lemma consider_eq:
  "consider_conv deleted raw byId =
     (if candidate deleted raw \<and> (case rget byId (the (sc_id raw)) of None \<Rightarrow> True | Some prev \<Rightarrow> beats raw prev)
      then rput (the (sc_id raw)) (normalizeConversation raw) byId else byId)"
  by (auto simp: consider_conv_def candidate_def Let_def beats_def split: option.split)

lemma not_beats_trans: "\<not> beats a b \<Longrightarrow> beats c b \<Longrightarrow> \<not> beats a c"
  by (auto simp: beats_def)

text \<open>The map holds, for each identifier, a best conversation among those seen.\<close>

definition best_of :: "int jrec \<Rightarrow> ('m, 'o) sync_conv set \<Rightarrow> ('m, 'o) sync_conv jrec \<Rightarrow> bool" where
  "best_of deleted seen r \<longleftrightarrow> rwf r
     \<and> (\<forall>i c. rget r i = Some c \<longrightarrow> sc_id c = Some i
            \<and> (\<exists>raw \<in> seen. candidate deleted raw \<and> c = normalizeConversation raw))
     \<and> (\<forall>raw \<in> seen. candidate deleted raw \<longrightarrow>
            (\<exists>c. rget r (the (sc_id raw)) = Some c \<and> \<not> beats raw c))"

lemma best_ofD:
  assumes "best_of deleted seen r"
  shows "rwf r" "rget r i = Some c \<Longrightarrow> sc_id c = Some i"
    "rget r i = Some c \<Longrightarrow> \<exists>raw \<in> seen. candidate deleted raw \<and> c = normalizeConversation raw"
    "raw \<in> seen \<Longrightarrow> candidate deleted raw \<Longrightarrow> \<exists>c. rget r (the (sc_id raw)) = Some c \<and> \<not> beats raw c"
  using assms unfolding best_of_def by blast+

lemma best_step:
  assumes "best_of deleted seen r"
  shows "best_of deleted (insert raw seen) (consider_conv deleted raw r)"
proof (cases "candidate deleted raw \<and> (case rget r (the (sc_id raw)) of None \<Rightarrow> True | Some prev \<Rightarrow> beats raw prev)")
  case True
  let ?i = "the (sc_id raw)"
  have eq: "consider_conv deleted raw r = rput ?i (normalizeConversation raw) r" using True by (simp add: consider_eq)
  have raw: "candidate deleted raw" "sc_id raw = Some ?i" using True by (auto simp: candidate_def truthy_iff)
  have "\<exists>c. rget (rput ?i (normalizeConversation raw) r) (the (sc_id x)) = Some c \<and> \<not> beats x c"
    if "x \<in> insert raw seen" "candidate deleted x" for x
  proof (cases "x = raw")
    case True
    then show ?thesis by (simp add: store_simps) (simp add: beats_def)
  next
    case False
    with that obtain c where c: "rget r (the (sc_id x)) = Some c" "\<not> beats x c"
      using assms unfolding best_of_def by blast
    show ?thesis
    proof (cases "the (sc_id x) = ?i")
      case True
      with c have "beats raw c" using \<open>candidate deleted raw \<and> _\<close> by simp
      with c(2) have "\<not> beats x raw" by (rule not_beats_trans)
      with True show ?thesis by (simp add: store_simps)
    qed (use c in \<open>simp add: store_simps\<close>)
  qed
  then show ?thesis
    unfolding best_of_def eq using assms raw by (auto simp: best_of_def store_simps split: if_splits)
next
  case False
  have eq: "consider_conv deleted raw r = r" unfolding consider_eq by (rule if_not_P) (rule False)
  have "\<exists>c. rget r (the (sc_id raw)) = Some c \<and> \<not> beats raw c" if "candidate deleted raw"
    using False that by (auto split: option.splits)
  then show ?thesis unfolding eq using assms by (auto simp: best_of_def)
qed

lemma best_fold: "best_of deleted seen r \<Longrightarrow> best_of deleted (seen \<union> set cs) (fold (consider_conv deleted) cs r)"
proof (induction cs arbitrary: seen r)
  case (Cons c cs)
  from Cons.IH [OF best_step [OF Cons.prems, of c]] show ?case by simp
qed simp

abbreviation merged_map :: "('m, 'o) sync_conv list \<Rightarrow> ('m, 'o) sync_conv list \<Rightarrow> tombstone list
    \<Rightarrow> ('m, 'o) sync_conv jrec" where
  "merged_map l r ts \<equiv>
     fold (consider_conv (tombstoneMap ts)) r (fold (consider_conv (tombstoneMap ts)) l [])"

abbreviation merged :: "('m, 'o) sync_conv list \<Rightarrow> ('m, 'o) sync_conv list \<Rightarrow> tombstone list
    \<Rightarrow> ('m, 'o) sync_conv list" where
  "merged l r ts \<equiv> fst (mergeConversations l r ts)"

lemma best_merged: "best_of (tombstoneMap ts) (set l \<union> set r) (merged_map l r ts)"
proof -
  have "best_of (tombstoneMap ts) {} []" by (simp add: best_of_def)
  from best_fold [OF best_fold [OF this]] show ?thesis by simp
qed

interpretation newest: comparator newest
  by unfold_locales (simp_all add: newest_def)

lemma merged_eq: "merged l r ts = sort_by newest (map snd (merged_map l r ts))"
  by (simp add: mergeConversations_def Let_def)

lemma best_ids:
  assumes "best_of deleted seen r"
  shows "r = map (\<lambda>c. (the (sc_id c), c)) (map snd r)" "distinct (map (the \<circ> sc_id) (map snd r))"
    "c \<in> set (map snd r) \<longleftrightarrow> sc_id c \<noteq> None \<and> rget r (the (sc_id c)) = Some c"
proof -
  have wf: "rwf r" and id: "\<And>i c. rget r i = Some c \<Longrightarrow> sc_id c = Some i" using assms by (auto simp: best_of_def)
  have fst: "i = the (sc_id c)" "sc_id c = Some i" if "(i, c) \<in> set r" for i c
    using id [of i c] wf that by auto
  show *: "r = map (\<lambda>c. (the (sc_id c), c)) (map snd r)"
    using fst by (auto intro!: map_idI [symmetric] simp: comp_def)
  have "map (the \<circ> sc_id) (map snd r) = map fst r" using fst by (auto simp: comp_def)
  with wf show "distinct (map (the \<circ> sc_id) (map snd r))" by (simp only:)
  show "c \<in> set (map snd r) \<longleftrightarrow> sc_id c \<noteq> None \<and> rget r (the (sc_id c)) = Some c"
  proof
    assume "c \<in> set (map snd r)"
    then obtain i where i: "(i, c) \<in> set r" by auto
    then have "rget r i = Some c" using wf by simp
    with fst(2) [OF i] show "sc_id c \<noteq> None \<and> rget r (the (sc_id c)) = Some c" by simp
  next
    assume "sc_id c \<noteq> None \<and> rget r (the (sc_id c)) = Some c"
    then have "(the (sc_id c), c) \<in> set r" by (blast dest: map_of_SomeD)
    then show "c \<in> set (map snd r)" by force
  qed
qed

text \<open>What is in the result, in terms of the conversations of both sides.\<close>

lemma merged_spec:
  fixes l r :: "('m, 'o) sync_conv list"
  shows "distinct (map (the \<circ> sc_id) (merged l r ts))"
    and "sorted_wrt (\<lambda>x y. newest x y \<le> 0) (merged l r ts)"
    and "c \<in> set (merged l r ts) \<Longrightarrow> \<exists>raw \<in> set l \<union> set r. candidate (tombstoneMap ts) raw \<and> c = normalizeConversation raw"
    and "raw \<in> set l \<union> set r \<Longrightarrow> candidate (tombstoneMap ts) raw \<Longrightarrow>
      \<exists>c \<in> set (merged l r ts). sc_id c = sc_id raw \<and> \<not> beats raw c"
    and "c \<in> set (merged l r ts) \<Longrightarrow> raw \<in> set l \<union> set r \<Longrightarrow> candidate (tombstoneMap ts) raw \<Longrightarrow>
      sc_id c = sc_id raw \<Longrightarrow> \<not> beats raw c"
proof -
  let ?M = "merged_map l r ts"
  note b = best_merged [of ts l r]
  note ids = best_ids [OF b]
  have get: "\<exists>c. rget ?M (the (sc_id raw)) = Some c \<and> sc_id c = sc_id raw \<and> \<not> beats raw c"
    if "raw \<in> set l \<union> set r" "candidate (tombstoneMap ts) raw" for raw
  proof -
    from best_ofD(4) [OF b that] obtain c where c: "rget ?M (the (sc_id raw)) = Some c" "\<not> beats raw c" by blast
    from best_ofD(2) [OF b c(1)] that(2) have "sc_id c = sc_id raw" by (auto simp: candidate_def truthy_iff)
    with c show ?thesis by blast
  qed
  show "distinct (map (the \<circ> sc_id) (merged l r ts))"
  proof -
    have "mset (map (the \<circ> sc_id) (merged l r ts)) = mset (map (the \<circ> sc_id) (map snd ?M))"
      unfolding merged_eq mset_map mset_sort_by ..
    from mset_eq_imp_distinct_iff [OF this] ids(2) show ?thesis by (simp only:)
  qed
  show "sorted_wrt (\<lambda>x y. newest x y \<le> 0) (merged l r ts)"
    unfolding merged_eq by (rule newest.sorted_sort_by)
  show "\<exists>raw \<in> set l \<union> set r. candidate (tombstoneMap ts) raw \<and> c = normalizeConversation raw"
    if "c \<in> set (merged l r ts)"
    using that ids(3) [of c] best_ofD(3) [OF b] unfolding merged_eq set_sort_by by blast
  show "\<exists>c \<in> set (merged l r ts). sc_id c = sc_id raw \<and> \<not> beats raw c"
    if "raw \<in> set l \<union> set r" "candidate (tombstoneMap ts) raw"
  proof -
    from get [OF that] obtain c where c: "rget ?M (the (sc_id raw)) = Some c" "sc_id c = sc_id raw" "\<not> beats raw c" by blast
    moreover have "sc_id raw \<noteq> None" using that(2) by (auto simp: candidate_def truthy_iff)
    ultimately have "c \<in> set (merged l r ts)" unfolding merged_eq set_sort_by ids(3) by simp
    with c show ?thesis by blast
  qed
  show "\<not> beats raw c"
    if "c \<in> set (merged l r ts)" "raw \<in> set l \<union> set r" "candidate (tombstoneMap ts) raw" "sc_id c = sc_id raw"
  proof -
    from that(1) have "rget ?M (the (sc_id c)) = Some c" unfolding merged_eq set_sort_by ids(3) by blast
    with get [OF that(2,3)] that(4) show ?thesis by auto
  qed
qed

text \<open>Feeding a list of best conversations back in.\<close>

lemma refold_ids:
  assumes "distinct (map (the \<circ> sc_id) (rev done @ cs))"
    and "\<And>c. c \<in> set cs \<Longrightarrow> candidate deleted c \<and> normalizeConversation c = c"
  shows "fold (consider_conv deleted) cs (map (\<lambda>c. (the (sc_id c), c)) (rev done))
      = map (\<lambda>c. (the (sc_id c), c)) (rev done @ cs)"
  using assms
proof (induction cs arbitrary: "done")
  case (Cons c cs)
  let ?r = "map (\<lambda>c. (the (sc_id c), c)) (rev done)"
  have new: "the (sc_id c) \<notin> set (rkeys ?r)" using Cons.prems(1) by (auto simp: comp_def)
  then have "rget ?r (the (sc_id c)) = None" by (simp only: map_of_eq_None_iff set_map simp_thms)
  then have "consider_conv deleted c ?r = rput (the (sc_id c)) c ?r"
    using Cons.prems(2) [of c] by (simp add: consider_eq)
  also have "\<dots> = ?r @ [(the (sc_id c), c)]" using new by (rule rput_new)
  finally have step: "consider_conv deleted c ?r = map (\<lambda>c. (the (sc_id c), c)) (rev (c # done))" by simp
  have "fold (consider_conv deleted) cs (map (\<lambda>c. (the (sc_id c), c)) (rev (c # done)))
      = map (\<lambda>c. (the (sc_id c), c)) (rev (c # done) @ cs)"
    by (rule Cons.IH) (use Cons.prems in simp_all)
  then show ?case by (simp only: fold_simps step) simp
qed simp

lemma refold_losers:
  assumes "\<And>raw. raw \<in> set cs \<Longrightarrow> candidate deleted raw \<Longrightarrow> \<exists>c. rget r (the (sc_id raw)) = Some c \<and> \<not> beats raw c"
  shows "fold (consider_conv deleted) cs r = r"
  using assms
proof (induction cs)
  case (Cons c cs)
  have "consider_conv deleted c r = r" using Cons.prems [of c] by (auto simp: consider_eq split: option.splits)
  with Cons show ?case by simp
qed simp

lemma merged_again:
  "merged (merged l r ts) r ts = merged l r ts"
proof -
  let ?R = "merged l r ts" and ?d = "tombstoneMap ts"
  let ?m = "map (\<lambda>c. (the (sc_id c), c)) ?R"
  have "\<And>c. c \<in> set ?R \<Longrightarrow> candidate ?d c \<and> normalizeConversation c = c"
    using merged_spec(3) [of _ l r ts] by fastforce
  then have "fold (consider_conv ?d) ?R [] = ?m"
    using refold_ids [of "[]" ?R ?d] merged_spec(1) [of l r ts] by simp
  moreover have "fold (consider_conv ?d) r ?m = ?m"
  proof (rule refold_losers)
    fix raw assume "raw \<in> set r" "candidate ?d raw"
    then obtain c where c: "c \<in> set ?R" "sc_id c = sc_id raw" "\<not> beats raw c"
      using merged_spec(4) [of raw l r ts] by blast
    have "rwf ?m" using merged_spec(1) [of l r ts] by (simp add: comp_def)
    with c(1) have "rget ?m (the (sc_id c)) = Some c" by (intro map_of_is_SomeI) auto
    with c show "\<exists>c. rget ?m (the (sc_id raw)) = Some c \<and> \<not> beats raw c" by auto
  qed
  ultimately have "merged ?R r ts = sort_by newest (map snd ?m)" unfolding merged_eq by (simp only:)
  also have "\<dots> = ?R" using sort_by_sorted [OF merged_spec(2)] by (simp add: comp_def)
  finally show ?thesis .
qed

lemma not_outdated:
  fixes T :: "int set"
  assumes "finite T" "\<forall>at \<in> T. 0 < at"
  shows "\<not> (0 < Max (insert 0 T) \<and> u \<le> Max (insert 0 T)) \<longleftrightarrow> (\<forall>at \<in> T. at < u)"
proof (cases "T = {}")
  case False
  with assms(1) have max: "Max T \<in> T" "\<forall>at \<in> T. at \<le> Max T" by simp_all
  with assms(2) have pos: "0 < Max T" by blast
  then have "Max (insert 0 T) = Max T" using assms(1) False by simp
  note this pos
  moreover have "Max T < u \<longleftrightarrow> (\<forall>at \<in> T. at < u)" using max by fastforce
  ultimately show ?thesis by auto
qed simp

lemma candidate_iff:
  "candidate (tombstoneMap ts) raw \<longleftrightarrow>
     truthy (sc_id raw) \<and> (\<forall>at \<in> times_of (the (sc_id raw)) ts. at < updated raw)"
proof (cases "truthy (sc_id raw)")
  case True
  let ?T = "times_of (the (sc_id raw)) ts"
  from True have "the (sc_id raw) \<noteq> ''''" by (auto simp: truthy_iff)
  note m = tombstoneMap_max [OF this, of ts]
  have pos: "\<forall>at \<in> ?T. 0 < at" by (simp add: times_of_def)
  have "conv_alive (tombstoneMap ts) raw \<longleftrightarrow> \<not> (0 < Max (insert 0 ?T) \<and> updated raw \<le> Max (insert 0 ?T))"
    by (simp only: conv_alive_def m)
  also have "\<dots> \<longleftrightarrow> (\<forall>at \<in> ?T. at < updated raw)"
    by (rule not_outdated) (use pos in simp_all)
  finally show ?thesis using True by (simp add: candidate_def)
qed (simp add: candidate_def)

lemma merged_outlives:
  assumes "c \<in> set (merged l r ts)"
  shows "c \<in> normalizeConversation ` (set l \<union> set r) \<and> truthy (sc_id c)
    \<and> (\<forall>at \<in> times_of (the (sc_id c)) ts. at < updated c)"
proof -
  from merged_spec(3) [OF assms] obtain raw where "raw \<in> set l \<union> set r" "candidate (tombstoneMap ts) raw"
      "c = normalizeConversation raw" by blast
  with candidate_iff [of ts raw] show ?thesis by simp
qed

lemma merged_represents:
  assumes "raw \<in> set l \<union> set r" "truthy (sc_id raw)" "\<forall>at \<in> times_of (the (sc_id raw)) ts. at < updated raw"
  shows "\<exists>c \<in> set (merged l r ts). sc_id c = sc_id raw
    \<and> (updated raw < updated c \<or> updated raw = updated c \<and> message_count raw \<le> message_count c)"
proof -
  from assms(2,3) have "candidate (tombstoneMap ts) raw" by (simp add: candidate_iff)
  from merged_spec(4) [OF assms(1) this] obtain c where
    "c \<in> set (merged l r ts)" "sc_id c = sc_id raw" "\<not> beats raw c" by blast
  then show ?thesis by (intro bexI [of _ c]) (auto simp: beats_def)
qed

section \<open>Properties\<close>

text \<open>(C24) merging is last-writer-wins per conversation. The result holds each identifier at most once, newest
  first; everything in it comes from one of the two sides and is not deleted by a tombstone; and every
  conversation of either side that no tombstone deletes is represented by one that is at least as recent,
  and at equal times has at least as many messages.\<close>

theorem merge_is_last_writer_wins:
  "distinct (map (the \<circ> sc_id) (merged l r ts)) \<and> sorted_wrt (\<lambda>x y. updated y \<le> updated x) (merged l r ts)
   \<and> (\<forall>c \<in> set (merged l r ts). c \<in> normalizeConversation ` (set l \<union> set r) \<and> truthy (sc_id c)
        \<and> (\<forall>at \<in> times_of (the (sc_id c)) ts. at < updated c))
   \<and> (\<forall>raw \<in> set l \<union> set r. truthy (sc_id raw) \<longrightarrow> (\<forall>at \<in> times_of (the (sc_id raw)) ts. at < updated raw) \<longrightarrow>
        (\<exists>c \<in> set (merged l r ts). sc_id c = sc_id raw
           \<and> (updated raw < updated c \<or> updated raw = updated c \<and> message_count raw \<le> message_count c)))"
  using merged_spec(1) [of l r ts] merged_spec(2) [of l r ts] merged_outlives [of _ l r ts] merged_represents [of _ l r ts]
  by (simp add: newest_def)

definition demo_conv :: "string \<Rightarrow> int \<Rightarrow> nat \<Rightarrow> (unit, unit) sync_conv" where
  "demo_conv i at n = \<lparr> sc_id = Some i, sc_title = Some ''t'', sc_createdAt = None, sc_updatedAt = Some at,
     sc_messages = Some (replicate n ()), sc_other = () \<rparr>"

theorem merge_is_last_writer_wins_witness:
  "\<exists>c \<in> set (merged [demo_conv ''a'' 5 1] [demo_conv ''a'' 7 0] [\<lparr>ts_id = Some ''a'', ts_deletedAt = Some 6\<rparr>]).
     sc_id c = Some ''a'' \<and> 7 \<le> updated c"
proof -
  let ?l = "[demo_conv ''a'' 5 1]" and ?r = "[demo_conv ''a'' 7 0]"
  let ?ts = "[\<lparr>ts_id = Some ''a'', ts_deletedAt = Some 6\<rparr>]"
  have trim: "js_trim ''a'' = ''a''" by code_simp
  have f: "demo_conv ''a'' 7 0 \<in> set ?l \<union> set ?r" "truthy (sc_id (demo_conv ''a'' 7 0))" "updated (demo_conv ''a'' 7 0) = 7"
      "\<forall>at \<in> times_of (the (sc_id (demo_conv ''a'' 7 0))) ?ts. at < updated (demo_conv ''a'' 7 0)"
    by (simp_all add: demo_conv_def updated_def num_or_zero_def trimmed_id_def trim)
  have "\<exists>c \<in> set (merged ?l ?r ?ts). sc_id c = sc_id (demo_conv ''a'' 7 0)
      \<and> (updated (demo_conv ''a'' 7 0) < updated c
         \<or> updated (demo_conv ''a'' 7 0) = updated c \<and> message_count (demo_conv ''a'' 7 0) \<le> message_count c)"
    using merge_is_last_writer_wins [of ?l ?r ?ts, THEN conjunct2, THEN conjunct2, THEN conjunct2] f by blast
  then show ?thesis unfolding f(3) by (auto simp: demo_conv_def)
qed

text \<open>Merging settles in one step: merging the result with the same remote conversations again gives the
  same list and reports no change, so two devices do not push at each other for ever.\<close>

theorem merge_settles: "mergeConversations (merged l r ts) r ts = (merged l r ts, False)"
proof -
  have "snd (mergeConversations l' r ts) = (fingerprint (merged l' r ts) \<noteq> fingerprint l')"
    for l' :: "('a, 'b) sync_conv list"
    by (simp add: mergeConversations_def Let_def)
  then show ?thesis by (metis merged_again prod.collapse)
qed

text \<open>Two devices that merge each other's conversations agree, whichever is called local: the same
  conversations survive, with the same time of change and the same number of messages.\<close>

theorem merge_agrees_on_both_devices:
  "(\<lambda>c. (sc_id c, updated c, message_count c)) ` set (merged l r ts)
     = (\<lambda>c. (sc_id c, updated c, message_count c)) ` set (merged r l ts)"
proof -
  have "(\<lambda>c. (sc_id c, updated c, message_count c)) ` set (merged a b ts)
      \<subseteq> (\<lambda>c. (sc_id c, updated c, message_count c)) ` set (merged b a ts)" for a b :: "('a, 'b) sync_conv list"
  proof (rule image_subsetI)
    fix c assume c: "c \<in> set (merged a b ts)"
    then obtain raw where raw: "raw \<in> set a \<union> set b" "candidate (tombstoneMap ts) raw" "c = normalizeConversation raw"
      using merged_spec(3) by blast
    then obtain d where d: "d \<in> set (merged b a ts)" "sc_id d = sc_id raw" "\<not> beats raw d"
      using merged_spec(4) [of raw b a ts] by blast
    from merged_spec(3) [OF d(1)] obtain raw' where raw': "raw' \<in> set b \<union> set a"
        "candidate (tombstoneMap ts) raw'" "d = normalizeConversation raw'" by blast
    have "\<not> beats raw' c" using raw' raw d by (intro merged_spec(5) [OF c]) auto
    with raw raw' d have "updated d = updated c" "message_count d = message_count c" by (auto simp: beats_def)
    with d raw show "(sc_id c, updated c, message_count c) \<in> (\<lambda>c. (sc_id c, updated c, message_count c)) ` set (merged b a ts)"
      by (intro image_eqI [of _ _ d]) auto
  qed
  then show ?thesis by blast
qed

text \<open>(C25) A deleted conversation stays deleted: once a deletion has been recorded, and while its tombstone
  has not expired, whatever the other device sends, the merge keeps a conversation of that identifier only
  if it was changed after the deletion.\<close>

theorem deleted_conversation_stays_deleted:
  assumes "i \<in> set ids" "js_trim i = i" "i \<noteq> ''''" "0 < at" "now - at \<le> TOMBSTONE_TTL_MS"
    and "ts = fst (listConversationTombstones now (markConversationDeleted ids at st))"
    and "c \<in> set (merged l r ts)" "sc_id c = Some i"
  shows "at < updated c"
proof -
  let ?st = "markConversationDeleted ids at st" and ?k = "keyOf Conversation i"
  have "at \<le> deleted_at ?st ?k"
    using mark_all_reaches [OF assms(1), of at Conversation st] assms(1-3)
    by (auto simp: markConversationDeleted_def markDeleted_def)
  with assms(4) obtain a where a: "rget ?st ?k = Some a" "at \<le> a" by (auto simp: num_or_zero_def split: option.splits)
  have "is_kind Conversation ?k" by (simp add: is_kind_def)
  then have "(?k, a) \<in> set (filter (\<lambda>(key, _). is_kind Conversation key) (pruneExpired now ?st))"
    using a assms(5) by (auto simp: pruneExpired_def dest: map_of_SomeD)
  from imageI [OF this, of "\<lambda>(key, at). \<lparr>ts_id = Some (snd (the (parseKey key))), ts_deletedAt = Some at\<rparr>"]
  have "\<lparr>ts_id = Some i, ts_deletedAt = Some a\<rparr> \<in> set ts"
    by (simp add: assms(6) listConversationTombstones_def listByKind_def Let_def)
  then have "a \<in> times_of i ts" using a assms(2,4) by (auto simp: times_of_def trimmed_id_def num_or_zero_def intro!: bexI)
  moreover have "\<forall>at \<in> times_of i ts. at < updated c" using merged_outlives [OF assms(7)] assms(8) by simp
  ultimately show ?thesis using a(2) by force
qed

theorem deleted_conversation_stays_deleted_witness:
  "10 < updated (demo_conv ''a'' 11 0)"
proof -
  let ?ts = "fst (listConversationTombstones 12 (markConversationDeleted [''a''] 10 []))"
  have "js_trim ''a'' = ''a''" "12 - 10 \<le> TOMBSTONE_TTL_MS" by code_simp+
  moreover have "normalizeConversation (demo_conv ''a'' 11 0)
      \<in> set (merged [demo_conv ''a'' 9 0] [demo_conv ''a'' 11 0] ?ts)" by code_simp
  ultimately have "10 < updated (normalizeConversation (demo_conv ''a'' 11 0))"
    by (intro deleted_conversation_stays_deleted [where i = "''a''" and ids = "[''a'']" and now = 12])
       (simp_all add: demo_conv_def normalizeConversation_def)
  then show ?thesis by simp
qed

text \<open>Tombstones from another device join the store: per identifier the latest deletion wins, so the
  order in which devices exchange them does not matter, and no tombstone of another kind is touched.\<close>

theorem remote_tombstones_join:
  assumes "i \<noteq> ''''" "0 \<le> deleted_at st (keyOf kind i)" "kind' \<noteq> kind"
  shows "deleted_at (mergeRemote kind ts st) (keyOf kind i) = Max (insert (deleted_at st (keyOf kind i)) (times_of i ts))
    \<and> deleted_at (mergeRemote kind ts' (mergeRemote kind ts st)) (keyOf kind i)
        = deleted_at (mergeRemote kind ts (mergeRemote kind ts' st)) (keyOf kind i)
    \<and> rget (mergeRemote kind ts st) (keyOf kind' j) = rget st (keyOf kind' j)"
proof -
  have remote: "mergeRemote kind us st' = fold (merge_one kind) us st'" for us st'
    by (simp add: mergeRemote_def)
  have keep: "0 \<le> deleted_at (fold (merge_one kind) us st) (keyOf kind i)" for us
    unfolding merge_all_max [OF assms(1,2)] using assms(2) by (simp add: Max_ge_iff)
  have other: "keyOf kind' j \<notin> range (keyOf kind)" using assms(3) by (auto simp: keyOf_inj)
  show ?thesis
    unfolding remote merge_all_max [OF assms(1,2)] merge_all_max [OF assms(1) keep]
    using merge_all_frame [OF other, of ts st] by (auto simp: max_join Un_commute simp del: Max_insert)
qed

theorem remote_tombstones_join_witness:
  "deleted_at (mergeRemote Workspace [\<lparr>ts_id = Some ''w'', ts_deletedAt = Some 5\<rparr>] [(''workspace:w'', 3)]) (keyOf Workspace ''w'') = 5"
proof -
  have "js_trim ''w'' = ''w''" "0 \<le> deleted_at [(''workspace:w'', 3)] (keyOf Workspace ''w'')"
    "deleted_at [(''workspace:w'', 3)] (keyOf Workspace ''w'') = 3" by code_simp+
  with remote_tombstones_join [of "''w''" "[(''workspace:w'', 3)]" Workspace Conversation
      "[\<lparr>ts_id = Some ''w'', ts_deletedAt = Some 5\<rparr>]"]
  show ?thesis by (simp add: trimmed_id_def num_or_zero_def)
qed

end
