(* ===== verification/ProtocolStore.thy ===== *)
theory ProtocolStore
  imports Descend
begin

text \<open>
  \<^bold>\<open>frontend/src/stores/protocolHttpLayoutStore.ts\<close>: the folder tree of the protocol sidebar, where
  collections, requests and entries sit in it, the order of siblings and what is expanded; its
  operations, and what a snapshot of another device does to it. A node key is the string
  \<open>kind:id\<close>. \<open>pl_syncs\<close> counts the calls of \<open>notifyClientModuleSync\<close>. The loop that climbs from a
  folder to its ancestors does not end on a cycle of folders: it is a partial function, whose value is
  then \<open>None\<close>, and so is that of the operations that run it.
\<close>

section \<open>Data\<close>

record folder =
  fo_id :: string
  fo_name :: string
  fo_parentId :: "string option"

datatype drop_target = ToRoot | ToFolder string | ToCollection string

record pl_state =
  folders :: "folder list"
  collectionParents :: "string option jrec"
  requestParents :: "string option jrec"
  entryParents :: "string option jrec"
  siblingOrder :: "string list jrec"
  expandedFolderIds :: "string list"
  expandedCollectionIds :: "string list"
  pl_syncs :: nat

definition pl_init :: pl_state where
  "pl_init = \<lparr> folders = [], collectionParents = [], requestParents = [], entryParents = [],
     siblingOrder = [], expandedFolderIds = [], expandedCollectionIds = [], pl_syncs = 0 \<rparr>"

definition folder_key :: "string \<Rightarrow> string" where
  "folder_key i = ''folder:'' @ i"

fun parentKey :: "drop_target \<Rightarrow> string" where
  "parentKey ToRoot = ''root''"
| "parentKey (ToFolder i) = ''folder:'' @ i"
| "parentKey (ToCollection i) = ''collection:'' @ i"

definition pl_notify :: "pl_state \<Rightarrow> pl_state" where
  "pl_notify s = s\<lparr>pl_syncs := Suc (pl_syncs s)\<rparr>"

section \<open>Operations on folders\<close>

definition uniqueFolderName :: "folder list \<Rightarrow> string option \<Rightarrow> string \<Rightarrow> string option \<Rightarrow> string" where
  "uniqueFolderName fs parentId name excludeId =
     (let base = (if js_trim name = '''' then ''Folder'' else js_trim name);
          siblings = filter (\<lambda>f. fo_parentId f = parentId \<and> Some (fo_id f) \<noteq> excludeId) fs;
          names = map fo_name siblings
      in if base \<notin> set names then base else numbered '' '' base (free_number '' '' names base 2))"

definition collectDescendantFolderIds :: "folder list \<Rightarrow> string \<Rightarrow> string list" where
  "collectDescendantFolderIds fs rootId = desc_close fo_id fo_parentId fs [rootId]"

definition find_folder :: "folder list \<Rightarrow> string \<Rightarrow> folder option" where
  "find_folder fs i = find (\<lambda>f. fo_id f = i) fs"

partial_function (option) climb :: "folder list \<Rightarrow> string \<Rightarrow> folder option \<Rightarrow> bool option" where
  "climb fs anc current =
     (case current of
        None \<Rightarrow> Some False
      | Some f \<Rightarrow>
          if \<not> truthy (fo_parentId f) then Some False
          else if fo_parentId f = Some anc then Some True
          else climb fs anc (find_folder fs (the (fo_parentId f))))"

definition isFolderDescendant :: "folder list \<Rightarrow> string \<Rightarrow> string \<Rightarrow> bool option" where
  "isFolderDescendant fs folderId maybeAncestorId =
     (if folderId = maybeAncestorId then Some True else climb fs maybeAncestorId (find_folder fs folderId))"

definition addFolder :: "string \<Rightarrow> string option \<Rightarrow> string \<Rightarrow> pl_state \<Rightarrow> folder \<times> pl_state" where
  "addFolder newId parentId name s =
     (let folder = \<lparr> fo_id = newId, fo_name = uniqueFolderName (folders s) parentId name None, fo_parentId = parentId \<rparr>;
          expanded = expandedFolderIds s @ [newId]
      in (folder, pl_notify (s\<lparr>folders := folders s @ [folder],
            expandedFolderIds := (if truthy parentId \<and> the parentId \<notin> set expanded
               then expanded @ [the parentId] else expanded)\<rparr>)))"

definition renameFolder :: "string \<Rightarrow> string \<Rightarrow> pl_state \<Rightarrow> bool \<times> pl_state" where
  "renameFolder folderId name s =
     (if js_trim name = '''' then (False, s)
      else case find_folder (folders s) folderId of
        None \<Rightarrow> (False, s)
      | Some folder \<Rightarrow>
          (let nextName = uniqueFolderName (folders s) (fo_parentId folder) (js_trim name) (Some folderId)
           in (True, pl_notify (s\<lparr>folders := map_where (\<lambda>f. fo_id f = folderId) (\<lambda>f. f\<lparr>fo_name := nextName\<rparr>) (folders s)\<rparr>))))"

definition drop_parents :: "string list \<Rightarrow> string option jrec \<Rightarrow> string option jrec" where
  "drop_parents ids r = filter (\<lambda>(_, p). \<not> (truthy p \<and> the p \<in> set ids)) r"

definition keeps_key :: "string list \<Rightarrow> string \<Rightarrow> bool" where
  "keeps_key ids nodeKey \<longleftrightarrow> (if \<not> starts_with nodeKey ''folder:'' then True else drop 7 nodeKey \<notin> set ids)"

definition deleteFolder :: "string \<Rightarrow> pl_state \<Rightarrow> pl_state" where
  "deleteFolder folderId s =
     (let ids = collectDescendantFolderIds (folders s) folderId
      in pl_notify (s\<lparr>folders := filter (\<lambda>f. fo_id f \<notin> set ids) (folders s),
            collectionParents := drop_parents ids (collectionParents s),
            requestParents := drop_parents ids (requestParents s),
            entryParents := drop_parents ids (entryParents s),
            siblingOrder := map (\<lambda>(key, order). (key, filter (keeps_key ids) order))
              (filter (\<lambda>(key, _). key \<notin> set (map folder_key ids)) (siblingOrder s)),
            expandedFolderIds := filter (\<lambda>i. i \<notin> set ids) (expandedFolderIds s)\<rparr>))"

definition moveFolder :: "string \<Rightarrow> string option \<Rightarrow> pl_state \<Rightarrow> (bool \<times> pl_state) option" where
  "moveFolder folderId newParentId s =
     Option.bind (if truthy newParentId then isFolderDescendant (folders s) (the newParentId) folderId else Some False)
       (\<lambda>inside. Some (
          if inside then (False, s)
          else if find_folder (folders s) folderId = None then (False, s)
          else (True, pl_notify (s\<lparr>folders :=
                  map_where (\<lambda>f. fo_id f = folderId) (\<lambda>f. f\<lparr>fo_parentId := newParentId\<rparr>) (folders s)\<rparr>))))"

section \<open>Operations on the other nodes\<close>

definition setCollectionParent :: "string \<Rightarrow> string option \<Rightarrow> pl_state \<Rightarrow> pl_state" where
  "setCollectionParent i p s = pl_notify (s\<lparr>collectionParents := rput i p (collectionParents s)\<rparr>)"

definition setRequestParent :: "string \<Rightarrow> string option \<Rightarrow> pl_state \<Rightarrow> pl_state" where
  "setRequestParent i p s = pl_notify (s\<lparr>requestParents := rput i p (requestParents s)\<rparr>)"

definition setEntryParent :: "string \<Rightarrow> string option \<Rightarrow> pl_state \<Rightarrow> pl_state" where
  "setEntryParent i p s = pl_notify (s\<lparr>entryParents := rput i p (entryParents s)\<rparr>)"

text \<open>\<open>splice\<close> at the index of an element, or \<open>push\<close> when it is not there.\<close>

fun insert_before :: "string \<Rightarrow> string \<Rightarrow> string list \<Rightarrow> string list" where
  "insert_before b x [] = [x]"
| "insert_before b x (y # ys) = (if y = b then x # y # ys else y # insert_before b x ys)"

definition reorderSibling :: "string \<Rightarrow> drop_target \<Rightarrow> string option \<Rightarrow> pl_state \<Rightarrow> pl_state" where
  "reorderSibling sourceKey target beforeKey s =
     (let nextOrder = map (\<lambda>(k, order). (k, filter (\<lambda>x. x \<noteq> sourceKey) order)) (siblingOrder s);
          siblings = (case rget nextOrder (parentKey target) of None \<Rightarrow> [] | Some xs \<Rightarrow> xs);
          siblings = (if truthy beforeKey then insert_before (the beforeKey) sourceKey siblings
                      else siblings @ [sourceKey])
      in pl_notify (s\<lparr>siblingOrder := rput (parentKey target) siblings nextOrder\<rparr>))"

definition folder_of :: "drop_target \<Rightarrow> string option" where
  "folder_of target = (case target of ToFolder i \<Rightarrow> Some i | _ \<Rightarrow> None)"

definition is_collection_target :: "drop_target \<Rightarrow> bool" where
  "is_collection_target target = (case target of ToCollection _ \<Rightarrow> True | _ \<Rightarrow> False)"

definition placeNode :: "string \<Rightarrow> drop_target \<Rightarrow> string option \<Rightarrow> pl_state \<Rightarrow> (bool \<times> pl_state) option" where
  "placeNode sourceKey target beforeKey s =
     (if starts_with sourceKey ''folder:'' then
        (if is_collection_target target then Some (False, s)
         else Option.bind (moveFolder (drop 7 sourceKey) (folder_of target) s)
           (\<lambda>(moved, s'). Some (if \<not> moved then (False, s') else (True, reorderSibling sourceKey target beforeKey s'))))
      else if starts_with sourceKey ''collection:'' then
        (if is_collection_target target then Some (False, s)
         else Some (True, reorderSibling sourceKey target beforeKey
                (setCollectionParent (drop 11 sourceKey) (folder_of target) s)))
      else if starts_with sourceKey ''request:'' then
        Some (True, reorderSibling sourceKey target beforeKey
          (setRequestParent (drop 8 sourceKey) (folder_of target) s))
      else if starts_with sourceKey ''entry:'' then
        (if is_collection_target target then Some (False, s)
         else Some (True, reorderSibling sourceKey target beforeKey
                (setEntryParent (drop 6 sourceKey) (folder_of target) s)))
      else Some (False, s))"

definition moveNode :: "string \<Rightarrow> drop_target \<Rightarrow> pl_state \<Rightarrow> (bool \<times> pl_state) option" where
  "moveNode sourceKey target s = placeNode sourceKey target None s"

definition toggled :: "string \<Rightarrow> string list \<Rightarrow> string list" where
  "toggled i ids = (if i \<in> set ids then filter (\<lambda>x. x \<noteq> i) (uniq ids) else uniq ids @ [i])"

definition toggleFolderExpanded :: "string \<Rightarrow> pl_state \<Rightarrow> pl_state" where
  "toggleFolderExpanded i s = s\<lparr>expandedFolderIds := toggled i (expandedFolderIds s)\<rparr>"

definition toggleCollectionExpanded :: "string \<Rightarrow> pl_state \<Rightarrow> pl_state" where
  "toggleCollectionExpanded i s = s\<lparr>expandedCollectionIds := toggled i (expandedCollectionIds s)\<rparr>"

definition ensured :: "string \<Rightarrow> string list \<Rightarrow> string list" where
  "ensured i ids = (if i \<in> set ids then ids else ids @ [i])"

definition ensureFolderExpanded :: "string \<Rightarrow> pl_state \<Rightarrow> pl_state" where
  "ensureFolderExpanded i s = s\<lparr>expandedFolderIds := ensured i (expandedFolderIds s)\<rparr>"

definition ensureCollectionExpanded :: "string \<Rightarrow> pl_state \<Rightarrow> pl_state" where
  "ensureCollectionExpanded i s = s\<lparr>expandedCollectionIds := ensured i (expandedCollectionIds s)\<rparr>"

definition isFolderExpanded :: "string \<Rightarrow> pl_state \<Rightarrow> bool" where
  "isFolderExpanded i s = (i \<in> set (expandedFolderIds s))"

definition isCollectionExpanded :: "string \<Rightarrow> pl_state \<Rightarrow> bool" where
  "isCollectionExpanded i s = (i \<in> set (expandedCollectionIds s))"

section \<open>Snapshots\<close>

definition asNullableStringRecord :: "json option \<Rightarrow> string option jrec" where
  "asNullableStringRecord v =
     (case v of
        Some (JObj kvs) \<Rightarrow> fold (\<lambda>(k, v). case v of JNull \<Rightarrow> rput k None
          | JString t \<Rightarrow> rput k (if js_trim t = '''' then None else Some t) | _ \<Rightarrow> id) kvs []
      | _ \<Rightarrow> [])"

definition asStringArray :: "json option \<Rightarrow> string list" where
  "asStringArray v =
     (case v of Some (JArr xs) \<Rightarrow> concat (map (\<lambda>x. case x of JString t \<Rightarrow> [t] | _ \<Rightarrow> []) xs) | _ \<Rightarrow> [])"

definition asSiblingOrder :: "json option \<Rightarrow> string list jrec" where
  "asSiblingOrder v =
     (case v of
        Some (JObj kvs) \<Rightarrow> fold (\<lambda>(k, v). case v of JArr xs \<Rightarrow> rput k (asStringArray (Some (JArr xs))) | _ \<Rightarrow> id) kvs []
      | _ \<Rightarrow> [])"

definition parse_folder :: "json \<Rightarrow> folder list" where
  "parse_folder item =
     (case field ''id'' item of
        Some (JString i) \<Rightarrow>
          if js_trim i = '''' then []
          else (case field ''name'' item of
              Some (JString n) \<Rightarrow>
                [\<lparr> fo_id = i, fo_name = n, fo_parentId = (case field ''parentId'' item of
                     Some (JString p) \<Rightarrow> if js_trim p = '''' then None else Some p | _ \<Rightarrow> None) \<rparr>]
            | _ \<Rightarrow> [])
      | _ \<Rightarrow> [])"

definition parseProtocolFolders :: "json option \<Rightarrow> folder list" where
  "parseProtocolFolders v = (case v of Some (JArr items) \<Rightarrow> concat (map parse_folder items) | _ \<Rightarrow> [])"

text \<open>\<open>json_parse\<close> is \<open>JSON.parse\<close>, with \<open>None\<close> for an exception.\<close>

definition parseProtocolHttpLayoutSnapshot :: "(string \<Rightarrow> json option) \<Rightarrow> json option \<Rightarrow> pl_state option" where
  "parseProtocolHttpLayoutSnapshot json_parse data =
     (let obj = (case data of Some (JString t) \<Rightarrow> json_parse t | _ \<Rightarrow> data)
      in case obj of
          Some (JObj raw) \<Rightarrow>
            (case field ''folders'' (JObj raw) of
               Some (JArr fs) \<Rightarrow> Some \<lparr> folders = parseProtocolFolders (Some (JArr fs)),
                  collectionParents = asNullableStringRecord (field ''collectionParents'' (JObj raw)),
                  requestParents = asNullableStringRecord (field ''requestParents'' (JObj raw)),
                  entryParents = asNullableStringRecord (field ''entryParents'' (JObj raw)),
                  siblingOrder = asSiblingOrder (field ''siblingOrder'' (JObj raw)),
                  expandedFolderIds = asStringArray (field ''expandedFolderIds'' (JObj raw)),
                  expandedCollectionIds = asStringArray (field ''expandedCollectionIds'' (JObj raw)), pl_syncs = 0 \<rparr>
             | _ \<Rightarrow> None)
        | _ \<Rightarrow> None)"

definition applyProtocolHttpLayout :: "(string \<Rightarrow> json option) \<Rightarrow> json option \<Rightarrow> bool \<Rightarrow> pl_state \<Rightarrow> pl_state" where
  "applyProtocolHttpLayout json_parse data replace s =
     (case parseProtocolHttpLayoutSnapshot json_parse data of
        None \<Rightarrow> if replace then pl_init\<lparr>pl_syncs := pl_syncs s\<rparr> else s
      | Some parsed \<Rightarrow>
          if \<not> replace \<and> folders parsed = [] \<and> folders s \<noteq> [] then s
          else parsed\<lparr>pl_syncs := pl_syncs s\<rparr>)"

text \<open>What \<open>serializeProtocolHttpLayout\<close> uploads, as the value another device parses.\<close>

definition json_of_parents :: "string option jrec \<Rightarrow> json" where
  "json_of_parents r = JObj (map (\<lambda>(k, p). (k, case p of None \<Rightarrow> JNull | Some x \<Rightarrow> JString x)) r)"

definition json_of_strings :: "string list \<Rightarrow> json" where
  "json_of_strings xs = JArr (map JString xs)"

definition json_of_folder :: "folder \<Rightarrow> json" where
  "json_of_folder f = JObj [(''id'', JString (fo_id f)), (''name'', JString (fo_name f)),
     (''parentId'', case fo_parentId f of None \<Rightarrow> JNull | Some p \<Rightarrow> JString p)]"

definition serializeProtocolHttpLayout :: "pl_state \<Rightarrow> json" where
  "serializeProtocolHttpLayout s = JObj
     [(''folders'', JArr (map json_of_folder (folders s))),
      (''collectionParents'', json_of_parents (collectionParents s)),
      (''requestParents'', json_of_parents (requestParents s)),
      (''entryParents'', json_of_parents (entryParents s)),
      (''siblingOrder'', JObj (map (\<lambda>(k, order). (k, json_of_strings order)) (siblingOrder s))),
      (''expandedFolderIds'', json_of_strings (expandedFolderIds s)),
      (''expandedCollectionIds'', json_of_strings (expandedCollectionIds s))]"

section \<open>Climbing a forest of folders\<close>

abbreviation folder_edges :: "folder list \<Rightarrow> (string \<times> string) set" where
  "folder_edges fs \<equiv> desc_edges fo_id fo_parentId fs"

lemma finite_folder_edges: "finite (folder_edges fs)"
proof -
  have "folder_edges fs \<subseteq> (\<lambda>f. (the (fo_parentId f), fo_id f)) ` set fs"
    by (auto simp: desc_edges_def intro!: image_eqI)
  then show ?thesis by (rule finite_subset) simp
qed

lemma find_folder_SomeD: "find_folder fs i = Some f \<Longrightarrow> f \<in> set fs \<and> fo_id f = i"
  using find_SomeD [of "\<lambda>f. fo_id f = i" fs f] by (simp add: find_folder_def)

lemma find_folder_None: "find_folder fs i = None \<longleftrightarrow> i \<notin> fo_id ` set fs"
  by (auto simp: find_folder_def find_None_iff)

text \<open>With distinct identifiers a folder has one parent at most.\<close>

lemma edges_into:
  assumes "distinct (map fo_id fs)" "find_folder fs i = Some f"
  shows "(p, i) \<in> folder_edges fs \<longleftrightarrow> p \<noteq> '''' \<and> fo_parentId f = Some p"
proof -
  have "g = f" if "g \<in> set fs" "fo_id g = i" for g
    using assms that find_folder_SomeD by (metis distinct_map inj_onD)
  with find_folder_SomeD [OF assms(2)] show ?thesis by (auto simp: desc_edges_def)
qed

lemma climb_is_ancestor:
  assumes d: "distinct (map fo_id fs)" and ac: "acyclic (folder_edges fs)"
  shows "climb fs anc (find_folder fs i) = Some ((anc, i) \<in> (folder_edges fs)\<^sup>+)"
proof -
  have "wf (folder_edges fs)" using ac finite_folder_edges by (simp add: finite_acyclic_wf)
  then show ?thesis
  proof (induction i rule: wf_induct_rule)
    case (less i)
    let ?E = "folder_edges fs"
    have last: "(anc, i) \<in> ?E\<^sup>+ \<longleftrightarrow> (\<exists>p. (p, i) \<in> ?E \<and> (anc = p \<or> (anc, p) \<in> ?E\<^sup>+))"
      by (subst trancl_unfold_right) (auto simp: rtrancl_eq_or_trancl relcomp_unfold)
    show ?case
    proof (cases "find_folder fs i")
      case None
      then have "(p, i) \<notin> ?E" for p by (auto simp: find_folder_None desc_edges_def)
      with last None show ?thesis by (simp add: climb.simps)
    next
      case (Some f)
      note into = edges_into [OF d Some]
      show ?thesis
      proof (cases "truthy (fo_parentId f)")
        case False
        then have "(p, i) \<notin> ?E" for p by (auto simp: into truthy_iff)
        with last Some False show ?thesis by (simp add: climb.simps)
      next
        case True
        then obtain p where p: "fo_parentId f = Some p" "p \<noteq> ''''" by (auto simp: truthy_iff)
        then have edge: "(p, i) \<in> ?E" by (simp add: into)
        have uniq: "q = p" if "(q, i) \<in> ?E" for q using that p by (simp add: into)
        have up: "(anc, i) \<in> ?E\<^sup>+ \<longleftrightarrow> anc = p \<or> (anc, p) \<in> ?E\<^sup>+"
          unfolding last using edge uniq by blast
        have "climb fs anc (find_folder fs i) = (if p = anc then Some True else climb fs anc (find_folder fs p))"
          using Some p by (simp add: climb.simps)
        then show ?thesis unfolding up less.IH [OF edge] by auto
      qed
    qed
  qed
qed

lemma isFolderDescendant_below:
  assumes "distinct (map fo_id fs)" "acyclic (folder_edges fs)"
  shows "isFolderDescendant fs i anc = Some (i \<in> below fo_id fo_parentId fs anc)"
  using climb_is_ancestor [OF assms, of anc i]
  by (auto simp: isFolderDescendant_def below_def rtrancl_eq_or_trancl)

section \<open>Well-formed layouts\<close>

definition sane_parent :: "string option \<Rightarrow> bool" where
  "sane_parent p \<longleftrightarrow> (case p of None \<Rightarrow> True | Some x \<Rightarrow> js_trim x \<noteq> '''')"

definition sane_record :: "string option jrec \<Rightarrow> bool" where
  "sane_record r \<longleftrightarrow> rwf r \<and> list_all (\<lambda>(_, p). sane_parent p) r"

definition pl_inv :: "pl_state \<Rightarrow> bool" where
  "pl_inv s \<longleftrightarrow> distinct (map fo_id (folders s)) \<and> acyclic (folder_edges (folders s))
     \<and> list_all (\<lambda>f. js_trim (fo_id f) \<noteq> '''' \<and> sane_parent (fo_parentId f)) (folders s)
     \<and> sane_record (collectionParents s) \<and> sane_record (requestParents s) \<and> sane_record (entryParents s)
     \<and> rwf (siblingOrder s) \<and> distinct (concat (map snd (siblingOrder s)))"

lemma pl_notify_inv [simp]: "pl_inv (pl_notify s) = pl_inv s"
  by (simp add: pl_inv_def pl_notify_def)

lemma pl_notify_frames [simp]:
  "folders (pl_notify s) = folders s" "collectionParents (pl_notify s) = collectionParents s"
  "requestParents (pl_notify s) = requestParents s" "entryParents (pl_notify s) = entryParents s"
  "siblingOrder (pl_notify s) = siblingOrder s"
  by (simp_all add: pl_notify_def)

lemma js_trim_empty [simp]: "js_trim '''' = ''''"
  by (simp add: js_trim_def trim_start_def trim_end_def)

lemma sane_record_rput:
  assumes "sane_record r" "sane_parent p"
  shows "sane_record (rput i p r)"
proof -
  have "list_all (\<lambda>(_, p). sane_parent p) r \<Longrightarrow> list_all (\<lambda>(_, p). sane_parent p) (rput i p r)"
    by (induction r) (auto simp: assms(2))
  with assms show ?thesis by (auto simp: sane_record_def)
qed

lemma sane_record_filter: "sane_record r \<Longrightarrow> sane_record (filter P r)"
  by (auto simp: sane_record_def list_all_iff distinct_map_filter)

text \<open>Deleting folders: the contract of a cascade.\<close>

definition folders_kept :: "string \<Rightarrow> folder list \<Rightarrow> folder list" where
  "folders_kept r fs = filter (\<lambda>f. fo_id f \<notin> set (collectDescendantFolderIds fs r)) fs"

interpretation folder_cascade: cascade fo_id fo_parentId folders_kept
  by unfold_locales (simp add: folders_kept_def collectDescendantFolderIds_def desc_close_below)

lemma acyclic_fewer_folders: "acyclic (folder_edges fs) \<Longrightarrow> set gs \<subseteq> set fs \<Longrightarrow> acyclic (folder_edges gs)"
  by (rule acyclic_subset) (auto simp: desc_edges_def)

text \<open>Moving a folder adds one edge at most.\<close>

lemma edges_after_move:
  "folder_edges (map_where (\<lambda>f. fo_id f = i) (\<lambda>f. f\<lparr>fo_parentId := p\<rparr>) fs)
     \<subseteq> folder_edges fs \<union> (if truthy p then {(the p, i)} else {})"
  by (auto simp: desc_edges_def set_map_where truthy_iff)

lemma ids_after_move [simp]:
  "map fo_id (map_where (\<lambda>f. fo_id f = i) (\<lambda>f. f\<lparr>fo_parentId := p\<rparr>) fs) = map fo_id fs"
  "map fo_id (map_where (\<lambda>f. fo_id f = i) (\<lambda>f. f\<lparr>fo_name := n\<rparr>) fs) = map fo_id fs"
  by (simp_all add: map_where_def)

lemma edges_after_rename [simp]:
  "folder_edges (map_where (\<lambda>f. fo_id f = i) (\<lambda>f. f\<lparr>fo_name := n\<rparr>) fs) = folder_edges fs"
  unfolding map_where_def by (rule desc_edges_map) simp

lemma acyclic_after_move:
  assumes "acyclic (folder_edges fs)" "truthy p \<Longrightarrow> the p \<notin> below fo_id fo_parentId fs i"
  shows "acyclic (folder_edges (map_where (\<lambda>f. fo_id f = i) (\<lambda>f. f\<lparr>fo_parentId := p\<rparr>) fs))"
proof (rule acyclic_subset [OF _ edges_after_move])
  show "acyclic (folder_edges fs \<union> (if truthy p then {(the p, i)} else {}))"
    using assms by (auto simp: below_def)
qed

lemma moveFolder_eq:
  assumes "pl_inv s"
  shows "moveFolder i p s = Some (
     if truthy p \<and> the p \<in> below fo_id fo_parentId (folders s) i \<or> i \<notin> fo_id ` set (folders s) then (False, s)
     else (True, pl_notify (s\<lparr>folders := map_where (\<lambda>f. fo_id f = i) (\<lambda>f. f\<lparr>fo_parentId := p\<rparr>) (folders s)\<rparr>)))"
proof -
  have "isFolderDescendant (folders s) q i = Some (q \<in> below fo_id fo_parentId (folders s) i)" for q
    using assms by (intro isFolderDescendant_below) (simp_all add: pl_inv_def)
  then show ?thesis by (simp add: moveFolder_def find_folder_None)
qed

lemma pl_inv_move:
  assumes "pl_inv s" "sane_parent p" "moveFolder i p s = Some (b, s')"
  shows "pl_inv s'"
proof (cases "truthy p \<and> the p \<in> below fo_id fo_parentId (folders s) i \<or> i \<notin> fo_id ` set (folders s)")
  case True
  then show ?thesis using assms by (simp add: moveFolder_eq [OF assms(1)])
next
  case False
  let ?fs = "map_where (\<lambda>f. fo_id f = i) (\<lambda>f. f\<lparr>fo_parentId := p\<rparr>) (folders s)"
  have "acyclic (folder_edges ?fs)" using False assms(1) by (intro acyclic_after_move) (auto simp: pl_inv_def)
  moreover have "list_all (\<lambda>f. js_trim (fo_id f) \<noteq> '''' \<and> sane_parent (fo_parentId f)) ?fs"
    using assms(1,2) by (auto simp: pl_inv_def list_all_iff map_where_def)
  moreover have "s' = pl_notify (s\<lparr>folders := ?fs\<rparr>)" using False assms(3) by (auto simp: moveFolder_eq [OF assms(1)])
  ultimately show ?thesis using assms(1) by (simp add: pl_inv_def)
qed

lemma pl_inv_add:
  assumes "pl_inv s" "js_trim i \<noteq> ''''" "i \<notin> fo_id ` set (folders s)" "Some i \<notin> fo_parentId ` set (folders s)"
    and "sane_parent p" "p \<noteq> Some i"
  shows "pl_inv (snd (addFolder i p name s))"
proof -
  let ?f = "\<lparr> fo_id = i, fo_name = uniqueFolderName (folders s) p name None, fo_parentId = p \<rparr>"
  let ?E = "folder_edges (folders s)"
  have i: "i \<noteq> ''''" using assms(2) by auto
  have sub: "folder_edges (folders s @ [?f]) \<subseteq> ?E \<union> (if truthy p then {(the p, i)} else {})"
    by (auto simp: desc_edges_def truthy_iff)
  have leaf: "i \<notin> Domain ?E" using assms(4) by (force simp: desc_edges_def)
  have "acyclic (?E \<union> (if truthy p then {(the p, i)} else {}))"
    using assms(1,6) leaf by (auto simp: pl_inv_def truthy_iff elim: converse_rtranclE)
  then have "acyclic (folder_edges (folders s @ [?f]))" using sub by (rule acyclic_subset)
  with assms i show ?thesis by (auto simp: pl_inv_def addFolder_def Let_def)
qed

lemma pl_inv_rename: "pl_inv s \<Longrightarrow> pl_inv (snd (renameFolder i n s))"
proof -
  assume "pl_inv s"
  then show ?thesis
    by (auto simp: renameFolder_def Let_def pl_inv_def list_all_iff set_map_where split: option.split)
qed

lemma sibling_values: "map snd (map (\<lambda>(k, order). (k, g order)) r) = map g (map snd r)" "rkeys (map (\<lambda>(k, order). (k, g order)) r) = rkeys r"
  by (induction r) auto

lemma distinct_concat_filter: "distinct (concat xss) \<Longrightarrow> distinct (concat (map (filter P) xss))"
  by (metis distinct_filter filter_concat)

lemma distinct_concat_fewer:
  "distinct (concat (map snd r)) \<Longrightarrow> distinct (concat (map snd (filter P r)))"
  by (induction r) auto

lemma pl_inv_delete:
  assumes "pl_inv s" shows "pl_inv (deleteFolder i s)"
proof -
  let ?ids = "collectDescendantFolderIds (folders s) i"
  have kept: "filter (\<lambda>f. fo_id f \<notin> set ?ids) (folders s) = folders_kept i (folders s)" by (simp add: folders_kept_def)
  have "acyclic (folder_edges (folders_kept i (folders s)))"
    by (rule acyclic_fewer_folders [of "folders s"]) (use assms in \<open>auto simp: pl_inv_def folders_kept_def\<close>)
  moreover have "distinct (map fo_id (folders_kept i (folders s)))"
    using assms by (intro folder_cascade.distinct_kept) (simp add: pl_inv_def)
  moreover have "list_all (\<lambda>f. js_trim (fo_id f) \<noteq> '''' \<and> sane_parent (fo_parentId f)) (folders_kept i (folders s))"
    using assms by (auto simp: pl_inv_def list_all_iff folders_kept_def)
  ultimately show ?thesis
    using assms
    by (simp add: deleteFolder_def Let_def pl_inv_def kept drop_parents_def sane_record_filter sibling_values
        distinct_concat_filter distinct_concat_fewer distinct_map_filter del: map_map)
qed

text \<open>Putting a key into one list of siblings, after it was taken out of all of them.\<close>

lemma set_insert_before [simp]: "set (insert_before b x xs) = insert x (set xs)"
  by (induction xs) auto

lemma distinct_insert_before [simp]: "distinct (insert_before b x xs) \<longleftrightarrow> distinct xs \<and> x \<notin> set xs"
  by (induction xs) auto

lemma siblings_rput:
  assumes "rwf r" "distinct (concat (map snd r))" "x \<notin> set (concat (map snd r))"
    and "distinct ys" "set ys = insert x (set (case rget r k of None \<Rightarrow> [] | Some xs \<Rightarrow> xs))"
  shows "distinct (concat (map snd (rput k ys r)))
    \<and> set (concat (map snd (rput k ys r))) = insert x (set (concat (map snd r)))"
  using assms
proof (induction r)
  case (Cons e r)
  obtain k' v where e: "e = (k', v)" by (cases e)
  show ?case
  proof (cases "k' = k")
    case True
    then show ?thesis using Cons.prems e by auto
  next
    case False
    have "set ys = insert x (set (case rget r k of None \<Rightarrow> [] | Some xs \<Rightarrow> xs))"
      using Cons.prems(5) e False by simp
    then have IH: "distinct (concat (map snd (rput k ys r)))"
        "set (concat (map snd (rput k ys r))) = insert x (set (concat (map snd r)))"
      using Cons.IH Cons.prems e by auto
    then show ?thesis using Cons.prems(2,3) e False by auto
  qed
qed auto

definition placed :: "string \<Rightarrow> string option \<Rightarrow> string list \<Rightarrow> string list" where
  "placed x b xs = (if truthy b then insert_before (the b) x xs else xs @ [x])"

lemma placed_set: "set (placed x b xs) = insert x (set xs)"
  by (simp add: placed_def)

lemma placed_distinct: "distinct xs \<Longrightarrow> x \<notin> set xs \<Longrightarrow> distinct (placed x b xs)"
  by (simp add: placed_def)

lemma pl_inv_reorder:
  assumes "pl_inv s" shows "pl_inv (reorderSibling x t b s)"
proof -
  define r where "r = map (\<lambda>(k, order). (k, filter (\<lambda>y. y \<noteq> x) order)) (siblingOrder s)"
  define xs where "xs = (case rget r (parentKey t) of None \<Rightarrow> [] | Some xs \<Rightarrow> xs)"
  have wf: "rwf r" "distinct (concat (map snd r))" "x \<notin> set (concat (map snd r))"
    unfolding r_def sibling_values
    by (use assms in \<open>simp add: pl_inv_def\<close>) (rule distinct_concat_filter, use assms in \<open>auto simp: pl_inv_def\<close>)
  have "distinct xs \<and> x \<notin> set xs"
  proof (cases "rget r (parentKey t)")
    case (Some ys)
    then have "(parentKey t, ys) \<in> set r" by (rule map_of_SomeD)
    from imageI [OF this, of snd] have ys: "ys \<in> set (map snd r)" by (simp only: set_map snd_conv)
    with wf(2) have "distinct ys" unfolding distinct_concat_iff by blast
    moreover from ys wf(3) have "x \<notin> set ys" unfolding set_concat by blast
    ultimately show ?thesis using Some by (simp add: xs_def)
  qed (simp add: xs_def)
  then have "distinct (placed x b xs)" by (simp add: placed_distinct)
  from siblings_rput [OF wf this, of "parentKey t"]
  have "distinct (concat (map snd (rput (parentKey t) (placed x b xs) r)))" by (simp add: placed_set xs_def)
  moreover have "reorderSibling x t b s = pl_notify (s\<lparr>siblingOrder := rput (parentKey t) (placed x b xs) r\<rparr>)"
    by (simp add: reorderSibling_def Let_def placed_def xs_def r_def)
  ultimately show ?thesis using assms wf(1) by (auto simp: pl_inv_def)
qed



lemma pl_inv_set_parent:
  "pl_inv s \<Longrightarrow> sane_parent p \<Longrightarrow> pl_inv (setCollectionParent i p s)"
  "pl_inv s \<Longrightarrow> sane_parent p \<Longrightarrow> pl_inv (setRequestParent i p s)"
  "pl_inv s \<Longrightarrow> sane_parent p \<Longrightarrow> pl_inv (setEntryParent i p s)"
  by (simp_all add: pl_inv_def setCollectionParent_def setRequestParent_def setEntryParent_def sane_record_rput)

lemma pl_inv_place:
  assumes "pl_inv s" "sane_parent (folder_of t)" "placeNode x t b s = Some (done, s')"
  shows "pl_inv s'"
  using assms
  by (auto simp: placeNode_def bind_eq_Some_conv pl_inv_reorder pl_inv_set_parent dest: pl_inv_move split: if_splits)

section \<open>Snapshots of sane layouts\<close>

lemma fold_rput_fresh:
  assumes "rwf (r @ map (\<lambda>(k, v). (k, g v)) kvs)"
  shows "fold (\<lambda>(k, v). rput k (g v)) kvs r = r @ map (\<lambda>(k, v). (k, g v)) kvs"
  using assms
proof (induction kvs arbitrary: r)
  case (Cons kv kvs)
  obtain k v where kv: "kv = (k, v)" by (cases kv)
  have "rput k (g v) r = r @ [(k, g v)]" using Cons.prems kv by (intro rput_new) auto
  with Cons.IH [of "r @ [(k, g v)]"] Cons.prems kv show ?case by simp
qed simp

lemma parents_roundtrip: "sane_record r \<Longrightarrow> asNullableStringRecord (Some (json_of_parents r)) = r"
proof -
  assume sane: "sane_record r"
  let ?j = "\<lambda>p. case p of None \<Rightarrow> JNull | Some x \<Rightarrow> JString x"
  have "fold (\<lambda>(k, v). case v of JNull \<Rightarrow> rput k None
      | JString t \<Rightarrow> rput k (if js_trim t = '''' then None else Some t) | _ \<Rightarrow> id) (map (\<lambda>(k, p). (k, ?j p)) xs) acc
    = fold (\<lambda>(k, p). rput k p) xs acc" if "list_all (\<lambda>(_, p). sane_parent p) xs" for xs and acc :: "string option jrec"
    using that by (induction xs arbitrary: acc) (auto simp: sane_parent_def split: option.splits)
  then have "asNullableStringRecord (Some (json_of_parents r)) = fold (\<lambda>(k, p). rput k p) r []"
    using sane by (simp add: asNullableStringRecord_def json_of_parents_def sane_record_def)
  also have "\<dots> = r" using fold_rput_fresh [of "[]" "\<lambda>p. p" r] sane by (simp add: sane_record_def)
  finally show ?thesis .
qed

lemma strings_roundtrip [simp]: "asStringArray (Some (json_of_strings xs)) = xs"
  by (induction xs) (simp_all add: asStringArray_def json_of_strings_def)

lemma siblings_roundtrip:
  "rwf r \<Longrightarrow> asSiblingOrder (Some (JObj (map (\<lambda>(k, order). (k, json_of_strings order)) r))) = r"
proof -
  assume wf: "rwf r"
  have "asStringArray (Some (JArr (map JString xs))) = xs" for xs
    using strings_roundtrip [of xs] by (simp add: json_of_strings_def)
  then have "fold (\<lambda>(k, v). case v of JArr xs \<Rightarrow> rput k (asStringArray (Some (JArr xs))) | _ \<Rightarrow> id)
      (map (\<lambda>(k, order). (k, json_of_strings order)) xs) acc = fold (\<lambda>(k, p). rput k p) xs acc" for xs acc
    by (induction xs arbitrary: acc) (auto simp: json_of_strings_def)
  then have "asSiblingOrder (Some (JObj (map (\<lambda>(k, order). (k, json_of_strings order)) r)))
      = fold (\<lambda>(k, p). rput k p) r []"
    unfolding asSiblingOrder_def option.case json.case .
  then show ?thesis using fold_rput_fresh [of "[]" "\<lambda>p. p" r] wf by simp
qed

lemma folders_roundtrip:
  "list_all (\<lambda>f. js_trim (fo_id f) \<noteq> '''' \<and> sane_parent (fo_parentId f)) fs
     \<Longrightarrow> parseProtocolFolders (Some (JArr (map json_of_folder fs))) = fs"
proof (induction fs)
  case (Cons f fs)
  have "parse_folder (json_of_folder f) = [f]"
    using Cons.prems by (cases f) (auto simp: parse_folder_def json_of_folder_def field_def sane_parent_def split: option.split)
  with Cons show ?case by (simp add: parseProtocolFolders_def)
qed (simp add: parseProtocolFolders_def)

lemma snapshot_roundtrip:
  assumes "pl_inv s"
  shows "parseProtocolHttpLayoutSnapshot jp (Some (serializeProtocolHttpLayout s)) = Some (s\<lparr>pl_syncs := 0\<rparr>)"
  using assms
  by (simp add: parseProtocolHttpLayoutSnapshot_def serializeProtocolHttpLayout_def Let_def field_def pl_inv_def
      folders_roundtrip parents_roundtrip siblings_roundtrip)

section \<open>Reachable layouts\<close>

datatype pl_op =
    AddFolder string "string option" string
  | RenameFolder string string
  | DeleteFolder string
  | MoveFolder string "string option"
  | SetCollectionParent string "string option"
  | SetRequestParent string "string option"
  | SetEntryParent string "string option"
  | ReorderSibling string drop_target "string option"
  | PlaceNode string drop_target "string option"
  | ToggleFolder string
  | ToggleCollection string
  | EnsureFolder string
  | EnsureCollection string

fun pl_apply :: "pl_op \<Rightarrow> pl_state \<Rightarrow> pl_state option" where
  "pl_apply (AddFolder i p n) s = Some (snd (addFolder i p n s))"
| "pl_apply (RenameFolder i n) s = Some (snd (renameFolder i n s))"
| "pl_apply (DeleteFolder i) s = Some (deleteFolder i s)"
| "pl_apply (MoveFolder i p) s = map_option snd (moveFolder i p s)"
| "pl_apply (SetCollectionParent i p) s = Some (setCollectionParent i p s)"
| "pl_apply (SetRequestParent i p) s = Some (setRequestParent i p s)"
| "pl_apply (SetEntryParent i p) s = Some (setEntryParent i p s)"
| "pl_apply (ReorderSibling x t b) s = Some (reorderSibling x t b s)"
| "pl_apply (PlaceNode x t b) s = map_option snd (placeNode x t b s)"
| "pl_apply (ToggleFolder i) s = Some (toggleFolderExpanded i s)"
| "pl_apply (ToggleCollection i) s = Some (toggleCollectionExpanded i s)"
| "pl_apply (EnsureFolder i) s = Some (ensureFolderExpanded i s)"
| "pl_apply (EnsureCollection i) s = Some (ensureCollectionExpanded i s)"

text \<open>
  What the callers respect: the identifier of a new folder is fresh, and a parent is a folder's
  identifier or \<open>null\<close>, never a blank string.
\<close>

fun pl_ok :: "pl_op \<Rightarrow> pl_state \<Rightarrow> bool" where
  "pl_ok (AddFolder i p n) s \<longleftrightarrow> js_trim i \<noteq> '''' \<and> i \<notin> fo_id ` set (folders s)
     \<and> Some i \<notin> fo_parentId ` set (folders s) \<and> sane_parent p \<and> p \<noteq> Some i"
| "pl_ok (MoveFolder i p) s \<longleftrightarrow> sane_parent p"
| "pl_ok (SetCollectionParent i p) s \<longleftrightarrow> sane_parent p"
| "pl_ok (SetRequestParent i p) s \<longleftrightarrow> sane_parent p"
| "pl_ok (SetEntryParent i p) s \<longleftrightarrow> sane_parent p"
| "pl_ok (PlaceNode x t b) s \<longleftrightarrow> sane_parent (folder_of t)"
| "pl_ok _ s \<longleftrightarrow> True"

inductive pl_reach :: "pl_state \<Rightarrow> bool" where
  PlInit: "pl_reach pl_init"
| PlStep: "pl_reach s \<Longrightarrow> pl_ok op s \<Longrightarrow> pl_apply op s = Some s' \<Longrightarrow> pl_reach s'"
| PlSync: "pl_reach s \<Longrightarrow> pl_reach r \<Longrightarrow>
     pl_reach (applyProtocolHttpLayout jp (Some (serializeProtocolHttpLayout r)) replace s)"

lemma pl_inv_init: "pl_inv pl_init"
  by (simp add: pl_inv_def pl_init_def sane_record_def desc_edges_def acyclic_def)

lemma pl_inv_flags: "pl_inv (s\<lparr>expandedFolderIds := a\<rparr>) = pl_inv s" "pl_inv (s\<lparr>expandedCollectionIds := a\<rparr>) = pl_inv s"
  "pl_inv (s\<lparr>pl_syncs := n\<rparr>) = pl_inv s"
  by (simp_all add: pl_inv_def)

lemma pl_inv_step: "pl_inv s \<Longrightarrow> pl_ok op s \<Longrightarrow> pl_apply op s = Some s' \<Longrightarrow> pl_inv s'"
  by (cases op) (auto simp: pl_inv_flags toggleFolderExpanded_def toggleCollectionExpanded_def ensureFolderExpanded_def
    ensureCollectionExpanded_def intro: pl_inv_add pl_inv_rename pl_inv_delete pl_inv_move pl_inv_set_parent
    pl_inv_reorder pl_inv_place)

lemma pl_reach_inv: "pl_reach s \<Longrightarrow> pl_inv s"
proof (induction rule: pl_reach.induct)
  case (PlSync s r jp replace)
  then show ?case by (simp add: applyProtocolHttpLayout_def snapshot_roundtrip pl_inv_flags)
qed (auto intro: pl_inv_init pl_inv_step)

lemma moveFolder_terminates: "pl_inv s \<Longrightarrow> \<exists>r. moveFolder i p s = Some r"
  by (simp add: moveFolder_eq)

lemma placeNode_terminates: "pl_inv s \<Longrightarrow> \<exists>r. placeNode x t b s = Some r"
  using moveFolder_terminates [of s "drop 7 x" "folder_of t"] by (auto simp: placeNode_def)

section \<open>Properties\<close>

text \<open>(C26) The folders stay a forest. In every layout that the operations and the snapshots of other devices
  can produce, folder identifiers are distinct, no folder is its own ancestor, and every node key stands in
  at most one list of siblings, once.\<close>

theorem folders_stay_a_forest:
  assumes "pl_reach s"
  shows "distinct (map fo_id (folders s)) \<and> acyclic (folder_edges (folders s))
    \<and> distinct (concat (map snd (siblingOrder s)))"
  using pl_reach_inv [OF assms] by (simp add: pl_inv_def)


text \<open>Deleting a folder removes it and everything below it, and leaves nothing that refers to a removed
  folder: no folder, collection, request or entry has a removed parent, and no removed folder is expanded.\<close>

theorem delete_folder_cascades:
  fixes s :: pl_state and i :: string
  assumes "pl_reach s"
  defines "s' \<equiv> deleteFolder i s" and "gone \<equiv> below fo_id fo_parentId (folders s) i"
  shows "folders s' = filter (\<lambda>f. fo_id f \<notin> gone) (folders s)
    \<and> (\<forall>f \<in> set (folders s'). \<not> (truthy (fo_parentId f) \<and> the (fo_parentId f) \<in> gone))
    \<and> (\<forall>p \<in> snd ` (set (collectionParents s') \<union> set (requestParents s') \<union> set (entryParents s')).
         \<not> (truthy p \<and> the p \<in> gone))
    \<and> set (expandedFolderIds s') \<inter> gone = {}"
proof -
  have gone: "set (collectDescendantFolderIds (folders s) i) = gone"
    by (simp add: collectDescendantFolderIds_def gone_def desc_close_below)
  have "folders s' = folders_kept i (folders s)" by (simp add: s'_def deleteFolder_def Let_def folders_kept_def)
  moreover have "f \<in> set (folders_kept i (folders s)) \<Longrightarrow> \<not> (truthy (fo_parentId f) \<and> the (fo_parentId f) \<in> gone)" for f
    using folder_cascade.kept_no_orphan [of f i "folders s"] by (auto simp: gone_def truthy_iff)
  ultimately show ?thesis
    by (auto simp: s'_def deleteFolder_def Let_def folders_kept_def gone drop_parents_def pl_notify_def)
qed

text \<open>A snapshot loses nothing: what one device uploads is what another has after it applied it, whatever
  \<open>JSON.parse\<close> does with strings.\<close>

theorem layout_snapshot_roundtrip:
  assumes "pl_reach r"
  shows "applyProtocolHttpLayout jp (Some (serializeProtocolHttpLayout r)) True s = r\<lparr>pl_syncs := pl_syncs s\<rparr>"
  using snapshot_roundtrip [OF pl_reach_inv [OF assms]] by (simp add: applyProtocolHttpLayout_def)

definition demo_layout :: pl_state where
  "demo_layout = snd (addFolder ''b'' (Some ''a'') ''B'' (snd (addFolder ''a'' None ''A'' pl_init)))"

lemma demo_layout_reach: "pl_reach demo_layout"
proof -
  have "pl_ok (AddFolder ''a'' None ''A'') pl_init" by code_simp
  from PlStep [OF PlInit this] have "pl_reach (snd (addFolder ''a'' None ''A'' pl_init))" by simp
  moreover have "pl_ok (AddFolder ''b'' (Some ''a'') ''B'') (snd (addFolder ''a'' None ''A'' pl_init))" by code_simp
  ultimately show ?thesis unfolding demo_layout_def by (rule PlStep) simp
qed

lemma demo_layout_folders: "map fo_id (folders demo_layout) = [''a'', ''b'']"
  by code_simp

theorem folders_stay_a_forest_witness: "acyclic (folder_edges (folders demo_layout))"
  using folders_stay_a_forest [OF demo_layout_reach] by blast


theorem delete_folder_cascades_witness: "folders (deleteFolder ''a'' demo_layout) = []"
proof -
  have "set (collectDescendantFolderIds (folders demo_layout) ''a'') = {''a'', ''b''}" by code_simp
  then have b: "below fo_id fo_parentId (folders demo_layout) ''a'' = {''a'', ''b''}"
    by (simp add: collectDescendantFolderIds_def desc_close_below)
  have "fo_id ` set (folders demo_layout) = {''a'', ''b''}"
    using arg_cong [OF demo_layout_folders, of set] by simp
  with delete_folder_cascades [OF demo_layout_reach, of "''a''"] show ?thesis unfolding b by (auto simp: filter_empty_conv)
qed

theorem layout_snapshot_roundtrip_witness:
  "folders (applyProtocolHttpLayout (\<lambda>_. None) (Some (serializeProtocolHttpLayout demo_layout)) True pl_init)
     = folders demo_layout"
  using layout_snapshot_roundtrip [OF demo_layout_reach, of "\<lambda>_. None" pl_init] by simp

text \<open>(C28) A snapshot is checked field by field but not for cycles: after one in which two folders are each
  other's parent has been applied, moving any folder into one of them never returns.\<close>

definition cyclic_snapshot :: json where
  "cyclic_snapshot = JObj [(''folders'', JArr (map json_of_folder
     [\<lparr>fo_id = ''a'', fo_name = ''A'', fo_parentId = Some ''b''\<rparr>,
      \<lparr>fo_id = ''b'', fo_name = ''B'', fo_parentId = Some ''a''\<rparr>,
      \<lparr>fo_id = ''c'', fo_name = ''C'', fo_parentId = None\<rparr>]))]"

lemma cyclic_snapshot_folders:
  "folders (applyProtocolHttpLayout jp (Some cyclic_snapshot) False pl_init) =
     [\<lparr>fo_id = ''a'', fo_name = ''A'', fo_parentId = Some ''b''\<rparr>,
      \<lparr>fo_id = ''b'', fo_name = ''B'', fo_parentId = Some ''a''\<rparr>,
      \<lparr>fo_id = ''c'', fo_name = ''C'', fo_parentId = None\<rparr>]"
  by (simp add: applyProtocolHttpLayout_def parseProtocolHttpLayoutSnapshot_def cyclic_snapshot_def field_def)
     code_simp

lemma climb_cycle:
  fixes fs :: "folder list"
  assumes "climb fs anc cur = Some y" "find_folder fs a = Some f" "find_folder fs b = Some g"
    "fo_parentId f = Some b" "fo_parentId g = Some a" "a \<noteq> ''''" "b \<noteq> ''''" "anc \<noteq> a" "anc \<noteq> b"
  shows "cur \<noteq> Some f \<and> cur \<noteq> Some g"
proof -
  let ?P = "\<lambda>fs' anc' cur' y'. fs' = fs \<and> anc' = anc \<longrightarrow> cur' \<noteq> Some f \<and> cur' \<noteq> Some g"
  have "?P fs anc cur y"
  proof (rule climb.raw_induct [where P = ?P, OF _ assms(1)])
    fix climb' and fs' :: "folder list" and anc' and cur' :: "folder option" and y' :: bool
    assume IH: "\<And>fs' anc' cur' y'. climb' fs' anc' cur' = Some y' \<Longrightarrow> ?P fs' anc' cur' y'"
      and step: "(case cur' of None \<Rightarrow> Some False
        | Some f \<Rightarrow> if \<not> truthy (fo_parentId f) then Some False
            else if fo_parentId f = Some anc' then Some True
            else climb' fs' anc' (find_folder fs' (the (fo_parentId f)))) = Some y'"
    show "?P fs' anc' cur' y'" using IH [of fs anc "Some f"] IH [of fs anc "Some g"] step assms(2-)
      by (auto split: option.splits if_splits)
  qed
  then show ?thesis by simp
qed

theorem cyclic_snapshot_hangs:
  "moveFolder ''c'' (Some ''a'') (applyProtocolHttpLayout jp (Some cyclic_snapshot) False pl_init) = None"
proof -
  let ?fs = "folders (applyProtocolHttpLayout jp (Some cyclic_snapshot) False pl_init)"
  have "climb ?fs ''c'' (find_folder ?fs ''a'') = None"
  proof (cases "climb ?fs ''c'' (find_folder ?fs ''a'')")
    case (Some y)
    have "find_folder ?fs ''a'' \<noteq> Some \<lparr>fo_id = ''a'', fo_name = ''A'', fo_parentId = Some ''b''\<rparr>"
      by (rule climb_cycle [OF Some, where a = "''a''" and b = "''b''"
            and g = "\<lparr>fo_id = ''b'', fo_name = ''B'', fo_parentId = Some ''a''\<rparr>", THEN conjunct1])
         (simp_all add: cyclic_snapshot_folders find_folder_def)
    then show ?thesis by (simp add: cyclic_snapshot_folders find_folder_def)
  qed
  then show ?thesis by (simp add: moveFolder_def isFolderDescendant_def)
qed

end
