(* ===== verification/ProtocolTree.thy ===== *)
theory ProtocolTree
  imports ProtocolStore
begin

text \<open>
  \<^bold>\<open>frontend/src/modules/protocol/protocolLayoutTree.ts\<close>: the protocol sidebar as a tree: what the
  layout store (\<open>pl_state\<close>) and the saved items show below a folder, in which order, what a deletion takes
  with it, and where a drop lands. \<open>String.prototype.localeCompare\<close> is the argument \<open>lc\<close>. The recursion
  that lists all keys does not end on a cycle of folders: it has fuel, and \<open>None\<close> stands for running out
  of it. Coordinates are integers; an HTTP method is ASCII.
\<close>

section \<open>Data\<close>

record http_collection =
  co_id :: string

record http_request =
  rq_id :: string
  rq_name :: string
  rq_collectionId :: "string option"
  rq_method :: string
  rq_url :: string

record lab_entry =
  le_id :: string
  le_name :: string

record http_history =
  hi_requestId :: "string option"
  hi_method :: string
  hi_url :: string

record saved_items =
  sv_collections :: "http_collection list"
  sv_requests :: "http_request list"
  sv_entries :: "lab_entry list"

datatype tree_entry = FolderEntry folder | RequestEntry http_request | LabEntry lab_entry

fun entry_key :: "tree_entry \<Rightarrow> string" where
  "entry_key (FolderEntry f) = ''folder:'' @ fo_id f"
| "entry_key (RequestEntry r) = ''request:'' @ rq_id r"
| "entry_key (LabEntry e) = ''entry:'' @ le_id e"

text \<open>\<open>record[id] ?? null\<close>.\<close>

definition parent_in :: "string option jrec \<Rightarrow> string \<Rightarrow> string option" where
  "parent_in r i = (case rget r i of None \<Rightarrow> None | Some p \<Rightarrow> p)"

section \<open>Children\<close>

fun entry_name :: "tree_entry \<Rightarrow> string" where
  "entry_name (FolderEntry f) = fo_name f"
| "entry_name (RequestEntry r) = rq_name r"
| "entry_name (LabEntry e) = le_name e"

fun kind_rank :: "tree_entry \<Rightarrow> int" where
  "kind_rank (FolderEntry _) = 0"
| "kind_rank (RequestEntry _) = 1"
| "kind_rank (LabEntry _) = 2"

definition compareEntries :: "(string \<Rightarrow> string \<Rightarrow> int) \<Rightarrow> tree_entry \<Rightarrow> tree_entry \<Rightarrow> int" where
  "compareEntries lc a b =
     (if kind_rank a \<noteq> kind_rank b then
        (if kind_rank a = 0 then - 1 else if kind_rank b = 0 then 1 else if kind_rank a = 1 then - 1 else 1)
      else lc (entry_name a) (entry_name b))"

definition candidates :: "saved_items \<Rightarrow> pl_state \<Rightarrow> string option \<Rightarrow> tree_entry list" where
  "candidates sv s parentId =
     (let collectionIdsInFolder = map co_id (filter (\<lambda>c. parent_in (collectionParents s) (co_id c) = parentId) (sv_collections sv))
      in map FolderEntry (filter (\<lambda>f. fo_parentId f = parentId) (folders s))
       @ map RequestEntry (filter (\<lambda>r. if truthy (rq_collectionId r)
             then the (rq_collectionId r) \<in> set collectionIdsInFolder
             else parent_in (requestParents s) (rq_id r) = parentId) (sv_requests sv))
       @ map LabEntry (filter (\<lambda>e. parent_in (entryParents s) (le_id e) = parentId) (sv_entries sv)))"

definition by_key :: "tree_entry list \<Rightarrow> tree_entry jrec" where
  "by_key es = fold (\<lambda>e. rput (entry_key e) e) es []"

definition in_order :: "string list \<Rightarrow> tree_entry jrec \<Rightarrow> tree_entry list" where
  "in_order orderedKeys merged =
     concat (map (\<lambda>k. case rget merged k of None \<Rightarrow> [] | Some e \<Rightarrow> [e]) orderedKeys)"

definition order_of :: "pl_state \<Rightarrow> string \<Rightarrow> string list" where
  "order_of s key = (case rget (siblingOrder s) key of None \<Rightarrow> [] | Some ks \<Rightarrow> ks)"

definition listProtocolTreeChildren ::
  "(string \<Rightarrow> string \<Rightarrow> int) \<Rightarrow> saved_items \<Rightarrow> pl_state \<Rightarrow> string option \<Rightarrow> tree_entry list" where
  "listProtocolTreeChildren lc sv s parentId =
     (let merged = by_key (candidates sv s parentId);
          result = in_order (order_of s (if truthy parentId then ''folder:'' @ the parentId else ''root'')) merged;
          used = map entry_key result
      in result @ sort_by (compareEntries lc) (filter (\<lambda>e. entry_key e \<notin> set used) (map snd merged)))"

primrec collectAllProtocolTreeKeys ::
  "nat \<Rightarrow> (string \<Rightarrow> string \<Rightarrow> int) \<Rightarrow> saved_items \<Rightarrow> pl_state \<Rightarrow> string option \<Rightarrow> string list option" where
  "collectAllProtocolTreeKeys 0 lc sv s parentId = None"
| "collectAllProtocolTreeKeys (Suc fuel) lc sv s parentId =
     foldr (\<lambda>e acc.
       (case e of
          FolderEntry f \<Rightarrow> Option.bind (collectAllProtocolTreeKeys fuel lc sv s (Some (fo_id f)))
            (\<lambda>below. map_option (\<lambda>rest. entry_key e # below @ rest) acc)
        | _ \<Rightarrow> map_option (\<lambda>rest. entry_key e # rest) acc))
       (listProtocolTreeChildren lc sv s parentId) (Some [])"

definition collectProtocolFolderCascadeTargets ::
  "string list \<Rightarrow> saved_items \<Rightarrow> pl_state \<Rightarrow> string list \<times> string list \<times> string list" where
  "collectProtocolFolderCascadeTargets folderIds sv s =
     (let ids = concat (map (collectDescendantFolderIds (folders s)) folderIds);
          inside = (\<lambda>p. p \<noteq> None \<and> the p \<in> set ids);
          collectionIds = map co_id (filter (\<lambda>c. inside (parent_in (collectionParents s) (co_id c))) (sv_collections sv));
          requestIds = map rq_id (filter (\<lambda>r. truthy (rq_collectionId r) \<and> the (rq_collectionId r) \<in> set collectionIds
             \<or> inside (parent_in (requestParents s) (rq_id r))) (sv_requests sv));
          entryIds = map le_id (filter (\<lambda>e. inside (parent_in (entryParents s) (le_id e))) (sv_entries sv))
      in (requestIds, entryIds, collectionIds))"

definition listCollectionRequests :: "saved_items \<Rightarrow> pl_state \<Rightarrow> string \<Rightarrow> tree_entry list" where
  "listCollectionRequests sv s collectionId =
     (let matched = map RequestEntry (filter (\<lambda>r. rq_collectionId r = Some collectionId) (sv_requests sv));
          result = in_order (order_of s (''collection:'' @ collectionId)) (by_key matched)
      in result @ filter (\<lambda>e. entry_key e \<notin> set (map entry_key result)) matched)"

definition target_of :: "string option \<Rightarrow> drop_target" where
  "target_of p = (if truthy p then ToFolder (the p) else ToRoot)"

fun resolveEntryParent :: "pl_state \<Rightarrow> tree_entry \<Rightarrow> drop_target" where
  "resolveEntryParent s (FolderEntry f) = target_of (fo_parentId f)"
| "resolveEntryParent s (LabEntry e) = target_of (parent_in (entryParents s) (le_id e))"
| "resolveEntryParent s (RequestEntry r) =
     (if truthy (rq_collectionId r) then target_of (parent_in (collectionParents s) (the (rq_collectionId r)))
      else target_of (parent_in (requestParents s) (rq_id r)))"

definition listSiblingKeys ::
  "(string \<Rightarrow> string \<Rightarrow> int) \<Rightarrow> saved_items \<Rightarrow> pl_state \<Rightarrow> drop_target \<Rightarrow> string list" where
  "listSiblingKeys lc sv s target =
     (case target of
        ToCollection i \<Rightarrow> map entry_key (listCollectionRequests sv s i)
      | ToRoot \<Rightarrow> map entry_key (listProtocolTreeChildren lc sv s None)
      | ToFolder i \<Rightarrow> map entry_key (listProtocolTreeChildren lc sv s (Some i)))"

datatype drop_position = Before | After | Inside

definition resolveDropPosition :: "int \<Rightarrow> int \<Rightarrow> int \<Rightarrow> tree_entry \<Rightarrow> drop_position" where
  "resolveDropPosition clientY rowTop height e =
     (let y = clientY - rowTop in
      case e of
        FolderEntry _ \<Rightarrow> if 4 * y < height then Before else if 3 * height < 4 * y then After else Inside
      | _ \<Rightarrow> if 2 * y < height then Before else After)"

fun beforeKeyForAfterPosition :: "string \<Rightarrow> string list \<Rightarrow> string option" where
  "beforeKeyForAfterPosition targetKey [] = None"
| "beforeKeyForAfterPosition targetKey (k # ks) =
     (if k = targetKey then (case ks of [] \<Rightarrow> None | n # _ \<Rightarrow> Some n) else beforeKeyForAfterPosition targetKey ks)"

definition upper_char :: "char \<Rightarrow> char" where
  "upper_char c = (if 97 \<le> (of_char c :: nat) \<and> (of_char c :: nat) \<le> 122 then char_of ((of_char c :: nat) - 32) else c)"

definition ascii_upper :: "string \<Rightarrow> string" where
  "ascii_upper = map upper_char"

definition filterHistoryForRequest :: "http_history list \<Rightarrow> http_request option \<Rightarrow> http_history list" where
  "filterHistoryForRequest history request =
     (case request of
        None \<Rightarrow> []
      | Some r \<Rightarrow> filter (\<lambda>h. if truthy (hi_requestId h) then hi_requestId h = Some (rq_id r)
            else ascii_upper (hi_method h) = ascii_upper (rq_method r) \<and> hi_url h = rq_url r) history)"

definition is_sse :: "string \<Rightarrow> bool" where
  "is_sse m \<longleftrightarrow> m = ''SSE'' \<or> starts_with m ''SSE/'' \<or> starts_with m ''SSE:''"

definition methodColor :: "string \<Rightarrow> string" where
  "methodColor meth =
     (let m = ascii_upper meth in
      if is_sse m then ''var(--info, #2196f3)''
      else if m = ''GET'' then ''var(--success, #4caf50)''
      else if m = ''POST'' then ''var(--warning, #ff9800)''
      else if m = ''PUT'' then ''var(--info, #2196f3)''
      else if m = ''PATCH'' then ''var(--info, #9c27b0)''
      else if m = ''DELETE'' then ''var(--danger, #f44336)''
      else if m = ''WEBSOCKET'' then ''var(--accent)''
      else ''var(--text-dim)'')"

definition formatMethodBadge :: "string \<Rightarrow> string" where
  "formatMethodBadge meth =
     (let m = ascii_upper meth in
      if is_sse m then ''SSE'' else if m = ''DELETE'' then ''DEL'' else if m = ''WEBSOCKET'' then ''WS'' else m)"

definition protocolColor :: "string \<Rightarrow> string" where
  "protocolColor p =
     (case map_of [(''http'', ''var(--info, #2196f3)''), (''mqtt'', ''var(--success, #4caf50)''),
        (''pubsub'', ''var(--warning, #ff9800)''), (''serial'', ''var(--accent)''), (''grpc'', ''var(--info, #9c27b0)''),
        (''sniffer'', ''var(--danger, #f44336)''), (''modbus'', ''var(--meta)'')] p of
        None \<Rightarrow> ''var(--meta)'' | Some c \<Rightarrow> c)"

definition formatProtocolBadge :: "string \<Rightarrow> string" where
  "formatProtocolBadge p =
     (case map_of [(''http'', ''HTTP''), (''mqtt'', ''MQTT''), (''pubsub'', ''PS''), (''serial'', ''SER''),
        (''grpc'', ''RPC''), (''sniffer'', ''CAP''), (''modbus'', ''MB'')] p of
        None \<Rightarrow> take 3 (ascii_upper p) | Some c \<Rightarrow> c)"

definition resolveTreeEntryByKey :: "saved_items \<Rightarrow> pl_state \<Rightarrow> string \<Rightarrow> tree_entry option" where
  "resolveTreeEntryByKey sv s key =
     (if starts_with key ''folder:'' then map_option FolderEntry (find_folder (folders s) (drop 7 key))
      else if starts_with key ''request:'' then
        map_option RequestEntry (find (\<lambda>r. rq_id r = drop 8 key) (sv_requests sv))
      else if starts_with key ''entry:'' then
        map_option LabEntry (find (\<lambda>e. le_id e = drop 6 key) (sv_entries sv))
      else None)"

section \<open>Lemmas\<close>

lemma rkeys_by_key: "rwf r \<Longrightarrow> rwf (fold (\<lambda>e. rput (entry_key e) e) es r)
    \<and> set (rkeys (fold (\<lambda>e. rput (entry_key e) e) es r)) = set (rkeys r) \<union> set (map entry_key es)"
proof (induction es arbitrary: r)
  case (Cons e es)
  have "set (rkeys (rput (entry_key e) e r)) = insert (entry_key e) (set (rkeys r))" by (induction r) auto
  moreover have "rwf (rput (entry_key e) e r)" using Cons.prems by (rule rwf_rput)
  ultimately show ?case using Cons.IH [of "rput (entry_key e) e r"] by auto
qed simp

text \<open>A map from keys to the entries with these keys.\<close>

definition keyed :: "tree_entry jrec \<Rightarrow> bool" where
  "keyed m \<longleftrightarrow> rwf m \<and> (\<forall>(k, e) \<in> set m. k = entry_key e)"

lemma pairs_keyed_rput: "keyed m \<Longrightarrow> keyed (rput (entry_key e) e m)"
proof -
  assume m: "keyed m"
  have "\<forall>(k, e) \<in> set m. k = entry_key e \<Longrightarrow> \<forall>(k, e) \<in> set (rput (entry_key e) e m). k = entry_key e"
    by (induction m) auto
  with m show ?thesis by (auto simp: keyed_def)
qed

lemma keyed_by_key: "keyed (by_key es)"
proof -
  have step: "keyed m \<Longrightarrow> keyed (fold (\<lambda>e. rput (entry_key e) e) es m)" for m
    by (induction es arbitrary: m) (simp_all add: pairs_keyed_rput)
  show ?thesis unfolding by_key_def by (rule step) (simp add: keyed_def)
qed

lemma keys_by_key: "set (rkeys (by_key es)) = set (map entry_key es)"
  using rkeys_by_key [of "[]" es] by (simp add: by_key_def)

lemma keyed_values: "keyed m \<Longrightarrow> map entry_key (map snd m) = rkeys m"
  by (auto simp: keyed_def)

lemma in_order_keys:
  assumes "keyed m"
  shows "map entry_key (in_order ks m) = filter (\<lambda>k. k \<in> set (rkeys m)) ks"
proof (induction ks)
  case (Cons k ks)
  show ?case
  proof (cases "rget m k")
    case None
    then have "k \<notin> set (rkeys m)" by (simp add: map_of_eq_None_iff)
    with None Cons show ?thesis by (simp add: in_order_def)
  next
    case (Some e)
    then have ke: "(k, e) \<in> set m" by (rule map_of_SomeD)
    with assms have "k = entry_key e" by (auto simp: keyed_def)
    moreover from ke have "k \<in> set (rkeys m)" by force
    ultimately show ?thesis using Some Cons by (simp add: in_order_def)
  qed
qed (simp add: in_order_def)

text \<open>A listing in a stored order, followed by the rest, shows every key once.\<close>

lemma ordered_listing:
  assumes "keyed m" "distinct ks"
    and "mset rest = mset (filter (\<lambda>e. entry_key e \<notin> set (map entry_key (in_order ks m))) (map snd m))"
  shows "distinct (map entry_key (in_order ks m @ rest))"
    and "set (map entry_key (in_order ks m @ rest)) = set (rkeys m)"
proof -
  let ?first = "filter (\<lambda>k. k \<in> set (rkeys m)) ks"
  have "mset (map entry_key rest) = image_mset entry_key
      (mset (filter (\<lambda>e. entry_key e \<notin> set (map entry_key (in_order ks m))) (map snd m)))"
    using assms(3) by simp
  also have "\<dots> = mset (map entry_key (filter (\<lambda>e. entry_key e \<notin> set (map entry_key (in_order ks m))) (map snd m)))"
    by (simp only: mset_map)
  also have "map entry_key (filter (\<lambda>e. entry_key e \<notin> set (map entry_key (in_order ks m))) (map snd m))
      = filter (\<lambda>k. k \<notin> set ?first) (rkeys m)"
    unfolding in_order_keys [OF assms(1)] keyed_values [OF assms(1), symmetric] by (simp add: filter_map comp_def)
  finally have rest: "mset (map entry_key rest) = mset (filter (\<lambda>k. k \<notin> set ?first) (rkeys m))" .
  from mset_eq_setD [OF this] have "set (map entry_key rest) = set (rkeys m) - set ks" by auto
  moreover have "distinct (map entry_key rest)"
    using rest assms(1) by (metis distinct_filter keyed_def mset_eq_imp_distinct_iff)
  ultimately show "distinct (map entry_key (in_order ks m @ rest))"
      "set (map entry_key (in_order ks m @ rest)) = set (rkeys m)"
    using assms(2) by (auto simp: in_order_keys [OF assms(1)] simp del: map_map)
qed

lemma order_of_distinct: "pl_inv s \<Longrightarrow> distinct (order_of s key)"
proof -
  assume inv: "pl_inv s"
  show ?thesis
  proof (cases "rget (siblingOrder s) key")
    case (Some ks)
    then have "ks \<in> set (map snd (siblingOrder s))" by (force dest: map_of_SomeD)
    moreover have "distinct (concat (map snd (siblingOrder s)))" using inv by (simp add: pl_inv_def)
    ultimately have "distinct ks" unfolding distinct_concat_iff by blast
    with Some show ?thesis by (simp add: order_of_def)
  qed (simp add: order_of_def)
qed

lemma children_keys:
  assumes "pl_inv s"
  shows "distinct (map entry_key (listProtocolTreeChildren lc sv s p))"
    and "set (map entry_key (listProtocolTreeChildren lc sv s p)) = set (map entry_key (candidates sv s p))"
proof -
  let ?m = "by_key (candidates sv s p)"
  let ?ks = "order_of s (if truthy p then ''folder:'' @ the p else ''root'')"
  let ?rest = "sort_by (compareEntries lc) (filter (\<lambda>e. entry_key e \<notin> set (map entry_key (in_order ?ks ?m))) (map snd ?m))"
  have "mset ?rest = mset (filter (\<lambda>e. entry_key e \<notin> set (map entry_key (in_order ?ks ?m))) (map snd ?m))"
    by (rule mset_sort_by)
  note l = ordered_listing [OF keyed_by_key order_of_distinct [OF assms] this]
  show "distinct (map entry_key (listProtocolTreeChildren lc sv s p))"
    using l(1) unfolding listProtocolTreeChildren_def Let_def .
  show "set (map entry_key (listProtocolTreeChildren lc sv s p)) = set (map entry_key (candidates sv s p))"
    using l(2) unfolding listProtocolTreeChildren_def Let_def keys_by_key .
qed

lemma children_in: "set (listProtocolTreeChildren lc sv s p) \<subseteq> set (candidates sv s p)"
proof -
  have vals: "snd ` set (fold (\<lambda>e. rput (entry_key e) e) es m) \<subseteq> snd ` set m \<union> set es" for es m
  proof (induction es arbitrary: m)
    case (Cons e es)
    have "snd ` set (rput (entry_key e) e m) \<subseteq> insert e (snd ` set m)" by (induction m) auto
    with Cons [of "rput (entry_key e) e m"] show ?case by (simp, blast)
  qed simp
  from this [of "candidates sv s p" "[]"] have m: "snd ` set (by_key (candidates sv s p)) \<subseteq> set (candidates sv s p)"
    by (simp add: by_key_def)
  have "e \<in> snd ` set m" if "rget m k = Some e" for k e and m :: "tree_entry jrec"
    using map_of_SomeD [OF that] by force
  then have "set (in_order ks m) \<subseteq> snd ` set m" for ks m
    by (auto simp: in_order_def split: option.splits)
  with m show ?thesis by (fastforce simp: listProtocolTreeChildren_def Let_def)
qed

text \<open>More fuel than folders below a parent is enough to list everything below it.\<close>

lemma collect_fold:
  assumes "\<And>f. FolderEntry f \<in> set es \<Longrightarrow> \<exists>ks. g (Some (fo_id f)) = Some ks"
  shows "\<exists>ks. foldr (\<lambda>e acc.
       (case e of
          FolderEntry f \<Rightarrow> Option.bind (g (Some (fo_id f))) (\<lambda>below. map_option (\<lambda>rest. entry_key e # below @ rest) acc)
        | _ \<Rightarrow> map_option (\<lambda>rest. entry_key e # rest) acc)) es (Some []) = Some (ks :: string list)"
  using assms
proof (induction es)
  case (Cons e es)
  then show ?case by (cases e) fastforce+
qed simp

lemma collect_enough:
  assumes "pl_inv s" "card ((folder_edges (folders s))\<^sup>+ `` {p}) < n"
  shows "\<exists>ks. collectAllProtocolTreeKeys n lc sv s (Some p) = Some ks"
  using assms(2)
proof (induction n arbitrary: p)
  case (Suc n)
  let ?E = "folder_edges (folders s)"
  have fin: "finite (?E\<^sup>+ `` {q})" for q by (simp add: finite_folder_edges finite_trancl)
  have ac: "acyclic ?E" using assms(1) by (simp add: pl_inv_def)
  have "\<exists>ks. collectAllProtocolTreeKeys n lc sv s (Some (fo_id f)) = Some ks"
    if "FolderEntry f \<in> set (listProtocolTreeChildren lc sv s (Some p))" for f
  proof (rule Suc.IH)
    from that children_in have "FolderEntry f \<in> set (candidates sv s (Some p))" by blast
    then have f: "f \<in> set (folders s)" "fo_parentId f = Some p" by (auto simp: candidates_def Let_def)
    moreover have "sane_parent (fo_parentId f)" using assms(1) f(1) by (auto simp: pl_inv_def list_all_iff)
    ultimately have edge: "(p, fo_id f) \<in> ?E" by (auto simp: desc_edges_def sane_parent_def)
    then have "?E\<^sup>+ `` {fo_id f} \<subset> ?E\<^sup>+ `` {p}"
      using ac by (auto simp: acyclic_def intro: trancl_into_trancl2)
    then have "card (?E\<^sup>+ `` {fo_id f}) < card (?E\<^sup>+ `` {p})" by (rule psubset_card_mono [OF fin])
    with Suc.prems show "card (?E\<^sup>+ `` {fo_id f}) < n" by simp
  qed
  from collect_fold [of _ "collectAllProtocolTreeKeys n lc sv s", OF this] show ?case by simp
qed simp

section \<open>Properties\<close>

text \<open>Below every folder, and at the top, the tree shows each folder, request and protocol entry that
  belongs there exactly once, whatever order the user gave the siblings and however names are compared.\<close>

theorem children_are_listed_once:
  assumes "pl_reach s"
  shows "distinct (map entry_key (listProtocolTreeChildren lc sv s p))
    \<and> set (map entry_key (listProtocolTreeChildren lc sv s p)) = set (map entry_key (candidates sv s p))"
  using children_keys [OF pl_reach_inv [OF assms]] by blast

text \<open>Listing all keys of the tree (select all) ends: with as much fuel as there are folders, plus one,
  the recursion returns, from the top and from every folder.\<close>

theorem select_all_terminates:
  assumes "pl_reach s" "length (folders s) < n"
  shows "\<exists>ks. collectAllProtocolTreeKeys n lc sv s p = Some ks"
proof -
  let ?E = "folder_edges (folders s)"
  note inv = pl_reach_inv [OF assms(1)]
  have sub: "?E\<^sup>+ `` {q} \<subseteq> fo_id ` set (folders s)" for q
    using trancl_subset_Sigma [of ?E "UNIV"] by (auto simp: desc_edges_def elim: tranclE)
  have le: "card (?E\<^sup>+ `` {q}) \<le> length (folders s)" for q
    using card_mono [OF _ sub] card_image_le [of "set (folders s)" fo_id] card_length [of "folders s"]
    by (meson List.finite_set finite_imageI le_trans)
  show ?thesis
  proof (cases p)
    case (Some q)
    then show ?thesis using collect_enough [OF inv] le assms(2) by (meson le_less_trans)
  next
    case None
    from assms(2) obtain m where m: "n = Suc m" "length (folders s) \<le> m" by (cases n) auto
    have "\<exists>ks. collectAllProtocolTreeKeys m lc sv s (Some (fo_id f)) = Some ks"
      if "FolderEntry f \<in> set (listProtocolTreeChildren lc sv s None)" for f
    proof (rule collect_enough [OF inv])
      from that children_in have "FolderEntry f \<in> set (candidates sv s None)" by blast
      then have "fo_id f \<in> fo_id ` set (folders s)" by (auto simp: candidates_def Let_def)
      moreover have "fo_id f \<notin> ?E\<^sup>+ `` {fo_id f}" using inv by (auto simp: pl_inv_def acyclic_def)
      ultimately have "?E\<^sup>+ `` {fo_id f} \<subset> fo_id ` set (folders s)" using sub by blast
      then have "card (?E\<^sup>+ `` {fo_id f}) < card (fo_id ` set (folders s))" by (intro psubset_card_mono) auto
      also have "\<dots> \<le> length (folders s)"
        using card_image_le [of "set (folders s)" fo_id] card_length [of "folders s"] by (meson List.finite_set le_trans)
      finally show "card (?E\<^sup>+ `` {fo_id f}) < m" using m by simp
    qed
    from collect_fold [of _ "collectAllProtocolTreeKeys m lc sv s", OF this] show ?thesis using m None by simp
  qed
qed

definition demo_items :: saved_items where
  "demo_items = \<lparr> sv_collections = [], sv_requests = [\<lparr>rq_id = ''r'', rq_name = ''R'', rq_collectionId = None,
     rq_method = ''GET'', rq_url = ''u''\<rparr>], sv_entries = [] \<rparr>"

theorem children_are_listed_once_witness:
  "set (map entry_key (listProtocolTreeChildren (\<lambda>_ _. 0) demo_items demo_layout None)) = {''folder:a'', ''request:r''}"
proof -
  have "set (map entry_key (candidates demo_items demo_layout None)) = {''folder:a'', ''request:r''}" by code_simp
  with children_are_listed_once [OF demo_layout_reach, of "\<lambda>_ _. 0" demo_items None] show ?thesis by simp
qed

theorem select_all_terminates_witness:
  "\<exists>ks. collectAllProtocolTreeKeys 3 (\<lambda>_ _. 0) demo_items demo_layout None = Some ks"
proof -
  have "length (folders demo_layout) < 3" using arg_cong [OF demo_layout_folders, of length] by simp
  from select_all_terminates [OF demo_layout_reach this] show ?thesis .
qed

end
