(* ===== verification/SqlLex.thy ===== *)
theory SqlLex
  imports Prelude
begin

text \<open>
  \<^bold>\<open>frontend/src/modules/database/sqlIntel/sqlLex.ts\<close>: the scanner that finds where SQL statements end
  (at semicolons outside strings and comments, and at a line that starts a new statement), the range of the
  statement at the cursor, and the splitting of a script into statements. Positions are indices into the
  text; \<open>at_pos\<close> is \<open>undefined\<close> (\<open>None\<close>) outside it.
\<close>

section \<open>Characters and flags\<close>

definition at_pos :: "string \<Rightarrow> nat \<Rightarrow> char option" where
  "at_pos sql i = (if i < length sql then Some (sql ! i) else None)"

record lex_flags =
  inSingle :: bool
  inDouble :: bool
  inBacktick :: bool
  lineComment :: bool
  blockComment :: bool

definition createLexFlags :: lex_flags where
  "createLexFlags = \<lparr> inSingle = False, inDouble = False, inBacktick = False, lineComment = False, blockComment = False \<rparr>"

definition inLiteral :: "lex_flags \<Rightarrow> bool" where
  "inLiteral f \<longleftrightarrow> inSingle f \<or> inDouble f \<or> inBacktick f \<or> lineComment f \<or> blockComment f"

definition backslash :: char where
  "backslash = CHR 0x5C"

definition newline :: char where
  "newline = CHR 0x0A"

definition isEscaped :: "string \<Rightarrow> nat \<Rightarrow> bool" where
  "isEscaped sql i = odd (length (takeWhile (\<lambda>c. c = backslash) (rev (take i sql))))"

definition stepLex :: "string \<Rightarrow> nat \<Rightarrow> lex_flags \<Rightarrow> nat \<times> lex_flags" where
  "stepLex sql i f =
     (let ch = at_pos sql i; nxt = at_pos sql (Suc i); out = \<not> inSingle f \<and> \<not> inDouble f \<and> \<not> inBacktick f in
      if lineComment f then (if ch = Some newline then (i, f\<lparr>lineComment := False\<rparr>) else (i, f))
      else if blockComment f then
        (if ch = Some CHR ''*'' \<and> nxt = Some CHR ''/'' then (Suc i, f\<lparr>blockComment := False\<rparr>) else (i, f))
      else if out \<and> ch = Some CHR ''-'' \<and> nxt = Some CHR ''-'' then (Suc i, f\<lparr>lineComment := True\<rparr>)
      else if out \<and> ch = Some CHR ''/'' \<and> nxt = Some CHR ''*'' then (Suc i, f\<lparr>blockComment := True\<rparr>)
      else if ch = Some CHR 0x27 \<and> \<not> inDouble f \<and> \<not> inBacktick f \<and> \<not> isEscaped sql i
        then (i, f\<lparr>inSingle := \<not> inSingle f\<rparr>)
      else if ch = Some CHR 0x22 \<and> \<not> inSingle f \<and> \<not> inBacktick f \<and> \<not> isEscaped sql i
        then (i, f\<lparr>inDouble := \<not> inDouble f\<rparr>)
      else if ch = Some CHR 0x60 \<and> \<not> inSingle f \<and> \<not> inDouble f then (i, f\<lparr>inBacktick := \<not> inBacktick f\<rparr>)
      else (i, f))"

definition isSemicolonDelimiter :: "string \<Rightarrow> nat \<Rightarrow> lex_flags \<Rightarrow> bool" where
  "isSemicolonDelimiter sql i f \<longleftrightarrow> at_pos sql i = Some CHR '';'' \<and> \<not> inSingle f \<and> \<not> inDouble f
     \<and> \<not> inBacktick f \<and> \<not> lineComment f \<and> \<not> blockComment f"

section \<open>Words and lines\<close>

definition STATEMENT_STARTS :: "string list" where
  "STATEMENT_STARTS = [''SELECT'', ''INSERT'', ''UPDATE'', ''DELETE'', ''WITH'', ''CREATE'', ''ALTER'', ''DROP'',
     ''TRUNCATE'', ''REPLACE'', ''MERGE'', ''CALL'', ''EXEC'', ''EXECUTE'', ''SHOW'', ''USE'', ''BEGIN'',
     ''COMMIT'', ''ROLLBACK'', ''GRANT'', ''REVOKE'', ''EXPLAIN'', ''DESC'', ''DESCRIBE'', ''DECLARE'', ''SET'', ''START'']"

definition SELECT_JOINERS :: "string list" where
  "SELECT_JOINERS = [''UNION'', ''INTERSECT'', ''EXCEPT'', ''ALL'', ''DISTINCT'']"

definition code :: "char \<Rightarrow> nat" where
  "code c = of_char c"

definition word_start :: "char \<Rightarrow> bool" where
  "word_start c \<longleftrightarrow> 65 \<le> code c \<and> code c \<le> 90 \<or> 97 \<le> code c \<and> code c \<le> 122 \<or> c = CHR ''_''"

definition word_char :: "char \<Rightarrow> bool" where
  "word_char c \<longleftrightarrow> word_start c \<or> 48 \<le> code c \<and> code c \<le> 57"

definition upper :: "string \<Rightarrow> string" where
  "upper = map (\<lambda>c. if 97 \<le> code c \<and> code c \<le> 122 then char_of (code c - 32) else c)"

definition slice :: "string \<Rightarrow> nat \<Rightarrow> nat \<Rightarrow> string" where
  "slice s from_pos to_pos = take (to_pos - from_pos) (drop from_pos s)"

definition wordAt :: "string \<Rightarrow> nat \<Rightarrow> (string \<times> nat) option" where
  "wordAt sql i =
     (case at_pos sql i of
        None \<Rightarrow> None
      | Some ch \<Rightarrow>
          if \<not> word_start ch then None
          else (let endp = Suc i + length (takeWhile word_char (drop (Suc i) sql))
                in Some (upper (slice sql i endp), endp)))"

fun index_sub :: "string \<Rightarrow> string \<Rightarrow> nat option" where
  "index_sub sub [] = (if sub = [] then Some 0 else None)"
| "index_sub sub (c # cs) = (if starts_with (c # cs) sub then Some 0 else map_option Suc (index_sub sub cs))"

definition indexOf :: "string \<Rightarrow> string \<Rightarrow> nat \<Rightarrow> nat option" where
  "indexOf sql sub j = map_option (\<lambda>k. j + k) (index_sub sub (drop j sql))"

definition blank_char :: "char option \<Rightarrow> bool" where
  "blank_char c \<longleftrightarrow> c = Some CHR '' '' \<or> c = Some CHR 0x09 \<or> c = Some CHR 0x0D \<or> c = Some newline"

lemma indexOf_ge: "indexOf sql sub j = Some k \<Longrightarrow> j \<le> k"
  by (auto simp: indexOf_def)

text \<open>The loop of \<open>peekLineStatementStart\<close>: past blanks and comments; \<open>None\<close> in an unfinished comment.\<close>

function skip_blank :: "string \<Rightarrow> nat \<Rightarrow> nat option" where
  "skip_blank sql j =
     (if length sql \<le> j then Some j
      else if blank_char (at_pos sql j) then skip_blank sql (Suc j)
      else if at_pos sql j = Some CHR ''-'' \<and> at_pos sql (Suc j) = Some CHR ''-'' then
        (case indexOf sql [newline] j of None \<Rightarrow> None | Some nl \<Rightarrow> skip_blank sql (Suc nl))
      else if at_pos sql j = Some CHR ''/'' \<and> at_pos sql (Suc j) = Some CHR ''*'' then
        (case indexOf sql ''*/'' (j + 2) of None \<Rightarrow> None | Some e \<Rightarrow> skip_blank sql (e + 2))
      else Some j)"
  by pat_completeness auto
termination
  by (relation "measure (\<lambda>(sql, j). length sql - j)") (auto dest: indexOf_ge)

declare skip_blank.simps [simp del]

definition peekLineStatementStart :: "string \<Rightarrow> nat \<Rightarrow> (nat \<times> string) option" where
  "peekLineStatementStart sql newlineIndex =
     (case skip_blank sql (Suc newlineIndex) of
        None \<Rightarrow> None
      | Some j \<Rightarrow>
          (case wordAt sql j of
             None \<Rightarrow> None
           | Some (word, _) \<Rightarrow> if word \<in> set STATEMENT_STARTS then Some (j, word) else None))"

definition keepsStatement :: "string \<Rightarrow> string \<Rightarrow> string \<Rightarrow> bool \<Rightarrow> bool \<Rightarrow> bool" where
  "keepsStatement head keyword prevWord insertAwaitingQuery withAwaitingMain =
     (if head = '''' then True
      else if keyword \<in> {''SELECT'', ''WITH''} \<and> prevWord \<in> set SELECT_JOINERS then True
      else if withAwaitingMain
          \<and> keyword \<in> {''SELECT'', ''WITH'', ''UPDATE'', ''DELETE'', ''INSERT'', ''REPLACE''} then True
      else if insertAwaitingQuery \<and> keyword \<in> {''SELECT'', ''WITH'', ''VALUES'', ''SET''} then True
      else if keyword = ''SET'' \<and> head \<in> {''UPDATE'', ''INSERT'', ''REPLACE''} then True
      else False)"

section \<open>Cuts\<close>

record statement_cut =
  cut_at :: nat
  cut_semicolon :: bool

record scan =
  sc_flags :: lex_flags
  sc_depth :: nat
  sc_head :: string
  sc_prevWord :: string
  sc_insertAwaitingQuery :: bool
  sc_withAwaitingMain :: bool
  sc_valuesDepth :: "nat option"
  sc_wordUntil :: int
  sc_cuts :: "statement_cut list"

definition scan_init :: scan where
  "scan_init = \<lparr> sc_flags = createLexFlags, sc_depth = 0, sc_head = '''', sc_prevWord = '''',
     sc_insertAwaitingQuery = False, sc_withAwaitingMain = False, sc_valuesDepth = None, sc_wordUntil = - 1, sc_cuts = [] \<rparr>"

definition resetHead :: "scan \<Rightarrow> scan" where
  "resetHead st = st\<lparr>sc_head := '''', sc_prevWord := '''', sc_insertAwaitingQuery := False,
     sc_withAwaitingMain := False, sc_valuesDepth := None\<rparr>"

definition noteWord :: "string \<Rightarrow> scan \<Rightarrow> scan" where
  "noteWord word st =
     (let st1 =
        (if sc_head st = '''' then
           st\<lparr>sc_head := word,
              sc_insertAwaitingQuery := (word = ''INSERT'' \<or> word = ''REPLACE'' \<or> sc_insertAwaitingQuery st),
              sc_withAwaitingMain := (word = ''WITH'' \<or> sc_withAwaitingMain st)\<rparr>
         else if sc_depth st = 0 then
           (let main = sc_withAwaitingMain st
                  \<and> word \<in> {''SELECT'', ''UPDATE'', ''DELETE'', ''INSERT'', ''REPLACE''};
                st = (if main then st\<lparr>sc_withAwaitingMain := False,
                        sc_insertAwaitingQuery := (word = ''INSERT'' \<or> word = ''REPLACE'' \<or> sc_insertAwaitingQuery st)\<rparr>
                      else st);
                st = (if word = ''SELECT'' \<and> sc_insertAwaitingQuery st then st\<lparr>sc_insertAwaitingQuery := False\<rparr> else st)
            in if word = ''VALUES'' \<and> sc_insertAwaitingQuery st then st\<lparr>sc_valuesDepth := Some (sc_depth st)\<rparr> else st)
         else st)
      in st1\<lparr>sc_prevWord := word\<rparr>)"

definition add_cut :: "nat \<Rightarrow> bool \<Rightarrow> int \<Rightarrow> scan \<Rightarrow> scan" where
  "add_cut pos semicolon wordUntil st =
     (resetHead st)\<lparr>sc_cuts := sc_cuts st @ [\<lparr>cut_at = pos, cut_semicolon = semicolon\<rparr>], sc_wordUntil := wordUntil\<rparr>"

text \<open>The body of the scanning loop, before the lexer steps on.\<close>

definition visit :: "string \<Rightarrow> nat \<Rightarrow> scan \<Rightarrow> scan" where
  "visit sql i st =
     (if isSemicolonDelimiter sql i (sc_flags st) then add_cut i True (int i + 1) st
      else if \<not> inLiteral (sc_flags st) \<and> at_pos sql i = Some newline \<and> sc_depth st = 0 then
        (case peekLineStatementStart sql i of
           None \<Rightarrow> st
         | Some (pos, word) \<Rightarrow>
             if keepsStatement (sc_head st) word (sc_prevWord st) (sc_insertAwaitingQuery st) (sc_withAwaitingMain st)
             then st else add_cut pos False (int pos) st)
      else if \<not> inLiteral (sc_flags st) \<and> sc_wordUntil st \<le> int i then
        (if at_pos sql i = Some CHR ''('' then st\<lparr>sc_depth := Suc (sc_depth st)\<rparr>
         else if at_pos sql i = Some CHR '')'' \<and> 0 < sc_depth st then
           (let st = st\<lparr>sc_depth := sc_depth st - 1\<rparr>
            in if sc_valuesDepth st = Some (sc_depth st)
               then st\<lparr>sc_insertAwaitingQuery := False, sc_valuesDepth := None\<rparr> else st)
         else (case wordAt sql i of
                 None \<Rightarrow> st
               | Some (word, endp) \<Rightarrow> (noteWord word st)\<lparr>sc_wordUntil := int endp\<rparr>))
      else st)"

lemma stepLex_ge: "stepLex sql i f = (j, f') \<Longrightarrow> i \<le> j"
  by (auto simp: stepLex_def Let_def split: if_splits)

function scan_from :: "string \<Rightarrow> nat \<Rightarrow> scan \<Rightarrow> scan" where
  "scan_from sql i st =
     (if length sql \<le> i then st
      else (let st' = visit sql i st; (j, f) = stepLex sql i (sc_flags st')
            in scan_from sql (Suc j) (st'\<lparr>sc_flags := f\<rparr>)))"
  by pat_completeness auto
termination
  by (relation "measure (\<lambda>(sql, i, st). length sql - i)") (auto dest!: stepLex_ge [OF sym])

declare scan_from.simps [simp del]

definition findStatementCuts :: "string \<Rightarrow> statement_cut list" where
  "findStatementCuts sql = sc_cuts (scan_from sql 0 scan_init)"

section \<open>Ranges\<close>

text \<open>The delimiting semicolons from a position on, before a bound.\<close>

function semicolons :: "string \<Rightarrow> nat \<Rightarrow> nat \<Rightarrow> lex_flags \<Rightarrow> nat list" where
  "semicolons sql bound i f =
     (if bound \<le> i then []
      else (let (j, f') = stepLex sql i f; rest = semicolons sql bound (Suc j) f'
            in if isSemicolonDelimiter sql i f then i # rest else rest))"
  by pat_completeness auto
termination
  by (relation "measure (\<lambda>(sql, bound, i, f). bound - i)") (auto dest!: stepLex_ge [OF sym])

declare semicolons.simps [simp del]

function only_blank :: "string \<Rightarrow> nat \<Rightarrow> nat \<Rightarrow> lex_flags \<Rightarrow> bool" where
  "only_blank sql bound i f =
     (if bound \<le> i then True
      else if \<not> blank_char (at_pos sql i) then False
      else (let (j, f') = stepLex sql i f in only_blank sql bound (Suc j) f'))"
  by pat_completeness auto
termination
  by (relation "measure (\<lambda>(sql, bound, i, f). bound - i)") (auto dest!: stepLex_ge [OF sym])

declare only_blank.simps [simp del]

definition last_of :: "nat list \<Rightarrow> nat option" where
  "last_of xs = (if xs = [] then None else Some (last xs))"

definition findStatementRangeIfAfterTerminator :: "string \<Rightarrow> nat \<Rightarrow> (nat \<times> nat) option" where
  "findStatementRangeIfAfterTerminator sql pos =
     (if pos = 0 then None
      else case last_of (semicolons sql pos 0 createLexFlags) of
        None \<Rightarrow> None
      | Some lastSemi \<Rightarrow>
          if \<not> only_blank sql pos (Suc lastSemi) createLexFlags then None
          else if pos < length sql \<and> \<not> blank_char (at_pos sql pos) then None
          else (let start = (case last_of (semicolons sql lastSemi 0 createLexFlags) of None \<Rightarrow> 0 | Some k \<Rightarrow> Suc k)
                in Some (start, lastSemi)))"

definition cut_next :: "statement_cut \<Rightarrow> nat" where
  "cut_next c = (if cut_semicolon c then Suc (cut_at c) else cut_at c)"

fun range_in :: "nat \<Rightarrow> nat \<Rightarrow> nat \<Rightarrow> statement_cut list \<Rightarrow> nat \<times> nat" where
  "range_in len pos from_pos [] = (from_pos, len)"
| "range_in len pos from_pos (c # cs) =
     (if pos < cut_next c then (from_pos, cut_at c) else range_in len pos (cut_next c) cs)"

definition findStatementRangeAtOffset :: "string \<Rightarrow> int \<Rightarrow> nat \<times> nat" where
  "findStatementRangeAtOffset sql offset =
     (let pos = nat (max 0 (min offset (int (length sql)))) in
      case findStatementRangeIfAfterTerminator sql pos of
        Some r \<Rightarrow> r
      | None \<Rightarrow> range_in (length sql) pos 0 (findStatementCuts sql))"

section \<open>Splitting\<close>

record sql_part =
  sp_sql :: string
  sp_from :: nat
  sp_to :: nat
  sp_semicolon :: bool

fun crlf_to_lf :: "string \<Rightarrow> string" where
  "crlf_to_lf [] = []"
| "crlf_to_lf [c] = [c]"
| "crlf_to_lf (c # d # cs) = (if c = CHR 0x0D \<and> d = newline then newline # crlf_to_lf cs else c # crlf_to_lf (d # cs))"

definition part_of :: "string \<Rightarrow> nat \<Rightarrow> nat \<Rightarrow> bool \<Rightarrow> sql_part list" where
  "part_of normalized start endp semicolon =
     (let raw = slice normalized start endp; trimmed = js_trim raw; lead = length raw - length (trim_start raw)
      in if trimmed = '''' then []
         else [\<lparr> sp_sql = trimmed, sp_from = start + lead, sp_to = start + lead + length trimmed, sp_semicolon = semicolon \<rparr>])"

fun split_at :: "string \<Rightarrow> nat \<Rightarrow> statement_cut list \<Rightarrow> sql_part list" where
  "split_at normalized start [] = part_of normalized start (length normalized) False"
| "split_at normalized start (c # cs) =
     part_of normalized start (cut_at c) (cut_semicolon c) @ split_at normalized (cut_next c) cs"

definition splitSqlStatements :: "string \<Rightarrow> sql_part list" where
  "splitSqlStatements text = (let normalized = crlf_to_lf text in split_at normalized 0 (findStatementCuts normalized))"

section \<open>Where the scanner cuts\<close>

lemma noteWord_frames [simp]: "sc_flags (noteWord w st) = sc_flags st" "sc_cuts (noteWord w st) = sc_cuts st"
  by (simp_all add: noteWord_def Let_def)

lemma add_cut_frames [simp]:
  "sc_flags (add_cut p b w st) = sc_flags st" "sc_head (add_cut p b w st) = ''''" "sc_wordUntil (add_cut p b w st) = w"
  "sc_cuts (add_cut p b w st) = sc_cuts st @ [\<lparr>cut_at = p, cut_semicolon = b\<rparr>]"
  by (simp_all add: add_cut_def resetHead_def)

lemma visit_flags [simp]: "sc_flags (visit sql i st) = sc_flags st"
  by (simp add: visit_def Let_def split: option.split)

lemma visit_cuts:
  "sc_cuts (visit sql i st) =
     (if isSemicolonDelimiter sql i (sc_flags st) then sc_cuts st @ [\<lparr>cut_at = i, cut_semicolon = True\<rparr>]
      else if \<not> inLiteral (sc_flags st) \<and> at_pos sql i = Some newline \<and> sc_depth st = 0 then
        (case peekLineStatementStart sql i of None \<Rightarrow> sc_cuts st
         | Some (pos, word) \<Rightarrow>
             if keepsStatement (sc_head st) word (sc_prevWord st) (sc_insertAwaitingQuery st) (sc_withAwaitingMain st)
             then sc_cuts st else sc_cuts st @ [\<lparr>cut_at = pos, cut_semicolon = False\<rparr>])
      else sc_cuts st)"
  by (simp add: visit_def Let_def split: option.split)

text \<open>The cuts at semicolons do not depend on what the scanner makes of the words.\<close>

lemma scan_semicolons:
  "map cut_at (filter cut_semicolon (sc_cuts (scan_from sql i st)))
     = map cut_at (filter cut_semicolon (sc_cuts st)) @ semicolons sql (length sql) i (sc_flags st)"
proof (induction sql i st rule: scan_from.induct)
  case (1 sql i st)
  show ?case
  proof (cases "length sql \<le> i")
    case True
    then show ?thesis by (simp add: scan_from.simps semicolons.simps)
  next
    case False
    obtain j f where step: "stepLex sql i (sc_flags st) = (j, f)" by (meson surj_pair)
    note IH = 1 [OF False refl, of "(j, f)" j f]
    have "map cut_at (filter cut_semicolon (sc_cuts (visit sql i st)))
        = map cut_at (filter cut_semicolon (sc_cuts st)) @ (if isSemicolonDelimiter sql i (sc_flags st) then [i] else [])"
      by (auto simp: visit_cuts split: option.split)
    with IH step False show ?thesis
      by (subst scan_from.simps, subst semicolons.simps) (simp add: Let_def)
  qed
qed

subsection \<open>Blanks and comments in front of a statement\<close>

text \<open>The lexer runs from a position to a later one without meeting a delimiter.\<close>

inductive blank_to :: "string \<Rightarrow> nat \<Rightarrow> nat \<Rightarrow> lex_flags \<Rightarrow> bool" for sql goal where
  Arrived: "\<not> inLiteral f \<Longrightarrow> blank_to sql goal goal f"
| Going: "i < goal \<Longrightarrow> \<not> isSemicolonDelimiter sql i f \<Longrightarrow> stepLex sql i f = (j, f') \<Longrightarrow>
    blank_to sql goal (Suc j) f' \<Longrightarrow> blank_to sql goal i f"

inductive_cases blank_toE: "blank_to sql goal i f"

lemma blank_to_le: "blank_to sql goal i f \<Longrightarrow> i \<le> goal"
  by (induction rule: blank_to.induct) auto

lemma index_sub_first:
  "index_sub sub xs = Some k \<Longrightarrow> starts_with (drop k xs) sub \<and> (\<forall>m<k. \<not> starts_with (drop m xs) sub)"
proof (induction xs arbitrary: k)
  case (Cons c cs)
  show ?case
  proof (cases "starts_with (c # cs) sub")
    case False
    with Cons.prems obtain m where m: "index_sub sub cs = Some m" "k = Suc m" by auto
    with Cons.IH [OF m(1)] False show ?thesis by (auto simp: less_Suc_eq_0_disj)
  qed (use Cons.prems in simp)
qed (auto simp: starts_with_def split: if_splits)

lemma starts_at:
  "starts_with (drop k sql) [c] \<longleftrightarrow> at_pos sql k = Some c"
  "starts_with (drop k sql) [c, d] \<longleftrightarrow> at_pos sql k = Some c \<and> at_pos sql (Suc k) = Some d"
proof -
  have at: "at_pos sql k = (case drop k sql of [] \<Rightarrow> None | x # _ \<Rightarrow> Some x)" for k
    by (cases "k < length sql") (simp_all add: at_pos_def Cons_nth_drop_Suc [symmetric])
  have tl: "drop (Suc k) sql = tl (drop k sql)" by (simp add: drop_Suc tl_drop)
  show "starts_with (drop k sql) [c] \<longleftrightarrow> at_pos sql k = Some c"
    unfolding at by (cases "drop k sql") (auto simp: starts_with_def)
  show "starts_with (drop k sql) [c, d] \<longleftrightarrow> at_pos sql k = Some c \<and> at_pos sql (Suc k) = Some d"
    unfolding at tl by (cases "drop k sql"; cases "tl (drop k sql)") (auto simp: starts_with_def)
qed

lemma no_literal: "\<not> inLiteral f \<longleftrightarrow> f = createLexFlags"
  by (cases f) (auto simp: inLiteral_def createLexFlags_def)

lemma step_in_comment:
  "stepLex sql i (createLexFlags\<lparr>lineComment := True\<rparr>)
     = (i, if at_pos sql i = Some newline then createLexFlags else createLexFlags\<lparr>lineComment := True\<rparr>)"
  "stepLex sql i (createLexFlags\<lparr>blockComment := True\<rparr>)
     = (if at_pos sql i = Some CHR ''*'' \<and> at_pos sql (Suc i) = Some CHR ''/'' then (Suc i, createLexFlags)
        else (i, createLexFlags\<lparr>blockComment := True\<rparr>))"
  "\<not> isSemicolonDelimiter sql i (createLexFlags\<lparr>lineComment := True\<rparr>)"
  "\<not> isSemicolonDelimiter sql i (createLexFlags\<lparr>blockComment := True\<rparr>)"
  by (simp_all add: stepLex_def createLexFlags_def isSemicolonDelimiter_def)

lemma line_run:
  assumes "at_pos sql nl = Some newline" "blank_to sql goal (Suc nl) createLexFlags"
    and "i \<le> nl" "\<forall>m. i \<le> m \<and> m < nl \<longrightarrow> at_pos sql m \<noteq> Some newline"
  shows "blank_to sql goal i (createLexFlags\<lparr>lineComment := True\<rparr>)"
  using assms(3,4)
proof (induction "nl - i" arbitrary: i)
  case 0
  then have i: "i = nl" by simp
  show ?case
    by (rule Going [where j = nl and f' = createLexFlags])
       (use assms(1,2) blank_to_le [OF assms(2)] i in \<open>simp_all add: step_in_comment\<close>)
next
  case (Suc n)
  then have more: "blank_to sql goal (Suc i) (createLexFlags\<lparr>lineComment := True\<rparr>)" by simp
  from Suc.hyps(2) have i: "i < nl" by simp
  show ?case
    by (rule Going [where j = i and f' = "createLexFlags\<lparr>lineComment := True\<rparr>"])
       (use more blank_to_le [OF more] Suc.prems i in \<open>simp_all add: step_in_comment\<close>)
qed

lemma block_run:
  assumes "at_pos sql e = Some CHR ''*''" "at_pos sql (Suc e) = Some CHR ''/''" "blank_to sql goal (e + 2) createLexFlags"
    and "i \<le> e" "\<forall>m. i \<le> m \<and> m < e \<longrightarrow> \<not> (at_pos sql m = Some CHR ''*'' \<and> at_pos sql (Suc m) = Some CHR ''/'')"
  shows "blank_to sql goal i (createLexFlags\<lparr>blockComment := True\<rparr>)"
  using assms(4,5)
proof (induction "e - i" arbitrary: i)
  case 0
  then have i: "i = e" by simp
  show ?case
    by (rule Going [where j = "Suc e" and f' = createLexFlags])
       (use assms(1-3) blank_to_le [OF assms(3)] i in \<open>simp_all add: step_in_comment\<close>)
next
  case (Suc n)
  then have more: "blank_to sql goal (Suc i) (createLexFlags\<lparr>blockComment := True\<rparr>)" by simp
  from Suc.hyps(2) have i: "i < e" by simp
  show ?case
    by (rule Going [where j = i and f' = "createLexFlags\<lparr>blockComment := True\<rparr>"])
       (use more blank_to_le [OF more] Suc.prems i in \<open>simp_all add: step_in_comment\<close>)
qed

lemma indexOf_char:
  assumes "indexOf sql [c] j = Some k"
  shows "at_pos sql k = Some c" "j \<le> k" "\<forall>m. j \<le> m \<and> m < k \<longrightarrow> at_pos sql m \<noteq> Some c"
proof -
  from assms obtain n where n: "index_sub [c] (drop j sql) = Some n" "k = j + n" by (auto simp: indexOf_def)
  note first = index_sub_first [OF n(1), unfolded drop_drop starts_at]
  show "at_pos sql k = Some c" "j \<le> k" using first n(2) by (simp_all add: add.commute)
  show "\<forall>m. j \<le> m \<and> m < k \<longrightarrow> at_pos sql m \<noteq> Some c"
  proof (intro allI impI)
    fix m assume m: "j \<le> m \<and> m < k"
    then have "m - j < n" "m - j + j = m" using n(2) by auto
    with first show "at_pos sql m \<noteq> Some c" by metis
  qed
qed

lemma indexOf_pair:
  assumes "indexOf sql [c, d] j = Some k"
  shows "at_pos sql k = Some c" "at_pos sql (Suc k) = Some d" "j \<le> k"
    "\<forall>m. j \<le> m \<and> m < k \<longrightarrow> \<not> (at_pos sql m = Some c \<and> at_pos sql (Suc m) = Some d)"
proof -
  from assms obtain n where n: "index_sub [c, d] (drop j sql) = Some n" "k = j + n" by (auto simp: indexOf_def)
  note first = index_sub_first [OF n(1), unfolded drop_drop starts_at]
  show "at_pos sql k = Some c" "at_pos sql (Suc k) = Some d" "j \<le> k" using first n(2) by (simp_all add: add.commute)
  show "\<forall>m. j \<le> m \<and> m < k \<longrightarrow> \<not> (at_pos sql m = Some c \<and> at_pos sql (Suc m) = Some d)"
  proof (intro allI impI)
    fix m assume m: "j \<le> m \<and> m < k"
    then have "m - j < n" "m - j + j = m" using n(2) by auto
    with first show "\<not> (at_pos sql m = Some c \<and> at_pos sql (Suc m) = Some d)" by metis
  qed
qed

lemma step_outside:
  "blank_char (at_pos sql j) \<Longrightarrow> stepLex sql j createLexFlags = (j, createLexFlags)"
  "at_pos sql j = Some CHR ''-'' \<Longrightarrow> at_pos sql (Suc j) = Some CHR ''-'' \<Longrightarrow>
     stepLex sql j createLexFlags = (Suc j, createLexFlags\<lparr>lineComment := True\<rparr>)"
  "at_pos sql j = Some CHR ''/'' \<Longrightarrow> at_pos sql (Suc j) = Some CHR ''*'' \<Longrightarrow>
     stepLex sql j createLexFlags = (Suc j, createLexFlags\<lparr>blockComment := True\<rparr>)"
  by (auto simp: stepLex_def createLexFlags_def blank_char_def newline_def)

lemma no_semicolon:
  "blank_char (at_pos sql j) \<Longrightarrow> \<not> isSemicolonDelimiter sql j f"
  "at_pos sql j = Some CHR ''-'' \<Longrightarrow> \<not> isSemicolonDelimiter sql j f"
  "at_pos sql j = Some CHR ''/'' \<Longrightarrow> \<not> isSemicolonDelimiter sql j f"
  by (auto simp: isSemicolonDelimiter_def blank_char_def newline_def)

lemma skip_blank_run: "skip_blank sql j = Some g \<Longrightarrow> j \<le> length sql \<Longrightarrow> blank_to sql g j createLexFlags"
proof (induction sql j rule: skip_blank.induct)
  case (1 sql j)
  note IHs = 1(1-3) and skip = 1(4)
  have out: "\<not> inLiteral createLexFlags" by (simp add: no_literal)
  consider "length sql \<le> j"
    | (blank) "j < length sql" "blank_char (at_pos sql j)"
    | (line) "j < length sql" "\<not> blank_char (at_pos sql j)" "at_pos sql j = Some CHR ''-''" "at_pos sql (Suc j) = Some CHR ''-''"
    | (block) "j < length sql" "\<not> blank_char (at_pos sql j)" "at_pos sql j = Some CHR ''/''" "at_pos sql (Suc j) = Some CHR ''*''"
    | (word) "j < length sql" "g = j"
    using skip by (subst (asm) skip_blank.simps) (auto split: if_splits)
  then show ?case
  proof cases
    case 1
    then have "g = j" using skip by (subst (asm) skip_blank.simps) simp
    then show ?thesis using out by (simp add: Arrived)
  next
    case blank
    from skip blank have "skip_blank sql (Suc j) = Some g" by (subst (asm) skip_blank.simps) simp
    with IHs(1) blank have run: "blank_to sql g (Suc j) createLexFlags" by simp
    show ?thesis
      by (rule Going [where j = j and f' = createLexFlags])
         (use blank_to_le [OF run] run blank in \<open>simp_all add: step_outside no_semicolon\<close>)
  next
    case line
    from skip line obtain nl where nl: "indexOf sql [newline] j = Some nl" "skip_blank sql (Suc nl) = Some g"
      by (subst (asm) skip_blank.simps) (auto split: option.splits)
    note i = indexOf_char [OF nl(1)]
    have "nl < length sql" using i(1) by (simp add: at_pos_def split: if_splits)
    with IHs(2) [OF _ _ _ nl(1)] line nl(2) have run: "blank_to sql g (Suc nl) createLexFlags" by simp
    have "nl \<noteq> j" "nl \<noteq> Suc j" using i(1) line by (auto simp: newline_def)
    with i(2) have "j + 2 \<le> nl" by simp
    with line_run [OF i(1) run, of "Suc (Suc j)"] i(3)
    have "blank_to sql g (Suc (Suc j)) (createLexFlags\<lparr>lineComment := True\<rparr>)" by simp
    then show ?thesis
      by (intro Going [OF _ no_semicolon(2) step_outside(2)]) (use line blank_to_le in \<open>force+\<close>)
  next
    case block
    from skip block obtain e where e: "indexOf sql ''*/'' (j + 2) = Some e" "skip_blank sql (e + 2) = Some g"
      by (subst (asm) skip_blank.simps) (auto split: option.splits)
    note i = indexOf_pair [OF e(1)]
    have "Suc e < length sql" using i(2) by (simp add: at_pos_def split: if_splits)
    with IHs(3) [OF _ _ _ _ e(1)] block e(2) have run: "blank_to sql g (e + 2) createLexFlags" by simp
    from block_run [OF i(1,2) run, of "Suc (Suc j)"] i(3,4)
    have "blank_to sql g (Suc (Suc j)) (createLexFlags\<lparr>blockComment := True\<rparr>)" by simp
    then show ?thesis
      by (intro Going [OF _ no_semicolon(3) step_outside(3)]) (use block blank_to_le in \<open>force+\<close>)
  next
    case word
    then show ?thesis using out by (simp add: Arrived)
  qed
qed

subsection \<open>The cuts are in order\<close>

definition ordered_cuts :: "nat \<Rightarrow> statement_cut list \<Rightarrow> bool" where
  "ordered_cuts len cs \<longleftrightarrow> sorted_wrt (\<lambda>c d. cut_next c \<le> cut_at d) cs \<and> list_all (\<lambda>c. cut_at c < len) cs"

definition cut_start :: "statement_cut list \<Rightarrow> nat" where
  "cut_start cs = (if cs = [] then 0 else cut_next (last cs))"

lemma cut_at_le: "cut_at c \<le> cut_next c"
  by (simp add: cut_next_def)

lemma ordered_snoc:
  assumes "ordered_cuts len cs" "cut_start cs \<le> cut_at c" "cut_at c < len"
  shows "ordered_cuts len (cs @ [c])"
proof -
  have "cut_next d \<le> cut_at c" if "d \<in> set cs" for d
  proof -
    from that obtain ds e where cs: "cs = ds @ [e]" by (metis empty_iff list.set(1) rev_exhaust)
    with assms(2) have "cut_next e \<le> cut_at c" by (simp add: cut_start_def)
    moreover have "d \<in> set ds \<Longrightarrow> cut_next d \<le> cut_at e" using assms(1) cs by (simp add: ordered_cuts_def sorted_wrt_append)
    ultimately show ?thesis using that cs cut_at_le [of e] by auto
  qed
  with assms show ?thesis by (simp add: ordered_cuts_def sorted_wrt_append)
qed

lemma cut_start_snoc [simp]: "cut_start (cs @ [c]) = cut_next c"
  by (simp add: cut_start_def)

text \<open>
  Between iterations the scanner is past the start of the current statement, or, after it has cut at a line
  ahead of it, on its way there through blanks and comments.
\<close>

definition scan_inv :: "string \<Rightarrow> nat \<Rightarrow> scan \<Rightarrow> bool" where
  "scan_inv sql i st \<longleftrightarrow> ordered_cuts (length sql) (sc_cuts st)
     \<and> (cut_start (sc_cuts st) \<le> i
        \<or> i < cut_start (sc_cuts st) \<and> sc_head st = '''' \<and> sc_wordUntil st = int (cut_start (sc_cuts st))
          \<and> blank_to sql (cut_start (sc_cuts st)) i (sc_flags st))"

lemma wordAt_in: "wordAt sql j = Some (w, e) \<Longrightarrow> j < length sql"
  by (auto simp: wordAt_def at_pos_def split: if_splits)

lemma peek_run:
  assumes "peekLineStatementStart sql i = Some (g, w)" "i < length sql"
  shows "blank_to sql g (Suc i) createLexFlags" "g < length sql" "i < g"
proof -
  from assms(1) obtain e where g: "skip_blank sql (Suc i) = Some g" "wordAt sql g = Some (w, e)"
    by (auto simp: peekLineStatementStart_def split: option.splits if_splits)
  show "blank_to sql g (Suc i) createLexFlags" by (rule skip_blank_run [OF g(1)]) (use assms(2) in simp)
  from blank_to_le [OF this] show "i < g" by simp
  show "g < length sql" by (rule wordAt_in) (rule g(2))
qed

lemma visit_skipping:
  assumes "\<not> isSemicolonDelimiter sql i (sc_flags st)" "sc_head st = ''''" "int i < sc_wordUntil st"
  shows "visit sql i st = st"
  using assms by (auto simp: visit_def keepsStatement_def split: option.split)

lemma visit_cases:
  obtains (same) "sc_cuts (visit sql i st) = sc_cuts st"
    | (semi) "sc_cuts (visit sql i st) = sc_cuts st @ [\<lparr>cut_at = i, cut_semicolon = True\<rparr>]"
    | (line) g w where "\<not> inLiteral (sc_flags st)" "at_pos sql i = Some newline"
        "peekLineStatementStart sql i = Some (g, w)" "visit sql i st = add_cut g False (int g) st"
proof (cases "isSemicolonDelimiter sql i (sc_flags st)")
  case True
  show thesis by (rule semi) (simp add: visit_cuts True)
next
  case False
  note no_semi = this
  show thesis
  proof (cases "\<not> inLiteral (sc_flags st) \<and> at_pos sql i = Some newline \<and> sc_depth st = 0")
    case True
    show thesis
    proof (cases "peekLineStatementStart sql i")
      case None
      show thesis by (rule same) (simp add: visit_cuts no_semi None)
    next
      case (Some gw)
      obtain g w where gw: "gw = (g, w)" by (cases gw)
      show thesis
      proof (cases "keepsStatement (sc_head st) w (sc_prevWord st) (sc_insertAwaitingQuery st) (sc_withAwaitingMain st)")
        case keeps: True
        show thesis by (rule same) (simp add: visit_cuts no_semi Some gw keeps)
      next
        case cuts: False
        show thesis by (rule line [of g w]) (use True in \<open>simp_all add: visit_def no_semi Some gw cuts\<close>)
      qed
    qed
  next
    case False
    show thesis by (rule same) (simp add: visit_cuts no_semi False)
  qed
qed

lemma scan_inv_step:
  assumes "scan_inv sql i st" "i < length sql" "stepLex sql i (sc_flags st) = (j, f)"
  shows "scan_inv sql (Suc j) ((visit sql i st)\<lparr>sc_flags := f\<rparr>)"
proof -
  let ?cs = "sc_cuts st" and ?f = "sc_flags st"
  have j: "i \<le> j" by (rule stepLex_ge) (rule assms(3))
  have ord: "ordered_cuts (length sql) ?cs" using assms(1) by (simp add: scan_inv_def)
  consider (past) "cut_start ?cs \<le> i" | (ahead) "i < cut_start ?cs" "sc_head st = ''''"
      "sc_wordUntil st = int (cut_start ?cs)" "blank_to sql (cut_start ?cs) i ?f"
    using assms(1) by (auto simp: scan_inv_def)
  then show ?thesis
  proof cases
    case ahead
    from ahead(4) ahead(1) have "\<not> isSemicolonDelimiter sql i ?f" "blank_to sql (cut_start ?cs) (Suc j) f"
      using assms(3) by (auto elim: blank_toE)
    with ahead visit_skipping [of sql i st] have "visit sql i st = st" "blank_to sql (cut_start ?cs) (Suc j) f" by simp_all
    with ord ahead show ?thesis by (auto simp: scan_inv_def dest: blank_to_le)
  next
    case past
    show ?thesis
    proof (cases rule: visit_cases [of sql i st])
      case same
      with past ord j show ?thesis by (simp add: scan_inv_def)
    next
      case semi
      have "ordered_cuts (length sql) (?cs @ [\<lparr>cut_at = i, cut_semicolon = True\<rparr>])"
        using ord past assms(2) by (intro ordered_snoc) simp_all
      with semi j show ?thesis by (simp add: scan_inv_def cut_next_def)
    next
      case (line g w)
      note run = peek_run [OF line(3) assms(2)]
      have "?f = createLexFlags" using line(1) by (simp add: no_literal)
      then have "stepLex sql i ?f = (i, createLexFlags)" using line(2) by (simp add: step_outside blank_char_def)
      with assms(3) have jf: "j = i" "f = createLexFlags" by simp_all
      have "ordered_cuts (length sql) (?cs @ [\<lparr>cut_at = g, cut_semicolon = False\<rparr>])"
        using ord past run by (intro ordered_snoc) simp_all
      with line(4) run jf show ?thesis by (auto simp: scan_inv_def cut_next_def)
    qed
  qed
qed

lemma scan_ordered: "scan_inv sql i st \<Longrightarrow> ordered_cuts (length sql) (sc_cuts (scan_from sql i st))"
proof (induction sql i st rule: scan_from.induct)
  case (1 sql i st)
  show ?case
  proof (cases "length sql \<le> i")
    case True
    with 1(2) show ?thesis by (simp add: scan_from.simps scan_inv_def)
  next
    case False
    obtain j f where step: "stepLex sql i (sc_flags st) = (j, f)" by (meson surj_pair)
    have "scan_inv sql (Suc j) ((visit sql i st)\<lparr>sc_flags := f\<rparr>)"
      by (rule scan_inv_step [OF 1(2) _ step]) (use False in simp)
    with 1(1) [OF False refl, of "(j, f)" j f] step False show ?thesis
      by (subst scan_from.simps) (simp add: Let_def)
  qed
qed

lemma cuts_ordered: "ordered_cuts (length sql) (findStatementCuts sql)"
  unfolding findStatementCuts_def
  by (rule scan_ordered) (simp add: scan_inv_def scan_init_def ordered_cuts_def cut_start_def)

section \<open>Pieces\<close>

lemma trim_split:
  "\<exists>tail. raw = takeWhile js_ws raw @ js_trim raw @ tail \<and> list_all js_ws tail"
proof -
  let ?t = "dropWhile js_ws raw"
  have "rev (takeWhile js_ws (rev ?t) @ dropWhile js_ws (rev ?t)) = ?t" by simp
  then have "?t = js_trim raw @ rev (takeWhile js_ws (rev ?t))"
    by (simp add: js_trim_def trim_end_def trim_start_def del: takeWhile_dropWhile_id)
  moreover have "list_all js_ws (rev (takeWhile js_ws (rev ?t)))"
    by (auto simp: list_all_iff dest: set_takeWhileD)
  ultimately show ?thesis by (metis takeWhile_dropWhile_id)
qed

lemma lead_length: "length raw - length (trim_start raw) = length (takeWhile js_ws raw)"
  by (metis add_diff_cancel_right' length_append takeWhile_dropWhile_id trim_start_def)

text \<open>What lies between two positions is the part, blanks around it, or nothing but blanks.\<close>

lemma part_of_spec:
  assumes "start \<le> endp" "endp \<le> length n"
  shows "p \<in> set (part_of n start endp b) \<Longrightarrow> start \<le> sp_from p \<and> sp_from p < sp_to p \<and> sp_to p \<le> endp
      \<and> sp_sql p = slice n (sp_from p) (sp_to p) \<and> js_trim (sp_sql p) = sp_sql p \<and> sp_semicolon p = b"
    and "length (part_of n start endp b) \<le> 1"
    and "start \<le> k \<Longrightarrow> k < endp \<Longrightarrow> js_ws (n ! k) \<or> (\<exists>p \<in> set (part_of n start endp b). sp_from p \<le> k \<and> k < sp_to p)"
proof -
  define raw where "raw = slice n start endp"
  obtain tail where raw: "raw = takeWhile js_ws raw @ js_trim raw @ tail" and tail: "list_all js_ws tail"
    using trim_split by blast
  let ?l = "length (takeWhile js_ws raw)" and ?t = "js_trim raw"
  have len: "length raw = endp - start" using assms by (simp add: raw_def slice_def)
  have len': "length raw = ?l + length ?t + length tail" by (metis add.assoc length_append raw)
  have nth: "n ! (start + m) = raw ! m" if "m < length raw" for m
    using that assms by (simp add: raw_def slice_def)
  have part: "part_of n start endp b = (if ?t = '''' then [] else
      [\<lparr> sp_sql = ?t, sp_from = start + ?l, sp_to = start + ?l + length ?t, sp_semicolon = b \<rparr>])"
    by (simp add: part_of_def Let_def raw_def [symmetric] lead_length)
  have body: "slice n (start + ?l) (start + ?l + length ?t) = ?t"
  proof -
    have cut: "take a (drop b (take m xs)) = take a (drop b xs)" if "a + b \<le> m" for a b m and xs :: string
      using that by (simp add: drop_take min_def)
    have "slice n (start + ?l) (start + ?l + length ?t) = take (length ?t) (drop ?l (drop start n))"
      by (simp add: slice_def add.commute)
    also have "\<dots> = take (length ?t) (drop ?l (take (endp - start) (drop start n)))"
      by (rule cut [symmetric]) (use len len' in simp)
    also have "\<dots> = take (length ?t) (drop ?l raw)" by (simp only: raw_def slice_def)
    also have "\<dots> = ?t" by (subst raw) simp
    finally show ?thesis .
  qed
  show "start \<le> sp_from p \<and> sp_from p < sp_to p \<and> sp_to p \<le> endp
      \<and> sp_sql p = slice n (sp_from p) (sp_to p) \<and> js_trim (sp_sql p) = sp_sql p \<and> sp_semicolon p = b"
    if "p \<in> set (part_of n start endp b)"
    using that len len' assms body by (auto simp: part split: if_splits)
  show "length (part_of n start endp b) \<le> 1" by (simp add: part)
  show "js_ws (n ! k) \<or> (\<exists>p \<in> set (part_of n start endp b). sp_from p \<le> k \<and> k < sp_to p)"
    if "start \<le> k" "k < endp"
  proof -
    let ?m = "k - start"
    have m: "?m < length raw" "n ! k = raw ! ?m" using that len nth [of ?m] by auto
    consider "?m < ?l" | "?l \<le> ?m" "?m < ?l + length ?t" | "?l + length ?t \<le> ?m" by linarith
    then show ?thesis
    proof cases
      case 1
      then have "raw ! ?m \<in> set (takeWhile js_ws raw)" by (metis nth_mem takeWhile_nth)
      then show ?thesis using m by (auto dest: set_takeWhileD)
    next
      case 2
      then have "?t \<noteq> ''''" by auto
      with 2 that show ?thesis by (auto simp: part)
    next
      case 3
      have "(xs @ ys @ zs) ! j = zs ! (j - length xs - length ys)" if "length xs + length ys \<le> j" for xs ys zs :: string and j
        using that by (auto simp: nth_append)
      from this [OF 3, of tail] have "raw ! ?m = tail ! (?m - ?l - length ?t)" by (simp only: raw [symmetric])
      moreover have "?m - ?l - length ?t < length tail" using 3 m len' by simp
      ultimately have "js_ws (raw ! ?m)" using tail by (simp add: list_all_length)
      then show ?thesis using m by simp
    qed
  qed
qed

text \<open>The pieces of a script that is cut in order.\<close>

definition pieces_ok :: "string \<Rightarrow> nat \<Rightarrow> sql_part list \<Rightarrow> bool" where
  "pieces_ok n start ps \<longleftrightarrow> sorted_wrt (\<lambda>p q. sp_to p \<le> sp_from q) ps
     \<and> list_all (\<lambda>p. start \<le> sp_from p \<and> sp_from p < sp_to p \<and> sp_to p \<le> length n
          \<and> sp_sql p = slice n (sp_from p) (sp_to p) \<and> js_trim (sp_sql p) = sp_sql p) ps
     \<and> (\<forall>k. start \<le> k \<and> k < length n \<longrightarrow> js_ws (n ! k) \<or> n ! k = CHR '';''
          \<or> (\<exists>p \<in> set ps. sp_from p \<le> k \<and> k < sp_to p))"

lemma pieces_of_part:
  assumes "start \<le> endp" "endp \<le> length n" "pieces_ok n nxt ps" "endp \<le> nxt"
    and "\<forall>k. endp \<le> k \<and> k < nxt \<longrightarrow> n ! k = CHR '';''"
  shows "pieces_ok n start (part_of n start endp b @ ps)"
proof -
  note spec = part_of_spec [OF assms(1,2), where b = b]
  have one: "sorted_wrt (\<lambda>p q. sp_to p \<le> sp_from q) (part_of n start endp b)"
    using spec(2) by (cases "part_of n start endp b" rule: list.exhaust) auto
  have cover: "js_ws (n ! k) \<or> n ! k = CHR '';'' \<or> (\<exists>p \<in> set (part_of n start endp b @ ps). sp_from p \<le> k \<and> k < sp_to p)"
    if "start \<le> k" "k < length n" for k
  proof -
    consider "k < endp" | "endp \<le> k" "k < nxt" | "nxt \<le> k" by linarith
    then show ?thesis
    proof cases
      case 1
      with spec(3) [of k] that show ?thesis by auto
    next
      case 2
      with assms(5) show ?thesis by blast
    next
      case 3
      with assms(3) that have "js_ws (n ! k) \<or> n ! k = CHR '';'' \<or> (\<exists>p \<in> set ps. sp_from p \<le> k \<and> k < sp_to p)"
        unfolding pieces_ok_def by blast
      then show ?thesis by auto
    qed
  qed
  have "p \<in> set (part_of n start endp b) \<Longrightarrow> q \<in> set ps \<Longrightarrow> sp_to p \<le> sp_from q" for p q
    using spec(1) [of p] assms(3,4) by (force simp: pieces_ok_def list_all_iff)
  with one cover show ?thesis
    using spec(1) assms unfolding pieces_ok_def by (force simp: sorted_wrt_append list_all_iff)
qed

lemma pieces_of_split:
  assumes "ordered_cuts (length n) cs" "\<forall>c \<in> set cs. start \<le> cut_at c" "start \<le> length n"
    and "\<forall>c \<in> set cs. cut_semicolon c \<longrightarrow> n ! cut_at c = CHR '';''"
  shows "pieces_ok n start (split_at n start cs)"
  using assms
proof (induction cs arbitrary: start)
  case Nil
  have "pieces_ok n (length n) []" by (auto simp: pieces_ok_def)
  moreover have "\<forall>k. length n \<le> k \<and> k < length n \<longrightarrow> n ! k = CHR '';''" by (meson not_le)
  ultimately have "pieces_ok n start (part_of n start (length n) False @ [])"
    by (intro pieces_of_part [OF Nil(3) le_refl _ le_refl])
  then show ?case by simp
next
  case (Cons c cs)
  have c: "cut_at c < length n" "\<forall>d \<in> set cs. cut_next c \<le> cut_at d" "ordered_cuts (length n) cs"
    using Cons.prems(1) by (auto simp: ordered_cuts_def)
  have rest: "pieces_ok n (cut_next c) (split_at n (cut_next c) cs)"
    by (rule Cons.IH) (use c Cons.prems(4) in \<open>auto simp: cut_next_def\<close>)
  have "start \<le> cut_at c" using Cons.prems(2) by simp
  moreover have "\<forall>k. cut_at c \<le> k \<and> k < cut_next c \<longrightarrow> n ! k = CHR '';''"
    using Cons.prems(4) by (auto simp: cut_next_def le_less_Suc_eq split: if_splits)
  ultimately show ?case using c(1) by (auto intro: pieces_of_part [OF _ _ rest] simp: cut_at_le)
qed

lemma semicolons_at: "k \<in> set (semicolons sql bound i f) \<Longrightarrow> at_pos sql k = Some CHR '';''"
proof (induction sql bound i f rule: semicolons.induct)
  case (1 sql bound i f)
  obtain j f' where step: "stepLex sql i f = (j, f')" by (meson surj_pair)
  show ?case
  proof (cases "bound \<le> i")
    case True
    with 1(2) show ?thesis by (simp add: semicolons.simps)
  next
    case False
    with 1(2) step have "k = i \<and> isSemicolonDelimiter sql i f \<or> k \<in> set (semicolons sql bound (Suc j) f')"
      by (subst (asm) semicolons.simps) (auto simp: Let_def split: if_splits)
    with 1(1) [OF False step [symmetric] refl] show ?thesis by (auto simp: isSemicolonDelimiter_def)
  qed
qed

lemma semicolon_cuts:
  "map cut_at (filter cut_semicolon (findStatementCuts sql)) = semicolons sql (length sql) 0 createLexFlags"
  unfolding findStatementCuts_def scan_semicolons by (simp add: scan_init_def)

lemma split_pieces: "pieces_ok (crlf_to_lf script) 0 (splitSqlStatements script)"
proof -
  let ?n = "crlf_to_lf script"
  have "n' ! cut_at c = CHR '';''" if "c \<in> set (findStatementCuts n')" "cut_semicolon c" for c n'
  proof -
    from that have "cut_at c \<in> set (map cut_at (filter cut_semicolon (findStatementCuts n')))" by simp
    then have "at_pos n' (cut_at c) = Some CHR '';''" unfolding semicolon_cuts by (rule semicolons_at)
    then show ?thesis by (simp add: at_pos_def split: if_splits)
  qed
  then show ?thesis
    unfolding splitSqlStatements_def Let_def by (intro pieces_of_split cuts_ordered) auto
qed

section \<open>The statement at the cursor\<close>

lemma semicolons_bound: "k \<in> set (semicolons sql bound i f) \<Longrightarrow> i \<le> k \<and> k < bound"
proof (induction sql bound i f rule: semicolons.induct)
  case (1 sql bound i f)
  obtain j f' where step: "stepLex sql i f = (j, f')" by (meson surj_pair)
  show ?case
  proof (cases "bound \<le> i")
    case True
    with 1(2) show ?thesis by (simp add: semicolons.simps)
  next
    case False
    with 1(2) step have "k = i \<or> k \<in> set (semicolons sql bound (Suc j) f')"
      by (subst (asm) semicolons.simps) (auto simp: Let_def split: if_splits)
    with 1(1) [OF False step [symmetric] refl] stepLex_ge [OF step] False show ?thesis by auto
  qed
qed

lemma range_in_spec:
  assumes "range_in len pos start cs = (a, b)" "sorted_wrt (\<lambda>c d. cut_next c \<le> cut_at d) cs"
    and "\<forall>c \<in> set cs. start \<le> cut_at c \<and> cut_at c < len" "start \<le> pos" "pos \<le> len"
  shows "a \<le> b \<and> b \<le> len \<and> a \<le> pos \<and> pos \<le> b"
  using assms
proof (induction cs arbitrary: start)
  case (Cons c cs)
  show ?case
  proof (cases "pos < cut_next c")
    case True
    with Cons.prems show ?thesis by (auto simp: cut_next_def split: if_splits)
  next
    case False
    show ?thesis
      by (rule Cons.IH [of "cut_next c"]) (use Cons.prems False in auto)
  qed
qed auto

lemma only_blank_between:
  assumes "only_blank sql bound i createLexFlags" "bound \<le> length sql" "i \<le> k" "k < bound"
  shows "blank_char (at_pos sql k)"
  using assms(1,3)
proof (induction "k - i" arbitrary: i)
  case 0
  then have "i = k" by simp
  with 0 assms(4) show ?case by (subst (asm) only_blank.simps) (simp split: if_splits)
next
  case (Suc m)
  then have i: "i < bound" "\<not> bound \<le> i" using assms(4) by auto
  with Suc.prems(1) have b: "blank_char (at_pos sql i)" by (subst (asm) only_blank.simps) (simp split: if_splits)
  with Suc.prems(1) i have "only_blank sql bound (Suc i) createLexFlags"
    by (subst (asm) only_blank.simps) (simp add: step_outside)
  then show ?case by (rule Suc.hyps(1) [rotated]) (use Suc.hyps(2) in simp_all)
qed

section \<open>Properties\<close>

text \<open>(C29) Splitting a script loses no SQL and invents none. The pieces come in order and do not overlap; each is
  exactly the text between its two positions, not blank and without blanks at its ends; and every character of
  the script that is in no piece is a blank or a semicolon.\<close>

theorem split_statements_cover_the_script:
  "sorted_wrt (\<lambda>p q. sp_to p \<le> sp_from q) (splitSqlStatements script)
   \<and> (\<forall>p \<in> set (splitSqlStatements script). sp_from p < sp_to p \<and> sp_to p \<le> length (crlf_to_lf script)
        \<and> sp_sql p = slice (crlf_to_lf script) (sp_from p) (sp_to p) \<and> js_trim (sp_sql p) = sp_sql p)
   \<and> (\<forall>k < length (crlf_to_lf script). js_ws (crlf_to_lf script ! k) \<or> crlf_to_lf script ! k = CHR '';''
        \<or> (\<exists>p \<in> set (splitSqlStatements script). sp_from p \<le> k \<and> k < sp_to p))"
  using split_pieces [of script] unfolding pieces_ok_def list_all_iff by blast

text \<open>(C30) What the scanner makes of keywords, parentheses and lines never changes where semicolons cut: the
  cuts at semicolons are exactly the semicolons that the lexer alone finds outside strings and comments.\<close>

theorem semicolon_cuts_are_the_lexers:
  "map cut_at (filter cut_semicolon (findStatementCuts sql)) = semicolons sql (length sql) 0 createLexFlags"
  by (rule semicolon_cuts)

text \<open>The range of the statement at the cursor lies in the text and holds the cursor; the one exception is a
  cursor among the blanks after a semicolon, for which it is the statement that the semicolon ends.\<close>

theorem statement_range_holds_the_cursor:
  assumes "findStatementRangeAtOffset sql offset = (a, b)" "pos = nat (max 0 (min offset (int (length sql))))"
  shows "a \<le> b \<and> b \<le> length sql \<and> a \<le> pos
    \<and> (pos \<le> b \<or> at_pos sql b = Some CHR '';'' \<and> (\<forall>k. b < k \<and> k < pos \<longrightarrow> blank_char (at_pos sql k)))"
proof -
  have pos: "pos \<le> length sql" using assms(2) by simp
  show ?thesis
  proof (cases "findStatementRangeIfAfterTerminator sql pos")
    case None
    then have "range_in (length sql) pos 0 (findStatementCuts sql) = (a, b)"
      using assms by (simp add: findStatementRangeAtOffset_def Let_def)
    from range_in_spec [OF this _ _ _ pos] cuts_ordered [of sql] show ?thesis
      by (auto simp: ordered_cuts_def list_all_iff)
  next
    case (Some r)
    then have r: "r = (a, b)" using assms by (simp add: findStatementRangeAtOffset_def Let_def)
    from Some obtain s where s: "semicolons sql pos 0 createLexFlags \<noteq> []" "s = last (semicolons sql pos 0 createLexFlags)"
        "only_blank sql pos (Suc s) createLexFlags" "b = s"
        "a = (case last_of (semicolons sql s 0 createLexFlags) of None \<Rightarrow> 0 | Some k \<Rightarrow> Suc k)"
      by (auto simp: findStatementRangeIfAfterTerminator_def Let_def last_of_def r split: if_splits)
    from s(1,2) have mem: "s \<in> set (semicolons sql pos 0 createLexFlags)" by simp
    have "a \<le> s"
    proof (cases "semicolons sql s 0 createLexFlags = []")
      case False
      then have "last (semicolons sql s 0 createLexFlags) \<in> set (semicolons sql s 0 createLexFlags)" by simp
      from semicolons_bound [OF this] False s(5) show ?thesis by (simp add: last_of_def)
    qed (simp add: s(5) last_of_def)
    moreover have "at_pos sql s = Some CHR '';''" by (rule semicolons_at) (rule mem)
    moreover have "s < pos" using semicolons_bound [OF mem] by simp
    moreover have "\<forall>k. s < k \<and> k < pos \<longrightarrow> blank_char (at_pos sql k)"
      using only_blank_between [OF s(3) pos] by auto
    ultimately show ?thesis using s(4) pos by simp
  qed
qed

theorem split_statements_cover_the_script_witness:
  "\<exists>p \<in> set (splitSqlStatements ''select 1; select 2''). sp_from p \<le> 12 \<and> 12 < sp_to p"
proof -
  let ?s = "''select 1; select 2''"
  have "12 < length (crlf_to_lf ?s)" "\<not> js_ws (crlf_to_lf ?s ! 12)" "crlf_to_lf ?s ! 12 \<noteq> CHR '';''"
    by code_simp+
  with split_statements_cover_the_script [of ?s] show ?thesis by blast
qed

theorem statement_range_holds_the_cursor_witness:
  "fst (findStatementRangeAtOffset ''select 1; select 2'' 12) \<le> 12 \<and> 12 \<le> snd (findStatementRangeAtOffset ''select 1; select 2'' 12)"
proof -
  have r: "findStatementRangeAtOffset ''select 1; select 2'' 12 = (9, 18)" by code_simp
  have "(12::nat) = nat (max 0 (min 12 (int (length ''select 1; select 2''))))" by simp
  from statement_range_holds_the_cursor [OF r this] r show ?thesis by auto
qed

end
