(* ===== verification/Regex.thy ===== *)
theory Regex
  imports Prelude
begin

text \<open>
  Regular expressions as the program's guards use them: \<open>RegExp.prototype.test\<close>, \<open>replace\<close> and \<open>split\<close> of
  ECMAScript without capture groups. \<open>rx_ends r s i\<close> lists the positions where a match of \<open>r\<close> that starts at
  position \<open>i\<close> of \<open>s\<close> can end, in the order in which the backtracking matcher tries them (the left
  alternative first, a greedy repetition as long as it can, no iteration that consumes nothing), so
  the first element is the match that the run time reports. \<open>rx_match\<close> states the same without the order;
  \<open>rx_ends_match\<close> shows that they agree.
\<close>

section \<open>Expressions\<close>

datatype rx =
    Cls "char \<Rightarrow> bool"
  | Eps
  | Seq rx rx
  | Alt rx rx
  | Star rx
  | LineStart
  | LineEnd
  | WordBoundary
  | NotAhead rx

definition Plus :: "rx \<Rightarrow> rx" where
  "Plus r = Seq r (Star r)"

definition Opt :: "rx \<Rightarrow> rx" where
  "Opt r = Alt r Eps"

definition code_of :: "char \<Rightarrow> nat" where
  "code_of c = of_char c"

definition is_upper :: "char \<Rightarrow> bool" where
  "is_upper c \<longleftrightarrow> 65 \<le> code_of c \<and> code_of c \<le> 90"

definition is_lower :: "char \<Rightarrow> bool" where
  "is_lower c \<longleftrightarrow> 97 \<le> code_of c \<and> code_of c \<le> 122"

definition is_digit :: "char \<Rightarrow> bool" where
  "is_digit c \<longleftrightarrow> 48 \<le> code_of c \<and> code_of c \<le> 57"

definition is_word :: "char \<Rightarrow> bool" where
  "is_word c \<longleftrightarrow> is_upper c \<or> is_lower c \<or> is_digit c \<or> c = CHR ''_''"

text \<open>\<open>toLowerCase\<close> on code units below 256: the ASCII letters, and those from 192 to 222 but the multiplication sign.\<close>

definition lower_char :: "char \<Rightarrow> char" where
  "lower_char c =
     (if is_upper c \<or> 192 \<le> code_of c \<and> code_of c \<le> 222 \<and> code_of c \<noteq> 215 then char_of (code_of c + 32) else c)"

definition lower :: "string \<Rightarrow> string" where
  "lower = map lower_char"

text \<open>The same on the bits of a character, for evaluation.\<close>

lemma is_upper_code [code]:
  "is_upper (Char b0 b1 b2 b3 b4 b5 b6 b7) \<longleftrightarrow> b6 \<and> \<not> b7 \<and> \<not> b5 \<and> (b0 \<or> b1 \<or> b2 \<or> b3 \<or> b4)
     \<and> \<not> (b4 \<and> b3 \<and> (b2 \<or> b1 \<and> b0))"
  by (simp add: is_upper_def code_of_def; cases b0; cases b1; cases b2; cases b3; cases b4; cases b5; cases b6; cases b7; simp)

lemma is_lower_code [code]:
  "is_lower (Char b0 b1 b2 b3 b4 b5 b6 b7) \<longleftrightarrow> b6 \<and> \<not> b7 \<and> b5 \<and> (b0 \<or> b1 \<or> b2 \<or> b3 \<or> b4)
     \<and> \<not> (b4 \<and> b3 \<and> (b2 \<or> b1 \<and> b0))"
  by (simp add: is_lower_def code_of_def; cases b0; cases b1; cases b2; cases b3; cases b4; cases b5; cases b6; cases b7; simp)

lemma is_digit_code [code]:
  "is_digit (Char b0 b1 b2 b3 b4 b5 b6 b7) \<longleftrightarrow> \<not> b7 \<and> \<not> b6 \<and> b5 \<and> b4 \<and> (b3 \<longrightarrow> \<not> b2 \<and> \<not> b1)"
  by (simp add: is_digit_def code_of_def; cases b0; cases b1; cases b2; cases b3; cases b4; cases b5; cases b6; cases b7; simp)

lemma capital_code:
  "is_upper (Char b0 b1 b2 b3 b4 b5 b6 b7) \<or> 192 \<le> code_of (Char b0 b1 b2 b3 b4 b5 b6 b7)
       \<and> code_of (Char b0 b1 b2 b3 b4 b5 b6 b7) \<le> 222 \<and> code_of (Char b0 b1 b2 b3 b4 b5 b6 b7) \<noteq> 215
     \<longleftrightarrow> is_upper (Char b0 b1 b2 b3 b4 b5 b6 b7)
       \<or> b7 \<and> b6 \<and> \<not> b5 \<and> \<not> (b0 \<and> b1 \<and> b2 \<and> b3 \<and> b4) \<and> \<not> (b0 \<and> b1 \<and> b2 \<and> \<not> b3 \<and> b4)"
  by (rule disj_cong [OF refl], simp add: code_of_def;
      cases b0; cases b1; cases b2; cases b3; cases b4; cases b5; cases b6; cases b7; simp)

lemma lower_char_code [code]:
  "lower_char (Char b0 b1 b2 b3 b4 b5 b6 b7) =
     (if is_upper (Char b0 b1 b2 b3 b4 b5 b6 b7)
         \<or> b7 \<and> b6 \<and> \<not> b5 \<and> \<not> (b0 \<and> b1 \<and> b2 \<and> b3 \<and> b4) \<and> \<not> (b0 \<and> b1 \<and> b2 \<and> \<not> b3 \<and> b4)
      then Char b0 b1 b2 b3 b4 True b6 b7 else Char b0 b1 b2 b3 b4 b5 b6 b7)"
proof -
  have "code_of (Char b0 b1 b2 b3 b4 False b6 b7) + 32 = of_char (Char b0 b1 b2 b3 b4 True b6 b7)"
    by (simp add: code_of_def)
  then have "char_of (code_of (Char b0 b1 b2 b3 b4 False b6 b7) + 32) = Char b0 b1 b2 b3 b4 True b6 b7"
    by (metis char_of_char)
  then show ?thesis unfolding lower_char_def capital_code by (cases b5) (simp_all add: is_upper_code)
qed

lemma js_ws_code [code]:
  "js_ws (Char b0 b1 b2 b3 b4 b5 b6 b7) \<longleftrightarrow>
     \<not> b4 \<and> \<not> b6 \<and> (\<not> b7 \<and> \<not> b5 \<and> b3 \<and> (if b2 then b0 \<and> \<not> b1 \<or> \<not> b0 \<and> \<not> b1 else b0 \<or> b1)
       \<or> b5 \<and> \<not> b0 \<and> \<not> b1 \<and> \<not> b2 \<and> \<not> b3)"
  by (simp add: js_ws_def; cases b0; cases b1; cases b2; cases b3; cases b4; cases b5; cases b6; cases b7; simp)

text \<open>A character of the pattern: exact, or under the flag \<open>i\<close>.\<close>

definition lit :: "char \<Rightarrow> rx" where
  "lit c = Cls (\<lambda>d. d = c)"

definition chr_i :: "char \<Rightarrow> rx" where
  "chr_i c = Cls (\<lambda>d. lower_char d = lower_char c)"

definition one_of :: "string \<Rightarrow> rx" where
  "one_of cs = Cls (\<lambda>d. d \<in> set cs)"

fun seqs :: "rx list \<Rightarrow> rx" where
  "seqs [] = Eps"
| "seqs [r] = r"
| "seqs (r # rs) = Seq r (seqs rs)"

fun alts :: "rx list \<Rightarrow> rx" where
  "alts [] = NotAhead Eps"
| "alts [r] = r"
| "alts (r # rs) = Alt r (alts rs)"

definition word_lit :: "string \<Rightarrow> rx" where
  "word_lit w = seqs (map lit w)"

definition word_i :: "string \<Rightarrow> rx" where
  "word_i w = seqs (map chr_i w)"

abbreviation "Ws \<equiv> Cls js_ws"
abbreviation "NonWs \<equiv> Cls (\<lambda>c. \<not> js_ws c)"
abbreviation "Digit \<equiv> Cls is_digit"
abbreviation "WordChar \<equiv> Cls is_word"

definition Dot :: rx where
  "Dot = Cls (\<lambda>c. c \<noteq> CHR 0x0A \<and> c \<noteq> CHR 0x0D)"

section \<open>Matching\<close>

fun star_ends :: "(nat \<Rightarrow> nat list) \<Rightarrow> nat \<Rightarrow> nat \<Rightarrow> nat list" where
  "star_ends f 0 i = [i]"
| "star_ends f (Suc n) i = concat (map (star_ends f n) (filter (\<lambda>j. i < j) (f i))) @ [i]"

definition word_at :: "string \<Rightarrow> nat \<Rightarrow> bool" where
  "word_at s i \<longleftrightarrow> i < length s \<and> is_word (s ! i)"

definition at_boundary :: "string \<Rightarrow> nat \<Rightarrow> bool" where
  "at_boundary s i \<longleftrightarrow> (0 < i \<and> word_at s (i - 1)) \<noteq> word_at s i"

primrec rx_ends :: "rx \<Rightarrow> string \<Rightarrow> nat \<Rightarrow> nat list" where
  "rx_ends (Cls P) s i = (if i < length s \<and> P (s ! i) then [Suc i] else [])"
| "rx_ends Eps s i = [i]"
| "rx_ends (Seq r q) s i = concat (map (rx_ends q s) (rx_ends r s i))"
| "rx_ends (Alt r q) s i = rx_ends r s i @ rx_ends q s i"
| "rx_ends (Star r) s i = star_ends (rx_ends r s) (length s - i) i"
| "rx_ends LineStart s i = (if i = 0 then [i] else [])"
| "rx_ends LineEnd s i = (if i = length s then [i] else [])"
| "rx_ends WordBoundary s i = (if at_boundary s i then [i] else [])"
| "rx_ends (NotAhead r) s i = (if rx_ends r s i = [] then [i] else [])"

definition rx_test :: "rx \<Rightarrow> string \<Rightarrow> bool" where
  "rx_test r s \<longleftrightarrow> list_ex (\<lambda>i. rx_ends r s i \<noteq> []) [0..<Suc (length s)]"

text \<open>The same without the order of the attempts.\<close>

inductive steps_to :: "(nat \<Rightarrow> nat \<Rightarrow> bool) \<Rightarrow> nat \<Rightarrow> nat \<Rightarrow> bool" for R where
  stay: "steps_to R i i"
| go: "R i j \<Longrightarrow> i < j \<Longrightarrow> steps_to R j k \<Longrightarrow> steps_to R i k"

primrec rx_match :: "rx \<Rightarrow> string \<Rightarrow> nat \<Rightarrow> nat \<Rightarrow> bool" where
  "rx_match (Cls P) s = (\<lambda>i j. j = Suc i \<and> i < length s \<and> P (s ! i))"
| "rx_match Eps s = (\<lambda>i j. i = j)"
| "rx_match (Seq r q) s = rx_match r s OO rx_match q s"
| "rx_match (Alt r q) s = (\<lambda>i j. rx_match r s i j \<or> rx_match q s i j)"
| "rx_match (Star r) s = steps_to (rx_match r s)"
| "rx_match LineStart s = (\<lambda>i j. i = j \<and> i = 0)"
| "rx_match LineEnd s = (\<lambda>i j. i = j \<and> i = length s)"
| "rx_match WordBoundary s = (\<lambda>i j. i = j \<and> at_boundary s i)"
| "rx_match (NotAhead r) s = (\<lambda>i j. i = j \<and> \<not> (\<exists>k. rx_match r s i k))"

lemma rx_match_le: "rx_match r s i j \<Longrightarrow> i \<le> length s \<Longrightarrow> i \<le> j \<and> j \<le> length s"
proof (induction r arbitrary: i j)
  case (Seq r q)
  then obtain k where "rx_match r s i k" "rx_match q s k j" by auto
  with Seq.IH(1) [of i k] Seq.IH(2) [of k j] Seq.prems show ?case by auto
next
  case (Star r)
  from Star.prems have "steps_to (rx_match r s) i j" by simp
  then show ?case using Star.prems(2) by induction (auto dest: Star.IH)
qed auto

lemma star_ends_steps:
  assumes "\<And>i j. i \<le> m \<Longrightarrow> j \<in> set (f i) \<longleftrightarrow> R i j" "\<And>i j. i \<le> m \<Longrightarrow> R i j \<Longrightarrow> j \<le> m" "i \<le> m" "m - i \<le> n"
  shows "j \<in> set (star_ends f n i) \<longleftrightarrow> steps_to R i j"
  using assms(3,4)
proof (induction n arbitrary: i)
  case 0
  with assms(2) have "\<not> (R i k \<and> i < k)" for k by (metis diff_is_0_eq le_antisym le_zero_eq leD)
  then show ?case by (auto elim: steps_to.cases intro: steps_to.intros)
next
  case (Suc n)
  have "j \<in> set (star_ends f n k) \<longleftrightarrow> steps_to R k j" if "R i k" "i < k" for k
    using Suc.IH [of k] assms(2) [OF Suc.prems(1) that(1)] that(2) Suc.prems by simp
  then show ?case using assms(1) [OF Suc.prems(1)]
    by (auto elim: steps_to.cases intro: steps_to.intros)
qed

theorem rx_ends_match: "i \<le> length s \<Longrightarrow> j \<in> set (rx_ends r s i) \<longleftrightarrow> rx_match r s i j"
proof (induction r arbitrary: i j)
  case (Seq r q)
  then show ?case using rx_match_le [of r s i] by (auto simp: relcompp_apply)
next
  case (Star r)
  show ?case using star_ends_steps [of "length s" "rx_ends r s" "rx_match r s" i] Star rx_match_le [of r s] by simp
next
  case (NotAhead r)
  then have "rx_ends r s i = [] \<longleftrightarrow> \<not> (\<exists>k. rx_match r s i k)" by (metis last_in_set list.set_cases list.distinct(1) empty_iff set_empty2)
  then show ?case by auto
qed auto

lemma rx_test_iff: "rx_test r s \<longleftrightarrow> (\<exists>i j. i \<le> length s \<and> rx_match r s i j)"
proof -
  have "rx_ends r s i \<noteq> [] \<longleftrightarrow> (\<exists>j. rx_match r s i j)" if "i \<le> length s" for i
    using rx_ends_match [OF that] by (metis last_in_set list.set_cases list.distinct(1) empty_iff set_empty2)
  moreover have "set [0..<Suc (length s)] = {i. i \<le> length s}" by auto
  ultimately show ?thesis unfolding rx_test_def list_ex_iff by blast
qed

lemma rx_testI: "rx_match r s i j \<Longrightarrow> i \<le> length s \<Longrightarrow> rx_test r s"
  by (auto simp: rx_test_iff)

section \<open>Replacing and splitting\<close>

text \<open>
  A global search goes left to right: at each position the first end that the matcher tries. \<open>rx_pieces\<close>
  lists the text between the matches. Every pattern that the program searches globally matches one character
  at least.
\<close>

function rx_pieces :: "rx \<Rightarrow> string \<Rightarrow> nat \<Rightarrow> string \<Rightarrow> string list" where
  "rx_pieces r s i acc =
     (if length s \<le> i then [acc]
      else case rx_ends r s i of
        [] \<Rightarrow> rx_pieces r s (Suc i) (acc @ [s ! i])
      | j # _ \<Rightarrow> (if i < j then acc # rx_pieces r s j '''' else rx_pieces r s (Suc i) (acc @ [s ! i])))"
  by pat_completeness auto
termination
  by (relation "measure (\<lambda>(r, s, i, acc). length s - i)") auto

declare rx_pieces.simps [simp del]

definition rx_replace_all :: "rx \<Rightarrow> string \<Rightarrow> string \<Rightarrow> string" where
  "rx_replace_all r by_text s =
     (let ps = rx_pieces r s 0 '''' in hd ps @ concat (map (\<lambda>p. by_text @ p) (tl ps)))"

definition rx_split :: "rx \<Rightarrow> string \<Rightarrow> string list" where
  "rx_split r s = rx_pieces r s 0 ''''"

text \<open>\<open>replace\<close> without the flag \<open>g\<close>, for a pattern that starts with \<open>^\<close>.\<close>

definition rx_strip_prefix :: "rx \<Rightarrow> string \<Rightarrow> string" where
  "rx_strip_prefix r s = (case rx_ends r s 0 of [] \<Rightarrow> s | j # _ \<Rightarrow> drop j s)"

lemma rx_pieces_nonempty: "rx_pieces r s i acc \<noteq> []"
  by (induction r s i acc rule: rx_pieces.induct) (subst rx_pieces.simps, auto split: list.split)

end
