(* ===== verification/CommandPolicy.thy ===== *)
theory CommandPolicy
  imports Regex
begin

text \<open>
  When a terminal command of the assistant needs the user's approval.

  \<^item> \<^bold>\<open>frontend/src/lib/commandGuard.ts\<close>: the danger rules and \<open>checkCommand\<close>;
  \<^item> \<^bold>\<open>frontend/src/modules/terminal/terminalCommandFingerprint.ts\<close>: segments, tokens and approval keys;
  \<^item> \<^bold>\<open>terminalCommandWhitelist.ts\<close>: the permanent list (in the settings) and the lists per conversation and
    per terminal session;
  \<^item> \<^bold>\<open>terminalApprovalPolicy.ts\<close>, \<^bold>\<open>terminalApprovalSettings.ts\<close>: the decision.

  Rules are regular expressions, translated one by one; their descriptions are left out.
\<close>

section \<open>Danger levels\<close>

datatype danger_level = LevelLow | LevelMedium | LevelHigh | LevelCritical

primrec danger_rank :: "danger_level \<Rightarrow> nat" where
  "danger_rank LevelLow = 0"
| "danger_rank LevelMedium = 1"
| "danger_rank LevelHigh = 2"
| "danger_rank LevelCritical = 3"

instantiation danger_level :: linorder
begin

definition less_eq_danger_level :: "danger_level \<Rightarrow> danger_level \<Rightarrow> bool" where
  "less_eq_danger_level a b \<longleftrightarrow> danger_rank a \<le> danger_rank b"

definition less_danger_level :: "danger_level \<Rightarrow> danger_level \<Rightarrow> bool" where
  "less_danger_level a b \<longleftrightarrow> danger_rank a < danger_rank b"

instance
proof
  fix a b :: danger_level
  show "a = b" if "a \<le> b" "b \<le> a" using that by (cases a; cases b) (simp_all add: less_eq_danger_level_def)
qed (auto simp: less_eq_danger_level_def less_danger_level_def)

end

definition maxDangerLevel :: "danger_level \<Rightarrow> danger_level \<Rightarrow> danger_level" where
  "maxDangerLevel a b = (if danger_rank b \<le> danger_rank a then a else b)"

lemma maxDangerLevel_max: "maxDangerLevel a b = max a b"
proof -
  have "a = b" if "danger_rank a = danger_rank b" using that by (cases a; cases b) simp_all
  then show ?thesis by (auto simp: maxDangerLevel_def max_def less_eq_danger_level_def)
qed

text \<open>\<open>order[Math.min(idx + 1, 3)]\<close>.\<close>

fun next_level :: "danger_level \<Rightarrow> danger_level" where
  "next_level LevelLow = LevelMedium"
| "next_level LevelMedium = LevelHigh"
| "next_level LevelHigh = LevelCritical"
| "next_level LevelCritical = LevelCritical"

section \<open>Danger rules\<close>

definition DANGEROUS_PATTERNS :: "(rx \<times> danger_level) list" where
  "DANGEROUS_PATTERNS =
    [(seqs [word_i ''rm'', Plus Ws,
        alts [seqs [lit CHR ''-'', Star (Cls (\<lambda>c. is_upper c \<or> is_lower c)), Plus (Cls (\<lambda>c. lower_char c \<in> set ''rf''))],
              word_i ''--recursive'', word_i ''--force''], Ws], LevelCritical),
     (seqs [lit CHR ''>'', Star Ws, word_i ''/dev/sd'', Cls (\<lambda>c. is_upper c \<or> is_lower c)], LevelCritical),
     (word_i ''mkfs.'', LevelCritical),
     (seqs [word_i ''dd'', Plus Ws, Star Dot, word_i ''of=/dev''], LevelCritical),
     (seqs [word_i '':(){'', Star Ws, word_i '':|:&'', Star Ws, word_i ''};:''], LevelCritical),
     (seqs [word_i ''Remove-Item'', Plus Ws, Star Dot, word_i ''-Recurse'', Plus Ws, Star Dot, word_i ''-Force''],
        LevelCritical),
     (word_i ''Format-Volume'', LevelCritical),
     (seqs [word_i ''DROP'', Plus Ws, alts [word_i ''TABLE'', word_i ''DATABASE'', word_i ''SCHEMA''], Ws], LevelHigh),
     (seqs [word_i ''DELETE'', Plus Ws, word_i ''FROM'', Plus Ws, Plus WordChar, Star Ws, LineEnd], LevelHigh),
     (seqs [word_i ''TRUNCATE'', Plus Ws, word_i ''TABLE'', Ws], LevelHigh),
     (seqs [WordBoundary, alts [word_i ''UPDATE'', word_i ''INSERT'', word_i ''DELETE'', word_i ''ALTER''], WordBoundary],
        LevelMedium),
     (seqs [word_i ''chmod'', Plus Ws, word_i ''777'', Ws], LevelMedium),
     (seqs [word_i ''curl'', Star Dot, lit CHR ''|'', Star Ws, Opt (word_i ''ba''), word_i ''sh''], LevelMedium),
     (seqs [word_i ''wget'', Star Dot, lit CHR ''|'', Star Ws, Opt (word_i ''ba''), word_i ''sh''], LevelMedium),
     (seqs [word_i ''iptables'', Plus Ws, word_i ''-F''], LevelMedium),
     (seqs [WordBoundary, word_i ''kill'', Plus Ws, word_i ''-9'', WordBoundary], LevelHigh),
     (seqs [WordBoundary, word_i ''systemctl'', Plus Ws, alts [word_i ''restart'', word_i ''stop''], WordBoundary],
        LevelMedium),
     (seqs [WordBoundary, word_i ''docker'', Plus Ws, word_i ''system'', Plus Ws, word_i ''prune'', WordBoundary, Star Dot,
        alts [word_i ''-a'', word_i ''--all'', word_i ''-f'', word_i ''--force'']], LevelHigh),
     (seqs [WordBoundary, word_i ''docker'', Plus Ws, alts [word_i ''restart'', word_i ''stop'', word_i ''rm''],
        WordBoundary], LevelMedium),
     (seqs [word_i ''sudo'', Plus Ws, word_i ''rm''], LevelHigh),
     (seqs [word_i ''git'', Plus Ws, word_i ''push'', Plus Ws, Star Dot, word_i ''--force''], LevelMedium),
     (seqs [word_i ''git'', Plus Ws, word_i ''reset'', Plus Ws, Star Dot, word_i ''--hard''], LevelMedium)]"

record danger_check =
  dc_safe :: bool
  dc_level :: danger_level
  dc_matches :: "danger_level list"

definition checkCommand :: "string \<Rightarrow> string option \<Rightarrow> danger_check" where
  "checkCommand command envTag =
     (let matches = map snd (filter (\<lambda>rule. rx_test (fst rule) command) DANGEROUS_PATTERNS) in
      if matches = [] then \<lparr> dc_safe = True, dc_level = LevelLow, dc_matches = [] \<rparr>
      else (let maxLevel = fold (\<lambda>m acc. if danger_rank acc < danger_rank m then m else acc) matches LevelLow;
                maxLevel = (if envTag = Some ''prod'' \<and> maxLevel \<noteq> LevelCritical then next_level maxLevel else maxLevel)
            in \<lparr> dc_safe = False, dc_level = maxLevel, dc_matches = matches \<rparr>))"

definition severe :: "danger_check \<Rightarrow> bool" where
  "severe d \<longleftrightarrow> \<not> dc_safe d \<and> (dc_level d = LevelHigh \<or> dc_level d = LevelCritical)"

section \<open>Fingerprints\<close>

definition COMPOUND_VERBS :: "string list" where
  "COMPOUND_VERBS = [''docker'', ''kubectl'', ''k'', ''git'', ''systemctl'', ''npm'', ''pnpm'', ''yarn'', ''cargo'',
     ''apt'', ''apt-get'', ''brew'']"

definition separator :: rx where
  "separator = Alt LineStart (Cls (\<lambda>c. js_ws c \<or> c \<in> set '';|&''))"

definition harmless_redirect :: rx where
  "harmless_redirect = Seq separator
     (alts [seqs [Star Digit, word_lit ''>&'', Plus Digit],
            seqs [Star Digit, lit CHR ''>'', Star Ws, word_lit ''/dev/null''],
            seqs [word_lit ''&>'', Star Ws, word_lit ''/dev/null'']])"

definition stripHarmlessRedirects :: "string \<Rightarrow> string" where
  "stripHarmlessRedirects command =
     js_trim (rx_replace_all (Plus Ws) '' '' (rx_replace_all harmless_redirect '' '' command))"

definition shell_modifier :: rx where
  "shell_modifier = seqs [alts [word_i ''sudo'', word_i ''time'', word_i ''nohup'', word_i ''command''], Plus Ws]"

definition env_prefix :: rx where
  "env_prefix = seqs [word_i ''env'', Plus Ws, Star (seqs [Plus NonWs, lit CHR ''='', Plus NonWs, Plus Ws])]"

text \<open>The loop runs four times at most and stops when nothing changes.\<close>

fun strip_modifiers :: "nat \<Rightarrow> string \<Rightarrow> string" where
  "strip_modifiers 0 rest = rest"
| "strip_modifiers (Suc n) rest =
     (let nxt = js_trim (rx_strip_prefix env_prefix (rx_strip_prefix shell_modifier rest))
      in if nxt = rest then rest else strip_modifiers n nxt)"

definition stripLeadingShellModifiers :: "string \<Rightarrow> string" where
  "stripLeadingShellModifiers segment = strip_modifiers 4 (js_trim segment)"

definition segment_break :: rx where
  "segment_break = alts [word_lit ''&&'', word_lit ''||'', lit CHR '';'', lit CHR ''|'']"

definition splitCommandSegments :: "string \<Rightarrow> string list" where
  "splitCommandSegments command = filter (\<lambda>p. p \<noteq> '''') (map js_trim (rx_split segment_break command))"

definition segmentTokens :: "string \<Rightarrow> string list" where
  "segmentTokens segment =
     (let normalized = stripLeadingShellModifiers (stripHarmlessRedirects segment)
      in if normalized = '''' then [] else rx_split (Plus Ws) normalized)"

text \<open>\<open>tokens[n]?.toLowerCase() ?? ""\<close>.\<close>

definition token :: "string list \<Rightarrow> nat \<Rightarrow> string" where
  "token tokens n = (if n < length tokens then lower (tokens ! n) else '''')"

definition commandApprovalKey :: "string \<Rightarrow> string" where
  "commandApprovalKey segment =
     (let tokens = segmentTokens segment; verb = token tokens 0; sub = token tokens 1
      in if verb = '''' then '''' else if verb \<in> set COMPOUND_VERBS then (if sub = '''' then verb else verb @ '' '' @ sub)
         else verb)"

definition commandApprovalKeys :: "string \<Rightarrow> string list" where
  "commandApprovalKeys command =
     (let trimmed = stripHarmlessRedirects (js_trim command)
      in if trimmed = '''' then []
         else uniq (filter (\<lambda>k. k \<noteq> '''') (map commandApprovalKey (splitCommandSegments trimmed))))"

section \<open>Whitelists\<close>

record whitelist_scope =
  ws_conversationId :: "string option"
  ws_terminalSessionId :: "string option"

record whitelists =
  wl_permanent :: "string list"
  wl_sessions :: "(string \<times> string list) list"

definition nonblank :: "string option \<Rightarrow> string option" where
  "nonblank x = (case x of None \<Rightarrow> None | Some s \<Rightarrow> if js_trim s = '''' then None else Some (js_trim s))"

definition scopeIds :: "whitelist_scope option \<Rightarrow> string list" where
  "scopeIds scope =
     (case scope of
        None \<Rightarrow> []
      | Some sc \<Rightarrow>
          (case nonblank (ws_conversationId sc) of None \<Rightarrow> [] | Some conv \<Rightarrow> [''ai:'' @ conv])
          @ (case nonblank (ws_terminalSessionId sc) of None \<Rightarrow> [] | Some term_id \<Rightarrow> [''term:'' @ term_id]))"

definition formatCommandWhitelistLabel :: "string \<Rightarrow> string" where
  "formatCommandWhitelistLabel command =
     (case commandApprovalKeys command of
        k # _ \<Rightarrow> k
      | [] \<Rightarrow> (let fallback = hd (rx_split (Plus Ws) (js_trim command)) in if fallback = '''' then js_trim command else fallback))"

text \<open>The argument of \<open>clearSessionCommandWhitelist\<close>: nothing, an identifier, or a scope.\<close>

datatype clear_target = ClearAll | ClearId string | ClearScope whitelist_scope

definition clearSessionCommandWhitelist :: "clear_target \<Rightarrow> whitelists \<Rightarrow> whitelists" where
  "clearSessionCommandWhitelist t w =
     (case t of
        ClearAll \<Rightarrow> w\<lparr>wl_sessions := []\<rparr>
      | ClearId i \<Rightarrow> w\<lparr>wl_sessions := rdel i (wl_sessions w)\<rparr>
      | ClearScope sc \<Rightarrow> w\<lparr>wl_sessions := fold rdel (scopeIds (Some sc)) (wl_sessions w)\<rparr>)"

definition add_new :: "string list \<Rightarrow> string list \<Rightarrow> string list" where
  "add_new keys prev = fold (\<lambda>k acc. if k \<in> set acc then acc else acc @ [k]) keys prev"

definition grant_to :: "string list \<Rightarrow> string \<Rightarrow> (string \<times> string list) list \<Rightarrow> (string \<times> string list) list" where
  "grant_to keys i sessions = rput i (add_new keys (case rget sessions i of None \<Rightarrow> [] | Some ks \<Rightarrow> ks)) sessions"

definition addSessionCommandWhitelist :: "string \<Rightarrow> whitelist_scope \<Rightarrow> whitelists \<Rightarrow> whitelists \<times> string list" where
  "addSessionCommandWhitelist command scope w =
     (let keys = commandApprovalKeys command; ids = scopeIds (Some scope)
      in if keys = [] \<or> ids = [] then (w, [])
         else (w\<lparr>wl_sessions := fold (grant_to keys) ids (wl_sessions w)\<rparr>, keys))"

definition addPermanentCommandWhitelist :: "string \<Rightarrow> whitelists \<Rightarrow> whitelists \<times> string list" where
  "addPermanentCommandWhitelist command w =
     (let keys = commandApprovalKeys command
      in if keys = [] then (w, []) else (w\<lparr>wl_permanent := add_new keys (wl_permanent w)\<rparr>, keys))"

definition has_grant :: "whitelists \<Rightarrow> string list \<Rightarrow> string \<Rightarrow> bool" where
  "has_grant w ids key \<longleftrightarrow> key \<in> set (wl_permanent w)
     \<or> list_ex (\<lambda>i. case rget (wl_sessions w) i of None \<Rightarrow> False | Some ks \<Rightarrow> key \<in> set ks) ids"

definition isCommandWhitelisted :: "whitelists \<Rightarrow> string \<Rightarrow> whitelist_scope option \<Rightarrow> bool" where
  "isCommandWhitelisted w command scope =
     (let keys = commandApprovalKeys command
      in keys \<noteq> [] \<and> list_all (has_grant w (scopeIds scope)) keys)"

section \<open>The policy\<close>

datatype approval_mode = Strict | View | Loose

definition DEFAULT_TERMINAL_APPROVAL_MODE :: approval_mode where
  "DEFAULT_TERMINAL_APPROVAL_MODE = View"

text \<open>The mode in the settings, \<open>None\<close> when it is not set.\<close>

definition resolveTerminalApprovalMode :: "approval_mode option \<Rightarrow> approval_mode" where
  "resolveTerminalApprovalMode setting = (case setting of None \<Rightarrow> DEFAULT_TERMINAL_APPROVAL_MODE | Some m \<Rightarrow> m)"

definition READ_ONLY_VERBS :: "string list" where
  "READ_ONLY_VERBS =
    [''alias'', ''awk'', ''basename'', ''cal'', ''cat'', ''cd'', ''column'', ''curl'', ''date'', ''df'', ''diff'',
     ''dirname'', ''dir'', ''du'', ''echo'', ''env'', ''export'', ''file'', ''find'', ''free'', ''get'', ''getent'',
     ''grep'', ''groups'', ''head'', ''help'', ''history'', ''host'', ''hostname'', ''id'', ''ifconfig'', ''ip'', ''jobs'',
     ''jq'', ''last'', ''less'', ''ll'', ''locate'', ''ls'', ''lsblk'', ''lscpu'', ''lsof'', ''man'', ''more'', ''mount'',
     ''nc'', ''netstat'', ''nslookup'', ''passwd'', ''pgrep'', ''ping'', ''printenv'', ''ps'', ''pwd'', ''readlink'',
     ''realpath'', ''rg'', ''route'', ''sed'', ''seq'', ''set'', ''sort'', ''ss'', ''stat'', ''strings'', ''systemctl'',
     ''tail'', ''test'', ''top'', ''tr'', ''tree'', ''type'', ''uname'', ''uniq'', ''unset'', ''uptime'', ''w'', ''watch'',
     ''wc'', ''whatis'', ''whereis'', ''which'', ''who'', ''whoami'', ''xargs'', ''zcat'']"

definition DOCKER_READ_SUBCOMMANDS :: "string list" where
  "DOCKER_READ_SUBCOMMANDS = [''ps'', ''images'', ''logs'', ''inspect'', ''stats'', ''top'', ''port'', ''history'',
     ''version'', ''info'']"

definition KUBECTL_READ_SUBCOMMANDS :: "string list" where
  "KUBECTL_READ_SUBCOMMANDS = [''get'', ''describe'', ''logs'', ''top'', ''explain'', ''api-resources'',
     ''api-versions'', ''version'', ''cluster-info'']"

definition GIT_READ_SUBCOMMANDS :: "string list" where
  "GIT_READ_SUBCOMMANDS = [''status'', ''log'', ''diff'', ''show'', ''branch'', ''remote'', ''tag'', ''stash'',
     ''blame'', ''shortlog'', ''rev-parse'', ''describe'']"

definition SYSTEMCTL_READ_SUBCOMMANDS :: "string list" where
  "SYSTEMCTL_READ_SUBCOMMANDS = [''status'', ''is-active'', ''is-enabled'', ''list-units'', ''list-timers'', ''show'']"

definition write_redirect :: rx where
  "write_redirect = seqs [separator, Star Digit, lit CHR ''>'', Opt (lit CHR ''>''), Star Ws,
     NotAhead (Alt (Seq (word_lit ''/dev/null'') WordBoundary) (seqs [lit CHR ''&'', Plus Digit, WordBoundary])),
     Plus NonWs]"

definition write_pipe :: rx where
  "write_pipe = seqs [lit CHR ''|'', Star Ws,
     alts [word_i ''tee'', word_i ''dd'', word_i ''sh'', word_i ''bash'', word_i ''zsh'', word_i ''python'', word_i ''node''],
     WordBoundary]"

definition isReadOnlySegment :: "string \<Rightarrow> bool" where
  "isReadOnlySegment segment =
     (let tokens = segmentTokens segment; verb = token tokens 0; sub = token tokens 1 in
      if verb = '''' then True
      else if verb = ''docker'' then sub \<in> set DOCKER_READ_SUBCOMMANDS
      else if verb = ''kubectl'' \<or> verb = ''k'' then sub \<in> set KUBECTL_READ_SUBCOMMANDS
      else if verb = ''git'' then sub \<in> set GIT_READ_SUBCOMMANDS
      else if verb = ''systemctl'' then sub \<in> set SYSTEMCTL_READ_SUBCOMMANDS
      else verb \<in> set READ_ONLY_VERBS)"

definition isReadOnlyTerminalCommand :: "string \<Rightarrow> bool" where
  "isReadOnlyTerminalCommand command =
     (let trimmed = js_trim command in
      if trimmed = '''' then True
      else let normalized = stripHarmlessRedirects trimmed in
        if normalized = '''' then True
        else if rx_test write_redirect normalized \<or> rx_test write_pipe normalized then False
        else if severe (checkCommand trimmed None) then False
        else list_all isReadOnlySegment (splitCommandSegments normalized))"

definition shouldRequireTerminalApproval ::
    "whitelists \<Rightarrow> string \<Rightarrow> approval_mode \<Rightarrow> whitelist_scope option \<Rightarrow> bool" where
  "shouldRequireTerminalApproval w command mode scope =
     (if severe (checkCommand command None) then True
      else if isCommandWhitelisted w command scope then False
      else case mode of Strict \<Rightarrow> True | Loose \<Rightarrow> False | View \<Rightarrow> \<not> isReadOnlyTerminalCommand command)"

definition decideInlineTerminalApproval ::
    "whitelists \<Rightarrow> approval_mode option \<Rightarrow> string \<Rightarrow> string \<Rightarrow> string option \<Rightarrow> bool" where
  "decideInlineTerminalApproval w setting command sessionId conversationId =
     shouldRequireTerminalApproval w command (resolveTerminalApprovalMode setting)
       (Some \<lparr> ws_conversationId = conversationId, ws_terminalSessionId = Some sessionId \<rparr>)"

section \<open>Danger cannot be hidden\<close>

text \<open>A pattern that looks at nothing outside its match matches wherever the text stands.\<close>

primrec unanchored :: "rx \<Rightarrow> bool" where
  "unanchored (Cls P) = True"
| "unanchored Eps = True"
| "unanchored (Seq r q) = (unanchored r \<and> unanchored q)"
| "unanchored (Alt r q) = (unanchored r \<and> unanchored q)"
| "unanchored (Star r) = unanchored r"
| "unanchored LineStart = False"
| "unanchored LineEnd = False"
| "unanchored WordBoundary = False"
| "unanchored (NotAhead r) = False"

lemma rx_match_shift:
  "unanchored r \<Longrightarrow> rx_match r s i j \<Longrightarrow> i \<le> length s
     \<Longrightarrow> rx_match r (p @ s @ q) (length p + i) (length p + j)"
proof (induction r arbitrary: i j)
  case (Cls P)
  then show ?case by (auto simp: nth_append)
next
  case (Seq r1 r2)
  then obtain k where k: "rx_match r1 s i k" "rx_match r2 s k j" by auto
  with rx_match_le [of r1 s i k] Seq.prems have "k \<le> length s" by simp
  with k Seq.prems have "rx_match r1 (p @ s @ q) (length p + i) (length p + k)"
      "rx_match r2 (p @ s @ q) (length p + k) (length p + j)" by (auto intro: Seq.IH)
  then show ?case by auto
next
  case (Star r)
  from Star.prems(2) have "steps_to (rx_match r s) i j" by simp
  then have "steps_to (rx_match r (p @ s @ q)) (length p + i) (length p + j)" using Star.prems(3)
  proof induction
    case (go i k j)
    then have "k \<le> length s" using rx_match_le [of r s i k] by simp
    with go Star.IH [of i k] Star.prems(1) show ?case by (auto intro: steps_to.go)
  qed (rule steps_to.stay)
  then show ?case by simp
qed auto

lemma rx_test_shift: "unanchored r \<Longrightarrow> rx_test r s \<Longrightarrow> rx_test r (p @ s @ q)"
proof -
  assume r: "unanchored r" and "rx_test r s"
  then obtain i j where "i \<le> length s" "rx_match r s i j" by (auto simp: rx_test_iff)
  with r have "rx_match r (p @ s @ q) (length p + i) (length p + j)" by (intro rx_match_shift)
  then show ?thesis by (rule rx_testI) (use \<open>i \<le> length s\<close> in simp)
qed

lemma fold_max_level:
  "danger_rank (fold (\<lambda>m acc. if danger_rank acc < danger_rank m then m else acc) ms a)
     = fold max (map danger_rank ms) (danger_rank a)"
  by (induction ms arbitrary: a) (auto simp: max_def)

lemma fold_max_ge: "n \<le> fold max xs (a :: nat) \<longleftrightarrow> n \<le> a \<or> (\<exists>x \<in> set xs. n \<le> x)"
  by (induction xs arbitrary: a) (auto simp: le_max_iff_disj)

lemma severe_iff:
  "severe (checkCommand command None)
     \<longleftrightarrow> (\<exists>rule \<in> set DANGEROUS_PATTERNS. LevelHigh \<le> snd rule \<and> rx_test (fst rule) command)"
proof -
  have high: "l = LevelHigh \<or> l = LevelCritical \<longleftrightarrow> 2 \<le> danger_rank l" for l by (cases l) simp_all
  let ?ms = "map snd (filter (\<lambda>rule. rx_test (fst rule) command) DANGEROUS_PATTERNS)"
  have "severe (checkCommand command None) \<longleftrightarrow> ?ms \<noteq> [] \<and> (\<exists>l \<in> set ?ms. 2 \<le> danger_rank l)"
    by (simp add: severe_def checkCommand_def Let_def high fold_max_level fold_max_ge)
  also have "\<dots> \<longleftrightarrow> (\<exists>rule \<in> set DANGEROUS_PATTERNS. LevelHigh \<le> snd rule \<and> rx_test (fst rule) command)"
    by (force simp: less_eq_danger_level_def filter_empty_conv)
  finally show ?thesis .
qed

lemma severe_asks: "severe (checkCommand command None) \<Longrightarrow> shouldRequireTerminalApproval w command mode scope"
  by (simp add: shouldRequireTerminalApproval_def)

section \<open>What the whitelists grant\<close>

datatype wl_op = GrantSession string whitelist_scope | GrantAlways string | Clear clear_target

primrec wl_apply :: "wl_op \<Rightarrow> whitelists \<Rightarrow> whitelists" where
  "wl_apply (GrantSession command scope) w = fst (addSessionCommandWhitelist command scope w)"
| "wl_apply (GrantAlways command) w = fst (addPermanentCommandWhitelist command w)"
| "wl_apply (Clear t) w = clearSessionCommandWhitelist t w"

text \<open>The contract: what a call grants to an identifier, and which identifiers it clears.\<close>

fun grants :: "wl_op \<Rightarrow> string \<Rightarrow> string \<Rightarrow> bool" where
  "grants (GrantSession command scope) i key \<longleftrightarrow> i \<in> set (scopeIds (Some scope)) \<and> key \<in> set (commandApprovalKeys command)"
| "grants _ i key \<longleftrightarrow> False"

fun clears :: "wl_op \<Rightarrow> string \<Rightarrow> bool" where
  "clears (Clear ClearAll) i \<longleftrightarrow> True"
| "clears (Clear (ClearId j)) i \<longleftrightarrow> i = j"
| "clears (Clear (ClearScope scope)) i \<longleftrightarrow> i \<in> set (scopeIds (Some scope))"
| "clears _ i \<longleftrightarrow> False"

definition granted_in :: "wl_op list \<Rightarrow> string \<Rightarrow> string \<Rightarrow> bool" where
  "granted_in ops i key \<longleftrightarrow>
     (\<exists>before op after. ops = before @ op # after \<and> grants op i key \<and> (\<forall>later \<in> set after. \<not> clears later i))"

definition granted_always :: "wl_op list \<Rightarrow> string \<Rightarrow> bool" where
  "granted_always ops key \<longleftrightarrow> (\<exists>command. GrantAlways command \<in> set ops \<and> key \<in> set (commandApprovalKeys command))"

definition session_keys :: "whitelists \<Rightarrow> string \<Rightarrow> string set" where
  "session_keys w i = (case rget (wl_sessions w) i of None \<Rightarrow> {} | Some ks \<Rightarrow> set ks)"

lemma set_add_new [simp]: "set (add_new keys prev) = set prev \<union> set keys"
proof -
  have "set (fold (\<lambda>k acc. if k \<in> set acc then acc else acc @ [k]) keys prev) = set prev \<union> set keys"
    by (induction keys arbitrary: prev) auto
  then show ?thesis by (simp add: add_new_def)
qed

lemma session_keys_grant:
  "(case rget (fold (grant_to keys) ids r) i of None \<Rightarrow> {} | Some ks \<Rightarrow> set ks)
     = (case rget r i of None \<Rightarrow> {} | Some ks \<Rightarrow> set ks) \<union> (if i \<in> set ids then set keys else {})"
  by (induction ids arbitrary: r) (auto simp: grant_to_def store_simps split: option.splits if_splits)

lemma rget_fold_rdel: "rget (fold rdel ids r) i = (if i \<in> set ids then None else rget r i)"
  by (induction ids arbitrary: r) (auto simp: store_simps)

lemma session_keys_step:
  "session_keys (wl_apply op w) i = (if clears op i then {} else session_keys w i \<union> {key. grants op i key})"
  by (cases "(op, i)" rule: clears.cases)
    (auto simp: session_keys_def addSessionCommandWhitelist_def addPermanentCommandWhitelist_def Let_def
      clearSessionCommandWhitelist_def session_keys_grant rget_fold_rdel store_simps)

lemma permanent_step:
  "set (wl_permanent (wl_apply op w)) = set (wl_permanent w) \<union> {key. granted_always [op] key}"
  by (cases op) (auto simp: granted_always_def addSessionCommandWhitelist_def addPermanentCommandWhitelist_def Let_def
      clearSessionCommandWhitelist_def split: clear_target.split)

lemma granted_in_snoc:
  "granted_in (ops @ [op]) i key \<longleftrightarrow> grants op i key \<or> granted_in ops i key \<and> \<not> clears op i"
proof
  assume "granted_in (ops @ [op]) i key"
  then obtain before opx after where s: "ops @ [op] = before @ opx # after" "grants opx i key"
      "\<forall>later \<in> set after. \<not> clears later i" by (auto simp: granted_in_def)
  then show "grants op i key \<or> granted_in ops i key \<and> \<not> clears op i"
    by (cases after rule: rev_cases) (auto simp: granted_in_def)
next
  assume "grants op i key \<or> granted_in ops i key \<and> \<not> clears op i"
  then show "granted_in (ops @ [op]) i key"
  proof
    assume "grants op i key"
    then show ?thesis unfolding granted_in_def by (intro exI [of _ ops] exI [of _ op] exI [of _ "[]"]) simp
  next
    assume g: "granted_in ops i key \<and> \<not> clears op i"
    then obtain before opx after where "ops = before @ opx # after" "grants opx i key"
        "\<forall>later \<in> set after. \<not> clears later i" by (auto simp: granted_in_def)
    with g show ?thesis unfolding granted_in_def
      by (intro exI [of _ before] exI [of _ opx] exI [of _ "after @ [op]"]) auto
  qed
qed

lemma grants_not_clears: "grants op i key \<Longrightarrow> \<not> clears op i"
  by (cases op) auto

lemma session_keys_run:
  assumes "wl_sessions w = []"
  shows "key \<in> session_keys (fold wl_apply ops w) i \<longleftrightarrow> granted_in ops i key"
proof (induction ops rule: rev_induct)
  case Nil
  then show ?case using assms by (simp add: session_keys_def granted_in_def)
next
  case (snoc op ops)
  then show ?case by (auto simp: session_keys_step granted_in_snoc dest: grants_not_clears)
qed

lemma permanent_run: "set (wl_permanent (fold wl_apply ops w)) = set (wl_permanent w) \<union> {key. granted_always ops key}"
  by (induction ops rule: rev_induct) (auto simp: permanent_step granted_always_def)

lemma whitelisted_iff:
  "isCommandWhitelisted w command scope \<longleftrightarrow> commandApprovalKeys command \<noteq> []
     \<and> (\<forall>key \<in> set (commandApprovalKeys command). key \<in> set (wl_permanent w)
          \<or> (\<exists>i \<in> set (scopeIds scope). key \<in> session_keys w i))"
  by (auto simp: isCommandWhitelisted_def has_grant_def Let_def list_all_iff list_ex_iff session_keys_def
      split: option.splits)

definition no_whitelists :: whitelists where
  "no_whitelists = \<lparr> wl_permanent = [], wl_sessions = [] \<rparr>"

section \<open>Properties\<close>


text \<open>(C2) A command is whitelisted exactly when every part of it was granted: each of its keys is in the saved
  list, was granted for ever, or was granted in one of the sessions of the scope after that session was last
  cleared. No other call in the history matters.\<close>

theorem whitelisted_exactly_when_granted:
  assumes "wl_sessions w = []"
  shows "isCommandWhitelisted (fold wl_apply ops w) command scope \<longleftrightarrow> commandApprovalKeys command \<noteq> []
    \<and> (\<forall>key \<in> set (commandApprovalKeys command). key \<in> set (wl_permanent w) \<or> granted_always ops key
         \<or> (\<exists>i \<in> set (scopeIds scope). granted_in ops i key))"
  unfolding whitelisted_iff permanent_run session_keys_run [OF assms] by blast

text \<open>A grant stays in its session: granting a command in one conversation or terminal changes no decision
  in another one, wherever the grant stands in the history.\<close>

theorem grant_stays_in_its_session:
  assumes "wl_sessions w = []" "set (scopeIds (Some granted)) \<inter> set (scopeIds scope) = {}"
  shows "shouldRequireTerminalApproval (fold wl_apply (ops @ GrantSession c granted # ops') w) command mode scope
    = shouldRequireTerminalApproval (fold wl_apply (ops @ ops') w) command mode scope"
proof -
  let ?ops = "ops @ GrantSession c granted # ops'"
  have "granted_in ?ops i key \<longleftrightarrow> granted_in (ops @ ops') i key" if "i \<in> set (scopeIds scope)" for i key
  proof -
    have no: "\<not> grants (GrantSession c granted) i key" using that assms(2) by auto
    show ?thesis
      by (induction ops' rule: rev_induct)
        (use no granted_in_snoc [of "ops" "GrantSession c granted"] in \<open>auto simp: granted_in_snoc simp flip: append_assoc append_Cons\<close>)
  qed
  moreover have "granted_always ?ops key \<longleftrightarrow> granted_always (ops @ ops') key" for key
    by (auto simp: granted_always_def)
  ultimately have "isCommandWhitelisted (fold wl_apply ?ops w) command scope
      = isCommandWhitelisted (fold wl_apply (ops @ ops') w) command scope"
    unfolding whitelisted_iff permanent_run session_keys_run [OF assms(1)] by auto
  then show ?thesis by (simp add: shouldRequireTerminalApproval_def)
qed



definition chat_scope :: "string \<Rightarrow> whitelist_scope" where
  "chat_scope c = \<lparr> ws_conversationId = Some c, ws_terminalSessionId = None \<rparr>"

theorem whitelisted_exactly_when_granted_witness:
  "isCommandWhitelisted (fold wl_apply [GrantSession ''du -h'' (chat_scope ''c1'')] no_whitelists) ''du /''
     (Some (chat_scope ''c1''))"
proof -
  have keys: "commandApprovalKeys ''du -h'' = [''du'']" "commandApprovalKeys ''du /'' = [''du'']" by code_simp+
  have "granted_in [GrantSession ''du -h'' (chat_scope ''c1'')] ''ai:c1'' ''du''"
    unfolding granted_in_def by (intro exI [of _ "[]"]) (simp add: keys scopeIds_def chat_scope_def nonblank_def js_trim_def
      trim_start_def trim_end_def js_ws_def)
  then show ?thesis
    by (subst whitelisted_exactly_when_granted)
      (auto simp: no_whitelists_def keys scopeIds_def chat_scope_def nonblank_def js_trim_def trim_start_def trim_end_def
        js_ws_def)
qed

theorem grant_stays_in_its_session_witness:
  "shouldRequireTerminalApproval (fold wl_apply ([] @ GrantSession ''touch x'' (chat_scope ''c1'') # []) no_whitelists) ''touch x'' View
     (Some (chat_scope ''c2''))"
proof (subst grant_stays_in_its_session)
  show "wl_sessions no_whitelists = []" by (simp add: no_whitelists_def)
  show "set (scopeIds (Some (chat_scope ''c1''))) \<inter> set (scopeIds (Some (chat_scope ''c2''))) = {}" by code_simp
  show "shouldRequireTerminalApproval (fold wl_apply ([] @ []) no_whitelists) ''touch x'' View (Some (chat_scope ''c2''))"
    by code_simp
qed

end
