(* ===== verification/ToolGate.thy ===== *)
theory ToolGate
  imports CommandPolicy SqlLex
begin

text \<open>
  The gate every tool call of the assistant passes.

  \<^item> \<^bold>\<open>frontend/src/lib/ai/sqlSafety.ts\<close>: which SQL is read-only;
  \<^item> \<^bold>\<open>frontend/src/lib/ai/toolRisk.ts\<close>: the risk of a call from its command, its tool and its environment;
  \<^item> \<^bold>\<open>frontend/src/lib/ai/toolGate.ts\<close>: the decision to run, to ask, or (never taken) to refuse.

  The record \<open>gate_env\<close> holds \<open>JSON.parse\<close> (\<open>None\<close>: it throws), \<open>JSON.stringify\<close> (plain and indented),
  \<open>String\<close>, and the environment of the resource that \<open>getResourceById\<close> finds. Reading
  a property of \<open>null\<close> throws: the result is \<open>None\<close>. Texts shown to the user are constructors. A byte order
  mark is no code unit below 256, so its removal is left out.
\<close>

section \<open>Read-only SQL\<close>

lemma length_js_trim: "length (js_trim s) \<le> length s"
proof -
  have "length (trim_start s) \<le> length s" by (simp add: trim_start_def length_dropWhile_le)
  moreover have "length (trim_end t) \<le> length t" for t by (metis length_dropWhile_le length_rev trim_end_def)
  ultimately show ?thesis unfolding js_trim_def by (metis le_trans)
qed

lemma starts_with_nonempty: "starts_with s p \<Longrightarrow> p \<noteq> '''' \<Longrightarrow> 0 < length s"
  by (cases s) (auto simp: starts_with_iff)

lemma shorter_rest:
  assumes "0 < length s"
  shows "length (js_trim (drop (Suc n) s)) < length s"
proof -
  have "length (js_trim (drop (Suc n) s)) \<le> length s - Suc n" using length_js_trim [of "drop (Suc n) s"] by simp
  also have "\<dots> < length s" using assms by (rule diff_less [OF zero_less_Suc])
  finally show ?thesis .
qed

function strip_trivia :: "string \<Rightarrow> string" where
  "strip_trivia s =
     (if starts_with s ''--'' \<or> starts_with s ''#'' then
        (case indexOf s [newline] 0 of None \<Rightarrow> '''' | Some nl \<Rightarrow> strip_trivia (js_trim (drop (Suc nl) s)))
      else if starts_with s ''/*'' then
        (case indexOf s ''*/'' 0 of None \<Rightarrow> '''' | Some e \<Rightarrow> strip_trivia (js_trim (drop (e + 2) s)))
      else s)"
  by pat_completeness auto
termination
proof (relation "measure length", goal_cases)
  case (2 s nl)
  then have "0 < length s" using starts_with_nonempty [of s "''--''"] starts_with_nonempty [of s "''#''"] by blast
  then show ?case using shorter_rest [of s nl] by simp
next
  case (3 s e)
  then have "0 < length s" using starts_with_nonempty [of s "''/*''"] by blast
  then show ?case using shorter_rest [of s "Suc e"] by simp
qed simp

declare strip_trivia.simps [simp del]

definition stripSqlLeadingTrivia :: "string \<Rightarrow> string" where
  "stripSqlLeadingTrivia sql = strip_trivia (js_trim sql)"

text \<open>The loop of the rough splitter: the text so far, the three flags, and the characters before and after.\<close>

fun rough_from :: "string \<Rightarrow> bool \<Rightarrow> bool \<Rightarrow> bool \<Rightarrow> char option \<Rightarrow> string \<Rightarrow> string list" where
  "rough_from buf inS inD inB prev [] = (if js_trim buf \<noteq> '''' then [js_trim buf] else [])"
| "rough_from buf inS inD inB prev (ch # rest) =
     (if ch = CHR 0x27 \<and> \<not> inD \<and> \<not> inB \<and> prev \<noteq> Some backslash then rough_from (buf @ [ch]) (\<not> inS) inD inB (Some ch) rest
      else if ch = CHR 0x22 \<and> \<not> inS \<and> \<not> inB \<and> prev \<noteq> Some backslash then rough_from (buf @ [ch]) inS (\<not> inD) inB (Some ch) rest
      else if ch = CHR 0x60 \<and> \<not> inS \<and> \<not> inD then rough_from (buf @ [ch]) inS inD (\<not> inB) (Some ch) rest
      else if ch = CHR '';'' \<and> \<not> inS \<and> \<not> inD \<and> \<not> inB then
        (if js_trim buf \<noteq> '''' then [js_trim buf] else []) @ rough_from '''' inS inD inB (Some ch) rest
      else rough_from (buf @ [ch]) inS inD inB (Some ch) rest)"

definition roughStatements :: "string \<Rightarrow> string list" where
  "roughStatements sql = rough_from '''' False False False None sql"

definition WRITE_KEYWORDS :: "string list" where
  "WRITE_KEYWORDS = [''insert'', ''update'', ''delete'', ''drop'', ''truncate'', ''alter'', ''create'', ''replace'',
     ''merge'', ''grant'', ''revoke'', ''call'', ''execute'', ''exec'', ''load'', ''copy'', ''optimize'', ''vacuum'',
     ''lock'', ''unlock'', ''kill'']"

definition write_keyword :: rx where
  "write_keyword = seqs [WordBoundary, alts (map word_i WRITE_KEYWORDS), WordBoundary]"

definition isSafeSessionStatement :: "string \<Rightarrow> bool" where
  "isSafeSessionStatement normalized =
     rx_test (seqs [LineStart, alts [word_lit ''use'', word_lit ''set''], WordBoundary]) normalized"

definition READ_STARTS :: "string list" where
  "READ_STARTS = [''select'', ''show'', ''describe'', ''desc'', ''explain'', ''pragma'', ''values'']"

definition isReadOnlyStatement :: "string \<Rightarrow> bool" where
  "isReadOnlyStatement stmt =
     (let head = lower (stripSqlLeadingTrivia stmt) in
      if head = '''' then True
      else let normalized = trim_start (dropWhile (\<lambda>c. c = CHR ''('') head) in
        if isSafeSessionStatement normalized then True
        else if list_ex (starts_with normalized) READ_STARTS then True
        else if starts_with normalized ''with'' then \<not> rx_test write_keyword normalized
        else False)"

definition isReadOnlySql :: "string \<Rightarrow> bool" where
  "isReadOnlySql sql =
     (let trimmed = js_trim sql in
      if trimmed = '''' then False
      else let statements = roughStatements trimmed in statements \<noteq> [] \<and> list_all isReadOnlyStatement statements)"

definition contains :: "string \<Rightarrow> string \<Rightarrow> bool" where
  "contains s sub \<longleftrightarrow> index_sub sub s \<noteq> None"

definition str_field :: "string \<Rightarrow> json \<Rightarrow> string option" where
  "str_field k v = (case field k v of Some (JString s) \<Rightarrow> Some s | _ \<Rightarrow> None)"

text \<open>\<open>JSON.parse(raw || "{}")\<close>.\<close>

definition parse_or_empty :: "(string \<Rightarrow> json option) \<Rightarrow> string \<Rightarrow> json option" where
  "parse_or_empty json_parse raw = json_parse (if raw = '''' then ''{}'' else raw)"

definition SAFE_TITLES :: "string list" where
  "SAFE_TITLES = [''get_databases'', ''get_tables'', ''get_table_info'', ''show_processlist'', ''slow_log'',
     ''list_users'', ''list_character_sets'', ''preview_table'']"

definition isSafeDatabaseToolPermission :: "(string \<Rightarrow> json option) \<Rightarrow> string \<Rightarrow> string \<Rightarrow> bool" where
  "isSafeDatabaseToolPermission json_parse toolTitle rawInput =
     (let title = lower toolTitle in
      if list_ex (contains title) SAFE_TITLES then True
      else if \<not> contains title ''execute_sql'' \<and> \<not> contains title ''run_sql'' then False
      else (case parse_or_empty json_parse rawInput of
              None \<Rightarrow> False
            | Some parsed \<Rightarrow> (case str_field ''sql'' parsed of None \<Rightarrow> False | Some sql \<Rightarrow> isReadOnlySql sql)))"

section \<open>Risk\<close>

record risk_assessment =
  ra_risk :: danger_level
  ra_riskCheck :: "danger_check option"
  ra_environment :: string
  ra_needsApproval :: bool

record danger_keywords =
  dk_keywords :: "string list"
  dk_level :: danger_level

definition docker_action :: danger_keywords where
  "docker_action = \<lparr> dk_keywords = [''kill'', ''remove'', ''rm'', ''prune'', ''stop'', ''restart''], dk_level = LevelHigh \<rparr>"

definition docker_image_action :: danger_keywords where
  "docker_image_action = \<lparr> dk_keywords = [''rmi'', ''remove'', ''prune''], dk_level = LevelHigh \<rparr>"

definition docker_volume_action :: danger_keywords where
  "docker_volume_action = \<lparr> dk_keywords = [''remove'', ''rm'', ''prune''], dk_level = LevelCritical \<rparr>"

definition files_write :: danger_keywords where
  "files_write = \<lparr> dk_keywords = [''/etc/'', ''/boot/'', ''/sys/'', ''/proc/'', ''C:'' @ [backslash] @ ''Windows'' @ [backslash],
     ''C:'' @ [backslash] @ ''Program Files''], dk_level = LevelHigh \<rparr>"

definition env_risk :: "string \<Rightarrow> danger_level" where
  "env_risk environment = (if environment = ''prod'' then LevelHigh else if environment = ''staging'' then LevelMedium
     else LevelLow)"

text \<open>What the risk is judged by; text that is no JSON is taken for a command.\<close>

definition risk_args :: "(string \<Rightarrow> json option) \<Rightarrow> string \<Rightarrow> json" where
  "risk_args json_parse args =
     (if args = '''' then JObj [] else case json_parse args of None \<Rightarrow> JObj [(''command'', JString args)] | Some v \<Rightarrow> v)"

fun first_some :: "'a option list \<Rightarrow> 'a option" where
  "first_some [] = None"
| "first_some (x # xs) = (case x of None \<Rightarrow> first_some xs | Some v \<Rightarrow> Some v)"

definition risk_command :: "string \<Rightarrow> json \<Rightarrow> string option" where
  "risk_command toolName parsed =
     first_some [str_field ''command'' parsed, str_field ''cmd'' parsed,
       if contains toolName ''ssh_create_run_script'' then str_field ''content'' parsed else None,
       str_field ''sql'' parsed, str_field ''action'' parsed, str_field ''path'' parsed]"

text \<open>The rule for the tool, with the text it looks at.\<close>

definition keyword_rule :: "string \<Rightarrow> json \<Rightarrow> (danger_keywords \<times> string) option" where
  "keyword_rule toolName parsed =
     (case str_field ''action'' parsed of
        Some action \<Rightarrow>
          if contains toolName ''docker_container_action'' then Some (docker_action, lower action)
          else if contains toolName ''docker_image'' then Some (docker_image_action, lower action)
          else if contains toolName ''docker_volume'' then Some (docker_volume_action, lower action)
          else if contains toolName ''files_write'' then map_option (Pair files_write) (str_field ''path'' parsed)
          else None
      | None \<Rightarrow>
          if contains toolName ''files_write'' then map_option (Pair files_write) (str_field ''path'' parsed) else None)"

definition keyword_hit :: "string \<Rightarrow> json \<Rightarrow> danger_keywords option" where
  "keyword_hit toolName parsed =
     (case keyword_rule toolName parsed of
        None \<Rightarrow> None
      | Some (rule, text) \<Rightarrow> if list_ex (contains text) (dk_keywords rule) then Some rule else None)"

definition evaluateToolRisk ::
    "(string \<Rightarrow> json option) \<Rightarrow> (string \<Rightarrow> string option) \<Rightarrow> string \<Rightarrow> string \<Rightarrow> string option \<Rightarrow> risk_assessment option" where
  "evaluateToolRisk json_parse resource_env toolName args resourceId =
     (let environment = (case resourceId of None \<Rightarrow> ''unknown''
            | Some i \<Rightarrow> if i = '''' then ''unknown'' else (case resource_env i of None \<Rightarrow> ''unknown'' | Some e \<Rightarrow> e));
          parsed = risk_args json_parse args in
      if parsed = JNull then None
      else (let check0 = (case risk_command toolName parsed of
                  None \<Rightarrow> None | Some c \<Rightarrow> if c = '''' then None else Some (checkCommand c (Some environment)));
                risk0 = (case check0 of None \<Rightarrow> LevelLow | Some d \<Rightarrow> dc_level d);
                (toolRisk, riskCheck) =
                  (case keyword_hit toolName parsed of
                     None \<Rightarrow> (risk0, check0)
                   | Some rule \<Rightarrow> (maxDangerLevel risk0 (dk_level rule),
                       (case check0 of
                          None \<Rightarrow> Some \<lparr> dc_safe = False, dc_level = dk_level rule, dc_matches = [dk_level rule] \<rparr>
                        | Some d \<Rightarrow> Some d)));
                risk = maxDangerLevel toolRisk (env_risk environment)
            in Some \<lparr> ra_risk = risk, ra_riskCheck = riskCheck, ra_environment = environment,
                       ra_needsApproval = (risk \<noteq> LevelLow) \<rparr>))"

section \<open>The gate\<close>

datatype draft_kind = KindSql | KindShell | KindDocker | KindSsh | KindFiles | KindTerminal | KindGeneric
datatype gate_decision = Allow | Approve | Deny
datatype gate_reason = PolicyAsks | DangerousTool | ReadOnlyTool | ReadOnlyQuery | WriteQuery | LowRisk | RiskAsks

datatype tool_args = ArgsText string | ArgsValue json

record tool_input =
  ti_toolName :: string
  ti_args :: tool_args
  ti_resourceId :: "string option"
  ti_terminalApprovalRequired :: bool

record gate_result =
  g_decision :: gate_decision
  g_risk :: danger_level
  g_riskCheck :: "danger_check option"
  g_environment :: string
  g_reason :: gate_reason
  g_kind :: draft_kind
  g_title :: string
  g_confirm_suffix :: bool
  g_preview :: string

definition READ_ONLY_TOOLS :: "string list" where
  "READ_ONLY_TOOLS = [''get_databases'', ''get_tables'', ''get_table_info'', ''show_processlist'', ''slow_log'',
     ''list_containers'', ''container_logs'', ''inspect_container'', ''list_connections'', ''list_users'',
     ''list_character_sets'', ''preview_table'', ''get_stats'', ''list_tunnels'', ''files_list'', ''files_read'',
     ''files_search'', ''files_stat'', ''studio_list'', ''studio_read'', ''studio_validate'']"

definition ALWAYS_APPROVE_TOOLS :: "string list" where
  "ALWAYS_APPROVE_TOOLS = [''kill_query'', ''create_database'', ''docker_exec'', ''studio_write'']"

definition argsToRecord :: "(string \<Rightarrow> json option) \<Rightarrow> tool_args \<Rightarrow> json" where
  "argsToRecord json_parse args =
     (case args of
        ArgsText t \<Rightarrow> (case parse_or_empty json_parse t of None \<Rightarrow> JObj [(''raw'', JString t)] | Some v \<Rightarrow> v)
      | ArgsValue v \<Rightarrow> v)"

definition argsToJson :: "(json \<Rightarrow> string) \<Rightarrow> tool_args \<Rightarrow> string" where
  "argsToJson json_string args = (case args of ArgsText t \<Rightarrow> t | ArgsValue v \<Rightarrow> json_string v)"

definition inferKind :: "string \<Rightarrow> draft_kind" where
  "inferKind toolName =
     (let n = lower toolName in
      if contains n ''database'' \<or> contains n ''sql'' then KindSql
      else if contains n ''ssh'' then KindSsh
      else if contains n ''docker'' then KindDocker
      else if contains n ''files'' \<or> contains n ''file_'' then KindFiles
      else if contains n ''terminal'' then KindTerminal
      else if contains n ''shell'' then KindShell
      else KindGeneric)"

definition shortPreview :: "(json \<Rightarrow> string) \<Rightarrow> json \<Rightarrow> string" where
  "shortPreview json_pretty args =
     (let sql = str_field ''sql'' args; command = str_field ''command'' args; action = str_field ''action'' args;
          path = str_field ''path'' args in
      if truthy sql then take 2000 (the sql)
      else if truthy command then take 2000 (the command)
      else if truthy action then ''action='' @ the action
      else if truthy path then take 500 (the path)
      else take 2000 (json_pretty args))"

definition isKnownReadOnlyTool :: "string \<Rightarrow> bool" where
  "isKnownReadOnlyTool toolName = list_ex (contains (lower toolName)) READ_ONLY_TOOLS"

definition mustApproveTool :: "string \<Rightarrow> bool" where
  "mustApproveTool toolName = list_ex (contains (lower toolName)) ALWAYS_APPROVE_TOOLS"

definition runs_sql :: "string \<Rightarrow> bool" where
  "runs_sql toolName \<longleftrightarrow> contains (lower toolName) ''execute_sql'' \<or> contains (lower toolName) ''run_sql''"

definition at_least :: "danger_level \<Rightarrow> danger_level \<Rightarrow> danger_level" where
  "at_least l risk = (if risk = LevelLow then l else risk)"

definition strip_omni :: "string \<Rightarrow> string" where
  "strip_omni toolName = take 120 (if starts_with toolName ''omni_'' then drop 5 toolName else toolName)"

text \<open>What the gate calls: the run time's conversions and the resource registry.\<close>

record gate_env =
  ge_parse :: "string \<Rightarrow> json option"
  ge_string :: "json \<Rightarrow> string"
  ge_pretty :: "json \<Rightarrow> string"
  ge_show :: "json \<Rightarrow> string"
  ge_environment :: "string \<Rightarrow> string option"

definition decideToolInvocation :: "gate_env \<Rightarrow> tool_input \<Rightarrow> gate_result option" where
  "decideToolInvocation env input =
     (let toolName = ti_toolName input;
          args = argsToRecord (ge_parse env) (ti_args input) in
      if args = JNull then None
      else (let argsJson = argsToJson (ge_string env) (ti_args input);
                resourceId = first_some [ti_resourceId input, str_field ''resource_id'' args,
                  str_field ''connection_id'' args, str_field ''connection_name'' args];
                title = strip_omni toolName;
                base = \<lparr> g_decision = Allow, g_risk = LevelLow, g_riskCheck = None, g_environment = ''unknown'',
                  g_reason = ReadOnlyTool, g_kind = inferKind toolName, g_title = title, g_confirm_suffix = False,
                  g_preview = shortPreview (ge_pretty env) args \<rparr>;
                risk = evaluateToolRisk (ge_parse env) (ge_environment env) toolName argsJson resourceId;
                judged = (\<lambda>r. base\<lparr>g_risk := ra_risk r, g_riskCheck := ra_riskCheck r, g_environment := ra_environment r\<rparr>)
            in
            if ti_terminalApprovalRequired input then
              map_option (\<lambda>r. (judged r)\<lparr>g_decision := Approve, g_risk := at_least LevelMedium (ra_risk r),
                g_reason := PolicyAsks, g_confirm_suffix := True\<rparr>) risk
            else if mustApproveTool toolName then
              map_option (\<lambda>r. (judged r)\<lparr>g_decision := Approve, g_risk := at_least LevelHigh (ra_risk r),
                g_riskCheck := (case ra_riskCheck r of Some d \<Rightarrow> Some d
                  | None \<Rightarrow> Some \<lparr> dc_safe = False, dc_level = LevelHigh, dc_matches = [LevelHigh] \<rparr>),
                g_reason := DangerousTool, g_confirm_suffix := True\<rparr>) risk
            else if isKnownReadOnlyTool toolName then Some base
            else if runs_sql toolName \<and> str_field ''sql'' args \<noteq> None then
              (let sql = the (str_field ''sql'' args) in
               if isReadOnlySql sql then Some (base\<lparr>g_reason := ReadOnlyQuery, g_kind := KindSql, g_preview := sql\<rparr>)
               else map_option (\<lambda>r. (judged r)\<lparr>g_decision := Approve, g_risk := at_least LevelMedium (ra_risk r),
                 g_reason := WriteQuery, g_kind := KindSql, g_preview := sql,
                 g_title := (case str_field ''connection_name'' args of
                     None \<Rightarrow> title
                   | Some conn \<Rightarrow> conn @ '' / '' @ (case field ''database_name'' args of
                        None \<Rightarrow> '''' | Some JNull \<Rightarrow> '''' | Some v \<Rightarrow> ge_show env v))\<rparr>) risk)
            else map_option (\<lambda>r. if \<not> ra_needsApproval r then (judged r)\<lparr>g_reason := LowRisk\<rparr>
                   else (judged r)\<lparr>g_decision := Approve, g_reason := RiskAsks\<rparr>) risk))"

definition canAutoAllowAcp :: "gate_env \<Rightarrow> string \<Rightarrow> string \<Rightarrow> bool option" where
  "canAutoAllowAcp env toolTitle rawInput =
     (let decide = (\<lambda>v. decideToolInvocation env
            \<lparr> ti_toolName = toolTitle, ti_args = v, ti_resourceId = None, ti_terminalApprovalRequired = False \<rparr>);
          allowed = map_option (\<lambda>g. g_decision g = Allow)
      in if isSafeDatabaseToolPermission (ge_parse env) toolTitle rawInput then Some True
         else case parse_or_empty (ge_parse env) rawInput of
           None \<Rightarrow> allowed (decide (ArgsValue (JObj [])))
         | Some parsed \<Rightarrow>
             (case decide (case parsed of JString t \<Rightarrow> ArgsText t | _ \<Rightarrow> ArgsValue parsed) of
                None \<Rightarrow> allowed (decide (ArgsValue (JObj [])))
              | Some g \<Rightarrow> allowed (Some g)))"

section \<open>The rough splitter and the editor's scanner\<close>

text \<open>Text between semicolons, trimmed, without the blank parts.\<close>

definition nonblank_part :: "string \<Rightarrow> string list" where
  "nonblank_part raw = (if js_trim raw \<noteq> '''' then [js_trim raw] else [])"

fun parts_between :: "string \<Rightarrow> nat \<Rightarrow> nat list \<Rightarrow> string list" where
  "parts_between sql start [] = nonblank_part (drop start sql)"
| "parts_between sql start (k # ks) = nonblank_part (slice sql start k) @ parts_between sql (Suc k) ks"

definition plain_script :: "string \<Rightarrow> bool" where
  "plain_script sql \<longleftrightarrow> backslash \<notin> set sql \<and> \<not> contains sql ''--'' \<and> \<not> contains sql ''/*''"

lemma index_sub_None: "index_sub sub xs = None \<Longrightarrow> \<not> starts_with (drop k xs) sub"
proof (induction xs arbitrary: k)
  case Nil
  then show ?case by (auto simp: starts_with_def split: if_splits)
next
  case (Cons c cs)
  then show ?case by (cases k) (auto split: if_splits)
qed

lemma plain_no_comment:
  assumes "plain_script sql"
  shows "\<not> (at_pos sql k = Some CHR ''-'' \<and> at_pos sql (Suc k) = Some CHR ''-'')"
    "\<not> (at_pos sql k = Some CHR ''/'' \<and> at_pos sql (Suc k) = Some CHR ''*'')"
  using assms index_sub_None [of "''--''" sql k] index_sub_None [of "''/*''" sql k]
  by (simp_all add: plain_script_def contains_def starts_at)

lemma plain_not_escaped: "plain_script sql \<Longrightarrow> \<not> isEscaped sql i"
proof -
  assume "plain_script sql"
  then have "\<forall>c \<in> set (rev (take i sql)). c \<noteq> backslash"
    by (auto simp: plain_script_def dest: in_set_takeD)
  then have "takeWhile (\<lambda>c. c = backslash) (rev (take i sql)) = []"
    by (cases "rev (take i sql)") auto
  then show ?thesis by (simp add: isEscaped_def)
qed

text \<open>What one character does to the flags outside comments.\<close>

definition toggle :: "char \<Rightarrow> lex_flags \<Rightarrow> lex_flags" where
  "toggle ch f =
     (if ch = CHR 0x27 \<and> \<not> inDouble f \<and> \<not> inBacktick f then f\<lparr>inSingle := \<not> inSingle f\<rparr>
      else if ch = CHR 0x22 \<and> \<not> inSingle f \<and> \<not> inBacktick f then f\<lparr>inDouble := \<not> inDouble f\<rparr>
      else if ch = CHR 0x60 \<and> \<not> inSingle f \<and> \<not> inDouble f then f\<lparr>inBacktick := \<not> inBacktick f\<rparr>
      else f)"

lemma toggle_frames [simp]: "lineComment (toggle ch f) = lineComment f" "blockComment (toggle ch f) = blockComment f"
  by (simp_all add: toggle_def)

lemma plain_step:
  assumes "plain_script sql" "i < length sql" "\<not> lineComment f" "\<not> blockComment f"
  shows "stepLex sql i f = (i, toggle (sql ! i) f)"
  using plain_no_comment [OF assms(1), of i] plain_not_escaped [OF assms(1), of i] assms(2-4)
  by (auto simp: stepLex_def toggle_def Let_def at_pos_def)

lemma rough_step:
  assumes "prev \<noteq> Some backslash"
  shows "rough_from buf (inSingle f) (inDouble f) (inBacktick f) prev (ch # rest) =
    (if ch = CHR '';'' \<and> \<not> inSingle f \<and> \<not> inDouble f \<and> \<not> inBacktick f
     then nonblank_part buf @ rough_from '''' (inSingle f) (inDouble f) (inBacktick f) (Some ch) rest
     else (let g = toggle ch f in rough_from (buf @ [ch]) (inSingle g) (inDouble g) (inBacktick g) (Some ch) rest))"
  using assms by (auto simp: toggle_def nonblank_part_def Let_def)

lemma slice_snoc: "start \<le> i \<Longrightarrow> i < length sql \<Longrightarrow> slice sql start i @ [sql ! i] = slice sql start (Suc i)"
  by (simp add: slice_def Suc_diff_le take_Suc_conv_app_nth)

lemma rough_parts:
  assumes "plain_script sql"
  shows "start \<le> i \<Longrightarrow> i \<le> length sql \<Longrightarrow> \<not> lineComment f \<Longrightarrow> \<not> blockComment f \<Longrightarrow> prev \<noteq> Some backslash \<Longrightarrow>
    rough_from (slice sql start i) (inSingle f) (inDouble f) (inBacktick f) prev (drop i sql)
      = parts_between sql start (semicolons sql (length sql) i f)"
proof (induction "length sql - i" arbitrary: start i f prev)
  case 0
  then show ?case by (simp add: semicolons.simps slice_def nonblank_part_def)
next
  case (Suc n)
  then have i: "i < length sql" by simp
  then have d: "drop i sql = sql ! i # drop (Suc i) sql" by (rule Cons_nth_drop_Suc [symmetric])
  have prev: "Some (sql ! i) \<noteq> Some backslash"
    using assms nth_mem [OF i] unfolding plain_script_def by (metis option.inject)
  note step = plain_step [OF assms i Suc.prems(3,4)]
  have semi: "semicolons sql (length sql) i f =
      (if sql ! i = CHR '';'' \<and> \<not> inSingle f \<and> \<not> inDouble f \<and> \<not> inBacktick f
       then i # semicolons sql (length sql) (Suc i) (toggle (sql ! i) f)
       else semicolons sql (length sql) (Suc i) (toggle (sql ! i) f))"
    using i Suc.prems(3,4) by (subst semicolons.simps) (simp add: step isSemicolonDelimiter_def at_pos_def Let_def)
  let ?g = "toggle (sql ! i) f"
  have rest: "n = length sql - Suc i" using Suc.hyps(2) by simp
  show ?case
  proof (cases "sql ! i = CHR '';'' \<and> \<not> inSingle f \<and> \<not> inDouble f \<and> \<not> inBacktick f")
    case True
    then have "?g = f" by (auto simp: toggle_def)
    moreover have "rough_from (slice sql (Suc i) (Suc i)) (inSingle f) (inDouble f) (inBacktick f) (Some (sql ! i)) (drop (Suc i) sql)
        = parts_between sql (Suc i) (semicolons sql (length sql) (Suc i) f)"
      using i Suc.prems prev by (intro Suc.hyps(1) [OF rest]) auto
    ultimately show ?thesis using True by (simp add: d rough_step [OF Suc.prems(5)] semi slice_def nonblank_part_def)
  next
    case False
    have "rough_from (slice sql start (Suc i)) (inSingle ?g) (inDouble ?g) (inBacktick ?g) (Some (sql ! i)) (drop (Suc i) sql)
        = parts_between sql start (semicolons sql (length sql) (Suc i) ?g)"
      using i Suc.prems prev by (intro Suc.hyps(1) [OF rest]) auto
    with False show ?thesis using slice_snoc [OF Suc.prems(1) i]
      by (simp only: d rough_step [OF Suc.prems(5)] semi if_False Let_def simp_thms)
  qed
qed

section \<open>What the gate allows\<close>

lemma rule_levels: "(r, l) \<in> set DANGEROUS_PATTERNS \<Longrightarrow> 1 \<le> danger_rank l"
  by (auto simp: DANGEROUS_PATTERNS_def)

lemma next_level_rank: "danger_rank l \<le> danger_rank (next_level l)"
  by (cases l) simp_all

lemma unsafe_is_risky: "dc_level (checkCommand c env) = LevelLow \<Longrightarrow> dc_safe (checkCommand c env)"
proof (rule ccontr)
  let ?ms = "map snd (filter (\<lambda>rule. rx_test (fst rule) c) DANGEROUS_PATTERNS)"
  let ?max = "fold (\<lambda>m acc. if danger_rank acc < danger_rank m then m else acc) ?ms LevelLow"
  assume low: "dc_level (checkCommand c env) = LevelLow" and "\<not> dc_safe (checkCommand c env)"
  then have ne: "?ms \<noteq> []" by (auto simp: checkCommand_def Let_def split: if_splits)
  then obtain l where l: "l \<in> set ?ms" by (metis list.set_sel(1))
  then have "1 \<le> danger_rank l" using rule_levels by (auto split: prod.split)
  with l have "\<exists>x \<in> set (map danger_rank ?ms). 1 \<le> x" by (metis image_eqI set_map)
  then have "1 \<le> danger_rank ?max" by (simp only: fold_max_level fold_max_ge) blast
  moreover have "dc_level (checkCommand c env) \<in> {?max, next_level ?max}"
    using ne by (auto simp: checkCommand_def Let_def)
  ultimately show False using low next_level_rank [of ?max] by auto
qed

lemma max_low: "maxDangerLevel a b = LevelLow \<longleftrightarrow> a = LevelLow \<and> b = LevelLow"
  by (cases a; cases b) (simp_all add: maxDangerLevel_def)

lemma env_risk_low: "env_risk e = LevelLow \<longleftrightarrow> e \<notin> {''prod'', ''staging''}"
  by (simp add: env_risk_def)

lemma keyword_level: "keyword_hit toolName parsed = Some rule \<Longrightarrow> dk_level rule \<noteq> LevelLow"
  by (auto simp: keyword_hit_def keyword_rule_def docker_action_def docker_image_action_def docker_volume_action_def
      files_write_def split: option.splits if_splits)

lemma low_risk:
  assumes "evaluateToolRisk json_parse resource_env toolName args resourceId = Some r" "\<not> ra_needsApproval r"
  shows "ra_environment r \<notin> {''prod'', ''staging''} \<and> keyword_hit toolName (risk_args json_parse args) = None
    \<and> (\<forall>c. risk_command toolName (risk_args json_parse args) = Some c \<longrightarrow> c = '''' \<or> dc_safe (checkCommand c (Some (ra_environment r))))"
proof -
  let ?p = "risk_args json_parse args"
  have ne: "?p \<noteq> JNull" using assms(1) by (auto simp: evaluateToolRisk_def Let_def)
  have none: "keyword_hit toolName ?p = None"
  proof (rule ccontr)
    assume "keyword_hit toolName ?p \<noteq> None"
    then obtain rule where "keyword_hit toolName ?p = Some rule" by blast
    with assms ne keyword_level [OF this] show False by (auto simp: evaluateToolRisk_def Let_def max_low)
  qed
  then have "ra_environment r \<notin> {''prod'', ''staging''}"
    using assms ne by (auto simp: evaluateToolRisk_def Let_def max_low env_risk_low)
  moreover have "c = '''' \<or> dc_safe (checkCommand c (Some (ra_environment r)))" if "risk_command toolName ?p = Some c" for c
    using assms ne none that by (auto simp: evaluateToolRisk_def Let_def max_low intro!: unsafe_is_risky split: if_splits)
  ultimately show ?thesis using none by blast
qed

section \<open>Properties\<close>

text \<open>(C4) Whatever the gate lets run without asking is harmless by one of three criteria: the tool is on the
  read-only list; or it runs SQL that the safety check reads as read-only; or its resource is neither production
  nor staging, no danger rule matches the text it runs, and no dangerous action of its tool is named. A call that
  the terminal's policy wants confirmed, or a tool that is always to be confirmed, is never let through.\<close>

theorem allowed_calls_are_harmless:
  assumes "decideToolInvocation env input = Some g" "g_decision g = Allow"
  shows "\<not> ti_terminalApprovalRequired input \<and> \<not> mustApproveTool (ti_toolName input)
    \<and> (isKnownReadOnlyTool (ti_toolName input)
       \<or> runs_sql (ti_toolName input)
         \<and> (\<exists>sql. str_field ''sql'' (argsToRecord (ge_parse env) (ti_args input)) = Some sql \<and> isReadOnlySql sql)
       \<or> g_environment g \<notin> {''prod'', ''staging''}
         \<and> keyword_hit (ti_toolName input) (risk_args (ge_parse env) (argsToJson (ge_string env) (ti_args input))) = None
         \<and> (\<forall>c. risk_command (ti_toolName input) (risk_args (ge_parse env) (argsToJson (ge_string env) (ti_args input))) = Some c
               \<longrightarrow> c = '''' \<or> dc_safe (checkCommand c (Some (g_environment g)))))"
  using assms
  by (auto simp: decideToolInvocation_def Let_def dest!: low_risk split: if_splits)


text \<open>(C6) With a comment they do not: a quotation mark in a comment makes the rough splitter read the next
  statement as part of a string. The script drops a table in a second statement, as the editor's scanner shows,
  yet the gate runs it without asking, for every connection.\<close>

definition hidden_drop :: string where
  "hidden_drop = ''select 1 -- '' @ [CHR 0x27, newline] @ ''; drop table t''"

definition sql_call :: "string \<Rightarrow> string option \<Rightarrow> tool_input" where
  "sql_call sql resource = \<lparr> ti_toolName = ''omni_database_execute_sql'', ti_args = ArgsValue (JObj [(''sql'', JString sql)]),
     ti_resourceId = resource, ti_terminalApprovalRequired = False \<rparr>"

lemma sql_call_allowed:
  assumes "isReadOnlySql sql"
  shows "\<exists>g. decideToolInvocation env (sql_call sql resource) = Some g \<and> g_decision g = Allow"
proof -
  have names: "\<not> mustApproveTool ''omni_database_execute_sql''" "runs_sql ''omni_database_execute_sql''"
    "\<not> isKnownReadOnlyTool ''omni_database_execute_sql''" by code_simp+
  have "str_field ''sql'' (JObj [(''sql'', JString sql)]) = Some sql" by (simp add: str_field_def field_def)
  then show ?thesis using assms names
    by (simp add: decideToolInvocation_def sql_call_def argsToRecord_def Let_def)
qed

theorem hidden_statement_runs_without_approval:
  "map sp_sql (splitSqlStatements hidden_drop) = [''select 1 -- '' @ [CHR 0x27], ''drop table t'']
   \<and> (\<exists>g. decideToolInvocation env (sql_call hidden_drop resource) = Some g \<and> g_decision g = Allow)"
proof
  show "map sp_sql (splitSqlStatements hidden_drop) = [''select 1 -- '' @ [CHR 0x27], ''drop table t'']" by code_simp
  have "isReadOnlySql hidden_drop" by code_simp
  then show "\<exists>g. decideToolInvocation env (sql_call hidden_drop resource) = Some g \<and> g_decision g = Allow"
    by (rule sql_call_allowed)
qed

text \<open>Instances.\<close>

definition plain_env :: gate_env where
  "plain_env = \<lparr> ge_parse = (\<lambda>_. Some (JObj [(''command'', JString ''uptime'')])), ge_string = (\<lambda>_. ''{}''),
     ge_pretty = (\<lambda>_. ''{}''), ge_show = (\<lambda>_. ''''), ge_environment = (\<lambda>i. if i = ''web'' then Some ''dev'' else None) \<rparr>"

definition uptime_call :: tool_input where
  "uptime_call = \<lparr> ti_toolName = ''omni_ssh_exec'', ti_args = ArgsText ''{command: uptime}'', ti_resourceId = Some ''web'',
     ti_terminalApprovalRequired = False \<rparr>"

theorem allowed_calls_are_harmless_witness:
  "\<exists>g. decideToolInvocation plain_env uptime_call = Some g \<and> g_environment g = ''dev''
    \<and> keyword_hit ''omni_ssh_exec'' (risk_args (ge_parse plain_env) ''{command: uptime}'') = None"
proof -
  let ?g = "the (decideToolInvocation plain_env uptime_call)"
  have g: "decideToolInvocation plain_env uptime_call = Some ?g" "g_decision ?g = Allow" "g_environment ?g = ''dev''"
    by code_simp+
  have no: "\<not> isKnownReadOnlyTool ''omni_ssh_exec''" "\<not> runs_sql ''omni_ssh_exec''" by code_simp+
  from allowed_calls_are_harmless [OF g(1,2)] no
  have "keyword_hit ''omni_ssh_exec'' (risk_args (ge_parse plain_env) ''{command: uptime}'') = None"
    by (auto simp: uptime_call_def argsToJson_def)
  with g show ?thesis by blast
qed


end
