(* ===== verification/ActionDrafts.thy ===== *)
theory ActionDrafts
  imports ToolGate
begin

text \<open>
  \<^bold>\<open>frontend/src/stores/actionDraftStore.ts\<close>: the queue of operations that wait for the user, and
  \<open>runWithToolGate\<close> of \<^bold>\<open>frontend/src/lib/ai/toolGate.ts\<close>, which feeds it.

  The state holds the store, the map of waiters, the armed timers, the executions in flight, and what the
  callers of \<open>enqueueAwaitable\<close> have been told: a promise keeps its first outcome. The code between two
  \<open>await\<close>s is one operation: \<open>resolveAction\<close> up to the call of \<open>execute\<close>, and what follows when it settles.
  What \<open>execute\<close> does is the environment's: the model records that it was called and for which draft.
\<close>

section \<open>Data\<close>

datatype approval_source = FromTerminal | FromToolgate | FromAcp | FromAction
datatype target_module = ToTerminal | ToDatabase | ToDocker | ToFiles | ToServer | ToAi | ToOther

record approval_target =
  at_module :: target_module
  at_resourceId :: "string option"
  at_sessionId :: "string option"
  at_conversationId :: "string option"

record action_def =
  ad_id :: string
  ad_reject :: bool

record draft_input =
  di_kind :: draft_kind
  di_title :: string
  di_preview :: string
  di_conversationId :: "string option"
  di_risk :: "danger_level option"
  di_riskCheck :: "danger_check option"
  di_environment :: "string option"
  di_toolName :: "string option"
  di_resourceId :: "string option"
  di_timeoutMs :: "nat option"
  di_source :: "approval_source option"
  di_target :: "approval_target option"
  di_actions :: "action_def list"
  di_runAction :: bool

record draft = draft_input +
  dr_id :: string
  dr_createdAt :: nat

datatype exec_result = ExecOk string | ExecError string
datatype outcome = Delivered string | Failed_with string | TimedOut nat | Ignored

record audit_entry =
  au_draft :: string
  au_tool :: string
  au_target :: string
  au_env :: string
  au_risk :: danger_level
  au_success :: bool
  au_detail :: string

text \<open>An execution in flight: its draft, the action that started it, and whether it captured a waiter.\<close>

record run =
  rn_draft :: draft
  rn_action :: string
  rn_waiter :: bool

record ad_state =
  ad_drafts :: "draft list"
  ad_focusId :: "string option"
  ad_globalDialogOpen :: bool
  ad_autoDialogSuppressed :: bool
  ad_seq :: nat
  ad_waiters :: "(string \<times> nat) list"
  ad_timers :: "string list"
  ad_runs :: "run list"
  ad_settled :: "(string \<times> outcome) list"
  ad_started :: "string list"
  ad_audit :: "audit_entry list"

definition ad_init :: ad_state where
  "ad_init = \<lparr> ad_drafts = [], ad_focusId = None, ad_globalDialogOpen = False, ad_autoDialogSuppressed = False, ad_seq = 0,
     ad_waiters = [], ad_timers = [], ad_runs = [], ad_settled = [], ad_started = [], ad_audit = [] \<rparr>"

section \<open>Operations\<close>

definition resolveTimeoutMs :: "danger_level option \<Rightarrow> nat" where
  "resolveTimeoutMs risk = (if risk = Some LevelCritical then 300000 else if risk = Some LevelHigh then 180000 else 120000)"

definition DEFAULT_ACTIONS :: "action_def list" where
  "DEFAULT_ACTIONS = [\<lparr> ad_id = ''confirm'', ad_reject = False \<rparr>, \<lparr> ad_id = ''reject'', ad_reject = True \<rparr>]"

definition getDraftActions :: "draft \<Rightarrow> action_def list" where
  "getDraftActions d = (if di_actions d \<noteq> [] then di_actions d else DEFAULT_ACTIONS)"

definition draft_id :: "nat \<Rightarrow> nat \<Rightarrow> string" where
  "draft_id now n = ''draft_'' @ dec now @ ''_'' @ dec n"

text \<open>The identifier it makes takes the next number.\<close>

definition new_draft :: "nat \<Rightarrow> draft_input \<Rightarrow> ad_state \<Rightarrow> draft" where
  "new_draft now d s = draft_input.extend d \<lparr> dr_id = draft_id now (Suc (ad_seq s)), dr_createdAt = now \<rparr>"

definition push_draft :: "draft \<Rightarrow> ad_state \<Rightarrow> ad_state" where
  "push_draft d s = s\<lparr>ad_drafts := ad_drafts s @ [d],
     ad_focusId := (case ad_focusId s of None \<Rightarrow> Some (dr_id d) | Some i \<Rightarrow> Some i), ad_autoDialogSuppressed := False\<rparr>"

definition enqueue :: "nat \<Rightarrow> draft_input \<Rightarrow> ad_state \<Rightarrow> ad_state" where
  "enqueue now d s = (let dr = new_draft now d s in push_draft dr (s\<lparr>ad_seq := Suc (ad_seq s)\<rparr>))"

definition enqueueAwaitable :: "nat \<Rightarrow> draft_input \<Rightarrow> ad_state \<Rightarrow> ad_state" where
  "enqueueAwaitable now d s =
     (let dr = new_draft now (d\<lparr>di_source := Some (case di_source d of None \<Rightarrow> FromToolgate | Some x \<Rightarrow> x)\<rparr>) s;
          timeoutMs = (case di_timeoutMs d of Some t \<Rightarrow> t | None \<Rightarrow> resolveTimeoutMs (di_risk d))
      in push_draft dr (s\<lparr>ad_seq := Suc (ad_seq s), ad_waiters := rput (dr_id dr) timeoutMs (ad_waiters s),
           ad_timers := ad_timers s @ [dr_id dr]\<rparr>))"

definition drop_draft :: "string \<Rightarrow> ad_state \<Rightarrow> ad_state" where
  "drop_draft i s =
     (let ds = filter (\<lambda>d. dr_id d \<noteq> i) (ad_drafts s)
      in s\<lparr>ad_drafts := ds,
           ad_focusId := (if ad_focusId s = Some i then (case ds of [] \<Rightarrow> None | d # _ \<Rightarrow> Some (dr_id d)) else ad_focusId s)\<rparr>)"

text \<open>The first outcome of a promise stays.\<close>

definition settle :: "string \<Rightarrow> outcome \<Rightarrow> ad_state \<Rightarrow> ad_state" where
  "settle i out s = (if rget (ad_settled s) i = None then s\<lparr>ad_settled := ad_settled s @ [(i, out)]\<rparr> else s)"

definition clear_timer :: "string \<Rightarrow> ad_state \<Rightarrow> ad_state" where
  "clear_timer i s = s\<lparr>ad_timers := filter (\<lambda>j. j \<noteq> i) (ad_timers s)\<rparr>"

definition forget_waiter :: "string \<Rightarrow> ad_state \<Rightarrow> ad_state" where
  "forget_waiter i s = s\<lparr>ad_waiters := rdel i (ad_waiters s)\<rparr>"

text \<open>The timer of a draft fires: only an armed timer does.\<close>

definition timeout_fires :: "string \<Rightarrow> ad_state \<Rightarrow> ad_state" where
  "timeout_fires i s =
     (if i \<notin> set (ad_timers s) then s
      else (let s = clear_timer i s in
            case rget (ad_waiters s) i of
              None \<Rightarrow> s
            | Some ms \<Rightarrow> drop_draft i (settle i (TimedOut ms) (forget_waiter i s))))"

definition dismiss :: "string \<Rightarrow> ad_state \<Rightarrow> ad_state" where
  "dismiss i s =
     (case rget (ad_waiters s) i of
        Some _ \<Rightarrow> drop_draft i (settle i Ignored (forget_waiter i (clear_timer i s)))
      | None \<Rightarrow> drop_draft i s)"

definition find_action :: "draft \<Rightarrow> string \<Rightarrow> action_def option" where
  "find_action d actionId =
     (case find (\<lambda>a. ad_id a = actionId) (getDraftActions d) of
        Some a \<Rightarrow> Some a
      | None \<Rightarrow> if actionId = ''confirm'' then Some (DEFAULT_ACTIONS ! 0)
          else if actionId = ''reject'' then Some (DEFAULT_ACTIONS ! 1) else None)"

definition rejecting :: "draft \<Rightarrow> string \<Rightarrow> bool" where
  "rejecting d actionId \<longleftrightarrow> (case find_action d actionId of None \<Rightarrow> False | Some a \<Rightarrow> ad_reject a)
     \<or> actionId = ''reject'' \<or> actionId = ''dismiss''"

text \<open>\<open>resolveAction\<close> up to the call of \<open>runAction\<close> or \<open>execute\<close>.\<close>

definition resolveAction :: "string \<Rightarrow> string \<Rightarrow> ad_state \<Rightarrow> ad_state" where
  "resolveAction i actionId s =
     (case find (\<lambda>d. dr_id d = i) (ad_drafts s) of
        None \<Rightarrow> s
      | Some d \<Rightarrow>
          if rejecting d actionId then dismiss i s
          else (let waiting = rget (ad_waiters s) i \<noteq> None; s = (if waiting then clear_timer i s else s)
                in s\<lparr>ad_runs := ad_runs s @ [\<lparr> rn_draft = d, rn_action = actionId, rn_waiter = waiting \<rparr>],
                     ad_started := ad_started s @ [i]\<rparr>))"

definition confirm :: "string \<Rightarrow> ad_state \<Rightarrow> ad_state" where
  "confirm i = resolveAction i ''confirm''"

definition audit_of :: "draft \<Rightarrow> exec_result \<Rightarrow> audit_entry list" where
  "audit_of d r =
     (case di_toolName d of
        None \<Rightarrow> []
      | Some tool \<Rightarrow> if tool = '''' then [] else
          [\<lparr> au_draft = dr_id d, au_tool = tool, au_target = (case di_resourceId d of None \<Rightarrow> di_title d | Some x \<Rightarrow> x),
             au_env = (case di_environment d of None \<Rightarrow> ''unknown'' | Some e \<Rightarrow> e),
             au_risk = (case di_risk d of None \<Rightarrow> LevelLow | Some l \<Rightarrow> l),
             au_success = (case r of ExecOk _ \<Rightarrow> True | ExecError _ \<Rightarrow> False),
             au_detail = take 500 (case r of ExecOk _ \<Rightarrow> di_preview d | ExecError e \<Rightarrow> e) \<rparr>])"

text \<open>The rest of \<open>resolveAction\<close>, when the \<open>n\<close>-th execution in flight settles.\<close>

definition exec_settles :: "nat \<Rightarrow> exec_result \<Rightarrow> ad_state \<Rightarrow> ad_state" where
  "exec_settles n r s =
     (if n < length (ad_runs s) then
        (let rn = ad_runs s ! n; d = rn_draft rn; i = dr_id d;
             s = s\<lparr>ad_runs := take n (ad_runs s) @ drop (Suc n) (ad_runs s)\<rparr>;
             s = (if rn_waiter rn then settle i (case r of ExecOk v \<Rightarrow> Delivered v | ExecError e \<Rightarrow> Failed_with e) (forget_waiter i s)
                  else s);
             s = s\<lparr>ad_audit := ad_audit s @ audit_of d r\<rparr>
         in drop_draft i (forget_waiter i s))
      else s)"

definition setFocusId :: "string option \<Rightarrow> ad_state \<Rightarrow> ad_state" where
  "setFocusId i s = s\<lparr>ad_focusId := i\<rparr>"

definition setGlobalDialogOpen :: "bool \<Rightarrow> ad_state \<Rightarrow> ad_state" where
  "setGlobalDialogOpen b s = s\<lparr>ad_globalDialogOpen := b,
     ad_autoDialogSuppressed := (if b then False else ad_autoDialogSuppressed s)\<rparr>"

definition suppressAutoDialog :: "ad_state \<Rightarrow> ad_state" where
  "suppressAutoDialog s = s\<lparr>ad_autoDialogSuppressed := True, ad_globalDialogOpen := False\<rparr>"

fun index_where :: "('a \<Rightarrow> bool) \<Rightarrow> 'a list \<Rightarrow> nat option" where
  "index_where P [] = None"
| "index_where P (x # xs) = (if P x then Some 0 else map_option Suc (index_where P xs))"

text \<open>\<open>(idx + 1) % drafts.length\<close>, where \<open>idx\<close> is \<open>-1\<close> when the current draft is gone.\<close>

definition focusNext :: "string option \<Rightarrow> ad_state \<Rightarrow> ad_state" where
  "focusNext fromId s =
     (if ad_drafts s = [] then s\<lparr>ad_focusId := None\<rparr>
      else (let current = (case fromId of None \<Rightarrow> ad_focusId s | Some i \<Rightarrow> Some i);
                nxt = (case index_where (\<lambda>d. Some (dr_id d) = current) (ad_drafts s) of
                         None \<Rightarrow> 0 | Some k \<Rightarrow> Suc k mod length (ad_drafts s))
            in s\<lparr>ad_focusId := Some (dr_id (ad_drafts s ! nxt))\<rparr>))"

datatype ad_op =
    Enqueue nat draft_input
  | EnqueueAwaitable nat draft_input
  | TimeoutFires string
  | Dismiss string
  | ResolveAction string string
  | ExecSettles nat exec_result
  | SetFocusId "string option"
  | SetGlobalDialogOpen bool
  | SuppressAutoDialog
  | FocusNext "string option"

primrec ad_step :: "ad_op \<Rightarrow> ad_state \<Rightarrow> ad_state" where
  "ad_step (Enqueue now d) s = enqueue now d s"
| "ad_step (EnqueueAwaitable now d) s = enqueueAwaitable now d s"
| "ad_step (TimeoutFires i) s = timeout_fires i s"
| "ad_step (Dismiss i) s = dismiss i s"
| "ad_step (ResolveAction i a) s = resolveAction i a s"
| "ad_step (ExecSettles n r) s = exec_settles n r s"
| "ad_step (SetFocusId i) s = setFocusId i s"
| "ad_step (SetGlobalDialogOpen b) s = setGlobalDialogOpen b s"
| "ad_step SuppressAutoDialog s = suppressAutoDialog s"
| "ad_step (FocusNext i) s = focusNext i s"

section \<open>The gate in front of the queue\<close>

datatype gate_run = RunNow | Waits string | Throws

definition module_of :: "draft_kind \<Rightarrow> target_module" where
  "module_of k = (case k of KindSql \<Rightarrow> ToDatabase | KindDocker \<Rightarrow> ToDocker | KindFiles \<Rightarrow> ToFiles | KindSsh \<Rightarrow> ToTerminal
     | KindTerminal \<Rightarrow> ToTerminal | KindShell \<Rightarrow> ToTerminal | KindGeneric \<Rightarrow> ToOther)"

text \<open>\<open>show_preview\<close> makes the preview text from the gate's answer; it is shown to the user only.\<close>

definition gate_draft :: "gate_env \<Rightarrow> (gate_result \<Rightarrow> string) \<Rightarrow> tool_input \<Rightarrow> gate_result \<Rightarrow> draft_input" where
  "gate_draft env show_preview input g =
     (let args = argsToRecord (ge_parse env) (ti_args input);
          resourceId = first_some [ti_resourceId input, str_field ''resource_id'' args, str_field ''connection_id'' args]
      in \<lparr> di_kind = g_kind g, di_title = g_title g, di_preview = show_preview g, di_conversationId = None,
           di_risk = Some (g_risk g), di_riskCheck = g_riskCheck g, di_environment = Some (g_environment g),
           di_toolName = Some (ti_toolName input), di_resourceId = resourceId, di_timeoutMs = None,
           di_source = Some FromToolgate,
           di_target = Some \<lparr> at_module = module_of (g_kind g), at_resourceId = resourceId, at_sessionId = None,
             at_conversationId = None \<rparr>,
           di_actions = [], di_runAction = False \<rparr>)"

definition runWithToolGate ::
    "gate_env \<Rightarrow> (gate_result \<Rightarrow> string) \<Rightarrow> nat \<Rightarrow> tool_input \<Rightarrow> ad_state \<Rightarrow> gate_run \<times> ad_state" where
  "runWithToolGate env show_preview now input s =
     (case decideToolInvocation env input of
        None \<Rightarrow> (Throws, s)
      | Some g \<Rightarrow>
          (case g_decision g of
             Deny \<Rightarrow> (Throws, s)
           | Allow \<Rightarrow> (RunNow, s)
           | Approve \<Rightarrow> (Waits (draft_id now (Suc (ad_seq s))), enqueueAwaitable now (gate_draft env show_preview input g) s)))"

section \<open>Identifiers\<close>

lemma dec_no_underscore: "CHR ''_'' \<notin> set (dec n)"
proof (induction n rule: dec.induct)
  case (1 n)
  have digit: "char_of (48 + d) \<noteq> CHR ''_''" if "d < 10" for d :: nat
  proof
    assume "char_of (48 + d) = CHR ''_''"
    then have "(of_char (char_of (48 + d) :: char) :: nat) = of_char CHR ''_''" by simp
    then show False using that by (simp add: of_char_of take_bit_eq_mod)
  qed
  show ?case
  proof (cases "n < 10")
    case True
    then show ?thesis using digit [of n] by (subst dec.simps) auto
  next
    case False
    then show ?thesis using 1 digit [of "n mod 10"] by (subst dec.simps) auto
  qed
qed

lemma draft_id_number: "draft_id now n = draft_id now' n' \<Longrightarrow> n = n'"
proof -
  have tail: "takeWhile (\<lambda>c. c \<noteq> CHR ''_'') (rev (draft_id now n)) = rev (dec n)" for now n
    using dec_no_underscore [of n] by (auto simp: draft_id_def takeWhile_append takeWhile_eq_all_conv)
  assume "draft_id now n = draft_id now' n'"
  then have "rev (dec n) = rev (dec n')" by (metis tail)
  then show "n = n'" by (simp add: dec_inj)
qed

definition issued :: "ad_state \<Rightarrow> string \<Rightarrow> bool" where
  "issued s i \<longleftrightarrow> (\<exists>now n. i = draft_id now n \<and> n \<le> ad_seq s)"

lemma not_issued_new: "\<not> issued s (draft_id now (Suc (ad_seq s)))"
  using draft_id_number by (fastforce simp: issued_def)

lemma issued_seq: "ad_seq t = ad_seq s \<Longrightarrow> issued t i = issued s i"
  by (simp add: issued_def)

section \<open>The invariant\<close>

definition waiting_ids :: "ad_state \<Rightarrow> string set" where
  "waiting_ids s = fst ` set (ad_waiters s)"

definition draft_ids :: "ad_state \<Rightarrow> string set" where
  "draft_ids s = dr_id ` set (ad_drafts s)"

definition settled_ids :: "ad_state \<Rightarrow> string set" where
  "settled_ids s = fst ` set (ad_settled s)"

definition in_flight :: "ad_state \<Rightarrow> string set" where
  "in_flight s = (\<lambda>rn. dr_id (rn_draft rn)) ` set (filter rn_waiter (ad_runs s))"

definition plain_runs :: "ad_state \<Rightarrow> string set" where
  "plain_runs s = (\<lambda>rn. dr_id (rn_draft rn)) ` set (filter (\<lambda>rn. \<not> rn_waiter rn) (ad_runs s))"

definition issued_ids :: "ad_state \<Rightarrow> string set" where
  "issued_ids s = {i. issued s i}"

definition run_ids :: "ad_state \<Rightarrow> string set" where
  "run_ids s = (\<lambda>rn. dr_id (rn_draft rn)) ` set (ad_runs s)"

definition timed_out :: "ad_state \<Rightarrow> string set" where
  "timed_out s = {i. \<exists>ms. (i, TimedOut ms) \<in> set (ad_settled s)}"

text \<open>
  What holds of drafts, waiters, timers, executions that captured a waiter, those that did not, all executions, started, settled and
  timed-out drafts: a waiter has a draft and is armed or captured; a draft with an armed timer, or one that timed
  out, was never started; a settled draft is gone.
\<close>

definition queue_ok :: "string set \<Rightarrow> string set \<Rightarrow> string set \<Rightarrow> string set \<Rightarrow> string set \<Rightarrow> string set
    \<Rightarrow> string set \<Rightarrow> string set \<Rightarrow> string set \<Rightarrow> string set \<Rightarrow> bool" where
  "queue_ok known ds ws ts fs ps rs started done expired \<longleftrightarrow>
     ds \<union> started \<union> done \<subseteq> known \<and> ts \<subseteq> ws \<and> ws \<subseteq> ds \<and> ws \<subseteq> ts \<union> fs \<and> ts \<inter> started = {} \<and> rs \<subseteq> started \<and> ps \<subseteq> rs
     \<and> ps \<inter> ws = {} \<and> done \<inter> ds = {} \<and> expired \<subseteq> done \<and> expired \<inter> started = {}"

definition ad_inv :: "ad_state \<Rightarrow> bool" where
  "ad_inv s \<longleftrightarrow> queue_ok (issued_ids s) (draft_ids s) (waiting_ids s) (set (ad_timers s)) (in_flight s) (plain_runs s) (run_ids s)
     (set (ad_started s)) (settled_ids s) (timed_out s)"

lemmas ad_sets = waiting_ids_def draft_ids_def settled_ids_def in_flight_def plain_runs_def run_ids_def timed_out_def

lemma ad_inv_init: "ad_inv ad_init"
  by (simp add: ad_inv_def queue_ok_def ad_sets ad_init_def)

lemma new_draft_id [simp]: "dr_id (new_draft now d s) = draft_id now (Suc (ad_seq s))"
  by (simp add: new_draft_def draft_input.defs)

lemma waiting_ids_rget: "i \<in> waiting_ids s \<longleftrightarrow> rget (ad_waiters s) i \<noteq> None"
  by (simp add: waiting_ids_def map_of_eq_None_iff)

lemma settled_ids_rget: "i \<in> settled_ids s \<longleftrightarrow> rget (ad_settled s) i \<noteq> None"
  by (simp add: settled_ids_def map_of_eq_None_iff)

lemma forget_waiter_sets [simp]:
  "waiting_ids (forget_waiter i s) = waiting_ids s - {i}" "draft_ids (forget_waiter i s) = draft_ids s"
  "settled_ids (forget_waiter i s) = settled_ids s" "in_flight (forget_waiter i s) = in_flight s"
  "ad_timers (forget_waiter i s) = ad_timers s" "ad_started (forget_waiter i s) = ad_started s"
  "plain_runs (forget_waiter i s) = plain_runs s" "run_ids (forget_waiter i s) = run_ids s" "timed_out (forget_waiter i s) = timed_out s"
  "ad_runs (forget_waiter i s) = ad_runs s" "ad_settled (forget_waiter i s) = ad_settled s"
  "ad_seq (forget_waiter i s) = ad_seq s" "ad_drafts (forget_waiter i s) = ad_drafts s"
  by (auto simp: forget_waiter_def ad_sets AList.delete_eq)

lemma clear_timer_sets [simp]:
  "waiting_ids (clear_timer i s) = waiting_ids s" "draft_ids (clear_timer i s) = draft_ids s"
  "settled_ids (clear_timer i s) = settled_ids s" "in_flight (clear_timer i s) = in_flight s"
  "set (ad_timers (clear_timer i s)) = set (ad_timers s) - {i}" "ad_started (clear_timer i s) = ad_started s"
  "plain_runs (clear_timer i s) = plain_runs s" "run_ids (clear_timer i s) = run_ids s" "timed_out (clear_timer i s) = timed_out s"
  "ad_runs (clear_timer i s) = ad_runs s" "ad_settled (clear_timer i s) = ad_settled s"
  "ad_seq (clear_timer i s) = ad_seq s" "ad_drafts (clear_timer i s) = ad_drafts s"
  "ad_waiters (clear_timer i s) = ad_waiters s"
  by (auto simp: clear_timer_def ad_sets)

lemma settle_sets [simp]:
  "waiting_ids (settle i out s) = waiting_ids s" "draft_ids (settle i out s) = draft_ids s"
  "settled_ids (settle i out s) = insert i (settled_ids s)" "in_flight (settle i out s) = in_flight s"
  "ad_timers (settle i out s) = ad_timers s" "ad_started (settle i out s) = ad_started s"
  "plain_runs (settle i out s) = plain_runs s" "run_ids (settle i out s) = run_ids s"
  "ad_runs (settle i out s) = ad_runs s" "ad_seq (settle i out s) = ad_seq s" "ad_drafts (settle i out s) = ad_drafts s"
  by (auto simp: settle_def ad_sets map_of_eq_None_iff)

lemma drop_draft_sets [simp]:
  "waiting_ids (drop_draft i s) = waiting_ids s" "draft_ids (drop_draft i s) = draft_ids s - {i}"
  "settled_ids (drop_draft i s) = settled_ids s" "in_flight (drop_draft i s) = in_flight s"
  "ad_timers (drop_draft i s) = ad_timers s" "ad_started (drop_draft i s) = ad_started s"
  "plain_runs (drop_draft i s) = plain_runs s" "run_ids (drop_draft i s) = run_ids s" "timed_out (drop_draft i s) = timed_out s"
  "ad_runs (drop_draft i s) = ad_runs s" "ad_settled (drop_draft i s) = ad_settled s" "ad_seq (drop_draft i s) = ad_seq s"
  by (auto simp: drop_draft_def ad_sets Let_def)

lemma set_settle: "(j, out') \<in> set (ad_settled (settle i out s)) \<Longrightarrow> (j, out') \<in> set (ad_settled s) \<or> j = i \<and> out' = out"
  by (auto simp: settle_def split: if_splits)

lemma timed_out_settle: "timed_out (settle i out s) \<subseteq> insert i (timed_out s)"
  by (auto simp: timed_out_def dest: set_settle)

lemma timed_out_ignored [simp]: "timed_out (settle i Ignored s) = timed_out s"
  "timed_out (settle i (Delivered v) s) = timed_out s" "timed_out (settle i (Failed_with e) s) = timed_out s"
  by (auto simp: timed_out_def settle_def)

lemma issued_drop [simp]: "issued (drop_draft i s) = issued s" and issued_settle [simp]: "issued (settle i out s) = issued s"
  and issued_forget [simp]: "issued (forget_waiter i s) = issued s" and issued_clear [simp]: "issued (clear_timer i s) = issued s"
  by (auto simp: issued_def)

lemma issued_ids_eq: "issued s = issued t \<Longrightarrow> issued_ids s = issued_ids t"
  by (simp add: issued_ids_def)

lemma issued_ids_frames [simp]: "issued_ids (drop_draft i s) = issued_ids s" "issued_ids (settle i out s) = issued_ids s"
  "issued_ids (forget_waiter i s) = issued_ids s" "issued_ids (clear_timer i s) = issued_ids s"
  by (simp_all add: issued_ids_def)

lemma enqueue_sets:
  "draft_ids (enqueue now d s) = insert (draft_id now (Suc (ad_seq s))) (draft_ids s)"
  "waiting_ids (enqueue now d s) = waiting_ids s" "settled_ids (enqueue now d s) = settled_ids s"
  "in_flight (enqueue now d s) = in_flight s" "ad_timers (enqueue now d s) = ad_timers s"
  "plain_runs (enqueue now d s) = plain_runs s" "run_ids (enqueue now d s) = run_ids s" "timed_out (enqueue now d s) = timed_out s"
  "ad_started (enqueue now d s) = ad_started s"  "ad_seq (enqueue now d s) = Suc (ad_seq s)"
  "ad_settled (enqueue now d s) = ad_settled s"
  by (simp_all add: enqueue_def push_draft_def Let_def ad_sets)

lemma enqueueAwaitable_sets:
  "draft_ids (enqueueAwaitable now d s) = insert (draft_id now (Suc (ad_seq s))) (draft_ids s)"
  "waiting_ids (enqueueAwaitable now d s) = insert (draft_id now (Suc (ad_seq s))) (waiting_ids s)"
  "settled_ids (enqueueAwaitable now d s) = settled_ids s"
  "in_flight (enqueueAwaitable now d s) = in_flight s"
  "plain_runs (enqueueAwaitable now d s) = plain_runs s" "run_ids (enqueueAwaitable now d s) = run_ids s" "timed_out (enqueueAwaitable now d s) = timed_out s"
  "set (ad_timers (enqueueAwaitable now d s)) = insert (draft_id now (Suc (ad_seq s))) (set (ad_timers s))"
  "ad_started (enqueueAwaitable now d s) = ad_started s" "ad_seq (enqueueAwaitable now d s) = Suc (ad_seq s)"
  "ad_settled (enqueueAwaitable now d s) = ad_settled s"
proof -
  have id: "dr_id (new_draft now d' s) = draft_id now (Suc (ad_seq s))" for d' by simp
  show "waiting_ids (enqueueAwaitable now d s) = insert (draft_id now (Suc (ad_seq s))) (waiting_ids s)"
    unfolding set_eq_iff insert_iff waiting_ids_rget
    by (simp add: enqueueAwaitable_def push_draft_def Let_def store_simps id)
qed (simp_all add: enqueueAwaitable_def push_draft_def Let_def ad_sets)

lemma issued_Suc: "ad_seq t = Suc (ad_seq s) \<Longrightarrow> insert (draft_id now (Suc (ad_seq s))) (issued_ids s) \<subseteq> issued_ids t"
  by (auto simp: issued_ids_def issued_def intro: le_SucI)

lemma new_is_fresh:
  assumes "ad_inv s"
  shows "draft_id now (Suc (ad_seq s)) \<notin> draft_ids s \<union> set (ad_started s) \<union> settled_ids s"
  using assms not_issued_new [of s now] unfolding ad_inv_def queue_ok_def issued_ids_def by blast

lemma queue_ok_new:
  assumes "queue_ok known ds ws ts fs ps rs started done expired" "i \<notin> ds \<union> started \<union> done" "insert i known \<subseteq> known'"
  shows "queue_ok known' (insert i ds) ws ts fs ps rs started done expired"
    "queue_ok known' (insert i ds) (insert i ws) (insert i ts) fs ps rs started done expired"
  using assms unfolding queue_ok_def by auto

lemma ad_inv_enqueue: "ad_inv s \<Longrightarrow> ad_inv (enqueue now d s)" "ad_inv s \<Longrightarrow> ad_inv (enqueueAwaitable now d s)"
proof -
  assume inv: "ad_inv s"
  note ok = inv [unfolded ad_inv_def] new_is_fresh [OF inv, of now]
  show "ad_inv (enqueue now d s)" unfolding ad_inv_def enqueue_sets
    by (rule queue_ok_new(1) [OF ok]) (rule issued_Suc, simp add: enqueue_sets)
  show "ad_inv (enqueueAwaitable now d s)" unfolding ad_inv_def enqueueAwaitable_sets
    by (rule queue_ok_new(2) [OF ok]) (rule issued_Suc, simp add: enqueueAwaitable_sets)
qed

lemma queue_ok_gone:
  assumes "queue_ok known ds ws ts fs ps rs started done expired"
  shows "i \<in> ds \<Longrightarrow> queue_ok known (ds - {i}) (ws - {i}) (ts - {i}) fs ps rs started (insert i done) expired"
    "i \<in> ts \<Longrightarrow> expired' \<subseteq> insert i expired \<Longrightarrow>
       queue_ok known (ds - {i}) (ws - {i}) (ts - {i}) fs ps rs started (insert i done) expired'"
    "i \<notin> ws \<Longrightarrow> queue_ok known (ds - {i}) ws ts fs ps rs started done expired"
  using assms unfolding queue_ok_def by blast+

lemma ad_invD:
  assumes "ad_inv s"
  shows "i \<in> set (ad_timers s) \<Longrightarrow> i \<in> waiting_ids s" "i \<in> waiting_ids s \<Longrightarrow> i \<in> draft_ids s"
    "i \<in> settled_ids s \<Longrightarrow> i \<notin> draft_ids s" "i \<in> timed_out s \<Longrightarrow> i \<notin> set (ad_started s)"
    "i \<in> waiting_ids s \<Longrightarrow> i \<in> set (ad_timers s) \<or> i \<in> in_flight s"
    "i \<in> set (ad_timers s) \<Longrightarrow> i \<notin> set (ad_started s)"
  using assms unfolding ad_inv_def queue_ok_def by blast+

lemma timeout_eq:
  assumes "i \<in> set (ad_timers s)" "rget (ad_waiters s) i = Some ms"
  shows "timeout_fires i s = drop_draft i (settle i (TimedOut ms) (forget_waiter i (clear_timer i s)))"
  using assms by (simp add: timeout_fires_def Let_def)

lemma ad_inv_timeout: "ad_inv s \<Longrightarrow> ad_inv (timeout_fires i s)"
proof -
  assume inv: "ad_inv s"
  show ?thesis
  proof (cases "i \<in> set (ad_timers s)")
    case True
    with ad_invD(1) [OF inv] obtain ms where ms: "rget (ad_waiters s) i = Some ms" by (auto simp: waiting_ids_rget)
    have "timed_out (settle i (TimedOut ms) (forget_waiter i (clear_timer i s))) \<subseteq> insert i (timed_out s)"
      using timed_out_settle [of i "TimedOut ms" "forget_waiter i (clear_timer i s)"] by simp
    with inv True show ?thesis by (simp add: timeout_eq [OF True ms] ad_inv_def queue_ok_gone(2))
  qed (simp add: timeout_fires_def inv)
qed

lemma dismiss_eq:
  "dismiss i s = (if i \<in> waiting_ids s then drop_draft i (settle i Ignored (forget_waiter i (clear_timer i s))) else drop_draft i s)"
  by (auto simp: dismiss_def waiting_ids_rget split: option.split)

lemma ad_inv_dismiss: "ad_inv s \<Longrightarrow> ad_inv (dismiss i s)"
  using ad_invD(2) [of s i] by (auto simp: dismiss_eq ad_inv_def queue_ok_gone)

lemma find_draft: "find (\<lambda>d. dr_id d = i) ds = Some d \<Longrightarrow> d \<in> set ds \<and> dr_id d = i"
  by (auto simp: find_Some_iff)

text \<open>\<open>resolveAction\<close> does nothing, dismisses the draft, or starts it.\<close>

definition start_run :: "draft \<Rightarrow> string \<Rightarrow> ad_state \<Rightarrow> ad_state" where
  "start_run d a s = (let i = dr_id d; waiting = i \<in> waiting_ids s; s = (if waiting then clear_timer i s else s)
     in s\<lparr>ad_runs := ad_runs s @ [\<lparr> rn_draft = d, rn_action = a, rn_waiter = waiting \<rparr>], ad_started := ad_started s @ [i]\<rparr>)"

lemma resolve_cases:
  obtains (none) "resolveAction i a s = s" "i \<notin> draft_ids s"
    | (reject) d where "resolveAction i a s = dismiss i s" "i \<in> draft_ids s" "rejecting d a"
    | (run) d where "resolveAction i a s = start_run d a s" "dr_id d = i" "i \<in> draft_ids s" "\<not> rejecting d a"
proof (cases "find (\<lambda>d. dr_id d = i) (ad_drafts s)")
  case None
  then have "i \<notin> draft_ids s" by (auto simp: draft_ids_def find_None_iff)
  with None show ?thesis by (intro none) (simp add: resolveAction_def)
next
  case (Some d)
  then have d: "i \<in> draft_ids s" "dr_id d = i" by (auto simp: draft_ids_def dest: find_draft)
  show ?thesis
  proof (cases "rejecting d a")
    case True
    with Some d show ?thesis by (intro reject) (simp_all add: resolveAction_def)
  next
    case False
    with Some d show ?thesis
      by (intro run) (simp_all add: resolveAction_def start_run_def Let_def waiting_ids_rget)
  qed
qed

lemma start_run_sets:
  "draft_ids (start_run d a s) = draft_ids s" "waiting_ids (start_run d a s) = waiting_ids s"
  "settled_ids (start_run d a s) = settled_ids s" "timed_out (start_run d a s) = timed_out s"
  "set (ad_timers (start_run d a s)) = set (ad_timers s) - (if dr_id d \<in> waiting_ids s then {dr_id d} else {})"
  "in_flight (start_run d a s) = in_flight s \<union> (if dr_id d \<in> waiting_ids s then {dr_id d} else {})"
  "run_ids (start_run d a s) = insert (dr_id d) (run_ids s)"
  "plain_runs (start_run d a s) = plain_runs s \<union> (if dr_id d \<in> waiting_ids s then {} else {dr_id d})"
  "set (ad_started (start_run d a s)) = insert (dr_id d) (set (ad_started s))"
  "ad_settled (start_run d a s) = ad_settled s" "issued_ids (start_run d a s) = issued_ids s"
  by (auto simp: start_run_def ad_sets clear_timer_def Let_def issued_def issued_ids_def)

lemma queue_ok_run:
  assumes "queue_ok known ds ws ts fs ps rs started done expired" "i \<in> ds"
  shows "i \<in> ws \<Longrightarrow> queue_ok known ds ws (ts - {i}) (insert i fs) ps (insert i rs) (insert i started) done expired"
    "i \<notin> ws \<Longrightarrow> queue_ok known ds ws ts fs (insert i ps) (insert i rs) (insert i started) done expired"
  using assms unfolding queue_ok_def by auto

lemma ad_inv_resolve: "ad_inv s \<Longrightarrow> ad_inv (resolveAction i a s)"
proof (cases rule: resolve_cases [of i a s])
  case (run d)
  assume "ad_inv s"
  with run queue_ok_run [of "issued_ids s" "draft_ids s" "waiting_ids s"] show ?thesis
    by (cases "i \<in> waiting_ids s") (simp_all add: ad_inv_def start_run_sets)
qed (simp_all add: ad_inv_dismiss)

text \<open>When an execution settles: its draft goes, its caller is told if it captured the waiter.\<close>

lemma exec_eq:
  assumes "n < length (ad_runs s)" "rn = ad_runs s ! n" "i = dr_id (rn_draft rn)"
  shows "exec_settles n r s = drop_draft i (forget_waiter i
     ((if rn_waiter rn then settle i (case r of ExecOk v \<Rightarrow> Delivered v | ExecError e \<Rightarrow> Failed_with e)
         (forget_waiter i (s\<lparr>ad_runs := take n (ad_runs s) @ drop (Suc n) (ad_runs s)\<rparr>))
       else s\<lparr>ad_runs := take n (ad_runs s) @ drop (Suc n) (ad_runs s)\<rparr>)
      \<lparr>ad_audit := ad_audit s @ audit_of (rn_draft rn) r\<rparr>))"
proof -
  have "ad_audit (if b then settle j out (forget_waiter j t) else t) = ad_audit t" for b j out t
    by (simp add: settle_def forget_waiter_def)
  with assms show ?thesis by (simp add: exec_settles_def Let_def)
qed

lemma audit_frame [simp]:
  "draft_ids (s\<lparr>ad_audit := a\<rparr>) = draft_ids s" "waiting_ids (s\<lparr>ad_audit := a\<rparr>) = waiting_ids s"
  "settled_ids (s\<lparr>ad_audit := a\<rparr>) = settled_ids s" "timed_out (s\<lparr>ad_audit := a\<rparr>) = timed_out s"
  "in_flight (s\<lparr>ad_audit := a\<rparr>) = in_flight s" "run_ids (s\<lparr>ad_audit := a\<rparr>) = run_ids s" "issued_ids (s\<lparr>ad_audit := a\<rparr>) = issued_ids s"
  "plain_runs (s\<lparr>ad_audit := a\<rparr>) = plain_runs s"
  by (auto simp: ad_sets issued_def issued_ids_def)

lemma runs_frame [simp]:
  "draft_ids (s\<lparr>ad_runs := a\<rparr>) = draft_ids s" "waiting_ids (s\<lparr>ad_runs := a\<rparr>) = waiting_ids s"
  "settled_ids (s\<lparr>ad_runs := a\<rparr>) = settled_ids s" "timed_out (s\<lparr>ad_runs := a\<rparr>) = timed_out s" "issued_ids (s\<lparr>ad_runs := a\<rparr>) = issued_ids s"
  by (auto simp: ad_sets issued_def issued_ids_def)

lemma queue_ok_finish:
  assumes "queue_ok known ds ws ts fs ps rs started done expired" "i \<in> rs" "fs \<subseteq> insert i fs'" "ps' \<subseteq> ps" "rs' \<subseteq> rs" "ps' \<subseteq> rs'"
  shows "queue_ok known (ds - {i}) (ws - {i}) ts fs' ps' rs' started (insert i done) expired"
    "i \<in> ps \<Longrightarrow> queue_ok known (ds - {i}) (ws - {i}) ts fs' ps' rs' started done expired"
  using assms unfolding queue_ok_def by auto

lemma run_removed:
  assumes "n < length xs"
  shows "set xs = insert (xs ! n) (set (take n xs @ drop (Suc n) xs))"
  by (subst id_take_nth_drop [OF assms]) auto

lemma ad_inv_exec: "ad_inv s \<Longrightarrow> ad_inv (exec_settles n r s)"
proof (cases "n < length (ad_runs s)")
  case n: True
  assume inv: "ad_inv s"
  define rn where "rn = ad_runs s ! n"
  define t where "t = s\<lparr>ad_runs := take n (ad_runs s) @ drop (Suc n) (ad_runs s)\<rparr>"
  let ?i = "dr_id (rn_draft rn)"
  have runs: "set (ad_runs s) = insert rn (set (ad_runs t))"
    using run_removed [OF n] by (simp add: rn_def t_def)
  then have sub: "in_flight s \<subseteq> insert ?i (in_flight t)" "plain_runs t \<subseteq> plain_runs s" "run_ids t \<subseteq> run_ids s" "?i \<in> run_ids s"
    "plain_runs t \<subseteq> run_ids t" "\<not> rn_waiter rn \<Longrightarrow> ?i \<in> plain_runs s"
    by (auto simp: ad_sets)
  have frames: "draft_ids t = draft_ids s" "waiting_ids t = waiting_ids s" "ad_timers t = ad_timers s" "settled_ids t = settled_ids s"
    "timed_out t = timed_out s" "ad_started t = ad_started s" "issued_ids t = issued_ids s"
    by (simp_all add: t_def)
  note fin = queue_ok_finish [OF inv [unfolded ad_inv_def] sub(4) sub(1) sub(2) sub(3) sub(5)]
  show ?thesis unfolding ad_inv_def exec_eq [OF n rn_def refl] t_def [symmetric]
    using fin(1) fin(2) [OF sub(6)] by (cases "rn_waiter rn"; cases r) (simp_all add: frames)
qed (simp add: exec_settles_def)

lemma ad_inv_display:
  "ad_inv s \<Longrightarrow> ad_inv (setFocusId j s)" "ad_inv s \<Longrightarrow> ad_inv (setGlobalDialogOpen b s)"
  "ad_inv s \<Longrightarrow> ad_inv (suppressAutoDialog s)" "ad_inv s \<Longrightarrow> ad_inv (focusNext j s)"
  by (auto simp: ad_inv_def ad_sets issued_ids_def issued_def setFocusId_def setGlobalDialogOpen_def suppressAutoDialog_def
      focusNext_def Let_def)

lemma ad_inv_step: "ad_inv s \<Longrightarrow> ad_inv (ad_step op s)"
  by (cases op) (simp_all add: ad_inv_enqueue ad_inv_timeout ad_inv_dismiss ad_inv_resolve ad_inv_exec ad_inv_display)

interpretation approvals: store_machine ad_init ad_step ad_inv
  by unfold_locales (simp_all add: ad_inv_init ad_inv_step)

section \<open>What a step can do\<close>

lemma focusNext_frame: "\<exists>j. focusNext i s = s\<lparr>ad_focusId := j\<rparr>"
  by (auto simp: focusNext_def Let_def)

lemma display_sets [simp]:
  "draft_ids (setFocusId j s) = draft_ids s" "draft_ids (setGlobalDialogOpen b s) = draft_ids s"
  "draft_ids (suppressAutoDialog s) = draft_ids s" "draft_ids (focusNext k s) = draft_ids s"
  "waiting_ids (setFocusId j s) = waiting_ids s" "waiting_ids (setGlobalDialogOpen b s) = waiting_ids s"
  "waiting_ids (suppressAutoDialog s) = waiting_ids s" "waiting_ids (focusNext k s) = waiting_ids s"
  using focusNext_frame [of k s]
  by (auto simp: draft_ids_def waiting_ids_def setFocusId_def setGlobalDialogOpen_def suppressAutoDialog_def)

lemma settled_grows: "settled_ids s \<subseteq> settled_ids (ad_step op s)"
proof (cases op)
  case (TimeoutFires i)
  then show ?thesis by (auto simp: timeout_fires_def Let_def split: option.split)
next
  case (Dismiss i)
  then show ?thesis by (auto simp: dismiss_eq)
next
  case (ResolveAction i a)
  then show ?thesis by (cases rule: resolve_cases [of i a s]) (auto simp: dismiss_eq start_run_sets)
next
  case (ExecSettles n r)
  show ?thesis
  proof (cases "n < length (ad_runs s)")
    case True
    then show ?thesis by (simp add: ExecSettles exec_eq [OF True refl refl]) auto
  qed (simp add: ExecSettles exec_settles_def)
qed (auto simp: enqueue_sets enqueueAwaitable_sets setFocusId_def setGlobalDialogOpen_def suppressAutoDialog_def focusNext_def
    Let_def settled_ids_def)

lemma settle_keeps: "rget (ad_settled s) i = Some out \<Longrightarrow> rget (ad_settled (settle j out' s)) i = Some out"
  by (simp add: settle_def map_add_def)

lemma answer_stays: "rget (ad_settled s) i = Some out \<Longrightarrow> rget (ad_settled (ad_step op s)) i = Some out"
proof (cases op)
  case (TimeoutFires j)
  then show "rget (ad_settled s) i = Some out \<Longrightarrow> ?thesis"
    by (auto simp: timeout_fires_def Let_def settle_keeps split: option.split)
next
  case (Dismiss j)
  then show "rget (ad_settled s) i = Some out \<Longrightarrow> ?thesis" by (auto simp: dismiss_eq settle_keeps)
next
  case (ResolveAction j a)
  then show "rget (ad_settled s) i = Some out \<Longrightarrow> ?thesis"
    by (cases rule: resolve_cases [of j a s]) (auto simp: dismiss_eq settle_keeps start_run_sets)
next
  case (ExecSettles n r)
  show "rget (ad_settled s) i = Some out \<Longrightarrow> ?thesis"
  proof (cases "n < length (ad_runs s)")
    case True
    then show "rget (ad_settled s) i = Some out \<Longrightarrow> ?thesis"
      by (simp add: ExecSettles exec_eq [OF True refl refl] settle_keeps)
  qed (simp add: ExecSettles exec_settles_def)
qed (auto simp: enqueue_sets enqueueAwaitable_sets setFocusId_def setGlobalDialogOpen_def suppressAutoDialog_def focusNext_def
    Let_def)

text \<open>A waiter goes only with an answer.\<close>

lemma waiter_kept_or_answered:
  assumes inv: "ad_inv s" and "i \<in> waiting_ids s"
  shows "i \<in> waiting_ids (ad_step op s) \<union> settled_ids (ad_step op s)"
proof (cases op)
  case (TimeoutFires j)
  with assms(2) show ?thesis by (auto simp: timeout_fires_def Let_def split: option.split)
next
  case (Dismiss j)
  with assms(2) show ?thesis by (auto simp: dismiss_eq)
next
  case (ResolveAction j a)
  with assms(2) show ?thesis by (cases rule: resolve_cases [of j a s]) (auto simp: dismiss_eq start_run_sets)
next
  case (ExecSettles n r)
  show ?thesis
  proof (cases "n < length (ad_runs s)")
    case True
    let ?rn = "ad_runs s ! n"
    have "dr_id (rn_draft ?rn) \<noteq> i" if "\<not> rn_waiter ?rn"
    proof -
      have "dr_id (rn_draft ?rn) \<in> plain_runs s" using that nth_mem [OF True] by (auto simp: plain_runs_def)
      with inv assms(2) show ?thesis unfolding ad_inv_def queue_ok_def by blast
    qed
    with assms(2) show ?thesis by (simp add: ExecSettles exec_eq [OF True refl refl]) auto
  qed (use assms(2) in \<open>simp add: ExecSettles exec_settles_def\<close>)
qed (use assms(2) in \<open>auto simp: enqueue_sets enqueueAwaitable_sets\<close>)

text \<open>Only a user's answer starts a draft, and only one that is still in the queue.\<close>

definition starts_of :: "string \<Rightarrow> ad_state \<Rightarrow> string list" where
  "starts_of i s = filter (\<lambda>j. j = i) (ad_started s)"

lemma started_step:
  assumes "\<not> (\<exists>a d. op = ResolveAction i a \<and> i \<in> draft_ids s \<and> \<not> rejecting d a)"
  shows "starts_of i (ad_step op s) = starts_of i s"
proof (cases op)
  case (ResolveAction j a)
  then show ?thesis
  proof (cases rule: resolve_cases [of j a s])
    case (run d)
    with assms ResolveAction have "j \<noteq> i" by auto
    with run ResolveAction show ?thesis by (simp add: starts_of_def start_run_def Let_def)
  qed (auto simp: starts_of_def dismiss_eq)
next
  case (ExecSettles n r)
  show ?thesis
  proof (cases "n < length (ad_runs s)")
    case True
    then show ?thesis by (simp add: ExecSettles exec_eq [OF True refl refl] starts_of_def)
  qed (simp add: ExecSettles exec_settles_def)
qed (auto simp: starts_of_def enqueue_sets enqueueAwaitable_sets timeout_fires_def dismiss_eq setFocusId_def
    setGlobalDialogOpen_def suppressAutoDialog_def focusNext_def Let_def split: option.split)

lemma gone_stays_gone:
  assumes "ad_inv s" "i \<in> settled_ids s"
  shows "starts_of i (ad_step op s) = starts_of i s"
  using ad_invD(3) [OF assms] by (intro started_step) blast

lemma waiter_run:
  assumes "ad_inv s" "i \<in> waiting_ids s \<union> settled_ids s"
  shows "i \<in> waiting_ids (fold ad_step ops s) \<union> settled_ids (fold ad_step ops s)"
  using assms
proof (induction ops arbitrary: s)
  case (Cons op ops)
  have "i \<in> waiting_ids (ad_step op s) \<union> settled_ids (ad_step op s)"
    using Cons.prems waiter_kept_or_answered [of s i op] settled_grows [of s op] by blast
  then show ?case using Cons.IH [OF ad_inv_step [OF Cons.prems(1)]] by simp
qed simp

lemma answered_run:
  assumes "ad_inv s" "rget (ad_settled s) i = Some out"
  shows "rget (ad_settled (fold ad_step ops s)) i = Some out \<and> starts_of i (fold ad_step ops s) = starts_of i s"
  using assms
proof (induction ops arbitrary: s)
  case (Cons op ops)
  have "i \<in> settled_ids s" using Cons.prems(2) by (simp add: settled_ids_rget)
  with Cons.IH [OF ad_inv_step [OF Cons.prems(1)] answer_stays [OF Cons.prems(2)]] gone_stays_gone [OF Cons.prems(1)]
  show ?case by simp
qed simp

lemma started_iff: "i \<in> set (ad_started s) \<longleftrightarrow> starts_of i s \<noteq> []"
  by (auto simp: starts_of_def filter_empty_conv)

lemma start_needs_answer:
  "i \<notin> set (ad_started s) \<Longrightarrow> i \<in> set (ad_started (fold ad_step ops s))
     \<Longrightarrow> \<exists>a. ResolveAction i a \<in> set ops \<and> a \<notin> {''reject'', ''dismiss''}"
proof (induction ops arbitrary: s)
  case (Cons op ops)
  show ?case
  proof (cases "i \<in> set (ad_started (ad_step op s))")
    case True
    then have "starts_of i (ad_step op s) \<noteq> starts_of i s" using Cons.prems(1) by (auto simp: started_iff)
    with started_step [of op i s] obtain a d where "op = ResolveAction i a" "\<not> rejecting d a" by blast
    then show ?thesis by (auto simp: rejecting_def)
  next
    case False
    with Cons show ?thesis by fastforce
  qed
qed simp

section \<open>Properties\<close>

text \<open>(C8) No caller is forgotten. While a caller waits, its timer is armed and firing it answers the caller, or an
  execution is in flight whose end, whatever its result, answers the caller; and a caller never stops waiting
  without an answer.\<close>

theorem no_caller_is_forgotten:
  assumes "s = fold ad_step ops ad_init" "i \<in> waiting_ids s"
  shows "(i \<in> set (ad_timers s) \<and> i \<in> settled_ids (timeout_fires i s)
      \<or> (\<exists>n < length (ad_runs s). \<forall>r. i \<in> settled_ids (exec_settles n r s)))
    \<and> (\<forall>rest. i \<in> waiting_ids (fold ad_step rest s) \<union> settled_ids (fold ad_step rest s))"
proof
  have inv: "ad_inv s" unfolding assms(1) by (rule approvals.inv_run)
  show "\<forall>rest. i \<in> waiting_ids (fold ad_step rest s) \<union> settled_ids (fold ad_step rest s)"
    using waiter_run [OF inv] assms(2) by blast
  from ad_invD(5) [OF inv assms(2)]
  show "i \<in> set (ad_timers s) \<and> i \<in> settled_ids (timeout_fires i s)
      \<or> (\<exists>n < length (ad_runs s). \<forall>r. i \<in> settled_ids (exec_settles n r s))"
  proof
    assume t: "i \<in> set (ad_timers s)"
    obtain ms where "rget (ad_waiters s) i = Some ms" using assms(2) by (auto simp: waiting_ids_rget)
    with t show ?thesis by (simp add: timeout_eq)
  next
    assume "i \<in> in_flight s"
    then obtain rn where "rn \<in> set (ad_runs s)" "rn_waiter rn" "dr_id (rn_draft rn) = i" by (auto simp: in_flight_def)
    then obtain n where n: "n < length (ad_runs s)" "rn_waiter (ad_runs s ! n)" "dr_id (rn_draft (ad_runs s ! n)) = i"
      by (auto simp: in_set_conv_nth)
    then have "i \<in> settled_ids (exec_settles n r s)" for r by (simp add: exec_eq [OF n(1) refl refl])
    with n show ?thesis by blast
  qed
qed

text \<open>(C9) An answer is final: the caller keeps it, and the operation is not started again after it. An operation
  whose approval timed out was never started and never will be.\<close>

theorem answered_operation_never_starts:
  assumes "s = fold ad_step ops ad_init" "rget (ad_settled s) i = Some out"
  shows "rget (ad_settled (fold ad_step rest s)) i = Some out
    \<and> starts_of i (fold ad_step rest s) = starts_of i s
    \<and> (\<forall>ms. out = TimedOut ms \<longrightarrow> i \<notin> set (ad_started (fold ad_step rest s)))"
proof -
  have inv: "ad_inv s" unfolding assms(1) by (rule approvals.inv_run)
  have "i \<notin> set (ad_started s)" if "out = TimedOut ms" for ms
    using ad_invD(4) [OF inv] map_of_SomeD [OF assms(2)] that by (auto simp: timed_out_def)
  with answered_run [OF inv assms(2), of rest] show ?thesis by (auto simp: started_iff)
qed

text \<open>(C7) A gated tool call runs only with the user's consent: when the gate lets a call wait, the queue holds it
  with an armed timer and nothing is started; and however the program goes on, the call is started only if the
  user chose one of its actions other than rejecting or dismissing it. A call that runs at once leaves the queue
  alone and is one that the gate allows.\<close>

theorem gated_call_needs_consent:
  assumes "s = fold ad_step ops ad_init" "runWithToolGate env show_preview now input s = (result, s')"
  shows "(\<forall>i. result = Waits i \<longrightarrow> i \<in> waiting_ids s' \<and> i \<in> set (ad_timers s') \<and> ad_started s' = ad_started s
      \<and> (\<forall>rest. i \<in> set (ad_started (fold ad_step rest s'))
           \<longrightarrow> (\<exists>a. ResolveAction i a \<in> set rest \<and> a \<notin> {''reject'', ''dismiss''})))
    \<and> (result = RunNow \<longrightarrow> s' = s \<and> (\<exists>g. decideToolInvocation env input = Some g \<and> g_decision g = Allow))"
proof -
  have inv: "ad_inv s" unfolding assms(1) by (rule approvals.inv_run)
  show ?thesis
  proof (cases result)
    case (Waits i)
    with assms(2) obtain d where s': "s' = enqueueAwaitable now d s" "i = draft_id now (Suc (ad_seq s))"
      by (auto simp: runWithToolGate_def split: option.splits gate_decision.splits)
    then have "i \<notin> set (ad_started s')" using new_is_fresh [OF inv, of now] by (simp add: enqueueAwaitable_sets)
    with Waits s' start_needs_answer [of i s'] show ?thesis by (auto simp: enqueueAwaitable_sets)
  qed (use assms(2) in \<open>auto simp: runWithToolGate_def split: option.splits gate_decision.splits\<close>)
qed

text \<open>(C10) Two clicks on the confirm button before the first execution ends run the operation twice; and a
  rejection after a confirmation tells the caller that the user ignored an operation that is running.\<close>

theorem second_click_runs_again:
  assumes "di_actions d = []"
  shows "ad_started (fold ad_step [EnqueueAwaitable now d, ResolveAction (draft_id now 1) ''confirm'',
      ResolveAction (draft_id now 1) ''confirm''] ad_init) = [draft_id now 1, draft_id now 1]
    \<and> (let s = fold ad_step [EnqueueAwaitable now d, ResolveAction (draft_id now 1) ''confirm'',
          ResolveAction (draft_id now 1) ''reject''] ad_init
       in ad_settled s = [(draft_id now 1, Ignored)] \<and> ad_started s = [draft_id now 1] \<and> length (ad_runs s) = 1)"
  using assms
  by (simp add: enqueueAwaitable_def push_draft_def new_draft_def draft_input.defs ad_init_def Let_def resolveAction_def
      rejecting_def find_action_def getDraftActions_def DEFAULT_ACTIONS_def clear_timer_def dismiss_def drop_draft_def
      settle_def forget_waiter_def)

text \<open>Instances.\<close>

definition write_draft :: draft_input where
  "write_draft = \<lparr> di_kind = KindSql, di_title = ''drop'', di_preview = ''drop table t'', di_conversationId = None,
     di_risk = Some LevelHigh, di_riskCheck = None, di_environment = None, di_toolName = None, di_resourceId = None,
     di_timeoutMs = None, di_source = None, di_target = None, di_actions = [], di_runAction = False \<rparr>"

theorem no_caller_is_forgotten_witness:
  "draft_id 7 1 \<in> settled_ids (timeout_fires (draft_id 7 1) (fold ad_step [EnqueueAwaitable 7 write_draft] ad_init))"
proof -
  let ?s = "fold ad_step [EnqueueAwaitable 7 write_draft] ad_init"
  have w: "draft_id 7 1 \<in> waiting_ids ?s" and r: "ad_runs ?s = []"
    by (simp_all add: enqueueAwaitable_sets ad_init_def) (simp add: enqueueAwaitable_def push_draft_def Let_def)
  from no_caller_is_forgotten [OF refl w] r show ?thesis by simp
qed

theorem answered_operation_never_starts_witness:
  "draft_id 7 1 \<notin> set (ad_started (fold ad_step [ResolveAction (draft_id 7 1) ''confirm'']
     (fold ad_step [EnqueueAwaitable 7 write_draft, TimeoutFires (draft_id 7 1)] ad_init)))"
proof -
  have "rget (ad_settled (fold ad_step [EnqueueAwaitable 7 write_draft, TimeoutFires (draft_id 7 1)] ad_init)) (draft_id 7 1)
      = Some (TimedOut 180000)"
    by (simp add: enqueueAwaitable_def push_draft_def new_draft_def draft_input.defs ad_init_def Let_def timeout_fires_def
        clear_timer_def settle_def forget_waiter_def drop_draft_def write_draft_def resolveTimeoutMs_def)
  from answered_operation_never_starts [OF refl this] show ?thesis by blast
qed

theorem gated_call_needs_consent_witness:
  "\<exists>i s'. runWithToolGate plain_env g_title 7 (uptime_call\<lparr>ti_terminalApprovalRequired := True\<rparr>) ad_init = (Waits i, s')
     \<and> i \<in> waiting_ids s' \<and> (\<forall>rest. i \<in> set (ad_started (fold ad_step rest s'))
           \<longrightarrow> (\<exists>a. ResolveAction i a \<in> set rest \<and> a \<notin> {''reject'', ''dismiss''}))"
proof -
  let ?in = "uptime_call\<lparr>ti_terminalApprovalRequired := True\<rparr>"
  have "map_option g_decision (decideToolInvocation plain_env ?in) = Some Approve" by code_simp
  then obtain g where g: "decideToolInvocation plain_env ?in = Some g" "g_decision g = Approve" by auto
  let ?r = "runWithToolGate plain_env g_title 7 ?in ad_init"
  have fst: "fst ?r = Waits (draft_id 7 1)" by (simp add: runWithToolGate_def g ad_init_def)
  have "ad_init = fold ad_step [] ad_init" by simp
  from gated_call_needs_consent [OF this surjective_pairing [of ?r]] fst show ?thesis by (metis surjective_pairing)
qed

theorem second_click_runs_again_witness:
  "ad_started (fold ad_step [EnqueueAwaitable 7 write_draft, ResolveAction (draft_id 7 1) ''confirm'',
      ResolveAction (draft_id 7 1) ''confirm''] ad_init) = [draft_id 7 1, draft_id 7 1]"
  using second_click_runs_again [of write_draft 7] by (simp add: write_draft_def)

end
