(* ===== verification/TermOutput.thy ===== *)
theory TermOutput
  imports Regex
begin

text \<open>
  \<^bold>\<open>frontend/src/modules/terminal/terminalOutputModel.ts\<close>: the output of a running terminal command as
  finished lines and a current line, which a carriage return starts over; lines that show progress replace
  their predecessor, and a new frame of a compose run replaces the old one. The spinner characters of one
  pattern have code units above 255, so that pattern matches no text of this model.
\<close>

section \<open>Recognising progress\<close>

definition csi :: rx where
  "csi = seqs [lit CHR 0x1B, lit CHR ''['', Star (Cls (\<lambda>c. is_digit c \<or> c \<in> set '';?'')),
     Star (Cls (\<lambda>c. 32 \<le> code_of c \<and> code_of c \<le> 47)), Cls (\<lambda>c. 64 \<le> code_of c \<and> code_of c \<le> 126)]"

definition osc :: rx where
  "osc = seqs [lit CHR 0x1B, lit CHR '']'', Star (Cls (\<lambda>c. c \<noteq> CHR 0x07)),
     Alt (lit CHR 0x07) (word_lit [CHR 0x1B, CHR 0x5C])]"

definition crlf :: rx where
  "crlf = word_lit [CHR 0x0D, CHR 0x0A]"

definition strip_escapes :: "string \<Rightarrow> string" where
  "strip_escapes t = rx_replace_all osc '''' (rx_replace_all csi '''' t)"

definition stripForLiveIngest :: "string \<Rightarrow> string" where
  "stripForLiveIngest t = rx_replace_all crlf [CHR 0x0A] (strip_escapes t)"

record output_model =
  om_lines :: "string list"
  om_currentLine :: string

definition compose_frame :: rx where
  "compose_frame = seqs [lit CHR ''['', one_of ''+-'', lit CHR '']'', Plus Ws, Plus NonWs]"

definition isDockerComposeProgressHeader :: "string \<Rightarrow> bool" where
  "isDockerComposeProgressHeader line = rx_test (Seq LineStart compose_frame) (js_trim line)"

definition isDockerComposeProgressDetail :: "string \<Rightarrow> bool" where
  "isDockerComposeProgressDetail line =
     (let trimmed = js_trim line in
      if trimmed = '''' then False
      else rx_test (seqs [LineStart, alts (map word_i [''Image'', ''Container'', ''Service'', ''Volume'', ''Network'', ''Build'']),
               Plus Ws, Plus NonWs]) trimmed
         \<and> rx_test (seqs [WordBoundary, alts (map word_i [''Pulling'', ''Pulled'', ''Waiting'', ''Downloading'',
               ''Download complete'', ''Extracting'', ''Building'', ''Built'', ''Creating'', ''Created'', ''Starting'', ''Started'',
               ''Recreate'', ''Running'', ''Exited'', ''Healthy'', ''Error'']), WordBoundary]) trimmed)"

definition percent :: rx where
  "percent = seqs [Plus Digit, Star Ws, lit CHR ''%'']"

definition transfer_rate :: rx where
  "transfer_rate = seqs [Plus Digit, Opt (Seq (lit CHR ''.'') (Plus Digit)), Star Ws,
     alts (map word_i [''MB'', ''KB'', ''GB'', ''kB'', ''KiB'', ''MiB'', ''GiB'']), word_i ''/s'']"

definition progress_word :: rx where
  "progress_word = seqs [WordBoundary,
     alts [seqs [word_i ''Download'', Opt (word_i ''ing'')], seqs [word_i ''Fetch'', Opt (word_i ''ing'')],
           seqs [word_i ''Install'', Opt (word_i ''ing'')], seqs [word_i ''Extract'', Opt (word_i ''ing'')],
           seqs [word_i ''Pull'', Opt (word_i ''ing'')], word_i ''Building'', word_i ''Unpacking'', word_i ''Resolving'',
           word_i ''Waiting'', word_i ''Setup'', word_i ''Run''], WordBoundary]"

definition isProgressStatusLine :: "string \<Rightarrow> bool" where
  "isProgressStatusLine line =
     (let trimmed = js_trim line in
      if trimmed = '''' then False
      else if isDockerComposeProgressHeader trimmed then True
      else if isDockerComposeProgressDetail trimmed then True
      else if rx_test percent trimmed then True
      else if rx_test transfer_rate trimmed then True
      else rx_test progress_word trimmed)"

section \<open>Lines\<close>

text \<open>The lines before the last frame header, or all of them.\<close>

definition before_last_header :: "string list \<Rightarrow> string list" where
  "before_last_header lines =
     (if list_ex isDockerComposeProgressHeader lines
      then rev (tl (dropWhile (\<lambda>l. \<not> isDockerComposeProgressHeader l) (rev lines))) else lines)"

definition shouldCollapseProgressLine :: "string list \<Rightarrow> string \<Rightarrow> bool" where
  "shouldCollapseProgressLine lines line =
     (if isDockerComposeProgressHeader line \<or> isDockerComposeProgressDetail line then False
      else if \<not> isProgressStatusLine line then False
      else if lines = [] then False
      else (let prev = last lines in
            if isDockerComposeProgressHeader prev \<or> isDockerComposeProgressDetail prev then False
            else isProgressStatusLine prev))"

definition commitLine :: "string list \<Rightarrow> string \<Rightarrow> string list" where
  "commitLine lines line =
     (if isDockerComposeProgressHeader line then before_last_header lines @ [line]
      else if shouldCollapseProgressLine lines line then butlast lines @ [line]
      else lines @ [line])"

definition createEmptyOutputModel :: output_model where
  "createEmptyOutputModel = \<lparr> om_lines = [], om_currentLine = '''' \<rparr>"

fun ingest_text :: "string \<Rightarrow> output_model \<Rightarrow> output_model" where
  "ingest_text [] m = m"
| "ingest_text (ch # rest) m =
     (if ch = CHR 0x0D then
        (case rest of
           n # rest' \<Rightarrow>
             if n = CHR 0x0A then
               ingest_text rest' (m\<lparr>om_lines := commitLine (om_lines m) (om_currentLine m), om_currentLine := ''''\<rparr>)
             else ingest_text rest (m\<lparr>om_currentLine := ''''\<rparr>)
         | [] \<Rightarrow> m\<lparr>om_currentLine := ''''\<rparr>)
      else if ch = CHR 0x0A then
        ingest_text rest (m\<lparr>om_lines := commitLine (om_lines m) (om_currentLine m), om_currentLine := ''''\<rparr>)
      else ingest_text rest (m\<lparr>om_currentLine := om_currentLine m @ [ch]\<rparr>))"

definition ingestTerminalOutputChunk :: "output_model \<Rightarrow> string \<Rightarrow> output_model" where
  "ingestTerminalOutputChunk m chunk =
     (let t = stripForLiveIngest chunk in if t = '''' then m else ingest_text t m)"

fun join_lines :: "string list \<Rightarrow> string" where
  "join_lines [] = ''''"
| "join_lines [l] = l"
| "join_lines (l # ls) = l @ [CHR 0x0A] @ join_lines ls"

definition flattenOutputModel :: "output_model \<Rightarrow> string" where
  "flattenOutputModel m = join_lines (om_lines m @ (if om_currentLine m \<noteq> '''' then [om_currentLine m] else []))"

fun split_lines :: "string \<Rightarrow> string \<Rightarrow> string list" where
  "split_lines acc [] = [acc]"
| "split_lines acc (c # cs) = (if c = CHR 0x0A then acc # split_lines '''' cs else split_lines (acc @ [c]) cs)"

definition isInlineProgressChunk :: "string \<Rightarrow> bool" where
  "isInlineProgressChunk chunk =
     (if chunk = '''' then False
      else let stripped = strip_escapes chunk in
        if CHR 0x0D \<in> set stripped then True
        else if isDockerComposeProgressHeader stripped \<or> rx_test compose_frame stripped then True
        else (let trailing = filter (\<lambda>l. l \<noteq> '''') (map js_trim (split_lines '''' stripped))
              in if trailing = [] then False else isProgressStatusLine (last trailing)))"

definition renderLiveOutputText :: "output_model option \<Rightarrow> string \<Rightarrow> string" where
  "renderLiveOutputText m fallback =
     (case m of None \<Rightarrow> fallback
      | Some m \<Rightarrow> if flattenOutputModel m = '''' then fallback else flattenOutputModel m)"

definition collapseProgressOutputText :: "string \<Rightarrow> string" where
  "collapseProgressOutputText t =
     (let lines = split_lines '''' t in
      if length lines \<le> 1 then t else join_lines (fold (\<lambda>line acc. commitLine acc line) lines []))"

section \<open>Text without escapes\<close>

text \<open>A chunk that is cut neither inside an escape sequence nor inside a line break.\<close>

definition whole_chunk :: "string \<Rightarrow> bool" where
  "whole_chunk t \<longleftrightarrow> CHR 0x1B \<notin> set t \<and> (t \<noteq> '''' \<longrightarrow> last t \<noteq> CHR 0x0D)"

text \<open>A pattern whose first character the text lacks is not found.\<close>

fun starts_on :: "char \<Rightarrow> rx \<Rightarrow> bool" where
  "starts_on c (Seq r q) = starts_on c r"
| "starts_on c (Cls P) = (\<forall>d. P d \<longrightarrow> d = c)"
| "starts_on c r = False"

lemma starts_on_ends: "starts_on c r \<Longrightarrow> \<not> (i < length s \<and> s ! i = c) \<Longrightarrow> rx_ends r s i = []"
  by (induction c r rule: starts_on.induct) auto

lemma no_pieces:
  assumes "\<And>j. i \<le> j \<Longrightarrow> rx_ends r s j = []"
  shows "rx_pieces r s i acc = [acc @ drop i s]"
  using assms
proof (induction "length s - i" arbitrary: i acc)
  case 0
  then show ?case by (simp add: rx_pieces.simps)
next
  case (Suc n)
  then have i: "i < length s" by simp
  then have d: "drop i s = s ! i # drop (Suc i) s" by (rule Cons_nth_drop_Suc [symmetric])
  have "rx_pieces r s (Suc i) (acc @ [s ! i]) = [(acc @ [s ! i]) @ drop (Suc i) s]"
    using Suc.hyps Suc.prems by (intro Suc.hyps(1)) simp_all
  then show ?case using i d Suc.prems [of i] by (subst rx_pieces.simps) simp
qed

lemma replace_nothing: "(\<And>j. rx_ends r s j = []) \<Longrightarrow> rx_replace_all r t s = s"
  using no_pieces [of 0 r s "''''"] by (simp add: rx_replace_all_def)

lemma replace_none: "starts_on c r \<Longrightarrow> c \<notin> set s \<Longrightarrow> rx_replace_all r t s = s"
  by (rule replace_nothing) (auto intro: starts_on_ends)

lemma strip_escapes_plain: "CHR 0x1B \<notin> set t \<Longrightarrow> strip_escapes t = t"
  by (simp add: strip_escapes_def replace_none [of "CHR 0x1B"] csi_def osc_def lit_def)

text \<open>Line breaks of two characters become line feeds before the loop sees the text.\<close>

fun unix_breaks :: "string \<Rightarrow> string" where
  "unix_breaks [] = []"
| "unix_breaks [c] = [c]"
| "unix_breaks (c # d # s) = (if c = CHR 0x0D \<and> d = CHR 0x0A then d # unix_breaks s else c # unix_breaks (d # s))"

lemma ends_crlf:
  "rx_ends crlf s i = (if Suc i < length s \<and> s ! i = CHR 0x0D \<and> s ! Suc i = CHR 0x0A then [Suc (Suc i)] else [])"
  by (cases "Suc i < length s"; cases "i < length s") (auto simp: crlf_def word_lit_def lit_def)

lemma weave_Cons: "ps \<noteq> [] \<Longrightarrow> concat (map (\<lambda>p. t # p) ps) = t # hd ps @ concat (map (\<lambda>p. t # p) (tl ps))"
  by (cases ps) simp_all

lemma crlf_pieces:
  "hd (rx_pieces crlf s i acc) @ concat (map (\<lambda>p. CHR 0x0A # p) (tl (rx_pieces crlf s i acc)))
     = acc @ unix_breaks (drop i s)"
proof (induction "length s - i" arbitrary: i acc rule: less_induct)
  case less
  show ?case
  proof (cases "i < length s")
    case False
    then show ?thesis by (subst rx_pieces.simps, subst rx_pieces.simps) simp
  next
    case True
    then have d: "drop i s = s ! i # drop (Suc i) s" by (rule Cons_nth_drop_Suc [symmetric])
    show ?thesis
    proof (cases "Suc i < length s \<and> s ! i = CHR 0x0D \<and> s ! Suc i = CHR 0x0A")
      case True
      then have e: "drop (Suc i) s = s ! Suc i # drop (Suc (Suc i)) s" by (metis Cons_nth_drop_Suc)
      have p: "rx_pieces crlf s i acc = acc # rx_pieces crlf s (Suc (Suc i)) ''''"
        using True by (subst rx_pieces.simps) (simp add: ends_crlf)
      have "length s - Suc (Suc i) < length s - i" using True by linarith
      from less [OF this, of "''''"] True show ?thesis by (simp add: p d e weave_Cons [OF rx_pieces_nonempty])
    next
      case other: False
      have p: "rx_pieces crlf s i acc = rx_pieces crlf s (Suc i) (acc @ [s ! i])"
        using True other by (subst rx_pieces.simps) (auto simp: ends_crlf)
      have "unix_breaks (drop i s) = s ! i # unix_breaks (drop (Suc i) s)"
      proof (cases "Suc i < length s")
        case True
        then have "drop (Suc i) s = s ! Suc i # drop (Suc (Suc i)) s" by (metis Cons_nth_drop_Suc)
        with other True show ?thesis by (auto simp: d)
      qed (simp add: d)
      with less [of "Suc i" "acc @ [s ! i]"] True show ?thesis by (simp add: p)
    qed
  qed
qed

lemma unix_append: "(a \<noteq> '''' \<longrightarrow> last a \<noteq> CHR 0x0D) \<Longrightarrow> unix_breaks (a @ b) = unix_breaks a @ unix_breaks b"
proof (induction a rule: unix_breaks.induct)
  case (3 c d s)
  then show ?case by (cases "s = ''''") auto
next
  case (2 c)
  then show ?case by (cases b) simp_all
qed simp

lemma last_unix: "a \<noteq> '''' \<Longrightarrow> unix_breaks a \<noteq> '''' \<and> last (unix_breaks a) = last a"
proof (induction a rule: unix_breaks.induct)
  case (3 c d s)
  then show ?case by (cases "s = ''''") auto
qed auto

lemma unix_word: "CHR 0x0D \<notin> set t \<Longrightarrow> unix_breaks (t @ u) = t @ unix_breaks u"
proof (induction t)
  case (Cons c t)
  then show ?case by (cases "t @ u") auto
qed simp

lemma ingest_plain: "CHR 0x1B \<notin> set t \<Longrightarrow> ingestTerminalOutputChunk m t = ingest_text (unix_breaks t) m"
  using crlf_pieces [of t 0 "''''"]
  by (auto simp: ingestTerminalOutputChunk_def stripForLiveIngest_def strip_escapes_plain rx_replace_all_def Let_def)

lemma ingest_append: "(a \<noteq> '''' \<longrightarrow> last a \<noteq> CHR 0x0D) \<Longrightarrow> ingest_text (a @ b) m = ingest_text b (ingest_text a m)"
proof (induction a m rule: ingest_text.induct)
  case (2 ch rest m)
  then show ?case
  proof (cases "ch = CHR 0x0D")
    case True
    with "2.prems" obtain n rest' where r: "rest = n # rest'" by (cases rest) auto
    with 2 True show ?thesis by (cases "n = CHR 0x0A") (auto split: if_splits)
  next
    case False
    with 2 show ?thesis by (cases "ch = CHR 0x0A") (auto split: if_splits)
  qed
qed simp

lemma whole_append: "whole_chunk a \<Longrightarrow> whole_chunk b \<Longrightarrow> whole_chunk (a @ b)"
  by (auto simp: whole_chunk_def last_append)

lemma whole_concat: "\<forall>c \<in> set cs. whole_chunk c \<Longrightarrow> whole_chunk (concat cs)"
proof (induction cs)
  case Nil
  show ?case by (simp add: whole_chunk_def)
next
  case (Cons c cs)
  then show ?case by (simp add: whole_append)
qed

lemma ingest_whole_append:
  assumes "whole_chunk a" "whole_chunk b"
  shows "ingestTerminalOutputChunk m (a @ b) = ingestTerminalOutputChunk (ingestTerminalOutputChunk m a) b"
proof -
  have a: "a \<noteq> '''' \<longrightarrow> last a \<noteq> CHR 0x0D" using assms by (simp add: whole_chunk_def)
  then have u: "unix_breaks a \<noteq> '''' \<longrightarrow> last (unix_breaks a) \<noteq> CHR 0x0D" using last_unix [of a] by (cases a) auto
  show ?thesis using assms by (simp add: whole_chunk_def ingest_plain unix_append [OF a] ingest_append [OF u])
qed

section \<open>Frames\<close>

abbreviation headers :: "string list \<Rightarrow> string list" where
  "headers \<equiv> filter isDockerComposeProgressHeader"

definition one_frame :: "string list \<Rightarrow> bool" where
  "one_frame lines \<longleftrightarrow> length (headers lines) \<le> 1"

lemma headers_before:
  assumes "one_frame lines"
  shows "headers (before_last_header lines) = []"
proof (cases "list_ex isDockerComposeProgressHeader lines")
  case True
  let ?R = "dropWhile (\<lambda>l. \<not> isDockerComposeProgressHeader l) (rev lines)"
  have ne: "?R \<noteq> []" using True by (auto simp: list_ex_iff dropWhile_eq_Nil_conv)
  then have hd: "isDockerComposeProgressHeader (hd ?R)" using hd_dropWhile by blast
  have "headers (takeWhile (\<lambda>l. \<not> isDockerComposeProgressHeader l) (rev lines)) = []"
    by (auto simp: filter_empty_conv dest: set_takeWhileD)
  then have "headers (rev lines) = headers ?R"
    by (metis append_Nil filter_append takeWhile_dropWhile_id)
  also have "\<dots> = hd ?R # headers (tl ?R)" using ne hd by (metis filter.simps(2) list.collapse)
  finally have "length (headers (tl ?R)) = 0" using assms by (simp add: one_frame_def rev_filter [symmetric])
  then show ?thesis using True by (simp add: before_last_header_def rev_filter [symmetric])
next
  case False
  then have "headers lines = []" by (auto simp: list_ex_iff filter_empty_conv)
  with False show ?thesis by (simp add: before_last_header_def)
qed

lemma headers_butlast: "length (headers (butlast lines)) \<le> length (headers lines)"
  by (cases lines rule: rev_cases) auto

lemma commit_headers:
  assumes "one_frame lines"
  shows "one_frame (commitLine lines line)"
proof -
  consider "isDockerComposeProgressHeader line" | "\<not> isDockerComposeProgressHeader line" "shouldCollapseProgressLine lines line"
    | "\<not> isDockerComposeProgressHeader line" "\<not> shouldCollapseProgressLine lines line" by blast
  then show ?thesis
  proof cases
    case 1
    then show ?thesis using headers_before [OF assms] by (simp add: commitLine_def one_frame_def)
  next
    case 2
    then show ?thesis using headers_butlast [of lines] assms by (simp add: commitLine_def one_frame_def)
  next
    case 3
    then show ?thesis using assms by (simp add: commitLine_def one_frame_def)
  qed
qed

lemma ingest_headers: "one_frame (om_lines m) \<Longrightarrow> one_frame (om_lines (ingest_text t m))"
proof (induction t m rule: ingest_text.induct)
  case (2 ch rest m)
  note prem = "2.prems" commit_headers [OF "2.prems", of "om_currentLine m"]
  show ?case
  proof (cases "ch = CHR 0x0D")
    case True
    show ?thesis
    proof (cases rest)
      case (Cons n rest')
      with True prem 2 show ?thesis by (cases "n = CHR 0x0A") simp_all
    qed (simp add: True prem)
  next
    case False
    with prem 2 show ?thesis by (cases "ch = CHR 0x0A") simp_all
  qed
qed simp

section \<open>Properties\<close>


text \<open>The lines of a running compose command stay bounded by its last frame: after any chunks at most one frame
  header is shown.\<close>

theorem one_compose_frame_at_most:
  "length (headers (om_lines (fold (\<lambda>c m. ingestTerminalOutputChunk m c) chunks createEmptyOutputModel))) \<le> 1"
proof -
  have "one_frame (om_lines (fold (\<lambda>c m. ingestTerminalOutputChunk m c) chunks m))" if "one_frame (om_lines m)" for m
    using that
  proof (induction chunks arbitrary: m)
    case (Cons c chunks)
    have "one_frame (om_lines (ingestTerminalOutputChunk m c))"
      using ingest_headers [OF Cons.prems] Cons.prems by (simp add: ingestTerminalOutputChunk_def Let_def)
    then show ?case using Cons.IH by simp
  qed simp
  then show ?thesis by (simp add: createEmptyOutputModel_def one_frame_def)
qed

lemma ingest_word: "CHR 0x0D \<notin> set t \<Longrightarrow> CHR 0x0A \<notin> set t
    \<Longrightarrow> ingest_text (t @ u) m = ingest_text u (m\<lparr>om_currentLine := om_currentLine m @ t\<rparr>)"
  by (induction t arbitrary: m) auto

text \<open>A line break that is cut between two chunks loses the line: the carriage return at the end of the first
  chunk clears it, and the line feed at the start of the second commits an empty line in its place. In one chunk
  the line is kept.\<close>

theorem cut_line_break_loses_the_line:
  assumes "CHR 0x1B \<notin> set line" "CHR 0x0D \<notin> set line" "CHR 0x0A \<notin> set line"
  shows "om_lines (ingestTerminalOutputChunk (ingestTerminalOutputChunk createEmptyOutputModel (line @ [CHR 0x0D])) [CHR 0x0A])
      = ['''']
    \<and> om_lines (ingestTerminalOutputChunk createEmptyOutputModel (line @ [CHR 0x0D, CHR 0x0A])) = [line]"
proof -
  have commit: "commitLine [] l = [l]" for l
    by (simp add: commitLine_def before_last_header_def shouldCollapseProgressLine_def)
  show ?thesis using assms by (simp add: ingest_plain unix_word ingest_word createEmptyOutputModel_def commit)
qed


theorem cut_line_break_loses_the_line_witness:
  "om_lines (ingestTerminalOutputChunk (ingestTerminalOutputChunk createEmptyOutputModel (''hello'' @ [CHR 0x0D])) [CHR 0x0A]) = ['''']"
  using cut_line_break_loses_the_line [of "''hello''"] by simp

end
