(* ===== verification/Blocks.thy ===== *)
theory Blocks
  imports MessageParts TermOutput CommandPolicy
begin

text \<open>
  \<^bold>\<open>frontend/src/stores/blocksStore.ts\<close>: the blocks of the terminal sessions (a shell command with its
  output, or a thread with the assistant), the counter behind their identifiers, and the window in which
  output that arrives in quick succession is merged. Markers and directory listings are objects of the host,
  of type \<open>'h\<close>. \<open>Date.now()\<close> is the argument \<open>now\<close>; the calls of \<open>recordTerminalSessionActivity\<close>, another
  store, are logged. The two notes put before a shortened text are outside the 8-bit characters of the model
  and are arguments. A patch of a block or of a thread item is the list of the fields it sets; no caller sets
  an identifier.
\<close>

section \<open>Data\<close>

datatype turn_role = UserTurn | AssistantTurn

record thread_message =
  tm_id :: string
  tm_role :: turn_role
  tm_content :: string
  tm_reasoning :: "string option"
  tm_parts :: "part list option"
  tm_timestamp :: int

datatype thread_tool_status = CallPending | CallRunning | CallCompleted | CallRejected | CallFailed

record thread_tool =
  tt_id :: string
  tt_toolName :: string
  tt_args :: string
  tt_command :: "string option"
  tt_status :: thread_tool_status
  tt_result :: "string option"
  tt_shellBlockId :: "string option"
  tt_actionId :: "string option"
  tt_riskLevel :: "danger_level option"
  tt_timestamp :: int

datatype thread_item = ThreadMessage thread_message | ThreadTool thread_tool

fun item_id :: "thread_item \<Rightarrow> string" where
  "item_id (ThreadMessage m) = tm_id m"
| "item_id (ThreadTool t) = tt_id t"

datatype block_kind = ShellBlock | AiBlock

datatype block_status = BlockRunning | BlockCompleted | BlockFailed

record 'h terminal_block =
  b_id :: string
  b_sessionId :: string
  b_kind :: "block_kind option"
  b_title :: "string option"
  b_command :: string
  b_output :: string
  b_liveOutput :: "output_model option"
  b_reasoning :: "string option"
  b_aiThread :: "thread_item list option"
  b_exitCode :: "int option"
  b_startLine :: int
  b_endLine :: int
  b_marker :: "'h option"
  b_cwd :: string
  b_timestamp :: int
  b_completedAt :: "int option"
  b_status :: block_status
  b_attachedListing :: "'h option"
  b_directoryPreview :: "bool option"
  b_silent :: "bool option"
  b_linkedTabId :: "string option"
  b_linkedTabTitle :: "string option"
  b_aiThreadSummary :: "string option"
  b_aiThreadSummaryForCount :: "nat option"
  b_aiStalled :: "bool option"

text \<open>\<open>Partial<TerminalBlock>\<close> without the identifiers.\<close>

datatype 'h block_set =
    SetKind "block_kind option"
  | SetTitle "string option"
  | SetCommand string
  | SetOutput string
  | SetLiveOutput "output_model option"
  | SetReasoning "string option"
  | SetAiThread "thread_item list option"
  | SetExitCode "int option"
  | SetStartLine int
  | SetEndLine int
  | SetMarker "'h option"
  | SetCwd string
  | SetTimestamp int
  | SetCompletedAt "int option"
  | SetStatus block_status
  | SetAttachedListing "'h option"
  | SetDirectoryPreview "bool option"
  | SetSilent "bool option"
  | SetLinkedTabId "string option"
  | SetLinkedTabTitle "string option"
  | SetAiThreadSummary "string option"
  | SetAiThreadSummaryForCount "nat option"
  | SetAiStalled "bool option"

fun set_block :: "'h block_set \<Rightarrow> 'h terminal_block \<Rightarrow> 'h terminal_block" where
  "set_block (SetKind v) b = b\<lparr>b_kind := v\<rparr>"
| "set_block (SetTitle v) b = b\<lparr>b_title := v\<rparr>"
| "set_block (SetCommand v) b = b\<lparr>b_command := v\<rparr>"
| "set_block (SetOutput v) b = b\<lparr>b_output := v\<rparr>"
| "set_block (SetLiveOutput v) b = b\<lparr>b_liveOutput := v\<rparr>"
| "set_block (SetReasoning v) b = b\<lparr>b_reasoning := v\<rparr>"
| "set_block (SetAiThread v) b = b\<lparr>b_aiThread := v\<rparr>"
| "set_block (SetExitCode v) b = b\<lparr>b_exitCode := v\<rparr>"
| "set_block (SetStartLine v) b = b\<lparr>b_startLine := v\<rparr>"
| "set_block (SetEndLine v) b = b\<lparr>b_endLine := v\<rparr>"
| "set_block (SetMarker v) b = b\<lparr>b_marker := v\<rparr>"
| "set_block (SetCwd v) b = b\<lparr>b_cwd := v\<rparr>"
| "set_block (SetTimestamp v) b = b\<lparr>b_timestamp := v\<rparr>"
| "set_block (SetCompletedAt v) b = b\<lparr>b_completedAt := v\<rparr>"
| "set_block (SetStatus v) b = b\<lparr>b_status := v\<rparr>"
| "set_block (SetAttachedListing v) b = b\<lparr>b_attachedListing := v\<rparr>"
| "set_block (SetDirectoryPreview v) b = b\<lparr>b_directoryPreview := v\<rparr>"
| "set_block (SetSilent v) b = b\<lparr>b_silent := v\<rparr>"
| "set_block (SetLinkedTabId v) b = b\<lparr>b_linkedTabId := v\<rparr>"
| "set_block (SetLinkedTabTitle v) b = b\<lparr>b_linkedTabTitle := v\<rparr>"
| "set_block (SetAiThreadSummary v) b = b\<lparr>b_aiThreadSummary := v\<rparr>"
| "set_block (SetAiThreadSummaryForCount v) b = b\<lparr>b_aiThreadSummaryForCount := v\<rparr>"
| "set_block (SetAiStalled v) b = b\<lparr>b_aiStalled := v\<rparr>"

text \<open>The fields of a patch that \<open>updateBlock\<close> looks at: \<open>patch.status\<close>, \<open>patch.completedAt\<close>, \<open>patch.output\<close>.\<close>

fun patch_status :: "'h block_set list \<Rightarrow> block_status option" where
  "patch_status [] = None"
| "patch_status (SetStatus s # p) = (case patch_status p of None \<Rightarrow> Some s | r \<Rightarrow> r)"
| "patch_status (_ # p) = patch_status p"

fun patch_completedAt :: "'h block_set list \<Rightarrow> int option" where
  "patch_completedAt [] = None"
| "patch_completedAt (SetCompletedAt t # p) = (case patch_completedAt p of None \<Rightarrow> t | r \<Rightarrow> r)"
| "patch_completedAt (_ # p) = patch_completedAt p"

fun patch_output :: "'h block_set list \<Rightarrow> string option" where
  "patch_output [] = None"
| "patch_output (SetOutput t # p) = (case patch_output p of None \<Rightarrow> Some t | r \<Rightarrow> r)"
| "patch_output (_ # p) = patch_output p"

definition ends_block :: "'h block_set list \<Rightarrow> bool" where
  "ends_block p \<longleftrightarrow> patch_status p = Some BlockCompleted \<or> patch_status p = Some BlockFailed"

section \<open>The store\<close>

record activity =
  ac_session :: string
  ac_at :: int
  ac_command :: string

record 'h blocks_state =
  bs_blocks :: "'h terminal_block list jrec"
  bs_counter :: nat
  bs_pending :: "string jrec"
  bs_timer :: bool
  bs_activity :: "activity list"

definition blocks_init :: "'h blocks_state" where
  "blocks_init = \<lparr> bs_blocks = [], bs_counter = 0, bs_pending = [], bs_timer = False, bs_activity = [] \<rparr>"

definition MAX_BLOCK_OUTPUT_CHARS :: nat where
  "MAX_BLOCK_OUTPUT_CHARS = 64000"

text \<open>The shortening that follows every append: \<open>s.slice(-MAX)\<close> behind a note.\<close>

definition keep_tail :: "string \<Rightarrow> string \<Rightarrow> string" where
  "keep_tail note s =
     (if length s > MAX_BLOCK_OUTPUT_CHARS then note @ drop (length s - MAX_BLOCK_OUTPUT_CHARS) s else s)"

section \<open>Identifiers\<close>

definition block_number :: "string \<Rightarrow> nat option" where
  "block_number i =
     (let digits = drop 4 i in
      if starts_with i ''blk-'' \<and> digits \<noteq> '''' \<and> list_all is_digit digits then Some (undec 0 digits) else None)"

definition syncBlockCounterFromIds :: "string list \<Rightarrow> nat \<Rightarrow> nat" where
  "syncBlockCounterFromIds ids counter =
     fold (\<lambda>i m. case block_number i of None \<Rightarrow> m | Some k \<Rightarrow> max m k) ids counter"

definition sync_counter :: "string list \<Rightarrow> 'h blocks_state \<Rightarrow> 'h blocks_state" where
  "sync_counter ids s = s\<lparr>bs_counter := syncBlockCounterFromIds ids (bs_counter s)\<rparr>"

definition createBlockId :: "'h blocks_state \<Rightarrow> string \<times> 'h blocks_state" where
  "createBlockId s = (let n = Suc (bs_counter s) in (''blk-'' @ dec n, s\<lparr>bs_counter := n\<rparr>))"

fun first_by_id :: "string list \<Rightarrow> 'h terminal_block list \<Rightarrow> 'h terminal_block list" where
  "first_by_id seen [] = []"
| "first_by_id seen (b # bs) =
     (if b_id b \<in> set seen then first_by_id seen bs else b # first_by_id (b_id b # seen) bs)"

definition dedupeBlocksById :: "'h terminal_block list \<Rightarrow> 'h terminal_block list" where
  "dedupeBlocksById bs = rev (first_by_id [] (rev bs))"

section \<open>Finding and patching\<close>

definition has_block :: "string \<Rightarrow> 'h terminal_block list \<Rightarrow> bool" where
  "has_block bid bs \<longleftrightarrow> list_ex (\<lambda>b. b_id b = bid) bs"

definition findSessionIdForBlock :: "'h terminal_block list jrec \<Rightarrow> string \<Rightarrow> string option" where
  "findSessionIdForBlock r bid = map_option fst (find (\<lambda>(sid, bs). has_block bid bs) r)"

text \<open>A session with an empty identifier counts as none.\<close>

definition session_of :: "'h terminal_block list jrec \<Rightarrow> string \<Rightarrow> (string \<times> 'h terminal_block list) option" where
  "session_of r bid =
     (case findSessionIdForBlock r bid of
        None \<Rightarrow> None
      | Some sid \<Rightarrow> if sid = '''' then None else map_option (Pair sid) (rget r sid))"

definition patchSingleSessionBlock :: "'h terminal_block list jrec \<Rightarrow> string \<Rightarrow>
    ('h terminal_block \<Rightarrow> 'h terminal_block) \<Rightarrow> 'h terminal_block list jrec option" where
  "patchSingleSessionBlock r bid f =
     (case session_of r bid of
        None \<Rightarrow> None
      | Some (sid, bs) \<Rightarrow>
          if has_block bid bs then Some (rput sid (map_where (\<lambda>b. b_id b = bid) f bs) r) else None)"

definition findBlockById :: "string \<Rightarrow> 'h blocks_state \<Rightarrow> 'h terminal_block option" where
  "findBlockById bid s = find (\<lambda>b. b_id b = bid) (concat (map snd (bs_blocks s)))"

definition getBlocks :: "string \<Rightarrow> 'h blocks_state \<Rightarrow> 'h terminal_block list" where
  "getBlocks sid s = (case rget (bs_blocks s) sid of None \<Rightarrow> [] | Some bs \<Rightarrow> bs)"

definition getLastBlock :: "string \<Rightarrow> 'h blocks_state \<Rightarrow> 'h terminal_block option" where
  "getLastBlock sid s = (let bs = getBlocks sid s in if bs = [] then None else Some (last bs))"

definition getLastError :: "string \<Rightarrow> 'h blocks_state \<Rightarrow> 'h terminal_block option" where
  "getLastError sid s =
     find (\<lambda>b. b_status b = BlockFailed \<or> (b_exitCode b \<noteq> None \<and> b_exitCode b \<noteq> Some 0)) (rev (getBlocks sid s))"

text \<open>
  The shape of the operations on one block: every block of its session with the identifier is replaced by
  \<open>f b\<close>, and \<open>act b\<close> of the replaced block is logged where it is not \<open>None\<close>.
\<close>

definition patch_one :: "string \<Rightarrow> ('h terminal_block \<Rightarrow> 'h terminal_block) \<Rightarrow>
    (string \<Rightarrow> 'h terminal_block \<Rightarrow> activity option) \<Rightarrow> 'h blocks_state \<Rightarrow> 'h blocks_state" where
  "patch_one bid f act s =
     (case patchSingleSessionBlock (bs_blocks s) bid f of
        None \<Rightarrow> s
      | Some r \<Rightarrow>
          (let (sid, bs) = the (session_of (bs_blocks s) bid) in
           s\<lparr>bs_blocks := r,
             bs_activity := bs_activity s @ List.map_filter (act sid) (filter (\<lambda>b. b_id b = bid) bs)\<rparr>))"

section \<open>Blocks\<close>

definition addBlock :: "string \<Rightarrow> 'h terminal_block \<Rightarrow> 'h blocks_state \<Rightarrow> 'h blocks_state" where
  "addBlock sid b s0 =
     (let s = sync_counter [b_id b]
            (s0\<lparr>bs_activity := bs_activity s0
                 @ [\<lparr> ac_session = sid, ac_at = b_timestamp b, ac_command = b_command b \<rparr>]\<rparr>)
      in s\<lparr>bs_blocks := rput sid (upsert_where (\<lambda>x. b_id x = b_id b) b (getBlocks sid s)) (bs_blocks s)\<rparr>)"

definition finish_block :: "'h block_set list \<Rightarrow> 'h terminal_block \<Rightarrow> 'h terminal_block" where
  "finish_block patch b =
     (let next = fold set_block patch b in
      case (if ends_block patch then b_liveOutput next else None) of
        None \<Rightarrow> next
      | Some m \<Rightarrow>
          (let flattened = flattenOutputModel m;
               next' = (if flattened \<noteq> '''' \<and> \<not> truthy (patch_output patch) then next\<lparr>b_output := flattened\<rparr> else next)
           in next'\<lparr>b_liveOutput := None\<rparr>))"

definition updateBlock :: "int \<Rightarrow> string \<Rightarrow> 'h block_set list \<Rightarrow> 'h blocks_state \<Rightarrow> 'h blocks_state" where
  "updateBlock now bid update s =
     (let open_ended = (case findBlockById bid s of
             None \<Rightarrow> False | Some b \<Rightarrow> b_completedAt b = None \<or> b_completedAt b = Some 0);
          patch = (if ends_block update \<and> patch_completedAt update = None \<and> open_ended
                   then update @ [SetCompletedAt (Some now)] else update)
      in patch_one bid (finish_block patch)
           (\<lambda>sid b. if ends_block patch \<or> patch_completedAt patch \<noteq> None
              then (let next = finish_block patch b in
                    Some \<lparr> ac_session = sid, ac_at = (case b_completedAt next of None \<Rightarrow> now | Some t \<Rightarrow> t),
                           ac_command = b_command next \<rparr>)
              else None) s)"

definition touch_session :: "int \<Rightarrow> string \<Rightarrow> 'h terminal_block \<Rightarrow> activity option" where
  "touch_session now sid b = Some \<lparr> ac_session = sid, ac_at = now, ac_command = b_command b \<rparr>"

definition appendBlockOutput :: "string \<Rightarrow> int \<Rightarrow> string \<Rightarrow> string \<Rightarrow> 'h blocks_state \<Rightarrow> 'h blocks_state" where
  "appendBlockOutput note now bid chunk s =
     (if chunk = '''' then s
      else patch_one bid (\<lambda>b. b\<lparr>b_output := keep_tail note (b_output b @ chunk)\<rparr>) (touch_session now) s)"

definition appendBlockReasoning :: "string \<Rightarrow> string \<Rightarrow> string \<Rightarrow> 'h blocks_state \<Rightarrow> 'h blocks_state" where
  "appendBlockReasoning note bid chunk s =
     (if chunk = '''' then s
      else s\<lparr>bs_blocks := map (\<lambda>(sid, bs). (sid, map_where (\<lambda>b. b_id b = bid)
             (\<lambda>b. b\<lparr>b_reasoning := Some (keep_tail note
                (case b_reasoning b of None \<Rightarrow> chunk | Some t \<Rightarrow> t @ chunk))\<rparr>) bs)) (bs_blocks s)\<rparr>)"

definition clearBlocks :: "string \<Rightarrow> 'h blocks_state \<Rightarrow> 'h blocks_state" where
  "clearBlocks sid s = s\<lparr>bs_blocks := rdel sid (bs_blocks s)\<rparr>"

definition replaceSessionBlocks :: "string \<Rightarrow> 'h terminal_block list \<Rightarrow> 'h blocks_state \<Rightarrow> 'h blocks_state" where
  "replaceSessionBlocks sid bs s0 =
     (let normalized = map (\<lambda>b. b\<lparr>b_marker := None\<rparr>) (dedupeBlocksById bs);
          s = sync_counter (map b_id normalized) s0
      in s\<lparr>bs_blocks := rput sid normalized (bs_blocks s)\<rparr>)"

definition removeBlock :: "string \<Rightarrow> 'h blocks_state \<Rightarrow> 'h blocks_state" where
  "removeBlock bid s =
     (case session_of (bs_blocks s) bid of
        None \<Rightarrow> s
      | Some (sid, bs) \<Rightarrow> s\<lparr>bs_blocks := rput sid (filter (\<lambda>b. b_id b \<noteq> bid) bs) (bs_blocks s)\<rparr>)"

section \<open>Output of a running block\<close>

definition live_of :: "'h terminal_block \<Rightarrow> output_model" where
  "live_of b = (case b_liveOutput b of None \<Rightarrow> createEmptyOutputModel | Some m \<Rightarrow> m)"

definition apply_live :: "int \<Rightarrow> string \<times> string \<Rightarrow> 'h blocks_state \<Rightarrow> 'h blocks_state" where
  "apply_live now = (\<lambda>(bid, chunk).
     patch_one bid (\<lambda>b. b\<lparr>b_liveOutput := Some (ingestTerminalOutputChunk (live_of b) chunk)\<rparr>) (touch_session now))"

definition applyLiveBatch :: "int \<Rightarrow> (string \<times> string) list \<Rightarrow> 'h blocks_state \<Rightarrow> 'h blocks_state" where
  "applyLiveBatch now batch s = fold (apply_live now) batch s"

definition appendBlockLiveOutput :: "string \<Rightarrow> string \<Rightarrow> 'h blocks_state \<Rightarrow> 'h blocks_state" where
  "appendBlockLiveOutput bid chunk s =
     (if chunk = '''' then s
      else s\<lparr>bs_pending := rput bid ((case rget (bs_pending s) bid of None \<Rightarrow> '''' | Some t \<Rightarrow> t) @ chunk) (bs_pending s),
             bs_timer := True\<rparr>)"

text \<open>The callback of the timer; clearing it first and then doing the same is \<open>flushBlockLiveOutputForTests\<close>.\<close>

definition live_timer_fires :: "int \<Rightarrow> 'h blocks_state \<Rightarrow> 'h blocks_state" where
  "live_timer_fires now s0 =
     (let s = s0\<lparr>bs_timer := False\<rparr> in
      if bs_pending s = [] then s
      else applyLiveBatch now (bs_pending s) (s\<lparr>bs_pending := []\<rparr>))"

section \<open>Threads\<close>

definition mapBlockThread :: "'h terminal_block list \<Rightarrow> string \<Rightarrow> (thread_item list \<Rightarrow> thread_item list) \<Rightarrow> 'h terminal_block list" where
  "mapBlockThread bs bid f =
     map_where (\<lambda>b. b_id b = bid)
       (\<lambda>b. b\<lparr>b_aiThread := Some (f (case b_aiThread b of None \<Rightarrow> [] | Some t \<Rightarrow> t))\<rparr>) bs"

definition patchSessionBlockThread :: "'h terminal_block list jrec \<Rightarrow> string \<Rightarrow>
    (thread_item list \<Rightarrow> thread_item list) \<Rightarrow> 'h terminal_block list jrec option" where
  "patchSessionBlockThread r bid f =
     (case session_of r bid of None \<Rightarrow> None | Some (sid, bs) \<Rightarrow> Some (rput sid (mapBlockThread bs bid f) r))"

definition patch_thread :: "string \<Rightarrow> (thread_item list \<Rightarrow> thread_item list) \<Rightarrow> 'h blocks_state \<Rightarrow> 'h blocks_state" where
  "patch_thread bid f s =
     (case patchSessionBlockThread (bs_blocks s) bid f of None \<Rightarrow> s | Some r \<Rightarrow> s\<lparr>bs_blocks := r\<rparr>)"

text \<open>\<open>pushAiThreadItem\<close> takes an item whose identifier and time may be missing.\<close>

fun stamp_item :: "string \<Rightarrow> int \<Rightarrow> thread_item \<Rightarrow> thread_item" where
  "stamp_item i t (ThreadMessage m) = ThreadMessage (m\<lparr>tm_id := i, tm_timestamp := t\<rparr>)"
| "stamp_item i t (ThreadTool c) = ThreadTool (c\<lparr>tt_id := i, tt_timestamp := t\<rparr>)"

definition pushAiThreadItem :: "int \<Rightarrow> string \<Rightarrow> string option \<Rightarrow> int option \<Rightarrow> thread_item
    \<Rightarrow> 'h blocks_state \<Rightarrow> string \<times> 'h blocks_state" where
  "pushAiThreadItem now bid i t item s0 =
     (let (itemId, s) = (case i of Some j \<Rightarrow> (j, s0) | None \<Rightarrow> createBlockId s0);
          fullItem = stamp_item itemId (case t of Some u \<Rightarrow> u | None \<Rightarrow> now) item
      in (itemId, patch_thread bid (\<lambda>thread. thread @ [fullItem]) s))"

text \<open>\<open>Partial<AiThreadMessage> | Partial<AiThreadToolCall>\<close>; a field of the other kind is never read.\<close>

datatype item_set =
    ItemRole turn_role
  | ItemContent string
  | ItemReasoning "string option"
  | ItemParts "part list option"
  | ItemTimestamp int
  | ItemToolName string
  | ItemArgs string
  | ItemCommand "string option"
  | ItemStatus thread_tool_status
  | ItemResult "string option"
  | ItemShellBlockId "string option"
  | ItemActionId "string option"
  | ItemRiskLevel "danger_level option"

fun set_item :: "item_set \<Rightarrow> thread_item \<Rightarrow> thread_item" where
  "set_item (ItemRole v) (ThreadMessage m) = ThreadMessage (m\<lparr>tm_role := v\<rparr>)"
| "set_item (ItemContent v) (ThreadMessage m) = ThreadMessage (m\<lparr>tm_content := v\<rparr>)"
| "set_item (ItemReasoning v) (ThreadMessage m) = ThreadMessage (m\<lparr>tm_reasoning := v\<rparr>)"
| "set_item (ItemParts v) (ThreadMessage m) = ThreadMessage (m\<lparr>tm_parts := v\<rparr>)"
| "set_item (ItemTimestamp v) (ThreadMessage m) = ThreadMessage (m\<lparr>tm_timestamp := v\<rparr>)"
| "set_item (ItemTimestamp v) (ThreadTool c) = ThreadTool (c\<lparr>tt_timestamp := v\<rparr>)"
| "set_item (ItemToolName v) (ThreadTool c) = ThreadTool (c\<lparr>tt_toolName := v\<rparr>)"
| "set_item (ItemArgs v) (ThreadTool c) = ThreadTool (c\<lparr>tt_args := v\<rparr>)"
| "set_item (ItemCommand v) (ThreadTool c) = ThreadTool (c\<lparr>tt_command := v\<rparr>)"
| "set_item (ItemStatus v) (ThreadTool c) = ThreadTool (c\<lparr>tt_status := v\<rparr>)"
| "set_item (ItemResult v) (ThreadTool c) = ThreadTool (c\<lparr>tt_result := v\<rparr>)"
| "set_item (ItemShellBlockId v) (ThreadTool c) = ThreadTool (c\<lparr>tt_shellBlockId := v\<rparr>)"
| "set_item (ItemActionId v) (ThreadTool c) = ThreadTool (c\<lparr>tt_actionId := v\<rparr>)"
| "set_item (ItemRiskLevel v) (ThreadTool c) = ThreadTool (c\<lparr>tt_riskLevel := v\<rparr>)"
| "set_item _ item = item"

fun patch_result :: "item_set list \<Rightarrow> string option" where
  "patch_result [] = None"
| "patch_result (ItemResult v # p) = (case patch_result p of None \<Rightarrow> v | r \<Rightarrow> r)"
| "patch_result (_ # p) = patch_result p"

fun patch_call_status :: "item_set list \<Rightarrow> thread_tool_status option" where
  "patch_call_status [] = None"
| "patch_call_status (ItemStatus v # p) = (case patch_call_status p of None \<Rightarrow> Some v | r \<Rightarrow> r)"
| "patch_call_status (_ # p) = patch_call_status p"

fun part_status :: "thread_tool_status \<Rightarrow> tool_status" where
  "part_status CallPending = ToolRunning"
| "part_status CallRunning = ToolRunning"
| "part_status CallCompleted = ToolCompleted"
| "part_status CallRejected = ToolFailed"
| "part_status CallFailed = ToolFailed"

definition patch_tool :: "string option \<Rightarrow> tool_status option \<Rightarrow> tool_call \<Rightarrow> tool_call" where
  "patch_tool result status c =
     (let c1 = (case result of None \<Rightarrow> c | Some _ \<Rightarrow> c\<lparr>tc_result := result\<rparr>)
      in case status of None \<Rightarrow> c1 | Some v \<Rightarrow> c1\<lparr>tc_status := v\<rparr>)"

definition map_tools :: "string \<Rightarrow> (tool_call \<Rightarrow> tool_call) \<Rightarrow> part list \<Rightarrow> part list" where
  "map_tools i f ps = map (\<lambda>p. case p of ToolPart c \<Rightarrow> if tc_id c = i then ToolPart (f c) else p | _ \<Rightarrow> p) ps"

definition update_item :: "string \<Rightarrow> item_set list \<Rightarrow> thread_item \<Rightarrow> thread_item" where
  "update_item itemId patch item =
     (if item_id item = itemId then fold set_item patch item
      else case item of
        ThreadMessage m \<Rightarrow>
          (case tm_parts m of
             Some (p # ps) \<Rightarrow>
               ThreadMessage (m\<lparr>tm_parts := Some (map_tools itemId
                  (patch_tool (patch_result patch) (map_option part_status (patch_call_status patch))) (p # ps))\<rparr>)
           | _ \<Rightarrow> item)
      | ThreadTool _ \<Rightarrow> item)"

definition updateAiThreadItem :: "string \<Rightarrow> string \<Rightarrow> item_set list \<Rightarrow> 'h blocks_state \<Rightarrow> 'h blocks_state" where
  "updateAiThreadItem bid itemId patch s = patch_thread bid (map (update_item itemId patch)) s"

definition on_thread_message :: "string \<Rightarrow> (thread_message \<Rightarrow> thread_message) \<Rightarrow> thread_item \<Rightarrow> thread_item" where
  "on_thread_message mid f item =
     (case item of ThreadMessage m \<Rightarrow> if tm_id m = mid then ThreadMessage (f m) else item | _ \<Rightarrow> item)"

definition appendAiThreadMessageFieldToThread ::
    "string \<Rightarrow> string \<Rightarrow> text_kind \<Rightarrow> string \<Rightarrow> thread_item list \<Rightarrow> thread_item list" where
  "appendAiThreadMessageFieldToThread note mid k chunk thread =
     map (on_thread_message mid (\<lambda>m.
       (case k of
          KText \<Rightarrow> m\<lparr>tm_content := keep_tail note (tm_content m @ chunk),
                     tm_parts := map_option (\<lambda>ps. appendTextLikePart ps KText chunk) (tm_parts m)\<rparr>
        | KReasoning \<Rightarrow> m\<lparr>tm_reasoning := Some (keep_tail note ((case tm_reasoning m of None \<Rightarrow> '''' | Some r \<Rightarrow> r) @ chunk)),
                     tm_parts := map_option (\<lambda>ps. appendTextLikePart ps KReasoning chunk) (tm_parts m)\<rparr>))) thread"

definition appendAiThreadMessageField :: "string \<Rightarrow> string \<Rightarrow> string \<Rightarrow> text_kind \<Rightarrow> string
    \<Rightarrow> 'h blocks_state \<Rightarrow> 'h blocks_state" where
  "appendAiThreadMessageField note bid mid k chunk s =
     (if chunk = '''' then s else patch_thread bid (appendAiThreadMessageFieldToThread note mid k chunk) s)"

definition parts_of :: "thread_message \<Rightarrow> part list" where
  "parts_of m = (case tm_parts m of None \<Rightarrow> [] | Some ps \<Rightarrow> ps)"

definition appendAiThreadMessagePart :: "string \<Rightarrow> string \<Rightarrow> part \<Rightarrow> 'h blocks_state \<Rightarrow> 'h blocks_state" where
  "appendAiThreadMessagePart bid mid p s =
     patch_thread bid (map (on_thread_message mid (\<lambda>m. m\<lparr>tm_parts := Some (parts_of m @ [p])\<rparr>))) s"

record call_patch =
  cpa_name :: "string option"
  cpa_arguments :: "string option"
  cpa_result :: "string option"
  cpa_status :: "tool_status option"

definition patch_call :: "call_patch \<Rightarrow> tool_call \<Rightarrow> tool_call" where
  "patch_call p c =
     (let c1 = (case cpa_name p of None \<Rightarrow> c | Some v \<Rightarrow> c\<lparr>tc_name := v\<rparr>);
          c2 = (case cpa_arguments p of None \<Rightarrow> c1 | Some v \<Rightarrow> c1\<lparr>tc_arguments := v\<rparr>)
      in patch_tool (cpa_result p) (cpa_status p) c2)"

definition updateAiThreadToolCallPart :: "string \<Rightarrow> string \<Rightarrow> string \<Rightarrow> call_patch \<Rightarrow> 'h blocks_state \<Rightarrow> 'h blocks_state" where
  "updateAiThreadToolCallPart bid mid callId p s =
     patch_thread bid (map (on_thread_message mid (\<lambda>m. m\<lparr>tm_parts := map_option (map_tools callId (patch_call p)) (tm_parts m)\<rparr>))) s"

definition upsertAiThreadPlanPart :: "int \<Rightarrow> string \<Rightarrow> string \<Rightarrow> plan_data \<Rightarrow> 'h blocks_state \<Rightarrow> 'h blocks_state" where
  "upsertAiThreadPlanPart now bid mid plan s =
     patch_thread bid (map (on_thread_message mid (\<lambda>m. m\<lparr>tm_parts := Some (upsertPlanInParts now (parts_of m) plan)\<rparr>))) s"

definition upsertAiThreadUserQuestionPart :: "int \<Rightarrow> string \<Rightarrow> string \<Rightarrow> question_form \<Rightarrow> 'h blocks_state \<Rightarrow> 'h blocks_state" where
  "upsertAiThreadUserQuestionPart now bid mid form s =
     patch_thread bid (map (on_thread_message mid (\<lambda>m. m\<lparr>tm_parts := Some (upsertUserQuestionInParts now (parts_of m) form)\<rparr>))) s"

section \<open>Runs\<close>

datatype 'h blocks_op =
    AddBlock string "'h terminal_block"
  | UpdateBlock int string "'h block_set list"
  | AppendOutput string int string string
  | AppendLive string string
  | LiveTimer int
  | AppendReasoning string string string
  | NewBlockId
  | PushItem int string "string option" "int option" thread_item
  | UpdateItem string string "item_set list"
  | AppendField string string string text_kind string
  | AppendPart string string part
  | UpdateCallPart string string string call_patch
  | UpsertPlanPart int string string plan_data
  | UpsertQuestionPart int string string question_form
  | ClearBlocks string
  | ReplaceBlocks string "'h terminal_block list"
  | RemoveBlock string

fun blocks_step :: "'h blocks_op \<Rightarrow> 'h blocks_state \<Rightarrow> 'h blocks_state" where
  "blocks_step (AddBlock sid b) = addBlock sid b"
| "blocks_step (UpdateBlock now bid p) = updateBlock now bid p"
| "blocks_step (AppendOutput note now bid c) = appendBlockOutput note now bid c"
| "blocks_step (AppendLive bid c) = appendBlockLiveOutput bid c"
| "blocks_step (LiveTimer now) = live_timer_fires now"
| "blocks_step (AppendReasoning note bid c) = appendBlockReasoning note bid c"
| "blocks_step NewBlockId = snd \<circ> createBlockId"
| "blocks_step (PushItem now bid i t item) = snd \<circ> pushAiThreadItem now bid i t item"
| "blocks_step (UpdateItem bid i p) = updateAiThreadItem bid i p"
| "blocks_step (AppendField note bid mid k c) = appendAiThreadMessageField note bid mid k c"
| "blocks_step (AppendPart bid mid p) = appendAiThreadMessagePart bid mid p"
| "blocks_step (UpdateCallPart bid mid cid p) = updateAiThreadToolCallPart bid mid cid p"
| "blocks_step (UpsertPlanPart now bid mid p) = upsertAiThreadPlanPart now bid mid p"
| "blocks_step (UpsertQuestionPart now bid mid f) = upsertAiThreadUserQuestionPart now bid mid f"
| "blocks_step (ClearBlocks sid) = clearBlocks sid"
| "blocks_step (ReplaceBlocks sid bs) = replaceSessionBlocks sid bs"
| "blocks_step (RemoveBlock bid) = removeBlock bid"

section \<open>Identifiers under every operation\<close>

text \<open>
  What most operations leave alone: the sessions and the identifiers of their blocks. The invariant is about
  these and the counter only.
\<close>

definition ids_of :: "'h terminal_block list jrec \<Rightarrow> string list jrec" where
  "ids_of r = map (\<lambda>(sid, bs). (sid, map b_id bs)) r"

definition ids_ok :: "string list jrec \<Rightarrow> nat \<Rightarrow> bool" where
  "ids_ok r n \<longleftrightarrow> rwf r \<and> (\<forall>(sid, is) \<in> set r. distinct is \<and> (\<forall>i\<in>set is. \<forall>k. block_number i = Some k \<longrightarrow> k \<le> n))"

definition blocks_inv :: "'h blocks_state \<Rightarrow> bool" where
  "blocks_inv s \<longleftrightarrow> ids_ok (ids_of (bs_blocks s)) (bs_counter s) \<and> rwf (bs_pending s)"

lemma keys_ids [simp]: "map fst (ids_of r) = map fst r"
  by (simp add: ids_of_def case_prod_unfold comp_def)

lemma rget_ids: "rget (ids_of r) sid = map_option (map b_id) (rget r sid)"
  unfolding ids_of_def by (induction r) auto

lemma ids_rput [simp]: "ids_of (rput sid bs r) = rput sid (map b_id bs) (ids_of r)"
  by (induction r) (auto simp: ids_of_def)

lemma ids_rdel [simp]: "ids_of (rdel sid r) = rdel sid (ids_of r)"
  by (simp add: ids_of_def AList.delete_eq filter_map comp_def case_prod_unfold)

lemma rput_same: "rget r k = Some v \<Longrightarrow> rput k v r = r"
  by (rule update_triv)

lemma ids_map_where: "(\<And>b. b_id (f b) = b_id b) \<Longrightarrow> map b_id (map_where p f bs) = map b_id bs"
  by (rule map_map_where_id)

lemma set_block_id [simp]: "b_id (set_block v b) = b_id b"
  by (cases v) simp_all

lemma fold_set_block_id [simp]: "b_id (fold set_block vs b) = b_id b"
  by (induction vs arbitrary: b) simp_all

lemma finish_block_id [simp]: "b_id (finish_block p b) = b_id b"
  by (simp add: finish_block_def Let_def split: option.split)

lemma session_of_get: "session_of r bid = Some (sid, bs) \<Longrightarrow> rget r sid = Some bs"
  by (auto simp: session_of_def split: option.splits if_splits)

lemma ids_patch:
  assumes "\<And>b. b_id (f b) = b_id b" and "patchSingleSessionBlock r bid f = Some r'"
  shows "ids_of r' = ids_of r"
proof -
  from assms(2) obtain sid bs where bs: "session_of r bid = Some (sid, bs)"
    and r': "r' = rput sid (map_where (\<lambda>b. b_id b = bid) f bs) r"
    by (auto simp: patchSingleSessionBlock_def split: option.splits prod.splits if_splits)
  from session_of_get [OF bs] show ?thesis
    by (simp add: r' ids_map_where [of f, OF assms(1)] rput_same rget_ids)
qed

lemma ids_patch_one [simp]:
  assumes "\<And>b. b_id (f b) = b_id b"
  shows "ids_of (bs_blocks (patch_one bid f act s)) = ids_of (bs_blocks s)"
  using ids_patch [of f, OF assms]
  by (auto simp: patch_one_def Let_def split: option.split prod.split)

lemma patch_one_frame [simp]:
  "bs_counter (patch_one bid f act s) = bs_counter s" "bs_pending (patch_one bid f act s) = bs_pending s"
  "bs_timer (patch_one bid f act s) = bs_timer s"
  by (auto simp: patch_one_def Let_def split: option.split prod.split)

lemma ids_patch_thread [simp]: "ids_of (bs_blocks (patch_thread bid f s)) = ids_of (bs_blocks s)"
  by (auto simp: patch_thread_def patchSessionBlockThread_def mapBlockThread_def ids_map_where rput_same rget_ids
      dest!: session_of_get split: option.split)

lemma patch_thread_frame [simp]:
  "bs_counter (patch_thread bid f s) = bs_counter s" "bs_pending (patch_thread bid f s) = bs_pending s"
  by (auto simp: patch_thread_def split: option.split)

lemma inv_patch_one: "blocks_inv s \<Longrightarrow> (\<And>b. b_id (f b) = b_id b) \<Longrightarrow> blocks_inv (patch_one bid f act s)"
  by (simp add: blocks_inv_def)

lemma inv_patch_thread: "blocks_inv s \<Longrightarrow> blocks_inv (patch_thread bid f s)"
  by (simp add: blocks_inv_def)

lemma ids_ok_mono: "ids_ok r n \<Longrightarrow> n \<le> m \<Longrightarrow> ids_ok r m"
  unfolding ids_ok_def by (blast intro: le_trans)

lemma set_rput_subset: "set (rput k v r) \<subseteq> insert (k, v) (set r)"
  by (induction r) auto

lemma ids_ok_rput:
  assumes "ids_ok r n" "distinct is" "\<And>i k. i \<in> set is \<Longrightarrow> block_number i = Some k \<Longrightarrow> k \<le> n"
  shows "ids_ok (rput sid is r) n"
  using assms set_rput_subset [of sid "is" r] unfolding ids_ok_def by (fastforce intro: rwf_rput)

lemma ids_ok_rdel: "ids_ok r n \<Longrightarrow> ids_ok (rdel sid r) n"
  unfolding ids_ok_def by (auto simp: AList.delete_eq intro: distinct_map_filter)

lemma ids_ok_get:
  "ids_ok r n \<Longrightarrow> rget r sid = Some is \<Longrightarrow> distinct is \<and> (\<forall>i\<in>set is. \<forall>k. block_number i = Some k \<longrightarrow> k \<le> n)"
  unfolding ids_ok_def by (auto dest: map_of_SomeD)

lemma sync_ge: "n \<le> syncBlockCounterFromIds ids n"
proof (induction ids arbitrary: n)
  case (Cons i ids)
  have "n \<le> (case block_number i of None \<Rightarrow> n | Some k \<Rightarrow> max n k)" by (simp split: option.split)
  also have "\<dots> \<le> syncBlockCounterFromIds ids \<dots>" by (rule Cons)
  finally show ?case by (simp add: syncBlockCounterFromIds_def)
qed (simp add: syncBlockCounterFromIds_def)

lemma sync_covers: "i \<in> set ids \<Longrightarrow> block_number i = Some k \<Longrightarrow> k \<le> syncBlockCounterFromIds ids n"
proof (induction ids arbitrary: n)
  case (Cons j ids)
  show ?case
  proof (cases "i = j")
    case True
    have "k \<le> max n k" by simp
    also have "\<dots> \<le> syncBlockCounterFromIds ids (max n k)" by (rule sync_ge)
    finally show ?thesis using True Cons.prems by (simp add: syncBlockCounterFromIds_def)
  next
    case False
    with Cons show ?thesis by (simp add: syncBlockCounterFromIds_def)
  qed
qed simp

lemma ids_upsert:
  "map b_id (upsert_where (\<lambda>x. b_id x = b_id b) b bs)
     = (if b_id b \<in> b_id ` set bs then map b_id bs else map b_id bs @ [b_id b])"
proof -
  have "map b_id (upd_first (\<lambda>x. b_id x = b_id b) (\<lambda>_. b) bs) = map b_id bs"
    by (rule map_upd_first_id) simp
  moreover have "(\<exists>x\<in>set bs. b_id x = b_id b) \<longleftrightarrow> b_id b \<in> b_id ` set bs" by (auto simp: image_iff) metis
  ultimately show ?thesis by (simp add: upsert_where_def)
qed

lemma first_by_id_ids: "map b_id (first_by_id seen bs) = uniq_from seen (map b_id bs)"
  by (induction seen bs rule: first_by_id.induct) auto

lemma dedupe_distinct: "distinct (map b_id (dedupeBlocksById bs))"
  by (simp add: dedupeBlocksById_def rev_map [symmetric] first_by_id_ids)

lemma inv_sync: "blocks_inv s \<Longrightarrow> blocks_inv (sync_counter ids s)"
  by (auto simp: blocks_inv_def sync_counter_def intro: ids_ok_mono sync_ge)

lemma get_ids_ok:
  "ids_ok (ids_of (bs_blocks s)) n \<Longrightarrow> distinct (map b_id (getBlocks sid s))
    \<and> (\<forall>i\<in>set (map b_id (getBlocks sid s)). \<forall>k. block_number i = Some k \<longrightarrow> k \<le> n)"
  using ids_ok_get [of "ids_of (bs_blocks s)" n sid] by (cases "rget (bs_blocks s) sid") (simp_all add: getBlocks_def rget_ids)

lemma inv_addBlock:
  assumes "blocks_inv s"
  shows "blocks_inv (addBlock sid b s)"
proof -
  let ?n = "syncBlockCounterFromIds [b_id b] (bs_counter s)" and ?bs = "getBlocks sid s"
  let ?new = "upsert_where (\<lambda>x. b_id x = b_id b) b ?bs"
  have ok: "ids_ok (ids_of (bs_blocks s)) ?n" using assms by (auto simp: blocks_inv_def intro: ids_ok_mono sync_ge)
  note old = get_ids_ok [OF ok, of sid]
  have new: "map b_id ?new = (if b_id b \<in> set (map b_id ?bs) then map b_id ?bs else map b_id ?bs @ [b_id b])"
    by (simp add: ids_upsert)
  have "ids_ok (rput sid (map b_id ?new) (ids_of (bs_blocks s))) ?n"
  proof (rule ids_ok_rput [OF ok])
    show "distinct (map b_id ?new)" using old unfolding new by simp
    fix i k assume "i \<in> set (map b_id ?new)" "block_number i = Some k"
    with old sync_covers [of "b_id b" "[b_id b]" k "bs_counter s"] show "k \<le> ?n"
      unfolding new by (cases "i = b_id b") (auto split: if_splits)
  qed
  then show ?thesis using assms
    by (simp add: addBlock_def sync_counter_def Let_def blocks_inv_def getBlocks_def)
qed

lemma inv_replace:
  assumes "blocks_inv s"
  shows "blocks_inv (replaceSessionBlocks sid bs s)"
proof -
  let ?ids = "map b_id (dedupeBlocksById bs)" and ?n = "syncBlockCounterFromIds (map b_id (dedupeBlocksById bs)) (bs_counter s)"
  have "ids_ok (ids_of (bs_blocks s)) ?n" using assms by (auto simp: blocks_inv_def intro: ids_ok_mono sync_ge)
  then have "ids_ok (rput sid ?ids (ids_of (bs_blocks s))) ?n"
    by (rule ids_ok_rput) (rule dedupe_distinct, rule sync_covers)
  moreover have "map b_id (map (\<lambda>b. b\<lparr>b_marker := None\<rparr>) xs) = map b_id xs" for xs :: "'a terminal_block list"
    by simp
  ultimately show ?thesis using assms
    by (simp add: replaceSessionBlocks_def sync_counter_def Let_def blocks_inv_def comp_def)
qed

lemma inv_remove:
  assumes "blocks_inv s"
  shows "blocks_inv (removeBlock bid s)"
proof (cases "session_of (bs_blocks s) bid")
  case (Some p)
  obtain sid bs where p: "p = (sid, bs)" by (cases p)
  have "rget (ids_of (bs_blocks s)) sid = Some (map b_id bs)"
    using session_of_get [OF Some [unfolded p]] by (simp add: rget_ids)
  from ids_ok_get [OF _ this] assms show ?thesis
    by (auto simp: removeBlock_def Some p blocks_inv_def distinct_map_filter intro!: ids_ok_rput)
qed (simp add: removeBlock_def assms)

lemma inv_create: "blocks_inv s \<Longrightarrow> blocks_inv (snd (createBlockId s))"
  by (auto simp: createBlockId_def Let_def blocks_inv_def intro: ids_ok_mono)

lemma inv_push: "blocks_inv s \<Longrightarrow> blocks_inv (snd (pushAiThreadItem now bid i t item s))"
  using inv_create [of s]
  by (cases i) (simp_all add: pushAiThreadItem_def Let_def inv_patch_thread case_prod_unfold)

lemma inv_apply_live: "blocks_inv s \<Longrightarrow> blocks_inv (apply_live now p s)"
  by (cases p) (simp add: apply_live_def blocks_inv_def)

lemma inv_batch: "blocks_inv s \<Longrightarrow> blocks_inv (applyLiveBatch now batch s)"
  unfolding applyLiveBatch_def by (induction batch arbitrary: s) (simp_all add: inv_apply_live)

lemma inv_timer: "blocks_inv s \<Longrightarrow> blocks_inv (live_timer_fires now s)"
proof -
  assume "blocks_inv s"
  then have "blocks_inv (s\<lparr>bs_timer := False, bs_pending := []\<rparr>)" "blocks_inv (s\<lparr>bs_timer := False\<rparr>)"
    by (simp_all add: blocks_inv_def)
  then show ?thesis by (simp add: live_timer_fires_def Let_def inv_batch)
qed

lemma ids_map_values: "(\<And>bs. map b_id (g bs) = map b_id bs) \<Longrightarrow> ids_of (map (\<lambda>(sid, bs). (sid, g bs)) r) = ids_of r"
  by (simp add: ids_of_def comp_def case_prod_unfold)

lemma inv_reasoning: "blocks_inv s \<Longrightarrow> blocks_inv (appendBlockReasoning note bid c s)"
  by (simp add: appendBlockReasoning_def blocks_inv_def ids_map_values ids_map_where)

lemma inv_live: "blocks_inv s \<Longrightarrow> blocks_inv (appendBlockLiveOutput bid c s)"
  by (auto simp: appendBlockLiveOutput_def blocks_inv_def)

lemma inv_clear: "blocks_inv s \<Longrightarrow> blocks_inv (clearBlocks sid s)"
  by (simp add: clearBlocks_def blocks_inv_def ids_ok_rdel)

lemmas inv_ops = inv_addBlock inv_replace inv_remove inv_create inv_push inv_timer inv_reasoning inv_live inv_clear

lemma inv_update: "blocks_inv s \<Longrightarrow> blocks_inv (updateBlock now bid p s)"
  by (simp add: updateBlock_def Let_def inv_patch_one)

lemma inv_output: "blocks_inv s \<Longrightarrow> blocks_inv (appendBlockOutput note now bid c s)"
  by (simp add: appendBlockOutput_def inv_patch_one)

lemma inv_field: "blocks_inv s \<Longrightarrow> blocks_inv (appendAiThreadMessageField note bid mid k c s)"
  by (simp add: appendAiThreadMessageField_def inv_patch_thread)

lemmas thread_op_defs = updateAiThreadItem_def appendAiThreadMessagePart_def updateAiThreadToolCallPart_def
  upsertAiThreadPlanPart_def upsertAiThreadUserQuestionPart_def

lemma inv_blocks_step: "blocks_inv s \<Longrightarrow> blocks_inv (blocks_step a s)"
  by (cases a) (simp_all add: inv_ops inv_update inv_output inv_field inv_patch_thread thread_op_defs)

interpretation blocks: store_machine blocks_init blocks_step blocks_inv
proof
  show "blocks_inv blocks_init" by (simp add: blocks_inv_def blocks_init_def ids_of_def ids_ok_def)
qed (rule inv_blocks_step)

section \<open>Fresh identifiers\<close>

lemma dec_digits: "list_all is_digit (dec n)"
proof (induction n rule: less_induct)
  case (less n)
  have digit: "is_digit (char_of (48 + d))" if "d < 10" for d :: nat
    using that by (simp add: is_digit_def code_of_def of_char_of take_bit_eq_mod)
  show ?case
  proof (cases "n < 10")
    case True
    then show ?thesis by (subst dec.simps) (simp add: digit)
  next
    case False
    then have "list_all is_digit (dec (n div 10))" by (intro less) simp
    with False show ?thesis by (subst dec.simps) (simp add: digit)
  qed
qed

lemma block_number_dec [simp]: "block_number (''blk-'' @ dec n) = Some n"
  by (simp add: block_number_def Let_def dec_digits undec_dec dec_nonempty starts_with_def)

lemma created_is_fresh:
  assumes "blocks_inv s"
  shows "list_all (\<lambda>(sid, bs). distinct (map b_id bs) \<and> fst (createBlockId s) \<notin> set (map b_id bs)) (bs_blocks s)"
proof -
  have "distinct (map b_id bs) \<and> ''blk-'' @ dec (Suc (bs_counter s)) \<notin> set (map b_id bs)"
    if "(sid, bs) \<in> set (bs_blocks s)" for sid bs
  proof -
    have "(sid, map b_id bs) \<in> set (ids_of (bs_blocks s))" using that by (force simp: ids_of_def)
    then have "distinct (map b_id bs) \<and> (\<forall>i\<in>set (map b_id bs). \<forall>k. block_number i = Some k \<longrightarrow> k \<le> bs_counter s)"
      using assms unfolding blocks_inv_def ids_ok_def by blast
    then have "\<not> Suc (bs_counter s) \<le> bs_counter s" and d: "distinct (map b_id bs)"
      and le: "i \<in> set (map b_id bs) \<Longrightarrow> block_number i = Some k \<Longrightarrow> k \<le> bs_counter s" for i k by auto
    from d le [of "''blk-'' @ dec (Suc (bs_counter s))" "Suc (bs_counter s)"] show ?thesis
      using block_number_dec [of "Suc (bs_counter s)"] by fastforce
  qed
  then show ?thesis unfolding list_all_iff createBlockId_def Let_def by fastforce
qed

lemma counter_thread: "bs_counter s \<le> bs_counter (patch_thread bid f s)"
  by simp

lemma counter_batch [simp]: "bs_counter (applyLiveBatch now batch s) = bs_counter s"
  unfolding applyLiveBatch_def by (induction batch arbitrary: s) (simp_all add: apply_live_def case_prod_unfold)

lemma counter_step: "bs_counter s \<le> bs_counter (blocks_step a s)"
  by (cases a) (simp_all add: thread_op_defs appendAiThreadMessageField_def addBlock_def sync_counter_def Let_def sync_ge
      updateBlock_def appendBlockOutput_def appendBlockLiveOutput_def live_timer_fires_def appendBlockReasoning_def
      createBlockId_def pushAiThreadItem_def case_prod_unfold clearBlocks_def replaceSessionBlocks_def removeBlock_def
      split: option.split)

lemma counter_run: "bs_counter s \<le> bs_counter (fold blocks_step ops s)"
proof (induction ops arbitrary: s)
  case (Cons a ops)
  show ?case using counter_step [of s a] Cons [of "blocks_step a s"] by simp
qed simp

section \<open>Looking a block up after a patch\<close>

lemma has_block_ids: "has_block bid bs \<longleftrightarrow> bid \<in> set (map b_id bs)"
  by (auto simp: has_block_def list_ex_iff)

lemma find_concat:
  "find P (concat (map snd r)) = (case find (\<lambda>(sid, xs). list_ex P xs) r of None \<Rightarrow> None | Some (sid, xs) \<Rightarrow> find P xs)"
proof (induction r)
  case (Cons e r)
  obtain sid xs where e: "e = (sid, xs)" by (cases e)
  have "find P (xs @ ys) = (if list_ex P xs then find P xs else find P ys)" for ys
    by (induction xs) auto
  then show ?case using Cons by (simp add: e)
qed simp

lemma find_block: "findBlockById i s
    = (case find (\<lambda>(sid, bs). has_block i bs) (bs_blocks s) of None \<Rightarrow> None | Some (sid, bs) \<Rightarrow> find (\<lambda>b. b_id b = i) bs)"
  unfolding findBlockById_def has_block_def by (rule find_concat)

lemma find_map_pairs: "find P (map g xs) = map_option g (find (P \<circ> g) xs)"
  by (induction xs) auto

lemma rput_map: "rwf r \<Longrightarrow> k \<in> set (rkeys r) \<Longrightarrow> rput k v r = map (\<lambda>(k', x). (k', if k' = k then v else x)) r"
proof (induction r)
  case (Cons e r)
  obtain k' x where e: "e = (k', x)" by (cases e)
  have "map (\<lambda>(k', x). (k', if k' = k then v else x)) r = r" if "k' = k"
  proof -
    have "k \<notin> fst ` set r" using Cons.prems that e by simp
    then show ?thesis by (induction r) auto
  qed
  then show ?case using Cons e by auto
qed simp

lemma find_map_where:
  assumes "\<And>b. b_id (f b) = b_id b"
  shows "find (\<lambda>b. b_id b = i) (map_where (\<lambda>b. b_id b = bid) f bs)
    = (if i = bid then map_option f (find (\<lambda>b. b_id b = i) bs) else find (\<lambda>b. b_id b = i) bs)"
  by (induction bs) (auto simp: assms)

lemma session_of_entry:
  assumes "rwf r"
  shows "session_of r bid = (case find (\<lambda>(sid, bs). has_block bid bs) r of
     None \<Rightarrow> None | Some (sid, bs) \<Rightarrow> if sid = '''' then None else Some (sid, bs))"
proof (cases "find (\<lambda>(sid, bs). has_block bid bs) r")
  case (Some e)
  obtain sid bs where e: "e = (sid, bs)" by (cases e)
  have "(sid, bs) \<in> set r" using find_SomeD [OF Some] e by simp
  then have "rget r sid = Some bs" using assms by (rule map_of_is_SomeI [rotated])
  then show ?thesis by (simp add: session_of_def findSessionIdForBlock_def Some e)
qed (simp add: session_of_def findSessionIdForBlock_def)

lemma session_ids:
  "findSessionIdForBlock r bid = map_option fst (find (\<lambda>(sid, is). bid \<in> set is) (ids_of r))"
  unfolding findSessionIdForBlock_def ids_of_def find_map_pairs
  by (simp add: comp_def case_prod_unfold has_block_ids option.map_comp)

definition shown :: "string \<Rightarrow> 'h blocks_state \<Rightarrow> bool" where
  "shown bid s \<longleftrightarrow> session_of (bs_blocks s) bid \<noteq> None"

lemma shown_ids: "rwf (bs_blocks s) \<Longrightarrow> shown bid s \<longleftrightarrow> findSessionIdForBlock (bs_blocks s) bid \<notin> {None, Some ''''}"
  by (auto simp: shown_def session_of_entry findSessionIdForBlock_def split: option.split prod.split)

lemma inv_rwf: "blocks_inv s \<Longrightarrow> rwf (bs_blocks s)"
  unfolding blocks_inv_def ids_ok_def by simp

lemma shown_patch:
  assumes "blocks_inv s" "\<And>b. b_id (f b) = b_id b"
  shows "shown i (patch_one bid f act s) = shown i s"
  using inv_rwf [OF assms(1)] inv_rwf [OF inv_patch_one [OF assms(1), of f, OF assms(2), of bid act]]
  by (simp add: shown_ids session_ids ids_patch_one [of f, OF assms(2)])

lemma find_patch:
  assumes "blocks_inv s" "\<And>b. b_id (f b) = b_id b" "shown bid s"
  shows "findBlockById i (patch_one bid f act s)
    = (if i = bid then map_option f (findBlockById i s) else findBlockById i s)"
proof -
  let ?r = "bs_blocks s"
  obtain sid bs where bs: "session_of ?r bid = Some (sid, bs)" using assms(3) by (auto simp: shown_def)
  note wf = inv_rwf [OF assms(1)] and get = session_of_get [OF bs]
  from bs wf have has: "has_block bid bs"
    and entry: "find (\<lambda>(sid, bs). has_block bid bs) ?r = Some (sid, bs)"
    by (auto simp: session_of_entry dest!: find_SomeD split: option.splits if_splits)
  have key: "sid \<in> set (rkeys ?r)" using get by (metis domI dom_map_of_conv_image_fst list.set_map)
  let ?g = "\<lambda>(k, x). (k, if k = sid then map_where (\<lambda>b. b_id b = bid) f bs else x)"
  have r': "bs_blocks (patch_one bid f act s) = map ?g ?r"
    using has by (simp add: patch_one_def patchSingleSessionBlock_def bs rput_map [OF wf key])
  have same: "x = bs" if "(sid, x) \<in> set ?r" for x using that get wf by (metis map_of_is_SomeI option.inject)
  have ex: "(\<lambda>(k, x). has_block i x) (?g e) \<longleftrightarrow> (\<lambda>(k, x). has_block i x) e" if "e \<in> set ?r" for e
  proof -
    obtain k x where e: "e = (k, x)" by (cases e)
    show ?thesis
    proof (cases "k = sid")
      case True
      with that same have "x = bs" by (simp add: e)
      with True show ?thesis by (simp add: e has_block_ids ids_map_where [of f, OF assms(2)] del: set_map)
    qed (simp add: e)
  qed
  have ent: "find (\<lambda>(k, x). has_block i x) (map ?g ?r) = map_option ?g (find (\<lambda>(k, x). has_block i x) ?r)"
    unfolding find_map_pairs by (intro arg_cong [where f = "map_option ?g"] find_cong) (simp_all add: ex)
  show ?thesis
  proof (cases "find (\<lambda>(k, x). has_block i x) ?r")
    case None
    then show ?thesis using entry unfolding find_block r' ent by auto
  next
    case (Some e)
    obtain k x where e: "e = (k, x)" by (cases e)
    have bs: "k = sid \<longrightarrow> x = bs" using find_SomeD [OF Some] e same by auto
    have k: "k = sid" if "i = bid" using entry Some that by (simp add: e)
    show ?thesis
    proof (cases "k = sid")
      case True
      with bs show ?thesis unfolding find_block r' ent Some e by (simp add: find_map_where [of f, OF assms(2)])
    next
      case False
      with k show ?thesis unfolding find_block r' ent Some e by auto
    qed
  qed
qed

section \<open>The merge window\<close>

text \<open>
  What the user is to see of a running block: its finished and current lines with the text that still waits in the
  window. Appending a chunk extends it and the timer leaves it alone.
\<close>

definition with_pending :: "string \<Rightarrow> string jrec \<Rightarrow> output_model \<Rightarrow> output_model" where
  "with_pending bid p m = (case rget p bid of None \<Rightarrow> m | Some t \<Rightarrow> ingestTerminalOutputChunk m t)"

definition to_see :: "string \<Rightarrow> 'h blocks_state \<Rightarrow> output_model option" where
  "to_see bid s = map_option (\<lambda>b. with_pending bid (bs_pending s) (live_of b)) (findBlockById bid s)"

definition whole_pending :: "'h blocks_state \<Rightarrow> bool" where
  "whole_pending s \<longleftrightarrow> (\<forall>(i, t) \<in> set (bs_pending s). whole_chunk t)"

fun live_op :: "'h blocks_op \<Rightarrow> bool" where
  "live_op (AppendLive i c) = whole_chunk c"
| "live_op (LiveTimer now) = True"
| "live_op _ = False"

fun sent_to :: "string \<Rightarrow> 'h blocks_op list \<Rightarrow> string" where
  "sent_to bid (AppendLive i c # ops) = (if i = bid then c else '''') @ sent_to bid ops"
| "sent_to bid (_ # ops) = sent_to bid ops"
| "sent_to bid [] = ''''"

lemma ingest_nothing [simp]: "ingestTerminalOutputChunk m '''' = m"
  by (simp add: ingest_plain)

lemma find_apply_live:
  assumes "blocks_inv s" "shown bid s"
  shows "map_option live_of (findBlockById i (apply_live now (bid, t) s))
    = map_option (\<lambda>b. if i = bid then ingestTerminalOutputChunk (live_of b) t else live_of b) (findBlockById i s)"
proof -
  have "findBlockById i (apply_live now (bid, t) s) = (if i = bid
      then map_option (\<lambda>b. b\<lparr>b_liveOutput := Some (ingestTerminalOutputChunk (live_of b) t)\<rparr>) (findBlockById i s)
      else findBlockById i s)"
    unfolding apply_live_def prod.case by (rule find_patch [OF assms(1) _ assms(2)]) simp
  then show ?thesis by (simp add: option.map_comp comp_def) (simp add: live_of_def)
qed

lemma hidden_apply_live: "\<not> shown bid s \<Longrightarrow> apply_live now (bid, t) s = s"
  by (cases "session_of (bs_blocks s) bid")
    (simp_all add: apply_live_def shown_def patch_one_def patchSingleSessionBlock_def)

lemma shown_apply_live: "blocks_inv s \<Longrightarrow> shown i (apply_live now p s) = shown i s"
  by (cases p) (simp add: apply_live_def shown_patch)

lemma find_hidden_apply:
  assumes "blocks_inv s" "shown i s"
  shows "map_option live_of (findBlockById i (apply_live now (j, t) s))
    = map_option (\<lambda>b. if i = j then ingestTerminalOutputChunk (live_of b) t else live_of b) (findBlockById i s)"
proof (cases "shown j s")
  case True
  from find_apply_live [OF assms(1) this] show ?thesis .
next
  case False
  with assms(2) have "i \<noteq> j" by auto
  with False show ?thesis by (simp add: hidden_apply_live)
qed

lemma find_batch:
  assumes "blocks_inv s" "shown i s" "rwf batch"
  shows "map_option live_of (findBlockById i (applyLiveBatch now batch s))
    = map_option (\<lambda>b. with_pending i batch (live_of b)) (findBlockById i s)"
  using assms
proof (induction batch arbitrary: s)
  case Nil
  then show ?case by (simp add: applyLiveBatch_def with_pending_def)
next
  case (Cons p batch)
  obtain j t where p: "p = (j, t)" by (cases p)
  let ?s = "apply_live now (j, t) s"
  have "map_option live_of (findBlockById i (applyLiveBatch now (p # batch) s))
      = map_option (\<lambda>b. with_pending i batch (live_of b)) (findBlockById i ?s)"
    using Cons.IH [of ?s] Cons.prems by (simp add: p applyLiveBatch_def inv_apply_live shown_apply_live)
  also have "\<dots> = map_option (with_pending i batch) (map_option live_of (findBlockById i ?s))"
    by (simp add: option.map_comp comp_def)
  also have "\<dots> = map_option (\<lambda>b. with_pending i (p # batch) (live_of b)) (findBlockById i s)"
  proof (cases "i = j")
    case True
    then have "rget batch i = None" using Cons.prems(3) by (simp add: p map_of_eq_None_iff)
    with True show ?thesis using Cons.prems
      by (simp add: find_hidden_apply p option.map_comp comp_def) (simp add: with_pending_def)
  next
    case False
    then show ?thesis using Cons.prems
      by (simp add: find_hidden_apply p option.map_comp comp_def) (simp add: with_pending_def)
  qed
  finally show ?case .
qed

lemma timer_shows_all:
  assumes "blocks_inv s" "shown bid s"
  shows "map_option live_of (findBlockById bid (live_timer_fires now s)) = to_see bid s"
    and "shown bid (live_timer_fires now s)" and "bs_pending (live_timer_fires now s) = []"
proof -
  let ?s = "s\<lparr>bs_timer := False, bs_pending := []\<rparr>"
  have inv: "blocks_inv ?s" and sh: "shown bid ?s" and wf: "rwf (bs_pending s)"
    using assms by (simp_all add: blocks_inv_def shown_def)
  have eq: "live_timer_fires now s = applyLiveBatch now (bs_pending s) ?s"
    by (simp add: live_timer_fires_def Let_def) (simp add: applyLiveBatch_def)
  have same: "findBlockById bid ?s = findBlockById bid s" by (simp add: findBlockById_def)
  show "map_option live_of (findBlockById bid (live_timer_fires now s)) = to_see bid s"
    unfolding eq find_batch [OF inv sh wf] same by (simp add: to_see_def)
  have "shown bid (applyLiveBatch now b t)" if "blocks_inv t" "shown bid t" for b and t :: "'a blocks_state"
    using that unfolding applyLiveBatch_def
    by (induction b arbitrary: t) (simp_all add: inv_apply_live shown_apply_live)
  then show "shown bid (live_timer_fires now s)" unfolding eq using inv sh by blast
  have "bs_pending (applyLiveBatch now b t) = bs_pending t" for b and t :: "'a blocks_state"
    unfolding applyLiveBatch_def by (induction b arbitrary: t) (simp_all add: apply_live_def case_prod_unfold)
  then show "bs_pending (live_timer_fires now s) = []" unfolding eq by simp
qed

lemma chunk_extends:
  assumes "whole_pending s" "whole_chunk c"
  shows "to_see bid (appendBlockLiveOutput i c s)
      = map_option (\<lambda>m. if i = bid then ingestTerminalOutputChunk m c else m) (to_see bid s)"
    and "shown bid (appendBlockLiveOutput i c s) = shown bid s" and "whole_pending (appendBlockLiveOutput i c s)"
proof -
  have find: "findBlockById bid (appendBlockLiveOutput i c s) = findBlockById bid s"
    by (simp add: appendBlockLiveOutput_def findBlockById_def)
  have whole: "whole_chunk t" if "rget (bs_pending s) j = Some t" for j t
    using map_of_SomeD [OF that] assms(1) by (auto simp: whole_pending_def)
  have pend: "bs_pending (appendBlockLiveOutput i c s) = (if c = '''' then bs_pending s
      else rput i ((case rget (bs_pending s) i of None \<Rightarrow> '''' | Some t \<Rightarrow> t) @ c) (bs_pending s))"
    by (simp add: appendBlockLiveOutput_def)
  have "with_pending bid (bs_pending (appendBlockLiveOutput i c s)) m
      = (if i = bid then ingestTerminalOutputChunk (with_pending bid (bs_pending s) m) c else with_pending bid (bs_pending s) m)" for m
    using whole [of bid] assms(2)
    by (auto simp: pend with_pending_def store_simps ingest_whole_append split: option.split)
  then show "to_see bid (appendBlockLiveOutput i c s)
      = map_option (\<lambda>m. if i = bid then ingestTerminalOutputChunk m c else m) (to_see bid s)"
    by (simp add: to_see_def find option.map_comp comp_def)
  show "shown bid (appendBlockLiveOutput i c s) = shown bid s" by (simp add: appendBlockLiveOutput_def shown_def)
  have "whole_chunk ((case rget (bs_pending s) i of None \<Rightarrow> '''' | Some t \<Rightarrow> t) @ c)"
    using whole [of i] assms(2) by (auto intro: whole_append split: option.split)
  then have "whole_chunk t" if "(j, t) \<in> set (bs_pending (appendBlockLiveOutput i c s))" for j t
    using that assms(1) set_rput_subset [of i "(case rget (bs_pending s) i of None \<Rightarrow> '''' | Some t \<Rightarrow> t) @ c" "bs_pending s"]
    unfolding whole_pending_def pend by (auto split: if_splits)
  then show "whole_pending (appendBlockLiveOutput i c s)" by (auto simp: whole_pending_def)
qed

lemma window_step:
  assumes "blocks_inv s" "shown bid s" "whole_pending s" "live_op e"
  shows "to_see bid (blocks_step e s) = map_option (\<lambda>m. ingestTerminalOutputChunk m (sent_to bid [e])) (to_see bid s)
    \<and> shown bid (blocks_step e s) \<and> whole_pending (blocks_step e s)"
proof (cases "\<exists>i c. e = AppendLive i c")
  case True
  with assms chunk_extends [OF assms(3)] show ?thesis by auto
next
  case False
  with assms(4) obtain now where e: "e = LiveTimer now" by (cases e) auto
  note t = timer_shows_all [OF assms(1,2), of now]
  have "to_see bid (live_timer_fires now s) = map_option live_of (findBlockById bid (live_timer_fires now s))"
    by (simp add: to_see_def t(3) with_pending_def)
  with t show ?thesis by (cases "to_see bid s") (simp_all add: e whole_pending_def)
qed

lemma sent_whole: "\<forall>e\<in>set es. live_op e \<Longrightarrow> whole_chunk (sent_to bid es)"
proof (induction bid es rule: sent_to.induct)
  case (1 bid i c ops)
  then show ?case by (cases "i = bid") (simp_all add: whole_append)
qed (simp_all add: whole_chunk_def)

lemma sent_Cons: "sent_to bid (e # es) = sent_to bid [e] @ sent_to bid es"
  by (cases e) simp_all

lemma window_run:
  assumes "blocks_inv s" "shown bid s" "whole_pending s" "\<forall>e\<in>set es. live_op e"
  shows "to_see bid (fold blocks_step es s) = map_option (\<lambda>m. ingestTerminalOutputChunk m (sent_to bid es)) (to_see bid s)
    \<and> shown bid (fold blocks_step es s)"
  using assms
proof (induction es arbitrary: s)
  case Nil
  then show ?case by (cases "to_see bid s") simp_all
next
  case (Cons e es)
  have e: "live_op e" and es: "\<forall>e\<in>set es. live_op e" using Cons.prems by simp_all
  note st = window_step [OF Cons.prems(1-3) e]
  have w: "whole_chunk (sent_to bid [e])" "whole_chunk (sent_to bid es)"
    using e es by (auto intro: sent_whole)
  have "to_see bid (fold blocks_step es (blocks_step e s))
      = map_option (\<lambda>m. ingestTerminalOutputChunk m (sent_to bid es)) (to_see bid (blocks_step e s))
    \<and> shown bid (fold blocks_step es (blocks_step e s))"
    using Cons.IH [OF inv_blocks_step [OF Cons.prems(1)]] st es by blast
  then show ?case using st by (simp add: sent_Cons [of bid e es] ingest_whole_append [OF w] option.map_comp comp_def)
qed

section \<open>Bounded output\<close>

lemma keep_tail_length: "length (keep_tail note s) \<le> length note + MAX_BLOCK_OUTPUT_CHARS"
  by (simp add: keep_tail_def)

lemma keep_tail_twice:
  assumes "c \<noteq> ''''"
  shows "keep_tail note (keep_tail note s @ c) = keep_tail note (s @ c)"
proof (cases "length s > MAX_BLOCK_OUTPUT_CHARS")
  case True
  let ?M = MAX_BLOCK_OUTPUT_CHARS
  have "drop (length (note @ drop (length s - ?M) s @ c) - ?M) (note @ drop (length s - ?M) s @ c)
      = drop (length (s @ c) - ?M) (s @ c)"
    using True by (simp add: add.commute)
  with True assms show ?thesis by (auto simp: keep_tail_def)
qed (simp add: keep_tail_def)

lemma append_output_run:
  assumes "blocks_inv s" "shown bid s" "length (b_output b) \<le> MAX_BLOCK_OUTPUT_CHARS"
  shows "findBlockById bid s = Some (b\<lparr>b_output := keep_tail note (b_output b @ t)\<rparr>) \<Longrightarrow>
    findBlockById bid (fold (appendBlockOutput note now bid) chunks s)
      = Some (b\<lparr>b_output := keep_tail note (b_output b @ t @ concat chunks)\<rparr>)"
  using assms(1,2)
proof (induction chunks arbitrary: s t)
  case (Cons c chunks)
  let ?f = "\<lambda>b. b\<lparr>b_output := keep_tail note (b_output b @ c)\<rparr>"
  show ?case
  proof (cases "c = ''''")
    case True
    with Cons show ?thesis by (simp add: appendBlockOutput_def)
  next
    case False
    have eq: "appendBlockOutput note now bid c s = patch_one bid ?f (touch_session now) s"
      using False by (simp add: appendBlockOutput_def)
    have "findBlockById bid (appendBlockOutput note now bid c s) = map_option ?f (findBlockById bid s)"
      unfolding eq by (subst find_patch [OF Cons.prems(2) _ Cons.prems(3)]) simp_all
    then have "findBlockById bid (appendBlockOutput note now bid c s)
        = Some (b\<lparr>b_output := keep_tail note (b_output b @ t @ c)\<rparr>)"
      using keep_tail_twice [OF False, of "note" "b_output b @ t"] Cons.prems(1) by simp
    moreover have "shown bid (appendBlockOutput note now bid c s)"
      unfolding eq using Cons.prems by (subst shown_patch) simp_all
    ultimately show ?thesis
      using Cons.IH [of "appendBlockOutput note now bid c s" "t @ c"] inv_output [OF Cons.prems(2)] by simp
  qed
qed simp

section \<open>Properties\<close>

text \<open>(C31) Identifiers of blocks are unique and never reused: after any operations, restored and replaced sessions
  included, the blocks of a session have distinct identifiers, the next identifier that the store makes is that
  of no block, and whatever happens afterwards it is not made again.\<close>

theorem block_ids_stay_unique:
  "let s = fold blocks_step ops blocks_init; (i, s') = createBlockId s in
     list_all (\<lambda>(sid, bs). distinct (map b_id bs) \<and> i \<notin> set (map b_id bs)) (bs_blocks s)
     \<and> fst (createBlockId (fold blocks_step rest s')) \<noteq> i"
proof -
  let ?s = "fold blocks_step ops blocks_init"
  let ?s' = "snd (createBlockId ?s)"
  have "Suc (bs_counter ?s) \<le> bs_counter (fold blocks_step rest ?s')"
    using counter_run [of ?s' rest] by (simp add: createBlockId_def Let_def)
  then have "fst (createBlockId (fold blocks_step rest ?s')) \<noteq> fst (createBlockId ?s)"
    by (auto simp: createBlockId_def Let_def dest: dec_inj)
  with created_is_fresh [OF blocks.inv_run, of ops] show ?thesis by (simp add: case_prod_unfold Let_def)
qed


text \<open>(C33) Output is bounded and stays current: appended in any pieces, the output of a block is the whole text as long
  as it fits, and otherwise a note and exactly the last characters of the text; nothing else of the block changes.\<close>

theorem output_keeps_the_latest:
  assumes "s = fold blocks_step ops blocks_init" "shown bid s" "findBlockById bid s = Some b"
    "length (b_output b) \<le> MAX_BLOCK_OUTPUT_CHARS"
  shows "findBlockById bid (fold (appendBlockOutput note now bid) chunks s)
      = Some (b\<lparr>b_output := keep_tail note (b_output b @ concat chunks)\<rparr>)
    \<and> length (keep_tail note (b_output b @ concat chunks)) \<le> length note + MAX_BLOCK_OUTPUT_CHARS"
proof -
  have "findBlockById bid s = Some (b\<lparr>b_output := keep_tail note (b_output b @ '''')\<rparr>)"
    using assms(3,4) by (simp add: keep_tail_def)
  moreover have "blocks_inv s" unfolding assms(1) by (rule blocks.inv_run)
  ultimately show ?thesis
    using append_output_run [of s bid b "note" "''''" "now" chunks] assms(2,4) keep_tail_length by simp
qed

lemma patch_single:
  assumes "sid \<noteq> ''''" "bs_blocks s = [(sid, [b])]" "b_id b = bid"
  shows "bs_blocks (patch_one bid f act s) = [(sid, [f b])]"
  using assms by (simp add: patch_one_def patchSingleSessionBlock_def session_of_def findSessionIdForBlock_def has_block_def)

lemma live_timer_single:
  assumes "sid \<noteq> ''''" "bs_blocks s = [(sid, [b])]" "bs_pending s = [(b_id b, t)]"
  shows "bs_blocks (live_timer_fires now s)
      = [(sid, [b\<lparr>b_liveOutput := Some (ingestTerminalOutputChunk (live_of b) t)\<rparr>])]"
    and "bs_pending (live_timer_fires now s) = []"
  using assms patch_single [OF assms(1) _ refl, of "s\<lparr>bs_timer := False, bs_pending := []\<rparr>" b]
  by (simp_all add: live_timer_fires_def Let_def applyLiveBatch_def apply_live_def)

lemma update_single:
  assumes "sid \<noteq> ''''" "bs_blocks s = [(sid, [b])]"
  shows "\<exists>patch. (patch = p \<or> patch = p @ [SetCompletedAt (Some now)])
    \<and> bs_blocks (updateBlock now (b_id b) p s) = [(sid, [finish_block patch b])]"
  using patch_single [OF assms refl] by (auto simp: updateBlock_def Let_def)

text \<open>Output that still waits in the merge window when its block is finished is not in the finished output; and
  when the window closes it becomes the live output of the finished block, so that the block then shows only this
  rest instead of all its output.\<close>

theorem finished_block_shows_only_the_rest:
  assumes "sid \<noteq> ''''" "b_liveOutput b = None" "first \<noteq> ''''" "rest \<noteq> ''''"
    "\<forall>c \<in> set (first @ rest). c \<notin> {CHR 0x1B, CHR 0x0D, CHR 0x0A}"
  shows "\<exists>b'. findBlockById (b_id b) (fold blocks_step [AddBlock sid b, AppendLive (b_id b) first, LiveTimer t1,
        AppendLive (b_id b) rest, UpdateBlock t2 (b_id b) [SetStatus BlockCompleted], LiveTimer t3] blocks_init) = Some b'
    \<and> b_status b' = BlockCompleted \<and> b_output b' = first \<and> renderLiveOutputText (b_liveOutput b') (b_output b') = rest"
proof -
  have plain: "ingestTerminalOutputChunk createEmptyOutputModel t = \<lparr> om_lines = [], om_currentLine = t \<rparr>"
    if "\<forall>c \<in> set t. c \<notin> {CHR 0x1B, CHR 0x0D, CHR 0x0A}" for t
  proof -
    have no: "CHR 0x1B \<notin> set t" "CHR 0x0D \<notin> set t" "CHR 0x0A \<notin> set t" using that by blast+
    have "unix_breaks t = t" using unix_word [OF no(2), of "''''"] by simp
    with ingest_word [OF no(2,3), of "''''" createEmptyOutputModel] show ?thesis
      by (simp add: ingest_plain [OF no(1)] createEmptyOutputModel_def)
  qed
  have p: "ingestTerminalOutputChunk createEmptyOutputModel first = \<lparr> om_lines = [], om_currentLine = first \<rparr>"
    "ingestTerminalOutputChunk createEmptyOutputModel rest = \<lparr> om_lines = [], om_currentLine = rest \<rparr>"
    using assms(5) by (intro plain; simp)+
  let ?live = "\<lambda>t b. b\<lparr>b_liveOutput := Some \<lparr> om_lines = [], om_currentLine = t \<rparr>\<rparr>"
  define s1 where "s1 = blocks_step (AddBlock sid b) blocks_init"
  define s2 where "s2 = blocks_step (LiveTimer t1) (blocks_step (AppendLive (b_id b) first) s1)"
  define s3 where "s3 = blocks_step (UpdateBlock t2 (b_id b) [SetStatus BlockCompleted]) (blocks_step (AppendLive (b_id b) rest) s2)"
  have s1: "bs_blocks s1 = [(sid, [b])]" "bs_pending s1 = []"
    by (simp_all add: s1_def addBlock_def sync_counter_def blocks_init_def getBlocks_def upsert_where_def Let_def)
  have s2: "bs_blocks s2 = [(sid, [?live first b])]" "bs_pending s2 = []"
    using s1 assms(1-3) by (simp_all add: s2_def appendBlockLiveOutput_def live_timer_single live_of_def p)
  obtain patch where s3: "bs_blocks s3 = [(sid, [finish_block patch (?live first b)])]" "bs_pending s3 = [(b_id b, rest)]"
    and patch: "patch = [SetStatus BlockCompleted] \<or> patch = [SetStatus BlockCompleted, SetCompletedAt (Some t2)]"
  proof -
    let ?t = "blocks_step (AppendLive (b_id b) rest) s2"
    have t: "bs_blocks ?t = [(sid, [?live first b])]" "bs_pending ?t = [(b_id b, rest)]"
      using s2 assms(4) by (simp_all add: appendBlockLiveOutput_def)
    from update_single [OF assms(1) t(1), of "[SetStatus BlockCompleted]" t2]
    obtain patch where p: "patch = [SetStatus BlockCompleted] \<or> patch = [SetStatus BlockCompleted] @ [SetCompletedAt (Some t2)]"
      and b: "bs_blocks s3 = [(sid, [finish_block patch (?live first b)])]" by (auto simp: s3_def)
    have "bs_pending s3 = [(b_id b, rest)]" using t(2) by (simp add: s3_def updateBlock_def Let_def)
    with p b that show thesis by simp
  qed
  let ?done = "finish_block patch (?live first b)"
  have fin: "b_id ?done = b_id b" "b_status ?done = BlockCompleted" "b_output ?done = first" "b_liveOutput ?done = None"
    using patch assms(3) by (auto simp: finish_block_def ends_block_def flattenOutputModel_def)
  have "bs_blocks (blocks_step (LiveTimer t3) s3) = [(sid, [?live rest ?done])]"
    using s3 fin assms(1) by (simp add: live_timer_single live_of_def p)
  moreover have "fold blocks_step [AddBlock sid b, AppendLive (b_id b) first, LiveTimer t1, AppendLive (b_id b) rest,
      UpdateBlock t2 (b_id b) [SetStatus BlockCompleted], LiveTimer t3] blocks_init = blocks_step (LiveTimer t3) s3"
    unfolding s3_def s2_def s1_def by simp
  ultimately show ?thesis using fin assms(4)
    by (intro exI [of _ "?live rest ?done"]) (simp add: findBlockById_def renderLiveOutputText_def flattenOutputModel_def)
qed

text \<open>(C34) Only the identifiers of blocks are counted when a session is restored, not those of the items in the
  threads, which the same counter makes. A question in a restored thread gets the identifiers of the earlier
  question and answer again, and the new answer is streamed into both answers.\<close>

fun item_text :: "thread_item \<Rightarrow> string" where
  "item_text (ThreadMessage m) = tm_content m"
| "item_text (ThreadTool t) = tt_args t"

theorem restored_thread_answers_twice:
  assumes "sid \<noteq> ''''" "b_id b = ''blk-1''" "b_aiThread b = Some [ThreadMessage q, ThreadMessage a]"
    "tm_id q = ''blk-2''" "tm_id a = ''blk-3''" "tm_content new = ''''" "chunk \<noteq> ''''"
  shows "let s = replaceSessionBlocks sid [b] blocks_init;
      (i, s1) = pushAiThreadItem t1 ''blk-1'' None None (ThreadMessage question) s;
      (j, s2) = pushAiThreadItem t2 ''blk-1'' None None (ThreadMessage new) s1;
      s3 = appendAiThreadMessageField note ''blk-1'' j KText chunk s2
    in (i, j) = (tm_id q, tm_id a)
      \<and> map_option (map item_text) (b_aiThread (the (findBlockById ''blk-1'' s3)))
        = Some [tm_content q, keep_tail note (tm_content a @ chunk), tm_content question, keep_tail note chunk]"
proof -
  have n: "block_number ''blk-1'' = Some 1" "block_number ''blk-2'' = Some 2" "block_number ''blk-3'' = Some 3" by code_simp+
  have d: "dec (Suc (Suc 0)) = ''2''" "dec (Suc (Suc (Suc 0))) = ''3''" by code_simp+
  show ?thesis using assms
    by (simp add: n d blocks_init_def replaceSessionBlocks_def dedupeBlocksById_def sync_counter_def syncBlockCounterFromIds_def
      Let_def pushAiThreadItem_def createBlockId_def patch_thread_def patchSessionBlockThread_def mapBlockThread_def
      session_of_def findSessionIdForBlock_def has_block_def appendAiThreadMessageField_def
      appendAiThreadMessageFieldToThread_def on_thread_message_def findBlockById_def)
qed

text \<open>Instances.\<close>

definition shell_block :: "unit terminal_block" where
  "shell_block = \<lparr> b_id = ''blk-1'', b_sessionId = ''s'', b_kind = Some ShellBlock, b_title = None, b_command = ''ls'',
     b_output = '''', b_liveOutput = None, b_reasoning = None, b_aiThread = None, b_exitCode = None, b_startLine = 0,
     b_endLine = -1, b_marker = None, b_cwd = ''/'', b_timestamp = 7, b_completedAt = None, b_status = BlockRunning,
     b_attachedListing = None, b_directoryPreview = None, b_silent = None, b_linkedTabId = None, b_linkedTabTitle = None,
     b_aiThreadSummary = None, b_aiThreadSummaryForCount = None, b_aiStalled = None \<rparr>"

lemma added_block:
  assumes "s = fold blocks_step [AddBlock ''s'' b] blocks_init"
  shows "bs_pending s = []" "shown (b_id b) s" "findBlockById (b_id b) s = Some b"
  using assms by (simp_all add: addBlock_def sync_counter_def blocks_init_def getBlocks_def upsert_where_def Let_def shown_def
      session_of_def findSessionIdForBlock_def has_block_def findBlockById_def)


theorem output_keeps_the_latest_witness:
  "findBlockById ''blk-1'' (fold (appendBlockOutput ''...'' 8 ''blk-1'') [''total'', '''', '' 0'']
      (fold blocks_step [AddBlock ''s'' shell_block] blocks_init)) = Some (shell_block\<lparr>b_output := ''total 0''\<rparr>)"
proof -
  let ?s = "fold blocks_step [AddBlock ''s'' shell_block] blocks_init"
  have i: "b_id shell_block = ''blk-1''" and o: "b_output shell_block = ''''" by (simp_all add: shell_block_def)
  note a = added_block [OF refl [of ?s], unfolded i]
  have "length (b_output shell_block) \<le> MAX_BLOCK_OUTPUT_CHARS" by (simp add: o)
  from output_keeps_the_latest [OF refl a(2,3) this, of "''...''" 8 "[''total'', '''', '' 0'']"]
  show ?thesis by (simp add: keep_tail_def MAX_BLOCK_OUTPUT_CHARS_def o)
qed

theorem finished_block_shows_only_the_rest_witness:
  "\<exists>b'. findBlockById ''blk-1'' (fold blocks_step [AddBlock ''s'' shell_block, AppendLive ''blk-1'' ''one'', LiveTimer 8,
        AppendLive ''blk-1'' ''two'', UpdateBlock 9 ''blk-1'' [SetStatus BlockCompleted], LiveTimer 10] blocks_init) = Some b'
    \<and> renderLiveOutputText (b_liveOutput b') (b_output b') = ''two''"
proof -
  have i: "b_id shell_block = ''blk-1''" and l: "b_liveOutput shell_block = None" by (simp_all add: shell_block_def)
  have "\<forall>c \<in> set (''one'' @ ''two''). c \<notin> {CHR 0x1B, CHR 0x0D, CHR 0x0A}" by simp
  from finished_block_shows_only_the_rest [OF _ l _ _ this, of "''s''" 8 9 10] show ?thesis unfolding i by blast
qed

definition turn :: "string \<Rightarrow> turn_role \<Rightarrow> string \<Rightarrow> thread_message" where
  "turn i r t = \<lparr> tm_id = i, tm_role = r, tm_content = t, tm_reasoning = None, tm_parts = None, tm_timestamp = 7 \<rparr>"

theorem restored_thread_answers_twice_witness:
  "let s = replaceSessionBlocks ''s'' [shell_block\<lparr>b_aiThread := Some [ThreadMessage (turn ''blk-2'' UserTurn ''disk?''),
        ThreadMessage (turn ''blk-3'' AssistantTurn ''df -h'')]\<rparr>] blocks_init;
      (i, s1) = pushAiThreadItem 8 ''blk-1'' None None (ThreadMessage (turn '''' UserTurn ''memory?'')) s;
      (j, s2) = pushAiThreadItem 9 ''blk-1'' None None (ThreadMessage (turn '''' AssistantTurn '''')) s1;
      s3 = appendAiThreadMessageField ''...'' ''blk-1'' j KText ''free'' s2
    in (i, j) = (''blk-2'', ''blk-3'')
      \<and> map_option (map item_text) (b_aiThread (the (findBlockById ''blk-1'' s3)))
        = Some [''disk?'', ''df -hfree'', ''memory?'', ''free'']"
proof -
  have turn: "tm_id (turn i r t) = i" "tm_content (turn i r t) = t" for i r t by (simp_all add: turn_def)
  have tails: "keep_tail ''...'' (''df -h'' @ ''free'') = ''df -hfree''" "keep_tail ''...'' ''free'' = ''free''"
    by (simp_all add: keep_tail_def MAX_BLOCK_OUTPUT_CHARS_def)
  have b: "b_id (shell_block\<lparr>b_aiThread := t\<rparr>) = ''blk-1''" "b_aiThread (shell_block\<lparr>b_aiThread := t\<rparr>) = t" for t
    by (simp_all add: shell_block_def)
  show ?thesis
    using restored_thread_answers_twice [of "''s''"
        "shell_block\<lparr>b_aiThread := Some [ThreadMessage (turn ''blk-2'' UserTurn ''disk?''), ThreadMessage (turn ''blk-3'' AssistantTurn ''df -h'')]\<rparr>"
        "turn ''blk-2'' UserTurn ''disk?''" "turn ''blk-3'' AssistantTurn ''df -h''" "turn '''' AssistantTurn ''''" "''free''"
        8 "turn '''' UserTurn ''memory?''" 9 "''...''", OF _ b turn(1) turn(1) turn(2)]
    unfolding turn tails by simp
qed

end
