(* ===== verification/TermHistory.thy ===== *)
theory TermHistory
  imports Complex_Main Blocks
begin

text \<open>
  The saved history of the terminal.

  \<^item> \<^bold>\<open>frontend/src/modules/terminal/terminalHistoryRepo.ts\<close>: blocks as records of the database and back;
  \<^item> \<^bold>\<open>frontend/src/modules/terminal/terminalBlockRestore.ts\<close>: what a block that was running when the program
    ended becomes;
  \<^item> \<^bold>\<open>frontend/src/stores/terminalHistoryStore.ts\<close>: the cache of saved sessions and their restoration.

  The payload of a record is JSON text: here the object that \<open>JSON.parse\<close> makes of it, or \<open>None\<close> where it
  throws. What the database answers is an argument; the commands sent to it are logged. The text put into
  an abandoned tool call is outside the 8-bit characters and an argument.
\<close>

section \<open>Records\<close>

record history_payload =
  hp_output :: "string option"
  hp_reasoning :: "string option"
  hp_aiThread :: "thread_item list option"
  hp_aiThreadSummary :: "string option"
  hp_aiThreadSummaryForCount :: "nat option"
  hp_silent :: "bool option"
  hp_directoryPreview :: "bool option"
  hp_linkedTabId :: "string option"
  hp_linkedTabTitle :: "string option"
  hp_aiStalled :: "bool option"

record history_record =
  hr_id :: string
  hr_sessionId :: string
  hr_kind :: string
  hr_command :: string
  hr_title :: "string option"
  hr_status :: string
  hr_exitCode :: "int option"
  hr_cwd :: string
  hr_timestamp :: int
  hr_completedAt :: "int option"
  hr_payload :: "history_payload option"
  hr_updatedAt :: int

fun kind_text :: "block_kind option \<Rightarrow> string" where
  "kind_text None = ''shell''"
| "kind_text (Some ShellBlock) = ''shell''"
| "kind_text (Some AiBlock) = ''ai''"

fun status_text :: "block_status \<Rightarrow> string" where
  "status_text BlockRunning = ''running''"
| "status_text BlockCompleted = ''completed''"
| "status_text BlockFailed = ''failed''"

definition DEFAULT_TERMINAL_HISTORY_MAX_BLOCKS :: int where
  "DEFAULT_TERMINAL_HISTORY_MAX_BLOCKS = 200"

definition DEFAULT_TERMINAL_HISTORY_MAX_SESSIONS :: int where
  "DEFAULT_TERMINAL_HISTORY_MAX_SESSIONS = 24"

record retain_policy =
  rp_maxSessions :: int
  rp_maxBlocksPerSession :: int

text \<open>The setting is \<open>None\<close> where it is not finite; \<open>Math.round\<close> rounds halves up.\<close>

definition resolveHistoryPolicy :: "rat option \<Rightarrow> retain_policy" where
  "resolveHistoryPolicy configured =
     \<lparr> rp_maxSessions = DEFAULT_TERMINAL_HISTORY_MAX_SESSIONS,
       rp_maxBlocksPerSession = (case configured of
           None \<Rightarrow> DEFAULT_TERMINAL_HISTORY_MAX_BLOCKS
         | Some c \<Rightarrow> if c < 1 then DEFAULT_TERMINAL_HISTORY_MAX_BLOCKS else min 500 (max 20 \<lfloor>c + 1 / 2\<rfloor>)) \<rparr>"

definition toHistoryRecord :: "int \<Rightarrow> 'h terminal_block \<Rightarrow> history_record" where
  "toHistoryRecord now b =
     \<lparr> hr_id = b_id b, hr_sessionId = b_sessionId b, hr_kind = kind_text (b_kind b), hr_command = b_command b,
       hr_title = b_title b, hr_status = status_text (b_status b), hr_exitCode = b_exitCode b, hr_cwd = b_cwd b,
       hr_timestamp = b_timestamp b, hr_completedAt = b_completedAt b,
       hr_payload = Some \<lparr> hp_output = Some (renderLiveOutputText (b_liveOutput b) (b_output b)),
         hp_reasoning = b_reasoning b, hp_aiThread = b_aiThread b, hp_aiThreadSummary = b_aiThreadSummary b,
         hp_aiThreadSummaryForCount = b_aiThreadSummaryForCount b, hp_silent = b_silent b,
         hp_directoryPreview = b_directoryPreview b, hp_linkedTabId = b_linkedTabId b,
         hp_linkedTabTitle = b_linkedTabTitle b, hp_aiStalled = b_aiStalled b \<rparr>,
       hr_updatedAt = now \<rparr>"

text \<open>Blocks saved by earlier versions: live output is not looked at, and the session is the one they are listed under.\<close>

definition persistedBlockToRecord :: "int \<Rightarrow> string \<Rightarrow> 'h terminal_block \<Rightarrow> history_record" where
  "persistedBlockToRecord now sid b =
     (let r = toHistoryRecord now (b\<lparr>b_liveOutput := None\<rparr>) in r\<lparr>hr_sessionId := sid\<rparr>)"

definition empty_payload :: history_payload where
  "empty_payload = \<lparr> hp_output = Some '''', hp_reasoning = None, hp_aiThread = None, hp_aiThreadSummary = None,
     hp_aiThreadSummaryForCount = None, hp_silent = None, hp_directoryPreview = None, hp_linkedTabId = None,
     hp_linkedTabTitle = None, hp_aiStalled = None \<rparr>"

definition fromHistoryRecord :: "history_record \<Rightarrow> 'h terminal_block" where
  "fromHistoryRecord r =
     (let p = (case hr_payload r of None \<Rightarrow> empty_payload | Some p \<Rightarrow> p)
      in \<lparr> b_id = hr_id r, b_sessionId = hr_sessionId r,
           b_kind = Some (if hr_kind r = ''ai'' then AiBlock else ShellBlock), b_title = hr_title r, b_command = hr_command r,
           b_output = (case hp_output p of None \<Rightarrow> '''' | Some t \<Rightarrow> t), b_liveOutput = None, b_reasoning = hp_reasoning p,
           b_aiThread = hp_aiThread p, b_exitCode = hr_exitCode r, b_startLine = 0, b_endLine = 0, b_marker = None,
           b_cwd = hr_cwd r, b_timestamp = hr_timestamp r, b_completedAt = hr_completedAt r,
           b_status = (if hr_status r = ''running'' then BlockRunning else if hr_status r = ''failed'' then BlockFailed
             else BlockCompleted),
           b_attachedListing = None, b_directoryPreview = hp_directoryPreview p, b_silent = hp_silent p,
           b_linkedTabId = hp_linkedTabId p, b_linkedTabTitle = hp_linkedTabTitle p, b_aiThreadSummary = hp_aiThreadSummary p,
           b_aiThreadSummaryForCount = hp_aiThreadSummaryForCount p, b_aiStalled = hp_aiStalled p \<rparr>)"

definition persistable :: "'h terminal_block \<Rightarrow> bool" where
  "persistable b \<longleftrightarrow> js_trim (b_command b) \<noteq> '''' \<or> b_kind b = Some AiBlock"

section \<open>Blocks that were running\<close>

definition hasAiAssistantContent :: "thread_item list option \<Rightarrow> bool" where
  "hasAiAssistantContent thread =
     list_ex (\<lambda>item. case item of
         ThreadMessage m \<Rightarrow> tm_role m = AssistantTurn
           \<and> (js_trim (tm_content m) \<noteq> '''' \<or> truthy (map_option js_trim (tm_reasoning m)))
       | ThreadTool _ \<Rightarrow> False) (case thread of None \<Rightarrow> [] | Some t \<Rightarrow> t)"

definition open_call :: "thread_item \<Rightarrow> bool" where
  "open_call item = (case item of ThreadTool c \<Rightarrow> tt_status c = CallPending \<or> tt_status c = CallRunning | _ \<Rightarrow> False)"

definition close_call :: "string \<Rightarrow> thread_item \<Rightarrow> thread_item" where
  "close_call stale item =
     (case item of
        ThreadTool c \<Rightarrow>
          if open_call item then ThreadTool (c\<lparr>tt_status := CallRejected,
            tt_result := (if truthy (map_option js_trim (tt_result c)) then tt_result c else Some stale)\<rparr>)
          else item
      | _ \<Rightarrow> item)"

definition closeStaleAiThreadToolCalls :: "string \<Rightarrow> thread_item list option \<Rightarrow> thread_item list option" where
  "closeStaleAiThreadToolCalls stale thread = map_option (map (close_call stale)) thread"

definition normalizeStaleRunningBlock :: "string \<Rightarrow> int \<Rightarrow> 'h terminal_block \<Rightarrow> 'h terminal_block" where
  "normalizeStaleRunningBlock stale now b0 =
     (let b = b0\<lparr>b_aiThread := closeStaleAiThreadToolCalls stale (b_aiThread b0)\<rparr>;
          done_at = Some (case b_completedAt b of None \<Rightarrow> now | Some t \<Rightarrow> t);
          content = hasAiAssistantContent (b_aiThread b) in
      if b_status b \<noteq> BlockRunning then
        (if b_kind b = Some AiBlock \<and> b_status b = BlockCompleted \<and> content
         then b\<lparr>b_exitCode := Some 0, b_aiStalled := Some False\<rparr> else b)
      else if b_kind b = Some AiBlock then
        b\<lparr>b_status := (if content then BlockCompleted else BlockFailed), b_exitCode := Some (if content then 0 else 1),
          b_completedAt := done_at, b_aiStalled := Some False\<rparr>
      else if b_silent b = Some True then
        b\<lparr>b_status := BlockCompleted, b_exitCode := Some 0, b_completedAt := done_at\<rparr>
      else
        b\<lparr>b_status := BlockCompleted, b_exitCode := Some (case b_exitCode b of None \<Rightarrow> 0 | Some e \<Rightarrow> e),
          b_completedAt := done_at\<rparr>)"

definition normalizeRestoredTerminalBlock :: "string \<Rightarrow> int \<Rightarrow> 'h terminal_block \<Rightarrow> 'h terminal_block" where
  "normalizeRestoredTerminalBlock stale now b = normalizeStaleRunningBlock stale now (b\<lparr>b_marker := None\<rparr>)"

definition reconcileStaleRunningBlocks :: "string \<Rightarrow> int \<Rightarrow> 'h terminal_block list \<Rightarrow> 'h terminal_block list" where
  "reconcileStaleRunningBlocks stale now bs = map (normalizeStaleRunningBlock stale now) bs"

section \<open>The cache\<close>

datatype db_call =
    DbUpsert string "history_record list"
  | DbRemove string string
  | DbClearSession string
  | DbClearAll

record 'h history_state =
  th_bySession :: "'h terminal_block list jrec"
  th_sessionCount :: nat
  th_blockCount :: nat
  th_hydrated :: bool
  th_live :: "'h blocks_state"
  th_calls :: "db_call list"

text \<open>\<open>refreshCounts\<close>, when the database has answered; \<open>None\<close> is a failure.\<close>

definition refreshCounts :: "(nat \<times> nat) option \<Rightarrow> 'h history_state \<Rightarrow> 'h history_state" where
  "refreshCounts answer s =
     (case answer of
        None \<Rightarrow> s\<lparr>th_hydrated := True\<rparr>
      | Some (sessions, blocks) \<Rightarrow> s\<lparr>th_sessionCount := sessions, th_blockCount := blocks, th_hydrated := True\<rparr>)"

definition cacheSessionBlocks :: "int \<Rightarrow> string \<Rightarrow> 'h terminal_block list \<Rightarrow> 'h history_state \<Rightarrow> 'h history_state" where
  "cacheSessionBlocks now sid bs s =
     (if sid = '''' then s
      else s\<lparr>th_bySession := rput sid (map (fromHistoryRecord \<circ> toHistoryRecord now) (filter persistable bs)) (th_bySession s)\<rparr>)"

definition getSessionBlocks :: "string \<Rightarrow> 'h history_state \<Rightarrow> 'h terminal_block list" where
  "getSessionBlocks sid s = (case rget (th_bySession s) sid of None \<Rightarrow> [] | Some bs \<Rightarrow> bs)"

text \<open>
  \<open>restoreSession\<close> waits for the database, or for a module to load, between looking at the live blocks and
  replacing them: \<open>restore_starts\<close> is what comes before, the cached blocks or \<open>None\<close> where it returns at once,
  and \<open>restore_finishes\<close> what comes after. The database is asked only when nothing is cached.
\<close>

definition restore_starts :: "string \<Rightarrow> 'h history_state \<Rightarrow> 'h terminal_block list option" where
  "restore_starts sid s =
     (if sid = '''' then None
      else if getBlocks sid (th_live s) \<noteq> [] then None
      else Some (getSessionBlocks sid s))"

definition restore_finishes :: "string \<Rightarrow> int \<Rightarrow> 'h terminal_block list \<Rightarrow> history_record list option \<Rightarrow> string
    \<Rightarrow> 'h history_state \<Rightarrow> 'h history_state" where
  "restore_finishes stale now cached answer sid s =
     (let loaded = (case answer of None \<Rightarrow> [] | Some rs \<Rightarrow> map fromHistoryRecord rs);
          persisted = (if cached \<noteq> [] then cached else loaded) in
      if persisted = [] then s
      else s\<lparr>th_bySession := (if cached \<noteq> [] then th_bySession s else rput sid persisted (th_bySession s)),
             th_live := replaceSessionBlocks sid (map (normalizeRestoredTerminalBlock stale now) persisted) (th_live s)\<rparr>)"

definition restoreSession :: "string \<Rightarrow> int \<Rightarrow> history_record list option \<Rightarrow> string \<Rightarrow> 'h history_state \<Rightarrow> 'h history_state" where
  "restoreSession stale now answer sid s =
     (case restore_starts sid s of None \<Rightarrow> s | Some cached \<Rightarrow> restore_finishes stale now cached answer sid s)"

definition restoreAllKnownSessions ::
    "string \<Rightarrow> int \<Rightarrow> (string \<Rightarrow> history_record list option) \<Rightarrow> string list \<Rightarrow> 'h history_state \<Rightarrow> 'h history_state" where
  "restoreAllKnownSessions stale now answer sids s = fold (\<lambda>sid. restoreSession stale now (answer sid) sid) sids s"

definition removeHistoryBlock :: "string \<Rightarrow> string \<Rightarrow> 'h history_state \<Rightarrow> 'h history_state" where
  "removeHistoryBlock sid bid s =
     s\<lparr>th_bySession := rput sid (filter (\<lambda>b. b_id b \<noteq> bid) (getSessionBlocks sid s)) (th_bySession s),
       th_live := removeBlock bid (th_live s), th_calls := th_calls s @ [DbRemove sid bid]\<rparr>"

definition clearSession :: "string \<Rightarrow> 'h history_state \<Rightarrow> 'h history_state" where
  "clearSession sid s =
     s\<lparr>th_bySession := rdel sid (th_bySession s), th_live := clearBlocks sid (th_live s),
       th_calls := th_calls s @ [DbClearSession sid]\<rparr>"

definition clearAllHistory :: "'h history_state \<Rightarrow> 'h history_state" where
  "clearAllHistory s =
     s\<lparr>th_bySession := [], th_sessionCount := 0, th_blockCount := 0,
       th_live := fold clearBlocks (rkeys (th_bySession s)) (th_live s), th_calls := th_calls s @ [DbClearAll]\<rparr>"

text \<open>\<open>migrateFromLocalStorageIfNeeded\<close>: the saved object of earlier versions goes to the database, session by session.\<close>

definition migrateFromLocalStorage :: "int \<Rightarrow> 'h terminal_block list jrec option \<Rightarrow> 'h history_state \<Rightarrow> 'h history_state" where
  "migrateFromLocalStorage now saved s =
     (case saved of
        None \<Rightarrow> s
      | Some r \<Rightarrow> s\<lparr>th_calls := th_calls s
          @ map (\<lambda>(sid, bs). DbUpsert sid (map (persistedBlockToRecord now sid) bs)) (filter (\<lambda>(sid, bs). sid \<noteq> '''' \<and> bs \<noteq> []) r)\<rparr>)"

section \<open>Lemmas\<close>

lemma kind_text_ai: "kind_text k = ''ai'' \<longleftrightarrow> k = Some AiBlock"
  by (cases k rule: kind_text.cases) simp_all

lemma status_text_running: "status_text st = ''running'' \<longleftrightarrow> st = BlockRunning"
  and status_text_failed: "status_text st = ''failed'' \<longleftrightarrow> st = BlockFailed"
  by (cases st; simp)+

text \<open>What a block is after it was saved and loaded.\<close>

definition as_saved :: "'h terminal_block \<Rightarrow> 'h terminal_block" where
  "as_saved b = b\<lparr>b_kind := Some (if b_kind b = Some AiBlock then AiBlock else ShellBlock),
     b_output := renderLiveOutputText (b_liveOutput b) (b_output b), b_liveOutput := None, b_startLine := 0, b_endLine := 0,
     b_marker := None, b_attachedListing := None\<rparr>"

lemma status_back: "(if st = BlockRunning then BlockRunning else if st = BlockFailed then BlockFailed else BlockCompleted) = st"
  by (cases st) simp_all

lemma to_from_record: "fromHistoryRecord (toHistoryRecord now b) = as_saved b"
  unfolding fromHistoryRecord_def toHistoryRecord_def Let_def as_saved_def history_record.simps history_payload.simps
    option.case kind_text_ai status_text_running status_text_failed status_back
  by (cases b) (simp only: terminal_block.simps)

lemma close_call_closed: "\<not> open_call item \<Longrightarrow> close_call stale item = item"
  by (cases item) (simp_all add: close_call_def)

lemma close_call_closes: "\<not> open_call (close_call stale item)"
  by (cases item) (simp_all add: close_call_def open_call_def)

lemma close_calls_twice:
  "closeStaleAiThreadToolCalls stale (closeStaleAiThreadToolCalls stale' t) = closeStaleAiThreadToolCalls stale' t"
  by (cases t) (simp_all add: closeStaleAiThreadToolCalls_def close_call_closed close_call_closes)

lemma content_close: "hasAiAssistantContent (closeStaleAiThreadToolCalls stale t) = hasAiAssistantContent t"
proof -
  have "(case close_call stale item of
         ThreadMessage m \<Rightarrow> tm_role m = AssistantTurn
           \<and> (js_trim (tm_content m) \<noteq> '''' \<or> truthy (map_option js_trim (tm_reasoning m)))
       | ThreadTool _ \<Rightarrow> False) = (case item of
         ThreadMessage m \<Rightarrow> tm_role m = AssistantTurn
           \<and> (js_trim (tm_content m) \<noteq> '''' \<or> truthy (map_option js_trim (tm_reasoning m)))
       | ThreadTool _ \<Rightarrow> False)" for item
    by (cases item) (simp_all add: close_call_def)
  then show ?thesis
    by (cases t) (simp_all add: hasAiAssistantContent_def closeStaleAiThreadToolCalls_def list_ex_iff)
qed

definition thread_of :: "'h terminal_block \<Rightarrow> thread_item list" where
  "thread_of b = (case b_aiThread b of None \<Rightarrow> [] | Some t \<Rightarrow> t)"

lemma normalize_thread:
  "b_aiThread (normalizeStaleRunningBlock stale now b) = closeStaleAiThreadToolCalls stale (b_aiThread b)"
  by (simp add: normalizeStaleRunningBlock_def Let_def)

lemma normalize_settled: "b_status (normalizeStaleRunningBlock stale now b) \<noteq> BlockRunning"
  by (simp add: normalizeStaleRunningBlock_def Let_def)

lemma normalize_again:
  assumes "b_status b \<noteq> BlockRunning" "closeStaleAiThreadToolCalls stale (b_aiThread b) = b_aiThread b"
    "b_kind b = Some AiBlock \<Longrightarrow> b_status b = BlockCompleted \<Longrightarrow> hasAiAssistantContent (b_aiThread b)
      \<Longrightarrow> b_exitCode b = Some 0 \<and> b_aiStalled b = Some False"
  shows "normalizeStaleRunningBlock stale now b = b"
  using assms by (cases b) (simp add: normalizeStaleRunningBlock_def Let_def)

lemma normalize_twice:
  "normalizeStaleRunningBlock stale later (normalizeStaleRunningBlock stale now b) = normalizeStaleRunningBlock stale now b"
proof (rule normalize_again)
  show "b_status (normalizeStaleRunningBlock stale now b) \<noteq> BlockRunning" by (rule normalize_settled)
  show "closeStaleAiThreadToolCalls stale (b_aiThread (normalizeStaleRunningBlock stale now b))
      = b_aiThread (normalizeStaleRunningBlock stale now b)"
    by (simp add: normalize_thread close_calls_twice)
  assume "b_kind (normalizeStaleRunningBlock stale now b) = Some AiBlock"
    "b_status (normalizeStaleRunningBlock stale now b) = BlockCompleted"
    "hasAiAssistantContent (b_aiThread (normalizeStaleRunningBlock stale now b))"
  then show "b_exitCode (normalizeStaleRunningBlock stale now b) = Some 0
      \<and> b_aiStalled (normalizeStaleRunningBlock stale now b) = Some False"
    unfolding normalize_thread by (auto simp: normalizeStaleRunningBlock_def Let_def split: if_splits)
qed

lemma normalize_marker: "b_marker (normalizeStaleRunningBlock stale now b) = b_marker b"
  by (simp add: normalizeStaleRunningBlock_def Let_def)

lemma no_marker: "b_marker b = None \<Longrightarrow> b\<lparr>b_marker := None\<rparr> = b"
  by (cases b) simp

lemma normalize_frame:
  "(normalizeStaleRunningBlock stale now b)\<lparr>b_status := b_status b, b_exitCode := b_exitCode b,
     b_completedAt := b_completedAt b, b_aiThread := b_aiThread b, b_aiStalled := b_aiStalled b\<rparr> = b"
  by (cases b) (simp add: normalizeStaleRunningBlock_def Let_def)

lemma dedupe_distinct_id: "distinct (map b_id bs) \<Longrightarrow> dedupeBlocksById bs = bs"
proof -
  have "distinct (map b_id xs) \<Longrightarrow> set seen \<inter> b_id ` set xs = {} \<Longrightarrow> first_by_id seen xs = xs" for seen and xs :: "'a terminal_block list"
    by (induction seen xs rule: first_by_id.induct) auto
  then show "distinct (map b_id bs) \<Longrightarrow> dedupeBlocksById bs = bs"
    by (simp add: dedupeBlocksById_def rev_map [symmetric])
qed

lemma reachable_ids: "distinct (map b_id (getBlocks sid (fold blocks_step ops blocks_init)))"
proof -
  let ?s = "fold blocks_step ops blocks_init"
  have "ids_ok (ids_of (bs_blocks ?s)) (bs_counter ?s)" using blocks.inv_run [of ops] unfolding blocks_inv_def by blast
  from get_ids_ok [OF this] show ?thesis by blast
qed

lemma policy_bounds:
  "20 \<le> rp_maxBlocksPerSession (resolveHistoryPolicy c) \<and> rp_maxBlocksPerSession (resolveHistoryPolicy c) \<le> 500"
  by (auto simp: resolveHistoryPolicy_def DEFAULT_TERMINAL_HISTORY_MAX_BLOCKS_def split: option.split)

section \<open>Properties\<close>

text \<open>Saving keeps a block: a saved block comes back with everything but what belongs to the window it was in (live
  output, which has become its output, marker, position, listing), and saving it again writes the same record.\<close>

theorem saved_block_comes_back:
  "fromHistoryRecord (toHistoryRecord now b) = as_saved b \<and> toHistoryRecord now (as_saved b) = toHistoryRecord now b"
proof
  show "fromHistoryRecord (toHistoryRecord now b) = as_saved b" by (rule to_from_record)
  have "kind_text (Some (if k = Some AiBlock then AiBlock else ShellBlock)) = kind_text k" for k
    by (cases k rule: kind_text.cases) simp_all
  then show "toHistoryRecord now (as_saved b) = toHistoryRecord now b"
    by (simp add: toHistoryRecord_def as_saved_def renderLiveOutputText_def)
qed

text \<open>(C37) Nothing that was interrupted comes back as if it were still running: a restored block is not running and no
  tool call of its thread waits or runs; only its status, exit code, end time, thread, stall flag and marker may
  differ from what was saved; and restoring it again changes nothing.\<close>

theorem restored_block_is_settled:
  "let r = normalizeRestoredTerminalBlock stale now b in
     b_status r \<noteq> BlockRunning \<and> \<not> list_ex open_call (thread_of r)
     \<and> r\<lparr>b_status := b_status b, b_exitCode := b_exitCode b, b_completedAt := b_completedAt b, b_aiThread := b_aiThread b,
          b_aiStalled := b_aiStalled b, b_marker := b_marker b\<rparr> = b
     \<and> normalizeRestoredTerminalBlock stale later r = r"
proof -
  let ?b = "b\<lparr>b_marker := None\<rparr>"
  let ?r = "normalizeStaleRunningBlock stale now ?b"
  have r: "normalizeRestoredTerminalBlock stale now b = ?r" by (simp add: normalizeRestoredTerminalBlock_def)
  have "?r\<lparr>b_marker := None\<rparr> = ?r" by (rule no_marker) (simp add: normalize_marker)
  then have again: "normalizeRestoredTerminalBlock stale later ?r = ?r"
    by (simp add: normalizeRestoredTerminalBlock_def normalize_twice)
  have "\<not> list_ex open_call (thread_of ?r)"
    by (cases "b_aiThread b") (simp_all add: thread_of_def normalize_thread closeStaleAiThreadToolCalls_def list_ex_iff
        close_call_closes)
  moreover have "?r\<lparr>b_status := b_status b, b_exitCode := b_exitCode b, b_completedAt := b_completedAt b,
      b_aiThread := b_aiThread b, b_aiStalled := b_aiStalled b, b_marker := b_marker b\<rparr> = b"
    using arg_cong [OF normalize_frame [where stale = stale and now = now and b = "b\<lparr>b_marker := None\<rparr>"],
      of "\<lambda>x. x\<lparr>b_marker := b_marker b\<rparr>"] by simp
  ultimately show ?thesis unfolding Let_def r using again normalize_settled by blast
qed

text \<open>(C36) A session survives a restart: when the database answers with what was written of a session, the session has
  after the restart exactly its blocks that are worth keeping, in their order, each as it was saved and settled.\<close>

theorem session_survives_a_restart:
  assumes "sid \<noteq> ''''" "bs = getBlocks sid (fold blocks_step ops blocks_init)" "th_live s = blocks_init" "th_bySession s = []"
  shows "getBlocks sid (th_live (restoreSession stale now (Some (map (toHistoryRecord saved) (filter persistable bs))) sid s))
    = map (normalizeRestoredTerminalBlock stale now \<circ> as_saved) (filter persistable bs)"
proof -
  let ?kept = "map (normalizeRestoredTerminalBlock stale now \<circ> as_saved) (filter persistable bs)"
  have id: "b_id (normalizeRestoredTerminalBlock stale now (as_saved b)) = b_id b" for b :: "'a terminal_block"
    by (simp add: normalizeRestoredTerminalBlock_def normalizeStaleRunningBlock_def as_saved_def Let_def)
  have marker: "(normalizeRestoredTerminalBlock stale now b)\<lparr>b_marker := None\<rparr> = normalizeRestoredTerminalBlock stale now b"
    for b :: "'a terminal_block"
    by (rule no_marker) (simp add: normalizeRestoredTerminalBlock_def normalize_marker)
  have "distinct (map b_id ?kept)"
    using reachable_ids [of sid ops] by (simp add: assms(2) comp_def id distinct_map_filter)
  then have live: "getBlocks sid (replaceSessionBlocks sid ?kept blocks_init) = ?kept"
    by (simp add: replaceSessionBlocks_def Let_def dedupe_distinct_id getBlocks_def blocks_init_def sync_counter_def
        comp_def marker)
  have loaded: "map fromHistoryRecord (map (toHistoryRecord saved) (filter persistable bs)) = map as_saved (filter persistable bs)"
    by (simp add: comp_def to_from_record)
  have start: "restore_starts sid s = Some []"
    using assms by (simp add: restore_starts_def getSessionBlocks_def getBlocks_def blocks_init_def)
  show ?thesis
  proof (cases "filter persistable bs = []")
    case True
    then show ?thesis using assms(3)
      by (simp add: restoreSession_def start restore_finishes_def getBlocks_def blocks_init_def)
  next
    case False
    then have "th_live (restoreSession stale now (Some (map (toHistoryRecord saved) (filter persistable bs))) sid s)
        = replaceSessionBlocks sid ?kept blocks_init"
      using assms(3) unfolding restoreSession_def start restore_finishes_def option.case loaded by (simp add: Let_def)
    with live show ?thesis by simp
  qed
qed

text \<open>A block that starts while the history of its session is being loaded is lost: restoring looks for live blocks
  before it waits and replaces the session's blocks after it.\<close>

theorem restore_drops_a_new_block:
  assumes "restore_starts sid s = Some []" "records \<noteq> []" "b_id b \<notin> set (map hr_id records)"
  shows "let during = s\<lparr>th_live := addBlock sid b (th_live s)\<rparr>;
      restored = restore_finishes stale now [] (Some records) sid during
    in b \<in> set (getBlocks sid (th_live during)) \<and> b_id b \<notin> set (map b_id (getBlocks sid (th_live restored)))"
proof -
  have "b \<in> set (getBlocks sid (addBlock sid b (th_live s)))"
    by (simp add: addBlock_def getBlocks_def sync_counter_def Let_def store_simps upsert_where_in)
  moreover have sub: "b_id ` set (dedupeBlocksById bs) \<subseteq> b_id ` set bs" for bs :: "'a terminal_block list"
  proof -
    have "set (map b_id (first_by_id seen xs)) \<subseteq> set (map b_id xs)" for seen and xs :: "'a terminal_block list"
      unfolding first_by_id_ids by auto
    from this [of "[]" "rev bs"] show ?thesis by (simp add: dedupeBlocksById_def)
  qed
  have ids: "b_id (normalizeRestoredTerminalBlock stale now (fromHistoryRecord r)) = hr_id r" for r
    by (simp add: normalizeRestoredTerminalBlock_def normalizeStaleRunningBlock_def fromHistoryRecord_def Let_def)
  let ?bs = "map (normalizeRestoredTerminalBlock stale now) (map fromHistoryRecord records) :: 'a terminal_block list"
  have live: "getBlocks sid (th_live (restore_finishes stale now [] (Some records) sid t))
      = map (\<lambda>b. b\<lparr>b_marker := None\<rparr>) (dedupeBlocksById ?bs)" for t :: "'a history_state"
    using assms(2) by (simp add: restore_finishes_def Let_def getBlocks_def replaceSessionBlocks_def sync_counter_def store_simps)
  have eq: "b_id ` set ?bs = set (map hr_id records)" by (simp add: image_image ids)
  have "set (map b_id (map (\<lambda>b. b\<lparr>b_marker := None\<rparr>) xs)) = b_id ` set xs" for xs :: "'a terminal_block list"
    by (simp add: image_image)
  then have "b_id b \<notin> set (map b_id (map (\<lambda>b. b\<lparr>b_marker := None\<rparr>) (dedupeBlocksById ?bs)))"
    using assms(3) sub [of ?bs] unfolding eq by blast
  ultimately show ?thesis unfolding Let_def live by simp
qed

text \<open>Instances.\<close>

definition empty_history :: "unit history_state" where
  "empty_history = \<lparr> th_bySession = [], th_sessionCount = 0, th_blockCount = 0, th_hydrated = False,
     th_live = blocks_init, th_calls = [] \<rparr>"

lemma live_shell: "getBlocks ''s'' (fold blocks_step [AddBlock ''s'' shell_block] blocks_init) = [shell_block]"
  by (simp add: addBlock_def sync_counter_def blocks_init_def getBlocks_def upsert_where_def Let_def)

lemma shell_persistable: "persistable shell_block"
  by (simp add: persistable_def shell_block_def js_trim_def trim_start_def trim_end_def js_ws_def)

theorem session_survives_a_restart_witness:
  "getBlocks ''s'' (th_live (restoreSession ''stale'' 99 (Some [toHistoryRecord 50 shell_block]) ''s'' empty_history))
     = [normalizeRestoredTerminalBlock ''stale'' 99 (as_saved shell_block)]"
  using session_survives_a_restart [of "''s''" "[shell_block]" "[AddBlock ''s'' shell_block]" empty_history "''stale''" 99 50]
  by (simp only: live_shell) (simp add: empty_history_def shell_persistable)

theorem restore_drops_a_new_block_witness:
  "''blk-1'' \<notin> set (map b_id (getBlocks ''s'' (th_live (restore_finishes ''stale'' 99 []
      (Some [(toHistoryRecord 50 shell_block)\<lparr>hr_id := ''blk-9''\<rparr>]) ''s''
      (empty_history\<lparr>th_live := addBlock ''s'' shell_block (th_live empty_history)\<rparr>)))))"
proof -
  have start: "restore_starts ''s'' empty_history = Some []"
    by (simp add: restore_starts_def empty_history_def getBlocks_def blocks_init_def getSessionBlocks_def)
  have i: "b_id shell_block = ''blk-1''" by (simp add: shell_block_def)
  have "b_id shell_block \<notin> set (map hr_id [(toHistoryRecord 50 shell_block)\<lparr>hr_id := ''blk-9''\<rparr>])" by (simp add: i)
  from restore_drops_a_new_block [OF start _ this, of "''stale''" 99] show ?thesis unfolding Let_def i by simp
qed

end
