(* ===== verification/HistorySync.thy ===== *)
theory HistorySync
  imports TermHistory
begin

text \<open>
  \<^bold>\<open>frontend/src/modules/terminal/terminalHistorySync.ts\<close>: when the blocks of a terminal session are written to
  the database. A subscriber of the block store compares fingerprints with those it has seen, marks what changed
  and arms a timer per session; a write ends later, with success or not, while the store goes on changing.

  A run may put any step between the start and the end of a write. Whether history is to be saved at all is the
  argument \<open>persist\<close>. The blocks that were written and those left out as not worth keeping are logged; the
  program does not look at these logs.
\<close>

section \<open>State\<close>

definition RUNNING_FLUSH_MS :: nat where
  "RUNNING_FLUSH_MS = 2500"

definition LIFECYCLE_FLUSH_MS :: nat where
  "LIFECYCLE_FLUSH_MS = 300"

definition FORCE_FLUSH_DEDUP_MS :: int where
  "FORCE_FLUSH_DEDUP_MS = 2000"

text \<open>
  The fingerprint, a text that joins these fields; only the title may hold the separator, so that two blocks have
  the same text exactly when they have the same fields.
\<close>

record block_print =
  bp_status :: block_status
  bp_exitCode :: "int option"
  bp_completedAt :: "int option"
  bp_command :: nat
  bp_output :: nat
  bp_live :: nat
  bp_reasoning :: nat
  bp_thread :: nat
  bp_title :: string
  bp_stalled :: bool

definition blockFingerprint :: "'h terminal_block \<Rightarrow> block_print" where
  "blockFingerprint b =
     \<lparr> bp_status = b_status b, bp_exitCode = b_exitCode b, bp_completedAt = b_completedAt b,
       bp_command = length (b_command b), bp_output = length (b_output b),
       bp_live = (case b_liveOutput b of None \<Rightarrow> 0
          | Some m \<Rightarrow> sum_list (map length (om_lines m)) + length (om_currentLine m)),
       bp_reasoning = (case b_reasoning b of None \<Rightarrow> 0 | Some r \<Rightarrow> length r),
       bp_thread = (case b_aiThread b of None \<Rightarrow> 0 | Some t \<Rightarrow> length t),
       bp_title = (case b_title b of None \<Rightarrow> '''' | Some t \<Rightarrow> t), bp_stalled = (b_aiStalled b = Some True) \<rparr>"

text \<open>A write on its way: the session, the blocks to write by identifier, and all blocks of the session at its start.\<close>

record 'h flight =
  fl_session :: string
  fl_ids :: "string list"
  fl_blocks :: "'h terminal_block list"
  fl_forced :: bool

record 'h sync_state =
  hs_history :: "'h history_state"
  hs_dirty :: "string list jrec"
  hs_timers :: "nat jrec"
  hs_known :: "block_print jrec jrec"
  hs_lastForce :: "int jrec"
  hs_flights :: "'h flight list"
  hs_written :: "(string \<times> 'h terminal_block) list"
  hs_skipped :: "(string \<times> 'h terminal_block) list"

definition sync_init :: "'h history_state \<Rightarrow> 'h sync_state" where
  "sync_init h = \<lparr> hs_history = h, hs_dirty = [], hs_timers = [], hs_known = [], hs_lastForce = [], hs_flights = [],
     hs_written = [], hs_skipped = [] \<rparr>"

abbreviation live_blocks :: "'h sync_state \<Rightarrow> string \<Rightarrow> 'h terminal_block list" where
  "live_blocks s sid \<equiv> getBlocks sid (th_live (hs_history s))"

definition dirty_ids :: "'h sync_state \<Rightarrow> string \<Rightarrow> string list" where
  "dirty_ids s sid = (case rget (hs_dirty s) sid of None \<Rightarrow> [] | Some ids \<Rightarrow> ids)"

definition known_of :: "'h sync_state \<Rightarrow> string \<Rightarrow> block_print jrec" where
  "known_of s sid = (case rget (hs_known s) sid of None \<Rightarrow> [] | Some m \<Rightarrow> m)"

section \<open>Steps\<close>

definition prints_of :: "'h terminal_block list \<Rightarrow> block_print jrec" where
  "prints_of bs = fold (\<lambda>b m. rput (b_id b) (blockFingerprint b) m) bs []"

definition noteRestoredSessionBlocks :: "string \<Rightarrow> 'h terminal_block list \<Rightarrow> 'h sync_state \<Rightarrow> 'h sync_state" where
  "noteRestoredSessionBlocks sid bs s =
     s\<lparr>hs_known := rput sid (prints_of bs) (hs_known s), hs_dirty := rdel sid (hs_dirty s), hs_timers := rdel sid (hs_timers s)\<rparr>"

definition markDirty :: "string \<Rightarrow> string \<Rightarrow> 'h sync_state \<Rightarrow> 'h sync_state" where
  "markDirty sid bid s =
     (let ids = dirty_ids s sid
      in s\<lparr>hs_dirty := rput sid (if bid \<in> set ids then ids else ids @ [bid]) (hs_dirty s)\<rparr>)"

definition scheduleFlush :: "string \<Rightarrow> nat \<Rightarrow> 'h sync_state \<Rightarrow> 'h sync_state" where
  "scheduleFlush sid delay s =
     (case rget (hs_timers s) sid of
        Some d \<Rightarrow> if d \<le> delay then s else s\<lparr>hs_timers := rput sid delay (hs_timers s)\<rparr>
      | None \<Rightarrow> s\<lparr>hs_timers := rput sid delay (hs_timers s)\<rparr>)"

definition cancelScheduledFlush :: "string \<Rightarrow> 'h sync_state \<Rightarrow> 'h sync_state" where
  "cancelScheduledFlush sid s = s\<lparr>hs_timers := rdel sid (hs_timers s)\<rparr>"

definition changed_blocks :: "block_print jrec \<Rightarrow> 'h terminal_block list \<Rightarrow> 'h terminal_block list" where
  "changed_blocks known bs = filter (\<lambda>b. rget known (b_id b) \<noteq> Some (blockFingerprint b)) bs"

text \<open>What \<open>reconcileSession\<close> does about blocks that are gone.\<close>

definition forget_removed :: "bool \<Rightarrow> string \<Rightarrow> string list \<Rightarrow> bool \<Rightarrow> 'h history_state \<Rightarrow> 'h history_state" where
  "forget_removed persist sid removed emptied h =
     (if emptied then h\<lparr>th_bySession := rdel sid (th_bySession h)\<rparr>
      else h\<lparr>th_calls := th_calls h @ (if persist then map (DbRemove sid) removed else []),
             th_bySession := rpatch sid (filter (\<lambda>b. b_id b \<notin> set removed)) (th_bySession h)\<rparr>)"

definition reconcileSession :: "bool \<Rightarrow> string \<Rightarrow> 'h terminal_block list \<Rightarrow> 'h sync_state \<Rightarrow> 'h sync_state" where
  "reconcileSession persist sid bs s =
     (let prev = known_of s sid;
          changed = changed_blocks prev bs;
          removed = filter (\<lambda>i. i \<notin> set (map b_id bs)) (rkeys prev);
          marked = fold (markDirty sid) (map b_id changed) s;
          noted = marked\<lparr>hs_history := forget_removed persist sid removed (prev \<noteq> [] \<and> bs = []) (hs_history marked),
                         hs_known := rput sid (prints_of bs) (hs_known marked)\<rparr>
      in if list_ex (\<lambda>b. b_status b \<noteq> BlockRunning) changed then scheduleFlush sid LIFECYCLE_FLUSH_MS noted
         else if list_ex (\<lambda>b. b_status b = BlockRunning) changed then scheduleFlush sid RUNNING_FLUSH_MS noted
         else noted)"

definition set_live :: "'h blocks_state \<Rightarrow> 'h sync_state \<Rightarrow> 'h sync_state" where
  "set_live b s = s\<lparr>hs_history := (hs_history s)\<lparr>th_live := b\<rparr>\<rparr>"

text \<open>The subscriber, called with the store after and before a change.\<close>

definition subscriber :: "bool \<Rightarrow> 'h blocks_state \<Rightarrow> 'h blocks_state \<Rightarrow> 'h sync_state \<Rightarrow> 'h sync_state" where
  "subscriber persist new old s =
     fold (\<lambda>sid. reconcileSession persist sid (getBlocks sid new)) (uniq (rkeys (bs_blocks new) @ rkeys (bs_blocks old))) s"

definition change_store :: "bool \<Rightarrow> 'h blocks_op \<Rightarrow> 'h sync_state \<Rightarrow> 'h sync_state" where
  "change_store persist a s =
     (let old = th_live (hs_history s); new = blocks_step a old in subscriber persist new old (set_live new s))"

text \<open>A call that returns the state it was given: subscribers are not called.\<close>

definition change_quietly :: "'h blocks_op \<Rightarrow> 'h sync_state \<Rightarrow> 'h sync_state" where
  "change_quietly a s =
     (let old = th_live (hs_history s); new = blocks_step a old
      in if bs_blocks new = bs_blocks old then set_live new s else s)"

definition upsert_call :: "int \<Rightarrow> string \<Rightarrow> 'h terminal_block list \<Rightarrow> db_call list" where
  "upsert_call now sid bs =
     (let kept = filter persistable bs in if kept = [] then [] else [DbUpsert sid (map (toHistoryRecord now) kept)])"

text \<open>\<open>flushSession\<close>, which the timer of the session calls, up to its wait for the database.\<close>

definition flush_timer_fires :: "bool \<Rightarrow> int \<Rightarrow> string \<Rightarrow> 'h sync_state \<Rightarrow> 'h sync_state" where
  "flush_timer_fires persist now sid s0 =
     (if rget (hs_timers s0) sid = None then s0
      else (let s = cancelScheduledFlush sid s0 in
        if \<not> persist \<or> sid = '''' then s\<lparr>hs_dirty := rdel sid (hs_dirty s)\<rparr>
        else (let ids = dirty_ids s sid; bs = live_blocks s sid; toWrite = filter (\<lambda>b. b_id b \<in> set ids) bs in
          if ids = [] then s
          else if toWrite = [] then s\<lparr>hs_dirty := rdel sid (hs_dirty s)\<rparr>
          else s\<lparr>hs_dirty := rdel sid (hs_dirty s),
                 hs_history := (hs_history s)\<lparr>th_calls := th_calls (hs_history s) @ upsert_call now sid toWrite\<rparr>,
                 hs_flights := hs_flights s @ [\<lparr> fl_session = sid, fl_ids = ids, fl_blocks = bs, fl_forced = False \<rparr>]\<rparr>)))"

definition flushSessionNow :: "bool \<Rightarrow> int \<Rightarrow> string \<Rightarrow> 'h sync_state \<Rightarrow> 'h sync_state" where
  "flushSessionNow persist now sid s0 =
     (if \<not> persist \<or> sid = '''' then s0\<lparr>hs_dirty := rdel sid (hs_dirty s0)\<rparr>
      else (let s = cancelScheduledFlush sid s0;
                lastAt = (case rget (hs_lastForce s) sid of None \<Rightarrow> 0 | Some t \<Rightarrow> t);
                bs = live_blocks s sid; toWrite = filter persistable bs in
        if dirty_ids s sid = [] \<and> now - lastAt < FORCE_FLUSH_DEDUP_MS then s
        else if toWrite = [] then s\<lparr>hs_dirty := rdel sid (hs_dirty s), hs_lastForce := rput sid now (hs_lastForce s),
               hs_skipped := hs_skipped s @ map (Pair sid) bs\<rparr>
        else s\<lparr>hs_dirty := rdel sid (hs_dirty s),
               hs_history := (hs_history s)\<lparr>th_calls := th_calls (hs_history s) @ upsert_call now sid toWrite\<rparr>,
               hs_flights := hs_flights s
                 @ [\<lparr> fl_session = sid, fl_ids = map b_id toWrite, fl_blocks = bs, fl_forced = True \<rparr>]\<rparr>))"

definition to_write :: "'h flight \<Rightarrow> 'h terminal_block list" where
  "to_write f = filter (\<lambda>b. b_id b \<in> set (fl_ids f) \<and> persistable b) (fl_blocks f)"

text \<open>The \<open>n\<close>-th write on its way ends.\<close>

definition write_settles :: "nat \<Rightarrow> bool \<Rightarrow> int \<Rightarrow> 'h sync_state \<Rightarrow> 'h sync_state" where
  "write_settles n ok now s0 =
     (if n < length (hs_flights s0) then
        (let f = hs_flights s0 ! n; sid = fl_session f;
             s = s0\<lparr>hs_flights := take n (hs_flights s0) @ drop (Suc n) (hs_flights s0)\<rparr> in
         if ok then
           (let s = s\<lparr>hs_written := hs_written s @ map (Pair sid) (to_write f),
                      hs_skipped := hs_skipped s @ map (Pair sid) (filter (\<lambda>b. \<not> persistable b) (fl_blocks f)),
                      hs_history := cacheSessionBlocks now sid (fl_blocks f) (hs_history s)\<rparr>;
                s = noteRestoredSessionBlocks sid (fl_blocks f) s
            in if fl_forced f then s\<lparr>hs_lastForce := rput sid now (hs_lastForce s)\<rparr> else s)
         else (let s = fold (markDirty sid) (fl_ids f) s
               in if fl_forced f then s else scheduleFlush sid LIFECYCLE_FLUSH_MS s))
      else s0)"

definition seed_session :: "string \<Rightarrow> 'h terminal_block list \<Rightarrow> 'h sync_state \<Rightarrow> 'h sync_state" where
  "seed_session sid bs s =
     (if bs = [] \<or> rget (hs_known s) sid \<noteq> None then s
      else scheduleFlush sid (if list_ex (\<lambda>b. b_status b = BlockRunning) bs then RUNNING_FLUSH_MS else LIFECYCLE_FLUSH_MS)
             (fold (markDirty sid) (map b_id bs) s))"

definition seedExistingBlocks :: "'h sync_state \<Rightarrow> 'h sync_state" where
  "seedExistingBlocks s = fold (\<lambda>(sid, bs). seed_session sid bs) (bs_blocks (th_live (hs_history s))) s"

text \<open>
  The end of \<open>restoreSession\<close>: the restored blocks are noted as seen, then put into the block store, whose
  subscriber runs. They come from the database.
\<close>

definition restore_and_note :: "bool \<Rightarrow> string \<Rightarrow> int \<Rightarrow> 'h terminal_block list \<Rightarrow> history_record list option \<Rightarrow> string
    \<Rightarrow> 'h sync_state \<Rightarrow> 'h sync_state" where
  "restore_and_note persist stale now cached answer sid s =
     (let loaded = (case answer of None \<Rightarrow> [] | Some rs \<Rightarrow> map fromHistoryRecord rs);
          persisted = (if cached \<noteq> [] then cached else loaded) in
      if persisted = [] then s
      else (let bs = map (normalizeRestoredTerminalBlock stale now) persisted;
                old = th_live (hs_history s);
                s = (noteRestoredSessionBlocks sid bs s)\<lparr>hs_written := hs_written s @ map (Pair sid) bs,
                      hs_history := restore_finishes stale now cached answer sid (hs_history s)\<rparr>
            in subscriber persist (th_live (hs_history s)) old s))"

datatype 'h sync_op =
    Change "'h blocks_op"
  | Quiet "'h blocks_op"
  | FlushTimer int string
  | FlushNow int string
  | WriteSettles nat bool int
  | Seed
  | Restore string int "'h terminal_block list" "history_record list option" string

fun hsync_step :: "bool \<Rightarrow> 'h sync_op \<Rightarrow> 'h sync_state \<Rightarrow> 'h sync_state" where
  "hsync_step persist (Change a) s = change_store persist a s"
| "hsync_step persist (Quiet a) s = change_quietly a s"
| "hsync_step persist (FlushTimer now sid) s = flush_timer_fires persist now sid s"
| "hsync_step persist (FlushNow now sid) s = flushSessionNow persist now sid s"
| "hsync_step persist (WriteSettles n ok now) s = write_settles n ok now s"
| "hsync_step persist Seed s = seedExistingBlocks s"
| "hsync_step persist (Restore stale now cached answer sid) s = restore_and_note persist stale now cached answer sid s"

section \<open>What a step leaves\<close>

lemma dirty_mark [simp]: "set (dirty_ids (markDirty sid bid s) i) = (if i = sid then insert bid (set (dirty_ids s i)) else set (dirty_ids s i))"
  by (auto simp: markDirty_def Let_def dirty_ids_def store_simps)

lemma mark_frame [simp]:
  "hs_known (markDirty sid bid s) = hs_known s" "hs_timers (markDirty sid bid s) = hs_timers s"
  "hs_history (markDirty sid bid s) = hs_history s" "hs_flights (markDirty sid bid s) = hs_flights s"
  "hs_written (markDirty sid bid s) = hs_written s" "hs_skipped (markDirty sid bid s) = hs_skipped s"
  by (simp_all add: markDirty_def Let_def)

lemma dirty_marks: "set (dirty_ids (fold (markDirty sid) ids s) i) = (if i = sid then set ids \<union> set (dirty_ids s i) else set (dirty_ids s i))"
  by (induction ids arbitrary: s) auto

lemma marks_frame:
  "hs_known (fold (markDirty sid) ids s) = hs_known s" "hs_timers (fold (markDirty sid) ids s) = hs_timers s"
  "hs_history (fold (markDirty sid) ids s) = hs_history s" "hs_flights (fold (markDirty sid) ids s) = hs_flights s"
  "hs_written (fold (markDirty sid) ids s) = hs_written s" "hs_skipped (fold (markDirty sid) ids s) = hs_skipped s"
  by (induction ids arbitrary: s) simp_all

lemma schedule_frame [simp]:
  "hs_known (scheduleFlush sid d s) = hs_known s" "hs_dirty (scheduleFlush sid d s) = hs_dirty s"
  "hs_history (scheduleFlush sid d s) = hs_history s" "hs_flights (scheduleFlush sid d s) = hs_flights s"
  "hs_written (scheduleFlush sid d s) = hs_written s" "hs_skipped (scheduleFlush sid d s) = hs_skipped s"
  "dirty_ids (scheduleFlush sid d s) = dirty_ids s"
  by (auto simp: scheduleFlush_def dirty_ids_def fun_eq_iff split: option.split)

lemma schedule_arms: "rget (hs_timers (scheduleFlush sid d s)) i = None \<longleftrightarrow> i \<noteq> sid \<and> rget (hs_timers s) i = None"
  by (auto simp: scheduleFlush_def store_simps split: option.split)

lemma known_prints: "rget (prints_of bs) i = map_option blockFingerprint (find (\<lambda>b. b_id b = i) (rev bs))"
proof (induction bs rule: rev_induct)
  case (snoc b bs)
  have "prints_of (bs @ [b]) = rput (b_id b) (blockFingerprint b) (prints_of bs)" by (simp add: prints_of_def)
  with snoc show ?case by (simp add: store_simps)
qed (simp add: prints_of_def)

lemma known_print_in: "rget (prints_of bs) i = Some p \<Longrightarrow> \<exists>b\<in>set bs. b_id b = i \<and> blockFingerprint b = p"
  by (auto simp: known_prints dest!: find_SomeD)

lemma prints_known: "distinct (map b_id bs) \<Longrightarrow> b \<in> set bs \<Longrightarrow> rget (prints_of bs) (b_id b) = Some (blockFingerprint b)"
proof -
  assume d: "distinct (map b_id bs)" "b \<in> set bs"
  have "find (\<lambda>x. b_id x = b_id b) xs = Some b" if "distinct (map b_id xs)" "b \<in> set xs" for xs :: "'a terminal_block list"
    using that by (induction xs) (auto simp: image_iff)
  from this [of "rev bs"] d show ?thesis by (simp add: known_prints rev_map [symmetric])
qed

lemma schedule_armed [simp]: "\<exists>y. rget (hs_timers (scheduleFlush sid d s)) sid = Some y"
  using schedule_arms [of sid d s sid] by auto

section \<open>The invariant\<close>

text \<open>
  A version of a block is handled when it is among the written ones or those not worth keeping, or on its way to
  either. Versions with one fingerprint count as one.
\<close>

definition same_version :: "string \<Rightarrow> block_print \<Rightarrow> 'h terminal_block \<Rightarrow> bool" where
  "same_version bid p b \<longleftrightarrow> b_id b = bid \<and> blockFingerprint b = p"

definition covers :: "'h flight \<Rightarrow> 'h terminal_block \<Rightarrow> bool" where
  "covers f b \<longleftrightarrow> b \<in> set (fl_blocks f) \<and> (b_id b \<in> set (fl_ids f) \<or> \<not> persistable b)"

definition handled :: "'h sync_state \<Rightarrow> string \<Rightarrow> string \<Rightarrow> block_print \<Rightarrow> bool" where
  "handled s sid bid p \<longleftrightarrow>
     (\<exists>b. same_version bid p b \<and> ((sid, b) \<in> set (hs_written s) \<or> (sid, b) \<in> set (hs_skipped s) \<and> \<not> persistable b
        \<or> (\<exists>f \<in> set (hs_flights s). fl_session f = sid \<and> covers f b)))"

text \<open>
  A version that was seen is dirty or handled; a session with dirty blocks has its timer armed, and then what was
  seen of it is what it has, up to dirty blocks.
\<close>

definition seen_ok :: "'h sync_state \<Rightarrow> string \<Rightarrow> bool" where
  "seen_ok s sid \<longleftrightarrow>
     (\<forall>bid p. rget (known_of s sid) bid = Some p \<longrightarrow> bid \<in> set (dirty_ids s sid) \<or> handled s sid bid p)
     \<and> (set (dirty_ids s sid) \<noteq> {} \<longrightarrow> rget (hs_timers s) sid \<noteq> None)"

definition level :: "'h sync_state \<Rightarrow> string \<Rightarrow> bool" where
  "level s sid \<longleftrightarrow> (set (dirty_ids s sid) \<noteq> {} \<longrightarrow>
     (\<forall>bid p. rget (known_of s sid) bid = Some p \<longrightarrow> (\<exists>b \<in> set (live_blocks s sid). same_version bid p b))
     \<and> (\<forall>b \<in> set (live_blocks s sid). b_id b \<in> set (dirty_ids s sid)
          \<or> rget (known_of s sid) (b_id b) = Some (blockFingerprint b)))"

definition session_ok :: "'h sync_state \<Rightarrow> string \<Rightarrow> bool" where
  "session_ok s sid \<longleftrightarrow> seen_ok s sid \<and> level s sid"

definition flights_ok :: "'h sync_state \<Rightarrow> bool" where
  "flights_ok s \<longleftrightarrow> (\<forall>f \<in> set (hs_flights s). \<forall>b \<in> set (fl_blocks f). handled s (fl_session f) (b_id b) (blockFingerprint b))"

definition sync_inv :: "'h sync_state \<Rightarrow> bool" where
  "sync_inv s \<longleftrightarrow> blocks_inv (th_live (hs_history s)) \<and> flights_ok s \<and> (\<forall>sid. sid \<noteq> '''' \<longrightarrow> session_ok s sid)"



lemma handled_same: "hs_written t = hs_written s \<Longrightarrow> hs_skipped t = hs_skipped s \<Longrightarrow> hs_flights t = hs_flights s
    \<Longrightarrow> handled t = handled s"
  by (simp add: handled_def fun_eq_iff)

lemma handled_more:
  assumes "handled s sid bid p" "set (hs_written s) \<subseteq> set (hs_written t)" "set (hs_skipped s) \<subseteq> set (hs_skipped t)"
    "set (hs_flights s) \<subseteq> set (hs_flights t)"
  shows "handled t sid bid p"
  using assms unfolding handled_def by blast

section \<open>The subscriber\<close>

lemma reconcile_frame:
  "hs_flights (reconcileSession persist sid bs s) = hs_flights s"
  "hs_written (reconcileSession persist sid bs s) = hs_written s"
  "hs_skipped (reconcileSession persist sid bs s) = hs_skipped s"
  "th_live (hs_history (reconcileSession persist sid bs s)) = th_live (hs_history s)"
  by (simp_all add: reconcileSession_def Let_def marks_frame forget_removed_def)

lemma reconcile_other:
  assumes "i \<noteq> sid"
  shows "set (dirty_ids (reconcileSession persist sid bs s) i) = set (dirty_ids s i)"
    "known_of (reconcileSession persist sid bs s) i = known_of s i"
    "rget (hs_timers (reconcileSession persist sid bs s)) i = None \<longleftrightarrow> rget (hs_timers s) i = None"
proof -
  have d: "dirty_ids (t\<lparr>hs_history := h, hs_known := k\<rparr>) = dirty_ids t" for t :: "'a sync_state" and h k
    by (simp add: dirty_ids_def fun_eq_iff)
  show "set (dirty_ids (reconcileSession persist sid bs s) i) = set (dirty_ids s i)"
    using assms by (simp add: reconcileSession_def Let_def d dirty_marks)
  show "known_of (reconcileSession persist sid bs s) i = known_of s i"
    using assms by (simp add: reconcileSession_def Let_def known_of_def store_simps marks_frame)
  show "rget (hs_timers (reconcileSession persist sid bs s)) i = None \<longleftrightarrow> rget (hs_timers s) i = None"
    using assms by (simp add: reconcileSession_def Let_def marks_frame schedule_arms)
qed

lemma reconcile_self:
  "set (dirty_ids (reconcileSession persist sid bs s) sid) = b_id ` set (changed_blocks (known_of s sid) bs) \<union> set (dirty_ids s sid)"
  "known_of (reconcileSession persist sid bs s) sid = prints_of bs"
  "rget (hs_timers (reconcileSession persist sid bs s)) sid = None
     \<longleftrightarrow> changed_blocks (known_of s sid) bs = [] \<and> rget (hs_timers s) sid = None"
proof -
  have d: "dirty_ids (t\<lparr>hs_history := h, hs_known := k\<rparr>) = dirty_ids t" for t :: "'a sync_state" and h k
    by (simp add: dirty_ids_def fun_eq_iff)
  show "set (dirty_ids (reconcileSession persist sid bs s) sid) = b_id ` set (changed_blocks (known_of s sid) bs) \<union> set (dirty_ids s sid)"
    by (simp add: reconcileSession_def Let_def d dirty_marks)
  show "known_of (reconcileSession persist sid bs s) sid = prints_of bs"
    by (simp add: reconcileSession_def Let_def known_of_def store_simps)
  let ?c = "changed_blocks (known_of s sid) bs"
  have "list_ex (\<lambda>b. b_status b = BlockRunning) ?c" if "\<not> list_ex (\<lambda>b. b_status b \<noteq> BlockRunning) ?c" "?c \<noteq> []"
    using that by (cases ?c) auto
  then show "rget (hs_timers (reconcileSession persist sid bs s)) sid = None \<longleftrightarrow> ?c = [] \<and> rget (hs_timers s) sid = None"
    by (cases "?c = []") (simp_all add: reconcileSession_def Let_def marks_frame schedule_arms)
qed

lemma handled_reconcile: "handled (reconcileSession persist sid bs s) = handled s"
  by (rule handled_same) (simp_all add: reconcile_frame)

lemma reconcile_ok:
  assumes "seen_ok s sid" "live_blocks s sid = bs" "distinct (map b_id bs)"
  shows "session_ok (reconcileSession persist sid bs s) sid"
proof -
  let ?t = "reconcileSession persist sid bs s"
  have dirty: "set (dirty_ids ?t sid) = b_id ` set (changed_blocks (known_of s sid) bs) \<union> set (dirty_ids s sid)"
    by (rule reconcile_self)
  have known: "known_of ?t sid = prints_of bs" by (rule reconcile_self)
  have live: "live_blocks ?t sid = bs" using assms(2) by (simp add: reconcile_frame)
  have "bid \<in> set (dirty_ids ?t sid) \<or> handled ?t sid bid p" if k: "rget (known_of ?t sid) bid = Some p" for bid p
  proof -
    obtain b where b: "b \<in> set bs" "b_id b = bid" "blockFingerprint b = p" using known_print_in k unfolding known by blast
    show ?thesis
    proof (cases "rget (known_of s sid) bid = Some p")
      case True
      with assms(1) show ?thesis unfolding seen_ok_def dirty handled_reconcile by blast
    next
      case False
      then have "b \<in> set (changed_blocks (known_of s sid) bs)" using b by (simp add: changed_blocks_def)
      with b(2) show ?thesis unfolding dirty by blast
    qed
  qed
  moreover have "rget (hs_timers ?t) sid \<noteq> None" if "set (dirty_ids ?t sid) \<noteq> {}"
    using that assms(1) unfolding dirty reconcile_self(3) seen_ok_def by auto
  ultimately have seen: "seen_ok ?t sid" by (simp add: seen_ok_def)
  have "level ?t sid"
    unfolding level_def known live
  proof (intro impI conjI allI ballI)
    fix bid p assume "rget (prints_of bs) bid = Some p"
    then show "\<exists>b\<in>set bs. same_version bid p b" unfolding same_version_def by (rule known_print_in)
  next
    fix b assume "b \<in> set bs"
    then show "b_id b \<in> set (dirty_ids ?t sid) \<or> rget (prints_of bs) (b_id b) = Some (blockFingerprint b)"
      using prints_known [OF assms(3)] by simp
  qed
  with seen show ?thesis by (simp add: session_ok_def)
qed

lemma seen_cong:
  assumes "set (dirty_ids t i) = set (dirty_ids s i)" "known_of t i = known_of s i"
    "rget (hs_timers t) i = None \<longleftrightarrow> rget (hs_timers s) i = None" "\<And>bid p. handled s i bid p \<Longrightarrow> handled t i bid p"
  shows "seen_ok s i \<Longrightarrow> seen_ok t i"
  unfolding seen_ok_def assms(1-3) using assms(4) by auto

lemma level_cong:
  assumes "set (dirty_ids t i) = set (dirty_ids s i)" "known_of t i = known_of s i" "live_blocks t i = live_blocks s i"
  shows "level s i \<Longrightarrow> level t i"
  unfolding level_def assms by assumption

lemma reconcile_others:
  assumes "i \<noteq> sid"
  shows "seen_ok s i \<Longrightarrow> seen_ok (reconcileSession persist sid bs s) i"
    and "session_ok s i \<Longrightarrow> session_ok (reconcileSession persist sid bs s) i"
proof -
  note same = reconcile_other [OF assms, of persist bs s]
  show seen: "seen_ok s i \<Longrightarrow> seen_ok (reconcileSession persist sid bs s) i"
    by (rule seen_cong [OF same]) (simp_all add: handled_reconcile)
  have "level s i \<Longrightarrow> level (reconcileSession persist sid bs s) i"
    by (rule level_cong [OF same(1,2)]) (simp add: reconcile_frame)
  with seen show "session_ok s i \<Longrightarrow> session_ok (reconcileSession persist sid bs s) i" by (simp add: session_ok_def)
qed

lemma subscriber_ok:
  assumes "\<And>i. i \<noteq> '''' \<Longrightarrow> seen_ok s i" "\<And>i. i \<noteq> '''' \<Longrightarrow> i \<notin> set sids \<Longrightarrow> session_ok s i"
    "\<And>i. live_blocks s i = g i" "\<And>i. distinct (map b_id (g i))" "i \<noteq> ''''"
  shows "session_ok (fold (\<lambda>sid. reconcileSession persist sid (g sid)) sids s) i"
  using assms
proof (induction sids arbitrary: s)
  case (Cons x xs)
  let ?t = "reconcileSession persist x (g x) s"
  have x: "session_ok ?t x" if "x \<noteq> ''''" using Cons.prems(1,3,4) that by (intro reconcile_ok) simp_all
  have seen: "seen_ok ?t i" if "i \<noteq> ''''" for i
    using x reconcile_others(1) [of i x s persist "g x"] Cons.prems(1) that by (cases "i = x") (simp_all add: session_ok_def)
  have ok: "session_ok ?t i" if "i \<noteq> ''''" "i \<notin> set xs" for i
    using x reconcile_others(2) [of i x s persist "g x"] Cons.prems(2) that by (cases "i = x") simp_all
  have live: "live_blocks ?t i = g i" for i using Cons.prems(3) by (simp add: reconcile_frame)
  show ?case using Cons.IH [OF seen ok live Cons.prems(4,5)] by simp
qed simp

lemma subscriber_frame:
  "hs_flights (subscriber persist new old s) = hs_flights s" "hs_written (subscriber persist new old s) = hs_written s"
  "hs_skipped (subscriber persist new old s) = hs_skipped s"
  "th_live (hs_history (subscriber persist new old s)) = th_live (hs_history s)"
proof -
  have "hs_flights (fold (\<lambda>sid. reconcileSession persist sid (g sid)) sids s) = hs_flights s
    \<and> hs_written (fold (\<lambda>sid. reconcileSession persist sid (g sid)) sids s) = hs_written s
    \<and> hs_skipped (fold (\<lambda>sid. reconcileSession persist sid (g sid)) sids s) = hs_skipped s
    \<and> th_live (hs_history (fold (\<lambda>sid. reconcileSession persist sid (g sid)) sids s)) = th_live (hs_history s)"
    for g sids by (induction sids arbitrary: s) (simp_all add: reconcile_frame)
  then show "hs_flights (subscriber persist new old s) = hs_flights s" "hs_written (subscriber persist new old s) = hs_written s"
    "hs_skipped (subscriber persist new old s) = hs_skipped s"
    "th_live (hs_history (subscriber persist new old s)) = th_live (hs_history s)"
    by (simp_all add: subscriber_def)
qed

lemma inv_distinct: "blocks_inv b \<Longrightarrow> distinct (map b_id (getBlocks sid b))"
  using get_ids_ok [of b "bs_counter b" sid] unfolding blocks_inv_def by blast

lemma subscriber_inv:
  assumes "blocks_inv new" "th_live (hs_history s) = new" "flights_ok s" "\<And>i. i \<noteq> '''' \<Longrightarrow> seen_ok s i"
    "\<And>i. i \<noteq> '''' \<Longrightarrow> i \<notin> set (rkeys (bs_blocks new)) \<union> set (rkeys (bs_blocks old)) \<Longrightarrow> session_ok s i"
  shows "sync_inv (subscriber persist new old s)"
proof -
  have "session_ok (subscriber persist new old s) i" if "i \<noteq> ''''" for i
    unfolding subscriber_def using assms that by (intro subscriber_ok) (simp_all add: inv_distinct)
  moreover have "flights_ok (subscriber persist new old s)"
    using assms(3) handled_same [of "subscriber persist new old s" s] by (simp add: flights_ok_def subscriber_frame)
  ultimately show ?thesis using assms(1,2) by (simp add: sync_inv_def subscriber_frame)
qed

section \<open>Every step keeps the invariant\<close>

lemma sync_invD:
  assumes "sync_inv s"
  shows "blocks_inv (th_live (hs_history s))" "flights_ok s" "sid \<noteq> '''' \<Longrightarrow> seen_ok s sid" "sid \<noteq> '''' \<Longrightarrow> level s sid"
    "sid \<noteq> '''' \<Longrightarrow> session_ok s sid"
  using assms by (simp_all add: sync_inv_def session_ok_def)

lemma seenD:
  assumes "seen_ok s sid" "rget (known_of s sid) bid = Some p"
  shows "bid \<in> set (dirty_ids s sid) \<or> handled s sid bid p"
  using assms by (simp add: seen_ok_def)

lemma levelD:
  assumes "level s sid" "bid \<in> set (dirty_ids s sid)"
  shows "rget (known_of s sid) i = Some p \<Longrightarrow> \<exists>b \<in> set (live_blocks s sid). same_version i p b"
    and "b \<in> set (live_blocks s sid) \<Longrightarrow> b_id b \<notin> set (dirty_ids s sid)
      \<Longrightarrow> rget (known_of s sid) (b_id b) = Some (blockFingerprint b)"
proof -
  from assms(2) have "set (dirty_ids s sid) \<noteq> {}" by (metis empty_iff)
  with assms(1) show "rget (known_of s sid) i = Some p \<Longrightarrow> \<exists>b \<in> set (live_blocks s sid). same_version i p b"
    and "b \<in> set (live_blocks s sid) \<Longrightarrow> b_id b \<notin> set (dirty_ids s sid)
      \<Longrightarrow> rget (known_of s sid) (b_id b) = Some (blockFingerprint b)"
    unfolding level_def by (simp, blast)
qed

text \<open>A session whose dirty set has become empty only has to have handled what was seen.\<close>

lemma clean_ok:
  assumes "set (dirty_ids s sid) = {}" "\<And>bid p. rget (known_of s sid) bid = Some p \<Longrightarrow> handled s sid bid p"
  shows "session_ok s sid"
  unfolding session_ok_def seen_ok_def level_def assms(1) using assms(2) by simp

lemma session_cong:
  assumes "set (dirty_ids t i) = set (dirty_ids s i)" "known_of t i = known_of s i"
    "rget (hs_timers t) i = None \<longleftrightarrow> rget (hs_timers s) i = None" "\<And>bid p. handled s i bid p \<Longrightarrow> handled t i bid p"
    "live_blocks t i = live_blocks s i"
  shows "session_ok s i \<Longrightarrow> session_ok t i"
  unfolding session_ok_def using seen_cong [OF assms(1-4)] level_cong [OF assms(1,2,5)] by simp

lemma flights_mono:
  assumes "flights_ok s" "set (hs_flights t) \<subseteq> set (hs_flights s)" "\<And>i bid p. handled s i bid p \<Longrightarrow> handled t i bid p"
  shows "flights_ok t"
  using assms unfolding flights_ok_def by auto

lemma inv_change:
  assumes "sync_inv s"
  shows "sync_inv (change_store persist a s)"
proof -
  let ?old = "th_live (hs_history s)"
  let ?s = "set_live (blocks_step a ?old) s"
  have f: "hs_flights ?s = hs_flights s" "hs_written ?s = hs_written s" "hs_skipped ?s = hs_skipped s" "hs_timers ?s = hs_timers s"
    "dirty_ids ?s = dirty_ids s" "known_of ?s = known_of s"
    by (simp_all add: set_live_def dirty_ids_def known_of_def fun_eq_iff)
  have h: "handled ?s = handled s" by (rule handled_same) (simp_all add: f)
  have seen: "seen_ok ?s i" if "i \<noteq> ''''" for i
    using sync_invD(3) [OF assms that] by (rule seen_cong [rotated -1]) (simp_all add: f h)
  have "sync_inv (subscriber persist (blocks_step a ?old) ?old ?s)"
  proof (rule subscriber_inv)
    show "blocks_inv (blocks_step a ?old)" using sync_invD(1) [OF assms] by (rule inv_blocks_step)
    show "flights_ok ?s" using sync_invD(2) [OF assms] by (rule flights_mono) (simp_all add: f h)
    show "th_live (hs_history ?s) = blocks_step a ?old" by (simp add: set_live_def)
    show "seen_ok ?s i" if "i \<noteq> ''''" for i by (rule seen [OF that])
    fix i assume i: "i \<noteq> ''''" "i \<notin> set (rkeys (bs_blocks (blocks_step a ?old))) \<union> set (rkeys (bs_blocks ?old))"
    then have "getBlocks i (blocks_step a ?old) = []" "getBlocks i ?old = []"
      by (simp_all add: getBlocks_def map_of_eq_None_iff [THEN iffD2])
    then have l: "live_blocks ?s i = live_blocks s i" by (simp add: set_live_def)
    show "session_ok ?s i"
      using sync_invD(5) [OF assms i(1)] by (rule session_cong [OF _ _ _ _ l, rotated -1]) (simp_all add: f h)
  qed
  then show ?thesis by (simp add: change_store_def Let_def)
qed

lemma inv_quiet:
  assumes "sync_inv s"
  shows "sync_inv (change_quietly a s)"
proof (cases "bs_blocks (blocks_step a (th_live (hs_history s))) = bs_blocks (th_live (hs_history s))")
  case True
  let ?s = "set_live (blocks_step a (th_live (hs_history s))) s"
  have f: "hs_flights ?s = hs_flights s" "hs_written ?s = hs_written s" "hs_skipped ?s = hs_skipped s" "hs_timers ?s = hs_timers s"
    "dirty_ids ?s = dirty_ids s" "known_of ?s = known_of s" "live_blocks ?s = live_blocks s"
    using True by (simp_all add: set_live_def dirty_ids_def known_of_def fun_eq_iff getBlocks_def)
  have h: "handled ?s = handled s" by (rule handled_same) (simp_all add: f)
  have "session_ok ?s i" if "i \<noteq> ''''" for i
    using sync_invD(5) [OF assms that] by (rule session_cong [rotated -1]) (simp_all add: f h f(7) [THEN fun_cong])
  moreover have "flights_ok ?s" using sync_invD(2) [OF assms] by (rule flights_mono) (simp_all add: f h)
  moreover have "blocks_inv (th_live (hs_history ?s))"
    using inv_blocks_step [OF sync_invD(1) [OF assms]] by (simp add: set_live_def)
  ultimately show ?thesis using True by (simp add: change_quietly_def Let_def sync_inv_def)
qed (simp add: change_quietly_def Let_def assms)

text \<open>The common shape of the two flushes: the session's dirty set is emptied.\<close>

lemma inv_flushed:
  assumes "sync_inv s" "sid \<noteq> ''''" "th_live (hs_history t) = th_live (hs_history s)" "hs_known t = hs_known s"
    "\<And>i. set (dirty_ids t i) = (if i = sid then {} else set (dirty_ids s i))" "\<And>i. i \<noteq> sid \<Longrightarrow> rget (hs_timers t) i = rget (hs_timers s) i"
    "\<And>i bid p. handled s i bid p \<Longrightarrow> handled t i bid p" "flights_ok t"
    "\<And>b. b \<in> set (live_blocks s sid) \<Longrightarrow> b_id b \<in> set (dirty_ids s sid) \<Longrightarrow> handled t sid (b_id b) (blockFingerprint b)"
  shows "sync_inv t"
proof -
  have known: "known_of t = known_of s" using assms(4) by (simp add: known_of_def fun_eq_iff)
  have "session_ok t i" if i: "i \<noteq> ''''" for i
  proof (cases "i = sid")
    case True
    show ?thesis
    proof (rule clean_ok)
      show "set (dirty_ids t i) = {}" by (simp add: assms(5) True)
      fix bid p assume k: "rget (known_of t i) bid = Some p"
      have "bid \<in> set (dirty_ids s sid) \<or> handled s sid bid p"
        using seenD [OF sync_invD(3) [OF assms(1,2)]] k by (simp add: known True)
      then show "handled t i bid p"
      proof
        assume d: "bid \<in> set (dirty_ids s sid)"
        from levelD(1) [OF sync_invD(4) [OF assms(1,2)] d, of bid p] k
        obtain b where "b \<in> set (live_blocks s sid)" "same_version bid p b" by (auto simp: known True)
        with assms(9) [of b] d show ?thesis by (simp add: same_version_def True)
      qed (simp add: True assms(7))
    qed
  next
    case False
    have d: "set (dirty_ids t i) = set (dirty_ids s i)" "known_of t i = known_of s i"
      "rget (hs_timers t) i = None \<longleftrightarrow> rget (hs_timers s) i = None" "live_blocks t i = live_blocks s i"
      using False by (simp_all add: assms(5) known assms(3,6))
    show ?thesis by (rule session_cong [OF d(1-3) assms(7) d(4) sync_invD(5) [OF assms(1) i]])
  qed
  then show ?thesis using assms(3,8) sync_invD(1) [OF assms(1)] by (simp add: sync_inv_def)
qed

lemma handled_covered: "f \<in> set (hs_flights s) \<Longrightarrow> covers f b \<Longrightarrow> fl_session f = sid \<Longrightarrow> handled s sid (b_id b) (blockFingerprint b)"
  unfolding handled_def same_version_def by (intro exI [of _ b]) auto

lemma flights_add:
  assumes "flights_ok s" "hs_flights t = hs_flights s @ [f]" "\<And>i bid p. handled s i bid p \<Longrightarrow> handled t i bid p"
    "\<And>b. b \<in> set (fl_blocks f) \<Longrightarrow> handled t (fl_session f) (b_id b) (blockFingerprint b)"
  shows "flights_ok t"
  unfolding flights_ok_def assms(2) using assms(1,3,4) by (auto simp: flights_ok_def)

lemma inv_write_starts:
  assumes "sync_inv s" "sid \<noteq> ''''" "th_live (hs_history t) = th_live (hs_history s)" "hs_known t = hs_known s"
    "\<And>i. set (dirty_ids t i) = (if i = sid then {} else set (dirty_ids s i))" "\<And>i. i \<noteq> sid \<Longrightarrow> rget (hs_timers t) i = rget (hs_timers s) i"
    "hs_written t = hs_written s" "hs_skipped t = hs_skipped s" "hs_flights t = hs_flights s @ [f]"
    "fl_session f = sid" "fl_blocks f = live_blocks s sid" "\<And>b. b \<in> set (live_blocks s sid) \<Longrightarrow> b_id b \<in> set (dirty_ids s sid) \<Longrightarrow> covers f b"
    "\<And>b. b \<in> set (live_blocks s sid) \<Longrightarrow> covers f b \<or> dirty_ids s sid \<noteq> []"
  shows "sync_inv t"
proof -
  have h: "handled s i bid p \<Longrightarrow> handled t i bid p" for i bid p by (erule handled_more) (auto simp: assms(7-9))
  have f: "f \<in> set (hs_flights t)" by (simp add: assms(9))
  have cov: "covers f b \<Longrightarrow> handled t sid (b_id b) (blockFingerprint b)" for b by (rule handled_covered [OF f _ assms(10)])
  have "handled t sid (b_id b) (blockFingerprint b)" if b: "b \<in> set (live_blocks s sid)" for b
  proof (cases "covers f b")
    case False
    with assms(12,13) [OF b] have nd: "b_id b \<notin> set (dirty_ids s sid)" and "dirty_ids s sid \<noteq> []" by blast+
    then obtain d where "d \<in> set (dirty_ids s sid)" by (cases "dirty_ids s sid") auto
    from levelD(2) [OF sync_invD(4) [OF assms(1,2)] this b nd]
    have "handled s sid (b_id b) (blockFingerprint b)" using seenD [OF sync_invD(3) [OF assms(1,2)]] nd by blast
    then show ?thesis by (rule h)
  qed (rule cov)
  then have "flights_ok t" by (intro flights_add [OF sync_invD(2) [OF assms(1)] assms(9) h]) (simp_all add: assms(10,11))
  then show ?thesis
    using h cov assms(12) by (intro inv_flushed [OF assms(1-5)]) (auto simp: assms(6))
qed

lemma cancel_frame:
  "hs_history (cancelScheduledFlush sid s) = hs_history s" "hs_flights (cancelScheduledFlush sid s) = hs_flights s"
  "hs_known (cancelScheduledFlush sid s) = hs_known s" "hs_dirty (cancelScheduledFlush sid s) = hs_dirty s"
  "hs_written (cancelScheduledFlush sid s) = hs_written s" "hs_skipped (cancelScheduledFlush sid s) = hs_skipped s"
  "hs_lastForce (cancelScheduledFlush sid s) = hs_lastForce s" "dirty_ids (cancelScheduledFlush sid s) = dirty_ids s"
  "rget (hs_timers (cancelScheduledFlush sid s)) i = (if i = sid then None else rget (hs_timers s) i)"
  by (simp_all add: cancelScheduledFlush_def store_simps dirty_ids_def fun_eq_iff)

lemma inv_no_session:
  assumes "sync_inv s" "th_live (hs_history t) = th_live (hs_history s)" "hs_known t = hs_known s"
    "\<And>i. i \<noteq> '''' \<Longrightarrow> dirty_ids t i = dirty_ids s i" "\<And>i. i \<noteq> '''' \<Longrightarrow> rget (hs_timers t) i = rget (hs_timers s) i"
    "hs_written t = hs_written s" "hs_skipped t = hs_skipped s" "hs_flights t = hs_flights s"
  shows "sync_inv t"
proof -
  have h: "handled s i bid p \<Longrightarrow> handled t i bid p" for i bid p by (erule handled_more) (simp_all add: assms(6-8))
  have "session_ok t i" if i: "i \<noteq> ''''" for i
  proof -
    have d: "set (dirty_ids t i) = set (dirty_ids s i)" "known_of t i = known_of s i"
      "rget (hs_timers t) i = None \<longleftrightarrow> rget (hs_timers s) i = None" "live_blocks t i = live_blocks s i"
      using i by (simp_all add: assms(2-5) known_of_def)
    show ?thesis by (rule session_cong [OF d(1-3) h d(4) sync_invD(5) [OF assms(1) i]])
  qed
  moreover have "flights_ok t" using sync_invD(2) [OF assms(1)] by (rule flights_mono) (simp_all add: assms(8) h)
  ultimately show ?thesis using sync_invD(1) [OF assms(1)] by (simp add: sync_inv_def assms(2))
qed

lemma dirty_after: "hs_dirty t = rdel sid (hs_dirty s) \<Longrightarrow> set (dirty_ids t i) = (if i = sid then {} else set (dirty_ids s i))"
  by (simp add: dirty_ids_def store_simps)

lemma inv_flush_timer:
  assumes "sync_inv s"
  shows "sync_inv (flush_timer_fires True now sid s)"
proof -
  let ?t = "flush_timer_fires True now sid s" and ?ids = "dirty_ids s sid"
  let ?w = "filter (\<lambda>b. b_id b \<in> set ?ids) (live_blocks s sid)"
  have same: "flights_ok s" by (rule sync_invD(2) [OF assms])
  consider "rget (hs_timers s) sid = None" | "rget (hs_timers s) sid \<noteq> None" "sid = ''''"
    | "rget (hs_timers s) sid \<noteq> None" "sid \<noteq> ''''" "?ids = [] \<or> ?w = []"
    | "rget (hs_timers s) sid \<noteq> None" "sid \<noteq> ''''" "?ids \<noteq> []" "?w \<noteq> []" by blast
  then show ?thesis
  proof cases
    case 1
    then show ?thesis using assms by (simp add: flush_timer_fires_def)
  next
    case 2
    then show ?thesis by (intro inv_no_session [OF assms])
      (auto simp: flush_timer_fires_def Let_def cancel_frame dirty_ids_def store_simps)
  next
    case 3
    then have t: "?t = (cancelScheduledFlush sid s)\<lparr>hs_dirty := (if ?ids = [] then hs_dirty s else rdel sid (hs_dirty s))\<rparr>"
      by (auto simp: flush_timer_fires_def Let_def cancel_frame)
    have no: "b_id b \<notin> set ?ids" if "b \<in> set (live_blocks s sid)" for b
      using 3(3) that by (auto simp: filter_empty_conv)
    have d: "set (dirty_ids ?t i) = (if i = sid then {} else set (dirty_ids s i))" for i
      by (cases "?ids = []") (auto simp: t dirty_ids_def store_simps cancel_frame split: option.splits)
    have h: "handled s i bid p \<Longrightarrow> handled ?t i bid p" for i bid p by (erule handled_more) (simp_all add: t cancel_frame)
    show ?thesis
      by (rule inv_flushed [OF assms 3(2) _ _ d _ h]) (use no same h in \<open>auto simp: t cancel_frame intro: flights_mono\<close>)
  next
    case 4
    then show ?thesis
      by (intro inv_write_starts [OF assms 4(2), where f = "\<lparr> fl_session = sid, fl_ids = ?ids, fl_blocks = live_blocks s sid, fl_forced = False \<rparr>"]
          dirty_after) (auto simp: flush_timer_fires_def Let_def cancel_frame covers_def)
  qed
qed

lemma inv_flush_now:
  assumes "sync_inv s"
  shows "sync_inv (flushSessionNow True now sid s)"
proof -
  let ?t = "flushSessionNow True now sid s" and ?bs = "live_blocks s sid"
  let ?lastAt = "case rget (hs_lastForce s) sid of None \<Rightarrow> 0 | Some t \<Rightarrow> t"
  consider "sid = ''''" | "sid \<noteq> ''''" "dirty_ids s sid = []" "now - ?lastAt < FORCE_FLUSH_DEDUP_MS"
    | "sid \<noteq> ''''" "dirty_ids s sid \<noteq> [] \<or> \<not> now - ?lastAt < FORCE_FLUSH_DEDUP_MS" "filter persistable ?bs = []"
    | "sid \<noteq> ''''" "dirty_ids s sid \<noteq> [] \<or> \<not> now - ?lastAt < FORCE_FLUSH_DEDUP_MS" "filter persistable ?bs \<noteq> []" by blast
  then show ?thesis
  proof cases
    case 1
    then show ?thesis by (intro inv_no_session [OF assms]) (auto simp: flushSessionNow_def dirty_ids_def store_simps)
  next
    case 2
    then have t: "?t = cancelScheduledFlush sid s" by (simp add: flushSessionNow_def Let_def cancel_frame)
    have h: "handled s i bid p \<Longrightarrow> handled ?t i bid p" for i bid p by (erule handled_more) (simp_all add: t cancel_frame)
    have fl: "flights_ok ?t" using sync_invD(2) [OF assms] by (rule flights_mono) (simp_all add: t cancel_frame h [unfolded t])
    show ?thesis by (rule inv_flushed [OF assms 2(1) _ _ _ _ h fl]) (use 2(2) in \<open>auto simp: t cancel_frame\<close>)
  next
    case 3
    then have t: "th_live (hs_history ?t) = th_live (hs_history s)" "hs_known ?t = hs_known s" "hs_dirty ?t = rdel sid (hs_dirty s)"
      "i \<noteq> sid \<Longrightarrow> rget (hs_timers ?t) i = rget (hs_timers s) i" "hs_written ?t = hs_written s"
      "hs_skipped ?t = hs_skipped s @ map (Pair sid) ?bs" "hs_flights ?t = hs_flights s" for i
      by (auto simp: flushSessionNow_def Let_def cancel_frame)
    have h: "handled s i bid p \<Longrightarrow> handled ?t i bid p" for i bid p by (erule handled_more) (auto simp: t)
    have fl: "flights_ok ?t" using sync_invD(2) [OF assms] by (rule flights_mono) (simp_all add: t h)
    have "handled ?t sid (b_id b) (blockFingerprint b)" if "b \<in> set ?bs" for b
    proof -
      have "(sid, b) \<in> set (hs_skipped ?t)" "\<not> persistable b" using that 3(3) by (auto simp: t filter_empty_conv)
      then show ?thesis unfolding handled_def same_version_def by (intro exI [of _ b]) simp
    qed
    then show ?thesis by (intro inv_flushed [OF assms 3(1) t(1,2) dirty_after [OF t(3)] t(4) h fl])
  next
    case 4
    then show ?thesis
      by (intro inv_write_starts [OF assms 4(1), where f = "\<lparr> fl_session = sid, fl_ids = map b_id (filter persistable ?bs), fl_blocks = ?bs, fl_forced = True \<rparr>"]
          dirty_after) (auto simp: flushSessionNow_def Let_def cancel_frame covers_def)
  qed
qed

lemma inv_settles:
  assumes "sync_inv s"
  shows "sync_inv (write_settles n True now s)"
proof (cases "n < length (hs_flights s)")
  case n: True
  let ?t = "write_settles n True now s"
  define f where "f = hs_flights s ! n"
  let ?sid = "fl_session f"
  have fin: "f \<in> set (hs_flights s)" using n by (simp add: f_def)
  have t: "hs_written ?t = hs_written s @ map (Pair ?sid) (to_write f)"
    "hs_skipped ?t = hs_skipped s @ map (Pair ?sid) (filter (\<lambda>b. \<not> persistable b) (fl_blocks f))"
    "hs_flights ?t = take n (hs_flights s) @ drop (Suc n) (hs_flights s)"
    "hs_known ?t = rput ?sid (prints_of (fl_blocks f)) (hs_known s)" "hs_dirty ?t = rdel ?sid (hs_dirty s)"
    "hs_timers ?t = rdel ?sid (hs_timers s)" "th_live (hs_history ?t) = th_live (hs_history s)"
    using n by (simp_all add: write_settles_def Let_def f_def noteRestoredSessionBlocks_def cacheSessionBlocks_def)
  have split: "set (hs_flights s) = insert f (set (hs_flights ?t))"
    unfolding t f_def using n by (metis id_take_nth_drop list.simps(15) set_append Un_insert_right)
  have h: "handled ?t i bid p" if hd: "handled s i bid p" for i bid p
  proof -
    from hd obtain b where b: "same_version bid p b" and c: "(i, b) \<in> set (hs_written s) \<or> (i, b) \<in> set (hs_skipped s) \<and> \<not> persistable b
        \<or> (\<exists>g \<in> set (hs_flights s). fl_session g = i \<and> covers g b)" by (auto simp: handled_def)
    have "(i, b) \<in> set (hs_written ?t) \<or> (i, b) \<in> set (hs_skipped ?t) \<and> \<not> persistable b"
      if "fl_session f = i" "covers f b"
      using that by (cases "persistable b") (auto simp: t covers_def to_write_def)
    with c have "(i, b) \<in> set (hs_written ?t) \<or> (i, b) \<in> set (hs_skipped ?t) \<and> \<not> persistable b
        \<or> (\<exists>g \<in> set (hs_flights ?t). fl_session g = i \<and> covers g b)"
      unfolding split by (auto simp: t(1,2))
    with b show ?thesis unfolding handled_def by blast
  qed
  have fl: "flights_ok ?t" using sync_invD(2) [OF assms] by (rule flights_mono) (auto simp: split h)
  have "session_ok ?t i" if i: "i \<noteq> ''''" for i
  proof (cases "i = ?sid")
    case True
    show ?thesis
    proof (rule clean_ok)
      show "set (dirty_ids ?t i) = {}" by (simp add: dirty_after [OF t(5)] True)
      fix bid p assume "rget (known_of ?t i) bid = Some p"
      then obtain b where b: "b \<in> set (fl_blocks f)" "b_id b = bid" "blockFingerprint b = p"
        using known_print_in [of "fl_blocks f" bid p] by (auto simp: known_of_def t True store_simps)
      then have "handled s ?sid bid p" using sync_invD(2) [OF assms] fin unfolding flights_ok_def by blast
      then show "handled ?t i bid p" unfolding True by (rule h)
    qed
  next
    case False
    then have d: "set (dirty_ids ?t i) = set (dirty_ids s i)" "known_of ?t i = known_of s i"
      "rget (hs_timers ?t) i = None \<longleftrightarrow> rget (hs_timers s) i = None" "live_blocks ?t i = live_blocks s i"
      by (simp_all add: dirty_after [OF t(5)] known_of_def t store_simps)
    show ?thesis by (rule session_cong [OF d(1-3) h d(4) sync_invD(5) [OF assms i]])
  qed
  with fl sync_invD(1) [OF assms] show ?thesis by (simp add: sync_inv_def t(7))
qed (simp add: write_settles_def assms)

lemma seed_ok:
  assumes "live_blocks s sid = bs" "hs_known s = k" "rget k sid = None" "bs \<noteq> []"
  shows "session_ok (scheduleFlush sid d (fold (markDirty sid) (map b_id bs) s)) sid"
  using assms
  by (simp add: session_ok_def seen_ok_def level_def known_of_def marks_frame dirty_marks)

lemma inv_seed_session:
  assumes "sync_inv s" "live_blocks s sid = bs"
  shows "sync_inv (seed_session sid bs s)"
proof (cases "bs = [] \<or> rget (hs_known s) sid \<noteq> None")
  case False
  define u where "u = seed_session sid bs s"
  have u: "hs_known u = hs_known s" "hs_history u = hs_history s" "hs_flights u = hs_flights s" "hs_written u = hs_written s"
    "hs_skipped u = hs_skipped s"
    "set (dirty_ids u i) = (if i = sid then b_id ` set bs \<union> set (dirty_ids s i) else set (dirty_ids s i))"
    "i \<noteq> sid \<Longrightarrow> rget (hs_timers u) i = None \<longleftrightarrow> rget (hs_timers s) i = None" for i
    using False by (simp_all add: u_def seed_session_def marks_frame dirty_marks schedule_arms)
  have h: "handled u = handled s" by (rule handled_same [OF u(4) u(5) u(3)])
  have "session_ok u i" if i: "i \<noteq> ''''" for i
  proof (cases "i = sid")
    case True
    with seed_ok [OF assms(2) refl] False show ?thesis by (auto simp: u_def seed_session_def)
  next
    case ne: False
    then have d: "set (dirty_ids u i) = set (dirty_ids s i)" by (simp add: u(6))
    show ?thesis
      by (rule session_cong [OF d _ u(7) [OF ne] _ _ sync_invD(5) [OF assms(1) i]]) (simp_all add: h known_of_def u(1,2))
  qed
  moreover have "flights_ok u" using sync_invD(2) [OF assms(1)] by (rule flights_mono) (simp_all add: u(3) h)
  ultimately show ?thesis using sync_invD(1) [OF assms(1)] by (simp add: sync_inv_def u(2) u_def [symmetric])
qed (use assms in \<open>auto simp: seed_session_def\<close>)

lemma seed_session_live: "hs_history (seed_session sid bs s) = hs_history s"
  by (simp add: seed_session_def marks_frame)

lemma inv_seed:
  assumes "sync_inv s"
  shows "sync_inv (seedExistingBlocks s)"
proof -
  have "sync_inv (fold (\<lambda>(sid, bs). seed_session sid bs) r t)"
    if "sync_inv t" "\<forall>(sid, bs) \<in> set r. live_blocks t sid = bs" for r and t :: "'a sync_state"
    using that by (induction r arbitrary: t) (auto simp: inv_seed_session seed_session_live)
  moreover have "\<forall>(sid, bs) \<in> set (bs_blocks (th_live (hs_history s))). live_blocks s sid = bs"
    using inv_rwf [OF sync_invD(1) [OF assms]] by (auto simp: getBlocks_def)
  ultimately show ?thesis using assms unfolding seedExistingBlocks_def by blast
qed

lemma key_rput: "k \<in> fst ` set (rput k v r)"
  by (induction r) auto

lemma inv_restore:
  assumes "sync_inv s"
  shows "sync_inv (restore_and_note persist stale now cached answer sid s)"
proof -
  define persisted where "persisted = (if cached \<noteq> [] then cached else (case answer of None \<Rightarrow> [] | Some rs \<Rightarrow> map fromHistoryRecord rs))"
  show ?thesis
  proof (cases "persisted = []")
    case False
    let ?bs = "map (normalizeRestoredTerminalBlock stale now) persisted" and ?old = "th_live (hs_history s)"
    define h where "h = restore_finishes stale now cached answer sid (hs_history s)"
    have live: "th_live h = replaceSessionBlocks sid ?bs ?old"
      using False by (simp add: h_def restore_finishes_def Let_def persisted_def)
    define t where "t = (noteRestoredSessionBlocks sid ?bs s)\<lparr>hs_written := hs_written s @ map (Pair sid) ?bs, hs_history := h\<rparr>"
    have f: "hs_flights t = hs_flights s" "hs_written t = hs_written s @ map (Pair sid) ?bs" "hs_skipped t = hs_skipped s"
      "hs_known t = rput sid (prints_of ?bs) (hs_known s)" "hs_dirty t = rdel sid (hs_dirty s)"
      "i \<noteq> sid \<Longrightarrow> rget (hs_timers t) i = rget (hs_timers s) i" "th_live (hs_history t) = th_live h" for i
      by (simp_all add: t_def noteRestoredSessionBlocks_def store_simps)
    have hd: "handled s i bid p \<Longrightarrow> handled t i bid p" for i bid p
      by (erule handled_more, unfold f(1-3)) auto
    have seen: "seen_ok t i" if i: "i \<noteq> ''''" for i
    proof (cases "i = sid")
      case True
      have "handled t i bid p" if "rget (known_of t i) bid = Some p" for bid p
      proof -
        have "rget (prints_of ?bs) bid = Some p" using that unfolding known_of_def f(4) True by (simp only: store_simps option.case refl if_True)
        from known_print_in [OF this] obtain b where "b \<in> set ?bs" "b_id b = bid" "blockFingerprint b = p" by blast
        then show ?thesis unfolding handled_def same_version_def f(2) True by (intro exI [of _ b]) auto
      qed
      moreover have "dirty_ids t i = []" unfolding dirty_ids_def f(5) True by (simp add: store_simps)
      ultimately show ?thesis by (simp add: seen_ok_def)
    next
      case False
      then have d: "set (dirty_ids t i) = set (dirty_ids s i)" "known_of t i = known_of s i"
        "rget (hs_timers t) i = None \<longleftrightarrow> rget (hs_timers s) i = None"
        by (simp_all add: dirty_after [OF f(5)] known_of_def f(4,6) store_simps)
      show ?thesis by (rule seen_cong [OF d hd sync_invD(3) [OF assms i]])
    qed
    have "sync_inv (subscriber persist (th_live h) ?old t)"
    proof (rule subscriber_inv)
      show "blocks_inv (th_live h)" unfolding live by (rule inv_replace [OF sync_invD(1) [OF assms]])
      show "th_live (hs_history t) = th_live h" by (rule f(7))
      show "flights_ok t" using sync_invD(2) [OF assms] by (rule flights_mono) (simp_all add: f(1) hd)
      show "seen_ok t i" if "i \<noteq> ''''" for i by (rule seen [OF that])
      fix i assume i: "i \<noteq> ''''" "i \<notin> set (rkeys (bs_blocks (th_live h))) \<union> set (rkeys (bs_blocks ?old))"
      then have "i \<noteq> sid" by (auto simp: live replaceSessionBlocks_def sync_counter_def Let_def key_rput)
      then have d: "set (dirty_ids t i) = set (dirty_ids s i)" "known_of t i = known_of s i"
        by (simp_all add: dirty_after [OF f(5)] known_of_def f(4) store_simps)
      have "getBlocks i (th_live h) = []" "getBlocks i ?old = []"
        using i(2) by (simp_all add: getBlocks_def map_of_eq_None_iff [THEN iffD2])
      then have "live_blocks t i = live_blocks s i" unfolding f(7) by simp
      from level_cong [OF d this sync_invD(4) [OF assms i(1)]] seen [OF i(1)] show "session_ok t i" by (simp add: session_ok_def)
    qed
    then show ?thesis
      using False unfolding restore_and_note_def Let_def persisted_def [symmetric] h_def t_def by (simp add: noteRestoredSessionBlocks_def)
  qed (simp add: restore_and_note_def persisted_def assms)
qed

fun write_fails :: "'h sync_op \<Rightarrow> bool" where
  "write_fails (WriteSettles n ok now) = (\<not> ok)"
| "write_fails _ = False"

lemma inv_hsync_step: "sync_inv s \<Longrightarrow> \<not> write_fails a \<Longrightarrow> sync_inv (hsync_step True a s)"
  by (cases a) (simp_all add: inv_change inv_quiet inv_flush_timer inv_flush_now inv_settles inv_seed inv_restore)

lemma inv_sync_run: "sync_inv s \<Longrightarrow> \<forall>a \<in> set ops. \<not> write_fails a \<Longrightarrow> sync_inv (fold (hsync_step True) ops s)"
  by (induction ops arbitrary: s) (simp_all add: inv_hsync_step)

lemma inv_sync_init: "blocks_inv (th_live h) \<Longrightarrow> sync_inv (sync_init h)"
  by (simp add: sync_inv_def sync_init_def flights_ok_def session_ok_def seen_ok_def level_def known_of_def dirty_ids_def)

section \<open>Properties\<close>

lemma flush_handles:
  assumes "sync_inv s" "sid \<noteq> ''''" "rget (known_of s sid) bid = Some p"
  shows "handled (flush_timer_fires True now sid s) sid bid p"
proof -
  let ?t = "flush_timer_fires True now sid s"
  have "sync_inv ?t" by (rule inv_flush_timer [OF assms(1)])
  then have ok: "seen_ok ?t sid" by (rule sync_invD(3) [OF _ assms(2)])
  have known: "known_of ?t sid = known_of s sid"
    by (simp add: flush_timer_fires_def Let_def cancelScheduledFlush_def known_of_def)
  have "dirty_ids ?t sid = []"
  proof (cases "rget (hs_timers s) sid = None")
    case True
    with sync_invD(3) [OF assms(1,2)] show ?thesis by (simp add: flush_timer_fires_def seen_ok_def)
  next
    case False
    then show ?thesis
      by (auto simp: flush_timer_fires_def Let_def cancelScheduledFlush_def dirty_ids_def assms(2) store_simps split: option.splits)
  qed
  with seenD [OF ok] assms(3) known show ?thesis by simp
qed

lemma reconciles_known:
  "sid \<in> set sids \<Longrightarrow> known_of (fold (\<lambda>i. reconcileSession persist i (g i)) sids s) sid = prints_of (g sid)"
proof (induction sids arbitrary: s)
  case (Cons x xs)
  have keep: "known_of (fold (\<lambda>i. reconcileSession persist i (g i)) xs t) sid = known_of t sid" if "sid \<notin> set xs" for t
    using that by (induction xs arbitrary: t) (auto simp: reconcile_other)
  show ?case
  proof (cases "sid \<in> set xs")
    case False
    with Cons.prems have "x = sid" by simp
    then show ?thesis using keep [OF False] by (simp add: reconcile_self)
  qed (simp add: Cons.IH)
qed simp

lemma change_is_seen:
  assumes "blocks_inv (th_live (hs_history s))" "b \<in> set (live_blocks (change_store persist a s) sid)"
  shows "rget (known_of (change_store persist a s) sid) (b_id b) = Some (blockFingerprint b)"
proof -
  let ?new = "blocks_step a (th_live (hs_history s))"
  have b: "b \<in> set (getBlocks sid ?new)"
    using assms(2) by (simp add: change_store_def Let_def subscriber_frame set_live_def)
  then have "sid \<in> set (rkeys (bs_blocks ?new))"
    by (cases "rget (bs_blocks ?new) sid") (auto simp: getBlocks_def dest: map_of_SomeD intro: rev_image_eqI)
  then have "known_of (change_store persist a s) sid = prints_of (getBlocks sid ?new)"
    unfolding change_store_def Let_def subscriber_def by (intro reconciles_known) simp
  moreover have "distinct (map b_id (getBlocks sid ?new))" by (rule inv_distinct [OF blocks.inv_step [OF assms(1)]])
  ultimately show ?thesis using prints_known b by simp
qed

text \<open>
  (C38) What the subscriber sees is written, as long as no write fails. The subscriber sees every block of the
  store after a change. A version it has seen is, at any later point of any run, written, on its way, not worth
  keeping, or its block is dirty and the timer of the session is armed; when the timer fires the last case is gone.
  And while a session has no timer and no write is on its way, every version seen last is written or not worth
  keeping.
\<close>

theorem seen_changes_reach_the_database:
  fixes h :: "'h history_state"
  assumes "th_live h = fold blocks_step before blocks_init"
    and "s = fold (hsync_step True) ops (sync_init h)" "\<forall>a \<in> set ops. \<not> write_fails a"
    and "sid \<noteq> ''''"
  shows "(\<forall>a. let t = hsync_step True (Change a) s in
        \<forall>b \<in> set (live_blocks t sid). rget (known_of t sid) (b_id b) = Some (blockFingerprint b))
    \<and> (\<forall>bid p. rget (known_of s sid) bid = Some p \<longrightarrow>
        (handled s sid bid p \<or> bid \<in> set (dirty_ids s sid) \<and> rget (hs_timers s) sid \<noteq> None)
        \<and> handled (hsync_step True (FlushTimer now sid) s) sid bid p
        \<and> (rget (hs_timers s) sid = None \<and> hs_flights s = [] \<longrightarrow>
            (\<exists>b. b_id b = bid \<and> blockFingerprint b = p \<and> ((sid, b) \<in> set (hs_written s) \<or> \<not> persistable b))))"
proof -
  have "blocks_inv (th_live h)" unfolding assms(1) by (rule blocks.inv_run)
  then have inv: "sync_inv s" unfolding assms(2) by (intro inv_sync_run inv_sync_init assms(3))
  have seen: "seen_ok s sid" by (rule sync_invD(3) [OF inv assms(4)])
  have "rget (known_of (hsync_step True (Change a) s) sid) (b_id b) = Some (blockFingerprint b)"
    if "b \<in> set (live_blocks (hsync_step True (Change a) s) sid)" for a b
    using change_is_seen [OF sync_invD(1) [OF inv]] that by simp
  moreover have first: "(handled s sid bid p \<or> bid \<in> set (dirty_ids s sid) \<and> rget (hs_timers s) sid \<noteq> None)
      \<and> handled (hsync_step True (FlushTimer now sid) s) sid bid p"
    if "rget (known_of s sid) bid = Some p" for bid p
    using seenD [OF seen that] flush_handles [OF inv assms(4) that] seen by (auto simp: seen_ok_def)
  moreover have "\<exists>b. b_id b = bid \<and> blockFingerprint b = p \<and> ((sid, b) \<in> set (hs_written s) \<or> \<not> persistable b)"
    if "rget (known_of s sid) bid = Some p" "rget (hs_timers s) sid = None" "hs_flights s = []" for bid p
  proof -
    have "handled s sid bid p" using first [OF that(1)] that(2) by simp
    then show ?thesis unfolding handled_def same_version_def that(3) by auto
  qed
  ultimately show ?thesis unfolding Let_def by blast
qed

lemma store_after_add:
  assumes "th_live h = blocks_init" and s: "s = change_store True (AddBlock sid b) (sync_init h)"
  shows "live_blocks s sid = [b]" "dirty_ids s sid = [b_id b]" "rget (hs_timers s) sid \<noteq> None" "hs_flights s = []"
    "hs_written s = []" "th_live (hs_history s) = addBlock sid b blocks_init"
proof -
  have add: "bs_blocks (addBlock sid b blocks_init) = [(sid, [b])]"
    by (simp add: addBlock_def blocks_init_def Let_def sync_counter_def getBlocks_def upsert_where_def)
  then have get: "getBlocks sid (addBlock sid b blocks_init) = [b]" by (simp add: getBlocks_def)
  show live: "th_live (hs_history s) = addBlock sid b blocks_init"
    by (simp add: s change_store_def Let_def subscriber_frame set_live_def sync_init_def assms(1))
  show "live_blocks s sid = [b]" by (simp add: live get)
  show "hs_flights s = []" "hs_written s = []"
    by (simp_all add: s change_store_def Let_def subscriber_frame set_live_def sync_init_def)
  have run: "s = reconcileSession True sid [b] (set_live (addBlock sid b blocks_init) (sync_init h))"
    by (simp add: s change_store_def Let_def subscriber_def add get sync_init_def assms(1)) (simp add: blocks_init_def)
  show "dirty_ids s sid = [b_id b]" "rget (hs_timers s) sid \<noteq> None"
    by (simp_all add: run reconcileSession_def Let_def known_of_def changed_blocks_def set_live_def sync_init_def
        markDirty_def dirty_ids_def scheduleFlush_def)
qed

lemma flush_starts:
  assumes "rget (hs_timers s) sid \<noteq> None" "sid \<noteq> ''''" "filter (\<lambda>b. b_id b \<in> set (dirty_ids s sid)) (live_blocks s sid) \<noteq> []"
    and t: "t = flush_timer_fires True now sid s"
  shows "hs_flights t = hs_flights s @ [\<lparr> fl_session = sid, fl_ids = dirty_ids s sid, fl_blocks = live_blocks s sid, fl_forced = False \<rparr>]"
    "dirty_ids t sid = []" "rget (hs_timers t) sid = None" "hs_written t = hs_written s"
    "th_live (hs_history t) = th_live (hs_history s)"
proof -
  have ne: "dirty_ids s sid \<noteq> []" using assms(3) by auto
  have d: "dirty_ids (cancelScheduledFlush sid s) = dirty_ids s" by (simp add: cancelScheduledFlush_def dirty_ids_def fun_eq_iff)
  show "hs_flights t = hs_flights s @ [\<lparr> fl_session = sid, fl_ids = dirty_ids s sid, fl_blocks = live_blocks s sid, fl_forced = False \<rparr>]"
    "dirty_ids t sid = []" "rget (hs_timers t) sid = None" "hs_written t = hs_written s"
    "th_live (hs_history t) = th_live (hs_history s)"
    using assms(1-3) ne unfolding t flush_timer_fires_def
    by (simp_all add: Let_def d cancel_frame dirty_ids_def [of "_\<lparr>hs_dirty := _\<rparr>"] store_simps
        dirty_ids_def [of "_\<lparr>hs_dirty := _, hs_history := _, hs_flights := _\<rparr>"])
qed

lemma write_ends:
  assumes "hs_flights s = [f]" "fl_session f = sid" and t: "t = write_settles 0 True now s"
  shows "hs_flights t = []" "dirty_ids t sid = []" "rget (hs_timers t) sid = None"
    "hs_written t = hs_written s @ map (Pair sid) (to_write f)" "th_live (hs_history t) = th_live (hs_history s)"
  using assms(1,2) by (simp_all add: t write_settles_def Let_def noteRestoredSessionBlocks_def cacheSessionBlocks_def
      dirty_ids_def store_simps)

text \<open>
  (C39) A change made while a write of its session is on its way is forgotten when the write succeeds: whatever the
  change was, there is afterwards no dirty block, no timer and no write, although the database has the block as it
  was before.
\<close>

theorem change_during_a_write_is_forgotten:
  fixes h :: "'h history_state"
  assumes "th_live h = blocks_init" "sid \<noteq> ''''" "persistable b"
    and "s = fold (hsync_step True)
      [Change (AddBlock sid b), FlushTimer t1 sid, Change a, WriteSettles 0 True t2] (sync_init h)"
  shows "live_blocks s sid = getBlocks sid (blocks_step a (addBlock sid b blocks_init))
    \<and> dirty_ids s sid = [] \<and> rget (hs_timers s) sid = None \<and> hs_flights s = [] \<and> hs_written s = [(sid, b)]"
proof -
  define s1 where "s1 = change_store True (AddBlock sid b) (sync_init h)"
  define s2 where "s2 = flush_timer_fires True t1 sid s1"
  define s3 where "s3 = change_store True a s2"
  let ?f = "\<lparr> fl_session = sid, fl_ids = [b_id b], fl_blocks = [b], fl_forced = False \<rparr>"
  note one = store_after_add [OF assms(1) s1_def]
  have "filter (\<lambda>x. b_id x \<in> set (dirty_ids s1 sid)) (live_blocks s1 sid) \<noteq> []" by (simp only: one(1,2)) simp
  note two = flush_starts [OF one(3) assms(2) this s2_def, unfolded one(1,2,4,5)]
  have three: "hs_flights s3 = [?f]" "hs_written s3 = []" "th_live (hs_history s3) = blocks_step a (addBlock sid b blocks_init)"
    by (simp_all add: s3_def change_store_def Let_def subscriber_frame set_live_def two one(6))
  have s: "s = write_settles 0 True t2 s3" by (simp add: assms(4) s1_def s2_def s3_def)
  from write_ends [OF three(1) _ s] show ?thesis by (simp add: three(2,3) to_write_def assms(3))
qed

lemma append_keeps_prints:
  fixes st :: "'h blocks_state"
  shows "map blockFingerprint (getBlocks sid (appendAiThreadMessageField note bid mid k chunk st)) = map blockFingerprint (getBlocks sid st)"
    "map b_id (getBlocks sid (appendAiThreadMessageField note bid mid k chunk st)) = map b_id (getBlocks sid st)"
proof -
  let ?f = "appendAiThreadMessageFieldToThread note mid k chunk"
  have p: "blockFingerprint (b\<lparr>b_aiThread := Some (?f (case b_aiThread b of None \<Rightarrow> [] | Some t \<Rightarrow> t))\<rparr>) = blockFingerprint b"
    for b :: "'h terminal_block"
    by (cases "b_aiThread b") (simp_all add: blockFingerprint_def appendAiThreadMessageFieldToThread_def)
  show "map blockFingerprint (getBlocks sid (appendAiThreadMessageField note bid mid k chunk st)) = map blockFingerprint (getBlocks sid st)"
    "map b_id (getBlocks sid (appendAiThreadMessageField note bid mid k chunk st)) = map b_id (getBlocks sid st)"
    by (auto simp: appendAiThreadMessageField_def patch_thread_def patchSessionBlockThread_def mapBlockThread_def
        getBlocks_def map_where_def store_simps p dest!: session_of_get split: option.split)
qed

lemma prints_cong:
  fixes xs ys :: "'a terminal_block list"
  shows "map blockFingerprint xs = map blockFingerprint ys \<Longrightarrow> map b_id xs = map b_id ys \<Longrightarrow> prints_of xs = prints_of ys"
proof -
  have "fold (\<lambda>b m. rput (b_id b) (blockFingerprint b) m) zs m = fold (\<lambda>(i, p) m. rput i p m) (zip (map b_id zs) (map blockFingerprint zs)) m"
    for zs :: "'a terminal_block list" and m by (induction zs arbitrary: m) simp_all
  then have p: "prints_of zs = fold (\<lambda>(i, p) m. rput i p m) (zip (map b_id zs) (map blockFingerprint zs)) []" for zs :: "'a terminal_block list"
    unfolding prints_of_def by blast
  show "map blockFingerprint xs = map blockFingerprint ys \<Longrightarrow> map b_id xs = map b_id ys \<Longrightarrow> prints_of xs = prints_of ys"
    unfolding p by simp
qed

lemma nothing_changed:
  assumes "known_of s sid = prints_of bs" "distinct (map b_id bs)"
  shows "hs_dirty (reconcileSession persist sid bs s) = hs_dirty s" "hs_timers (reconcileSession persist sid bs s) = hs_timers s"
proof -
  have "changed_blocks (known_of s sid) bs = []"
    using prints_known [OF assms(2)] by (simp add: assms(1) changed_blocks_def filter_empty_conv)
  then show "hs_dirty (reconcileSession persist sid bs s) = hs_dirty s" "hs_timers (reconcileSession persist sid bs s) = hs_timers s"
    by (simp_all add: reconcileSession_def Let_def)
qed

lemma nothing_changed_anywhere:
  assumes "\<And>i. known_of s i = prints_of (g i)" "\<And>i. distinct (map b_id (g i))"
  shows "hs_dirty (fold (\<lambda>i. reconcileSession persist i (g i)) sids s) = hs_dirty s
    \<and> hs_timers (fold (\<lambda>i. reconcileSession persist i (g i)) sids s) = hs_timers s"
  using assms(1)
proof (induction sids arbitrary: s)
  case (Cons x xs)
  have "known_of (reconcileSession persist x (g x) s) i = prints_of (g i)" for i
    using Cons.prems [of i] by (cases "i = x") (simp_all add: reconcile_self reconcile_other)
  from Cons.IH [OF this] nothing_changed [OF Cons.prems assms(2)] show ?case by simp
qed simp

text \<open>
  Text that streams into a message of a thread, whatever it is, is not noticed: when the subscriber has seen the
  store, the block changes but no fingerprint does, so that nothing becomes dirty and no timer is armed. The
  fingerprint looks only at the number of the items of a thread.
\<close>

theorem streaming_goes_unnoticed:
  assumes "th_live (hs_history s) = fold blocks_step ops blocks_init" "\<forall>sid. known_of s sid = prints_of (live_blocks s sid)"
  shows "let t = hsync_step persist (Change (AppendField note bid mid k chunk)) s in
    hs_dirty t = hs_dirty s \<and> hs_timers t = hs_timers s
    \<and> th_live (hs_history t) = appendAiThreadMessageField note bid mid k chunk (th_live (hs_history s))"
proof -
  let ?old = "th_live (hs_history s)"
  let ?new = "appendAiThreadMessageField note bid mid k chunk ?old"
  have "blocks_inv ?old" unfolding assms(1) by (rule blocks.inv_run)
  from inv_distinct [OF this] have d: "distinct (map b_id (getBlocks i ?new))" for i by (simp only: append_keeps_prints)
  have "known_of (set_live ?new s) i = known_of s i" for i by (simp add: set_live_def known_of_def)
  then have "known_of (set_live ?new s) i = prints_of (getBlocks i ?new)" for i
    by (simp add: assms(2) prints_cong [OF append_keeps_prints])
  note same = nothing_changed_anywhere [OF this d]
  have "hs_dirty (subscriber persist ?new ?old (set_live ?new s)) = hs_dirty s"
    "hs_timers (subscriber persist ?new ?old (set_live ?new s)) = hs_timers s"
    using same unfolding subscriber_def by (simp_all add: set_live_def)
  then show ?thesis by (simp add: change_store_def Let_def subscriber_frame) (simp add: set_live_def)
qed

text \<open>Instances.\<close>

theorem seen_changes_reach_the_database_witness:
  "handled (hsync_step True (FlushTimer 5 ''s'') (hsync_step True (Change (AddBlock ''s'' shell_block)) (sync_init empty_history)))
     ''s'' (b_id shell_block) (blockFingerprint shell_block)"
proof -
  let ?a = "Change (AddBlock ''s'' shell_block)"
  have h: "th_live empty_history = fold blocks_step [] blocks_init" by (simp add: empty_history_def)
  have live: "live_blocks (hsync_step True ?a (sync_init empty_history)) ''s'' = [shell_block]"
    using store_after_add(1) [OF _ refl, of empty_history] h by simp
  have "rget (known_of (hsync_step True ?a (sync_init empty_history)) ''s'') (b_id shell_block) = Some (blockFingerprint shell_block)"
    using seen_changes_reach_the_database [OF h, of "sync_init empty_history" "[]" "''s''" 5] live by (simp add: Let_def) 
  moreover note seen_changes_reach_the_database [OF h, of "hsync_step True ?a (sync_init empty_history)" "[?a]" "''s''" 5]
  ultimately show ?thesis by simp
qed

theorem change_during_a_write_is_forgotten_witness:
  "let s = fold (hsync_step True) [Change (AddBlock ''s'' shell_block), FlushTimer 5 ''s'',
      Change (UpdateBlock 9 ''blk-1'' [SetStatus BlockCompleted]), WriteSettles 0 True 10] (sync_init empty_history)
   in map b_status (live_blocks s ''s'') = [BlockCompleted] \<and> hs_written s = [(''s'', shell_block)]
    \<and> dirty_ids s ''s'' = [] \<and> rget (hs_timers s) ''s'' = None \<and> hs_flights s = []"
proof -
  have h: "th_live empty_history = blocks_init" by (simp add: empty_history_def)
  have "map b_status (getBlocks ''s'' (blocks_step (UpdateBlock 9 ''blk-1'' [SetStatus BlockCompleted]) (addBlock ''s'' shell_block blocks_init)))
      = [BlockCompleted]"
    by (simp add: updateBlock_def patch_one_def patchSingleSessionBlock_def session_of_def findSessionIdForBlock_def
        has_block_def addBlock_def sync_counter_def blocks_init_def getBlocks_def upsert_where_def Let_def shell_block_def
        map_where_def finish_block_def findBlockById_def)
  with change_during_a_write_is_forgotten [OF h _ shell_persistable refl, of "''s''" 5 "UpdateBlock 9 ''blk-1'' [SetStatus BlockCompleted]" 10]
  show ?thesis unfolding Let_def by simp
qed

theorem streaming_goes_unnoticed_witness:
  "let b = shell_block\<lparr>b_aiThread := Some [ThreadMessage (turn ''blk-2'' AssistantTurn ''di'')]\<rparr>;
       s = (sync_init (empty_history\<lparr>th_live := addBlock ''s'' b blocks_init\<rparr>))\<lparr>hs_known := [(''s'', prints_of [b])]\<rparr>;
       t = hsync_step True (Change (AppendField ''...'' ''blk-1'' ''blk-2'' KText ''sk'')) s
   in hs_dirty t = [] \<and> hs_timers t = []
    \<and> map b_aiThread (live_blocks t ''s'') = [Some [ThreadMessage (turn ''blk-2'' AssistantTurn ''disk'')]]"
proof -
  define b where "b = shell_block\<lparr>b_aiThread := Some [ThreadMessage (turn ''blk-2'' AssistantTurn ''di'')]\<rparr>"
  define s where "s = (sync_init (empty_history\<lparr>th_live := addBlock ''s'' b blocks_init\<rparr>))\<lparr>hs_known := [(''s'', prints_of [b])]\<rparr>"
  have i: "b_id b = ''blk-1''" by (simp add: b_def shell_block_def)
  have add: "bs_blocks (addBlock ''s'' b blocks_init) = [(''s'', [b])]"
    by (simp add: addBlock_def sync_counter_def blocks_init_def getBlocks_def upsert_where_def Let_def)
  have run: "th_live (hs_history s) = fold blocks_step [AddBlock ''s'' b] blocks_init" by (simp add: s_def sync_init_def)
  have seen: "\<forall>sid. known_of s sid = prints_of (live_blocks s sid)"
    by (simp add: s_def sync_init_def known_of_def getBlocks_def add) (simp add: prints_of_def)
  have after: "map b_aiThread (getBlocks ''s'' (appendAiThreadMessageField ''...'' ''blk-1'' ''blk-2'' KText ''sk'' (addBlock ''s'' b blocks_init)))
      = [Some [ThreadMessage (turn ''blk-2'' AssistantTurn ''disk'')]]"
    by (simp add: appendAiThreadMessageField_def patch_thread_def patchSessionBlockThread_def mapBlockThread_def
        session_of_def findSessionIdForBlock_def has_block_def add i map_where_def getBlocks_def)
      (simp add: b_def appendAiThreadMessageFieldToThread_def on_thread_message_def turn_def keep_tail_def MAX_BLOCK_OUTPUT_CHARS_def)
  have start: "hs_dirty s = []" "hs_timers s = []" "th_live (hs_history s) = addBlock ''s'' b blocks_init"
    by (simp_all add: s_def sync_init_def)
  from streaming_goes_unnoticed [OF run seen, of True "''...''" "''blk-1''" "''blk-2''" KText "''sk''", unfolded Let_def start]
  show ?thesis unfolding b_def [symmetric] Let_def s_def [symmetric] using after by simp
qed

end
