(* ===== verification/CommandProfile.thy ===== *)
theory CommandProfile
  imports CommandPolicy
begin

text \<open>
  \<^bold>\<open>frontend/src/modules/terminal/terminalCommandProfile.ts\<close> and \<^bold>\<open>interactiveCommands.ts\<close>: how long a command may
  run, and which commands the assistant may not run in a terminal because they never end or need a person.
  Explanations in words are constructors; suggested commands are kept as text.
\<close>

section \<open>Words of a command\<close>

text \<open>
  \<open>trim().split(/\s+/).filter(Boolean)\<close>: the maximal runs of characters that are not white space. Of a text that is
  not blank, the first element of the split is the first word.
\<close>

function tokenize :: "string \<Rightarrow> string list" where
  "tokenize [] = []"
| "tokenize (c # s) =
     (if js_ws c then tokenize s
      else (c # takeWhile (\<lambda>d. \<not> js_ws d) s) # tokenize (dropWhile (\<lambda>d. \<not> js_ws d) s))"
  by pat_completeness auto
termination
  by (relation "measure length") (auto simp: length_dropWhile_le le_imp_less_Suc)

definition first_word :: "string \<Rightarrow> string" where
  "first_word command = (case tokenize command of [] \<Rightarrow> '''' | w # _ \<Rightarrow> w)"

text \<open>
  \<open>replace(/^.*[/\\]/, "").replace(/\.exe$/i, "").toLowerCase()\<close>. A word has no line break, so that the greedy
  \<open>.*\<close> reaches its last separator.
\<close>

definition path_separator :: "char \<Rightarrow> bool" where
  "path_separator c \<longleftrightarrow> c = CHR ''/'' \<or> c = CHR 0x5C"

definition drop_exe :: "string \<Rightarrow> string" where
  "drop_exe w = (if 4 \<le> length w \<and> lower (drop (length w - 4) w) = ''.exe'' then take (length w - 4) w else w)"

definition base_of_word :: "string \<Rightarrow> string" where
  "base_of_word w = lower (drop_exe (rev (takeWhile (\<lambda>c. \<not> path_separator c) (rev w))))"

definition commandBaseName :: "string \<Rightarrow> string" where
  "commandBaseName command = base_of_word (first_word command)"

section \<open>Classes of commands\<close>

definition BATCH_TIMEOUT_MS :: nat where "BATCH_TIMEOUT_MS = 15000"

definition BATCH_IDLE_MS :: nat where "BATCH_IDLE_MS = 600"

definition PROGRESS_TIMEOUT_MS :: nat where "PROGRESS_TIMEOUT_MS = 1800000"

definition PROGRESS_IDLE_MS :: nat where "PROGRESS_IDLE_MS = 3000"

definition LONG_RUNNING_TIMEOUT_MS :: nat where "LONG_RUNNING_TIMEOUT_MS = 600000"

definition LONG_RUNNING_IDLE_MS :: nat where "LONG_RUNNING_IDLE_MS = 5000"

definition PROGRESS_COMMAND_BASES :: "string list" where
  "PROGRESS_COMMAND_BASES =
     [''npm'', ''pnpm'', ''yarn'', ''docker'', ''apt'', ''apt-get'', ''yum'', ''dnf'', ''pip'', ''pip3'', ''cargo'',
      ''go'', ''curl'', ''wget'', ''brew'', ''gem'', ''composer'', ''snap'', ''flatpak'', ''pacman'', ''zypper'']"

definition LONG_RUNNING_COMMAND_BASES :: "string list" where
  "LONG_RUNNING_COMMAND_BASES =
     [''du'', ''find'', ''grep'', ''rg'', ''rsync'', ''scp'', ''sftp'', ''tar'', ''zip'', ''unzip'', ''7z'', ''rar'',
      ''unrar'', ''dd'', ''fsck'', ''badblocks'', ''smartctl'', ''ncdu'', ''tree'', ''locate'', ''updatedb'', ''cp'',
      ''mv'', ''chmod'', ''chown'', ''rm'']"

definition INTERACTIVE_COMMAND_BASES :: "string list" where
  "INTERACTIVE_COMMAND_BASES =
     [''claude'', ''hermes'', ''vim'', ''vi'', ''nvim'', ''less'', ''more'', ''top'', ''htop'', ''btop'', ''ssh'',
      ''python'', ''python3'', ''node'', ''psql'', ''mysql'', ''redis-cli'', ''ipython'', ''irb'', ''ruby'']"

definition INTERACTIVE_COMMAND_NAMES :: "string list" where
  "INTERACTIVE_COMMAND_NAMES = [''python'', ''python3'', ''ipython'', ''node'', ''irb'', ''ruby'']"

definition INTERACTIVE_WRAPPERS :: "string list" where
  "INTERACTIVE_WRAPPERS = [''npx'', ''bunx'', ''pnpx'', ''pnpm'', ''uv'', ''uvx'']"

definition isInteractiveTerminalCommandFallback :: "string \<Rightarrow> bool" where
  "isInteractiveTerminalCommandFallback command =
     (case tokenize command of
        [] \<Rightarrow> False
      | [w] \<Rightarrow> base_of_word w \<in> set INTERACTIVE_COMMAND_NAMES
      | w # v # _ \<Rightarrow> base_of_word (if lower w \<in> set INTERACTIVE_WRAPPERS then v else w) \<in> set INTERACTIVE_COMMAND_NAMES)"

definition isStreamingCommand :: "string \<Rightarrow> bool" where
  "isStreamingCommand command =
     (let tokens = tokenize command; base = commandBaseName command in
      tokens \<noteq> []
      \<and> (base = ''tail'' \<and> ''-f'' \<in> set tokens \<or> base = ''journalctl'' \<and> ''-f'' \<in> set tokens \<or> base = ''watch''
         \<or> base = ''ping'' \<and> ''-c'' \<notin> set tokens \<and> ''/'' \<notin> set tokens))"

definition isInteractiveCommand :: "string \<Rightarrow> bool" where
  "isInteractiveCommand command \<longleftrightarrow>
     commandBaseName command \<in> set INTERACTIVE_COMMAND_BASES \<or> isInteractiveTerminalCommandFallback command"

definition PS_PROGRESS_CMDLET_RE :: rx where
  "PS_PROGRESS_CMDLET_RE =
     seqs [WordBoundary,
       alts (map word_i [''Get-ComputerInfo'', ''Get-WindowsFeature'', ''Install-WindowsFeature'', ''Get-HotFix'',
         ''Update-Help'', ''Install-Module'', ''Install-Package'']),
       WordBoundary]"

definition isProgressCommand :: "string \<Rightarrow> bool" where
  "isProgressCommand command \<longleftrightarrow>
     commandBaseName command \<in> set PROGRESS_COMMAND_BASES \<or> rx_test PS_PROGRESS_CMDLET_RE command"

definition isLongRunningCommand :: "string \<Rightarrow> bool" where
  "isLongRunningCommand command \<longleftrightarrow> commandBaseName command \<in> set LONG_RUNNING_COMMAND_BASES"

section \<open>Alternatives\<close>

datatype advice = RunOnce | RunInCommandBar | AskInAiBlock | UseBatchCommand

datatype alternative = TryCommand string | Advise advice

definition streamingAlternatives :: "string \<Rightarrow> alternative list" where
  "streamingAlternatives command =
     (let tokens = tokenize command; base = commandBaseName command in
      if base = ''tail'' \<and> ''-f'' \<in> set tokens then
        (let file = last tokens in
         if file \<noteq> '''' \<and> \<not> starts_with file ''-'' then [TryCommand (''tail -n 100 '' @ file)]
         else [TryCommand ''tail -n 100 <file>''])
      else if base = ''journalctl'' then
        [TryCommand ''journalctl -n 100 --no-pager'', TryCommand ''journalctl -n 100 -u <service> --no-pager'']
      else if base = ''watch'' then [Advise RunOnce]
      else if base = ''ping'' then
        (if 1 < length tokens then [TryCommand (''ping -c 4 '' @ tokens ! 1)] else [TryCommand ''ping -c 4 <host>''])
      else [])"

definition interactiveAlternatives :: "string \<Rightarrow> alternative list" where
  "interactiveAlternatives command =
     (let base = commandBaseName command in
      if base \<in> set [''top'', ''htop'', ''btop''] then
        [TryCommand ''top -bn1 | head -20'', TryCommand ''ps aux --sort=-%cpu | head -15'', TryCommand ''free -h && df -h'']
      else if base \<in> set [''less'', ''more'', ''vim'', ''vi'', ''nvim''] then [Advise RunInCommandBar]
      else if base \<in> set [''claude'', ''hermes''] then [Advise AskInAiBlock]
      else if base \<in> set [''python'', ''python3'', ''node'', ''ipython''] then
        [TryCommand (''python -c '' @ [CHR 0x27] @ ''<script>'' @ [CHR 0x27]), TryCommand (''node -e '' @ [CHR 0x27] @ ''<script>'' @ [CHR 0x27])]
      else if base \<in> set [''mysql'', ''psql'', ''redis-cli''] then
        [TryCommand (''mysql -e '' @ [CHR 0x27] @ ''<sql>'' @ [CHR 0x27]), TryCommand (''psql -c '' @ [CHR 0x27] @ ''<sql>'' @ [CHR 0x27]),
         TryCommand ''redis-cli --raw <command>'']
      else [Advise UseBatchCommand])"

section \<open>Profiles\<close>

datatype profile_kind = BatchKind | ProgressKind | StreamingKind | InteractiveKind

datatype command_source = FromUser | FromAI

datatype reject_reason = NeverEnds | NeedsAPerson

record command_profile =
  cp_kind :: profile_kind
  cp_timeoutMs :: nat
  cp_outputIdleMs :: nat
  cp_promoteInlineOnCr :: bool
  cp_allowAiExecution :: bool
  cp_rejectReason :: "reject_reason option"
  cp_suggestedAlternatives :: "alternative list option"

definition buildRejectedProfile :: "profile_kind \<Rightarrow> reject_reason \<Rightarrow> alternative list \<Rightarrow> command_profile" where
  "buildRejectedProfile kind reason alternatives =
     \<lparr> cp_kind = kind, cp_timeoutMs = 0, cp_outputIdleMs = 0, cp_promoteInlineOnCr = False, cp_allowAiExecution = False,
       cp_rejectReason = Some reason, cp_suggestedAlternatives = Some alternatives \<rparr>"

definition allowed_profile :: "profile_kind \<Rightarrow> nat \<Rightarrow> nat \<Rightarrow> bool \<Rightarrow> command_profile" where
  "allowed_profile kind timeout idle promote =
     \<lparr> cp_kind = kind, cp_timeoutMs = timeout, cp_outputIdleMs = idle, cp_promoteInlineOnCr = promote,
       cp_allowAiExecution = True, cp_rejectReason = None, cp_suggestedAlternatives = None \<rparr>"

definition resolveCommandProfile :: "string \<Rightarrow> command_source \<Rightarrow> command_profile" where
  "resolveCommandProfile command source =
     (let trimmed = js_trim command in
      if trimmed = '''' then allowed_profile BatchKind BATCH_TIMEOUT_MS BATCH_IDLE_MS False
      else if source = FromAI \<and> isStreamingCommand trimmed then
        buildRejectedProfile StreamingKind NeverEnds (streamingAlternatives trimmed)
      else if source = FromAI \<and> isInteractiveCommand trimmed then
        buildRejectedProfile InteractiveKind NeedsAPerson (interactiveAlternatives trimmed)
      else if isProgressCommand trimmed then allowed_profile ProgressKind PROGRESS_TIMEOUT_MS PROGRESS_IDLE_MS True
      else if isLongRunningCommand trimmed then
        allowed_profile ProgressKind LONG_RUNNING_TIMEOUT_MS LONG_RUNNING_IDLE_MS False
      else allowed_profile BatchKind (if source = FromAI then BATCH_TIMEOUT_MS else 60000) BATCH_IDLE_MS False)"

definition shouldUseFullTerminalForUser :: "string \<Rightarrow> bool" where
  "shouldUseFullTerminalForUser command = isInteractiveCommand command"


section \<open>Words\<close>

lemma tokenize_trim_start: "tokenize (trim_start s) = tokenize s"
  by (induction s) (simp_all add: trim_start_def)

lemma tokenize_blank: "\<forall>c \<in> set s. js_ws c \<Longrightarrow> tokenize s = []"
  by (induction s) simp_all

lemma tokenize_append_blank: "\<forall>c \<in> set w. js_ws c \<Longrightarrow> tokenize (s @ w) = tokenize s"
proof (induction s rule: tokenize.induct)
  case 1
  then show ?case by (simp add: tokenize_blank)
next
  case (2 c s)
  have t: "takeWhile (\<lambda>d. \<not> js_ws d) (s @ w) = takeWhile (\<lambda>d. \<not> js_ws d) s"
    using 2(3) by (cases w) (auto simp: takeWhile_append takeWhile_eq_all_conv [THEN iffD2])
  have "dropWhile (\<lambda>d. \<not> js_ws d) (s @ w) = dropWhile (\<lambda>d. \<not> js_ws d) s @ w"
    using 2(3) by (cases w) (auto simp: dropWhile_append)
  with 2 t show ?case by simp
qed

lemma tokenize_trim [simp]: "tokenize (js_trim s) = tokenize s"
proof -
  let ?t = "trim_start s"
  have "?t = trim_end ?t @ rev (takeWhile js_ws (rev ?t))"
    by (simp add: trim_end_def rev_append [symmetric])
  moreover have "\<forall>c \<in> set (rev (takeWhile js_ws (rev ?t))). js_ws c" by (auto dest: set_takeWhileD)
  ultimately have "tokenize ?t = tokenize (trim_end ?t)" using tokenize_append_blank by metis
  then show ?thesis by (simp add: js_trim_def tokenize_trim_start)
qed

lemma trim_empty_iff: "js_trim s = '''' \<longleftrightarrow> (\<forall>c \<in> set s. js_ws c)"
proof -
  have "js_trim s = '''' \<longleftrightarrow> (\<forall>c \<in> set (dropWhile js_ws s). js_ws c)"
    by (simp only: js_trim_def trim_start_def trim_end_def rev_is_Nil_conv dropWhile_eq_Nil_conv set_rev)
  also have "\<dots> \<longleftrightarrow> dropWhile js_ws s = []" by (metis hd_dropWhile hd_in_set empty_iff set_empty)
  also have "\<dots> \<longleftrightarrow> (\<forall>c \<in> set s. js_ws c)" by (simp add: dropWhile_eq_Nil_conv)
  finally show ?thesis .
qed

definition word :: "string \<Rightarrow> bool" where
  "word w \<longleftrightarrow> w \<noteq> '''' \<and> (\<forall>c \<in> set w. \<not> js_ws c)"

lemma tokenize_words: "w \<in> set (tokenize s) \<Longrightarrow> word w"
proof (induction s rule: tokenize.induct)
  case (2 c s)
  show ?case
  proof (cases "js_ws c")
    case False
    then have "word (c # takeWhile (\<lambda>d. \<not> js_ws d) s)" by (auto simp: word_def dest: set_takeWhileD)
    with 2 False show ?thesis by auto
  qed (use 2 in simp)
qed simp

lemma tokenize_word: "word w \<Longrightarrow> tokenize w = [w]"
proof -
  assume w: "word w"
  then obtain c s where "w = c # s" "\<not> js_ws c" "\<forall>d \<in> set s. \<not> js_ws d" by (cases w) (auto simp: word_def)
  then show ?thesis by (simp add: takeWhile_eq_all_conv [THEN iffD2] dropWhile_eq_Nil_conv [THEN iffD2])
qed

lemma tokenize_cons_word: "word w \<Longrightarrow> tokenize (w @ CHR 0x20 # s) = w # tokenize s"
proof -
  assume w: "word w"
  then obtain c r where c: "w = c # r" "\<not> js_ws c" "\<forall>d \<in> set r. \<not> js_ws d" by (cases w) (auto simp: word_def)
  have b: "js_ws CHR 0x20" by (simp add: js_ws_def)
  show ?thesis using c b by (simp add: takeWhile_append dropWhile_append)
qed

section \<open>What the assistant may run\<close>

lemma tokenize_empty: "tokenize s = [] \<longleftrightarrow> js_trim s = ''''"
proof
  have blank: "tokenize s = [] \<Longrightarrow> \<forall>c \<in> set s. js_ws c"
  proof (induction s)
    case (Cons c s)
    then show ?case by (cases "js_ws c") simp_all
  qed simp
  show "tokenize s = [] \<Longrightarrow> js_trim s = ''''" unfolding trim_empty_iff by (rule blank)
qed (simp add: trim_empty_iff tokenize_blank)

lemma same_words [simp]:
  "commandBaseName (js_trim s) = commandBaseName s" "isStreamingCommand (js_trim s) = isStreamingCommand s"
  "isInteractiveCommand (js_trim s) = isInteractiveCommand s" "streamingAlternatives (js_trim s) = streamingAlternatives s"
  "interactiveAlternatives (js_trim s) = interactiveAlternatives s"
  by (simp_all add: commandBaseName_def first_word_def isStreamingCommand_def isInteractiveCommand_def
      isInteractiveTerminalCommandFallback_def streamingAlternatives_def interactiveAlternatives_def)

lemma allowed_iff:
  "cp_allowAiExecution (resolveCommandProfile c FromAI) \<longleftrightarrow> \<not> isStreamingCommand c \<and> \<not> isInteractiveCommand c"
proof (cases "js_trim c = ''''")
  case True
  then have "tokenize c = []" by (simp add: tokenize_empty)
  then have "\<not> isStreamingCommand c" "\<not> isInteractiveCommand c"
    by (simp_all add: isStreamingCommand_def isInteractiveCommand_def isInteractiveTerminalCommandFallback_def
        commandBaseName_def first_word_def base_of_word_def drop_exe_def lower_def INTERACTIVE_COMMAND_BASES_def)
  with True show ?thesis by (simp add: resolveCommandProfile_def allowed_profile_def)
qed (simp add: resolveCommandProfile_def Let_def allowed_profile_def buildRejectedProfile_def)

lemma plain_bases:
  "base_of_word ''tail'' = ''tail''" "base_of_word ''journalctl'' = ''journalctl''" "base_of_word ''ping'' = ''ping''"
  "base_of_word ''sudo'' = ''sudo''" "base_of_word ''time'' = ''time''" "base_of_word ''nohup'' = ''nohup''"
  "base_of_word ''command'' = ''command''" "base_of_word ''env'' = ''env''"
  by code_simp+

lemma lower_first: "lower ''tail'' = ''tail''" "lower ''journalctl'' = ''journalctl''" "lower ''ping'' = ''ping''"
  "lower ''sudo'' = ''sudo''" "lower ''time'' = ''time''" "lower ''nohup'' = ''nohup''"
  "lower ''command'' = ''command''" "lower ''env'' = ''env''"
  by code_simp+

lemma plain_words: "word ''tail''" "word ''journalctl''" "word ''ping''" "word ''-n''" "word ''100''" "word ''-c''" "word ''4''"
  "word ''sudo''" "word ''time''" "word ''nohup''" "word ''command''" "word ''env''"
  by (simp_all add: word_def js_ws_def)

text \<open>A command is allowed when its first word is harmless and no wrapper.\<close>

lemma not_interactive:
  assumes "tokenize c = w # ws" "base_of_word w \<notin> set INTERACTIVE_COMMAND_BASES" "lower w \<notin> set INTERACTIVE_WRAPPERS"
  shows "\<not> isInteractiveCommand c"
proof -
  have "set INTERACTIVE_COMMAND_NAMES \<subseteq> set INTERACTIVE_COMMAND_BASES"
    by (simp add: INTERACTIVE_COMMAND_NAMES_def INTERACTIVE_COMMAND_BASES_def)
  with assms have "base_of_word w \<notin> set INTERACTIVE_COMMAND_NAMES" by blast
  then show ?thesis using assms
    by (cases ws) (simp_all add: isInteractiveCommand_def isInteractiveTerminalCommandFallback_def commandBaseName_def first_word_def)
qed

lemma plain_first:
  assumes "tokenize c = w # ws" "w \<in> set [''tail'', ''journalctl'', ''ping'']"
    and "w = ''ping'' \<Longrightarrow> ''-c'' \<in> set ws" "''-f'' \<notin> set ws \<or> w = ''ping''"
  shows "cp_allowAiExecution (resolveCommandProfile c FromAI)"
proof -
  have b: "base_of_word w = w" "lower w = w" using assms(2) by (auto simp: plain_bases lower_first)
  have "\<not> isInteractiveCommand c"
    by (rule not_interactive [OF assms(1)]) (use assms(2) b in \<open>auto simp: INTERACTIVE_COMMAND_BASES_def INTERACTIVE_WRAPPERS_def\<close>)
  moreover have "\<not> isStreamingCommand c"
    using assms by (auto simp: isStreamingCommand_def Let_def commandBaseName_def first_word_def b)
  ultimately show ?thesis by (simp add: allowed_iff)
qed

text \<open>
  A command that the assistant is refused for never ending comes with suggestions, and each suggested command is
  one that the assistant may run.
\<close>

theorem streaming_suggestions_are_accepted:
  assumes "isStreamingCommand command"
  shows "let p = resolveCommandProfile command FromAI in
    cp_kind p = StreamingKind \<and> \<not> cp_allowAiExecution p
    \<and> (\<exists>as. cp_suggestedAlternatives p = Some as \<and> as \<noteq> []
        \<and> (\<forall>a. TryCommand a \<in> set as \<longrightarrow> cp_allowAiExecution (resolveCommandProfile a FromAI)))"
proof -
  let ?ts = "tokenize command" and ?as = "streamingAlternatives command"
  have ne: "?ts \<noteq> []" using assms by (simp add: isStreamingCommand_def Let_def)
  then have "js_trim command \<noteq> ''''" using tokenize_empty by blast
  then have p: "resolveCommandProfile command FromAI = buildRejectedProfile StreamingKind NeverEnds ?as"
    using assms by (simp add: resolveCommandProfile_def Let_def)
  have "cp_allowAiExecution (resolveCommandProfile a FromAI)" if a: "TryCommand a \<in> set ?as" for a
  proof -
    have "word (last ?ts)" using tokenize_words ne by (meson last_in_set)
    moreover have "word (?ts ! 1)" if "1 < length ?ts" using tokenize_words that by (meson nth_mem)
    ultimately consider f where "a = ''tail'' @ CHR 0x20 # ''-n'' @ CHR 0x20 # ''100'' @ CHR 0x20 # f" "word f" "\<not> starts_with f ''-''"
      | "a = ''tail -n 100 <file>''" | "a = ''journalctl -n 100 --no-pager''" | "a = ''journalctl -n 100 -u <service> --no-pager''"
      | f where "a = ''ping'' @ CHR 0x20 # ''-c'' @ CHR 0x20 # ''4'' @ CHR 0x20 # f" "word f" | "a = ''ping -c 4 <host>''"
      using a by (auto simp: streamingAlternatives_def Let_def split: if_splits)
    then show ?thesis
    proof cases
      case 1
      have "''-f'' \<noteq> f" using 1(3) by (auto simp: starts_with_def)
      then show ?thesis using 1(2)
        by (intro plain_first [where w = "''tail''" and ws = "[''-n'', ''100'', f]"])
          (simp_all only: 1(1) tokenize_cons_word tokenize_word plain_words, simp_all)
    next
      case 5
      then show ?thesis
        by (intro plain_first [where w = "''ping''" and ws = "[''-c'', ''4'', f]"])
          (simp_all only: 5(1) tokenize_cons_word tokenize_word plain_words, simp_all)
    qed (simp only: allowed_iff, code_simp)+
  qed
  moreover have "?as \<noteq> []" using assms by (auto simp: streamingAlternatives_def isStreamingCommand_def Let_def)
  ultimately show ?thesis by (simp add: Let_def p buildRejectedProfile_def)
qed

text \<open>
  Not so for programs that want a person: of what the refusal of \<open>python\<close>, \<open>node\<close>, \<open>mysql\<close> and their kin
  suggests, each command is refused for the same reason, whatever its arguments, and of what the refusal of \<open>top\<close>
  suggests, the first is.
\<close>

theorem suggested_commands_are_refused:
  assumes "commandBaseName command \<in> set [''top'', ''htop'', ''btop'', ''python'', ''python3'', ''node'', ''ipython'',
      ''mysql'', ''psql'', ''redis-cli'']"
  shows "let p = resolveCommandProfile command FromAI in
    \<exists>as. cp_kind p = InteractiveKind \<and> cp_suggestedAlternatives p = Some as
      \<and> (\<exists>a. TryCommand a = hd as \<and> cp_kind (resolveCommandProfile a FromAI) = InteractiveKind)
      \<and> (commandBaseName command \<notin> set [''top'', ''htop'', ''btop''] \<longrightarrow>
          (\<forall>a. a \<in> set as \<longrightarrow> (\<exists>c. a = TryCommand c \<and> cp_kind (resolveCommandProfile c FromAI) = InteractiveKind)))"
proof -
  let ?as = "interactiveAlternatives command"
  have ne: "tokenize command \<noteq> []"
  proof
    assume "tokenize command = []"
    then have "commandBaseName command = ''''" by (simp add: commandBaseName_def first_word_def base_of_word_def drop_exe_def lower_def)
    with assms show False by simp
  qed
  then have "js_trim command \<noteq> ''''" using tokenize_empty by blast
  moreover have "\<not> isStreamingCommand command" using assms by (auto simp: isStreamingCommand_def Let_def)
  moreover have "isInteractiveCommand command" using assms by (auto simp: isInteractiveCommand_def INTERACTIVE_COMMAND_BASES_def)
  ultimately have p: "resolveCommandProfile command FromAI = buildRejectedProfile InteractiveKind NeedsAPerson ?as"
    by (simp add: resolveCommandProfile_def Let_def)
  have "cp_kind (resolveCommandProfile ''top -bn1 | head -20'' FromAI) = InteractiveKind"
    "cp_kind (resolveCommandProfile (''python -c '' @ [CHR 0x27] @ ''<script>'' @ [CHR 0x27]) FromAI) = InteractiveKind"
    "cp_kind (resolveCommandProfile (''node -e '' @ [CHR 0x27] @ ''<script>'' @ [CHR 0x27]) FromAI) = InteractiveKind"
    "cp_kind (resolveCommandProfile (''mysql -e '' @ [CHR 0x27] @ ''<sql>'' @ [CHR 0x27]) FromAI) = InteractiveKind"
    "cp_kind (resolveCommandProfile (''psql -c '' @ [CHR 0x27] @ ''<sql>'' @ [CHR 0x27]) FromAI) = InteractiveKind"
    "cp_kind (resolveCommandProfile ''redis-cli --raw <command>'' FromAI) = InteractiveKind"
    by code_simp+
  with assms show ?thesis
    by (auto simp: p Let_def buildRejectedProfile_def interactiveAlternatives_def)
qed

text \<open>
  (C40) A word in front hides any command: behind \<open>sudo\<close>, \<open>time\<close>, \<open>nohup\<close>, \<open>command\<close> or \<open>env\<close> the assistant may run
  whatever it may not run otherwise, although the approval policy looks behind these words.
\<close>

theorem modifier_hides_the_command:
  assumes "m \<in> set [''sudo'', ''time'', ''nohup'', ''command'', ''env'']"
  shows "cp_allowAiExecution (resolveCommandProfile (m @ CHR 0x20 # command) FromAI)"
proof -
  have m: "word m" "base_of_word m = m" "lower m = m" using assms by (auto simp: plain_words plain_bases lower_first)
  have t: "tokenize (m @ CHR 0x20 # command) = m # tokenize command" by (rule tokenize_cons_word [OF m(1)])
  have "\<not> isInteractiveCommand (m @ CHR 0x20 # command)"
    by (rule not_interactive [OF t]) (use assms m in \<open>auto simp: INTERACTIVE_COMMAND_BASES_def INTERACTIVE_WRAPPERS_def\<close>)
  moreover have "\<not> isStreamingCommand (m @ CHR 0x20 # command)"
    using assms m by (auto simp: isStreamingCommand_def Let_def commandBaseName_def first_word_def t)
  ultimately show ?thesis by (simp add: allowed_iff)
qed

text \<open>Where the assistant may run a command, it is run as for the user, but for the time a short command may take.\<close>

lemma same_profile_for_the_user:
  "cp_allowAiExecution (resolveCommandProfile c FromUser)
   \<and> (cp_allowAiExecution (resolveCommandProfile c FromAI) \<longrightarrow>
       resolveCommandProfile c FromAI =
         (let p = resolveCommandProfile c FromUser in
          if cp_kind p = BatchKind then p\<lparr>cp_timeoutMs := BATCH_TIMEOUT_MS\<rparr> else p))"
  by (simp add: resolveCommandProfile_def Let_def allowed_profile_def buildRejectedProfile_def)

text \<open>Instances.\<close>

theorem streaming_suggestions_are_accepted_witness:
  "cp_allowAiExecution (resolveCommandProfile ''tail -n 100 /var/log/syslog'' FromAI)"
proof -
  have "isStreamingCommand ''tail -f /var/log/syslog''" by code_simp
  moreover have "tokenize ''tail -f /var/log/syslog'' = [''tail'', ''-f'', ''/var/log/syslog'']" by code_simp
  moreover have "cp_suggestedAlternatives (resolveCommandProfile ''tail -f /var/log/syslog'' FromAI)
      = Some [TryCommand ''tail -n 100 /var/log/syslog'']" by code_simp
  ultimately show ?thesis using streaming_suggestions_are_accepted [of "''tail -f /var/log/syslog''"] by (simp add: Let_def)
qed

theorem suggested_commands_are_refused_witness:
  "cp_kind (resolveCommandProfile ''psql -U postgres'' FromAI) = InteractiveKind"
proof -
  have "commandBaseName ''psql -U postgres'' = ''psql''" by code_simp
  with suggested_commands_are_refused [of "''psql -U postgres''"] show ?thesis by (simp add: Let_def)
qed

theorem modifier_hides_the_command_witness:
  "\<not> cp_allowAiExecution (resolveCommandProfile ''tail -f /var/log/syslog'' FromAI)
   \<and> cp_allowAiExecution (resolveCommandProfile ''sudo tail -f /var/log/syslog'' FromAI)"
proof -
  have "\<not> cp_allowAiExecution (resolveCommandProfile ''tail -f /var/log/syslog'' FromAI)" by code_simp
  with modifier_hides_the_command [of "''sudo''" "''tail -f /var/log/syslog''"] show ?thesis by simp
qed

end
