(* ===== verification/InlineTools.thy ===== *)
theory InlineTools
  imports CommandProfile TermHistory
begin

text \<open>
  \<^bold>\<open>frontend/src/modules/terminal/inlineToolBridge.ts\<close>: a command that the assistant wants to run in the terminal.
  A call waits in a table until it is approved, by the user or at once by the policy, rejected or cancelled; an
  approved one is prepared, run by \<open>executeAiTerminalCommand.ts\<close>, and its result is reported to the back end and to
  the code that waits. All of this is asynchronous: a run may put any step between the stages of another call.

  Arguments and texts in words are parameters, as are the parser of JSON and what a command prints. What the
  functions draw (cards, prompts, toasts) is left out.
\<close>

section \<open>State\<close>

record decision =
  de_approved :: bool
  de_result :: string
  de_shellBlockId :: "string option"
  de_exitCode :: "int option"

record pending =
  pi_block :: string
  pi_session :: string
  pi_resource :: "string option"
  pi_command :: string
  pi_conversation :: string
  pi_waiter :: nat

text \<open>
  An approved call: with the entry of the table it was approved from, or \<open>None\<close> when there was none. A call is first
  prepared, then executed; after that its decision stands.
\<close>

datatype stage = Preparing | Executing | Decided decision

record approval =
  av_call :: string
  av_block :: string
  av_session :: string
  av_command :: string
  av_pending :: "pending option"
  av_stage :: stage

text \<open>A report to the back end on its way; some are followed by the answer to the waiting code.\<close>

record delivery =
  dl_call :: string
  dl_block :: string
  dl_then :: "(nat \<times> decision) option"

record report =
  rp_conversation :: string
  rp_call :: string
  rp_result :: string
  rp_approved :: bool

record executed =
  ex_session :: string
  ex_call :: string
  ex_command :: string

record 'h inline_state =
  it_blocks :: "'h blocks_state"
  it_pending :: "pending jrec"
  it_approving :: "string list"
  it_microtasks :: "(string \<times> string) list"
  it_approvals :: "approval list"
  it_deliveries :: "delivery list"
  it_waiters :: nat
  it_answers :: "(nat \<times> decision) list"
  it_reports :: "report list"
  it_executed :: "executed list"

record inline_config =
  ic_parse :: "string \<Rightarrow> json option"
  ic_stale :: string
  ic_cancelled :: string
  ic_rejected :: string
  ic_noCommand :: string
  ic_tooDangerous :: "danger_level \<Rightarrow> string"

definition inline_init :: "'h blocks_state \<Rightarrow> 'h inline_state" where
  "inline_init b = \<lparr> it_blocks = b, it_pending = [], it_approving = [], it_microtasks = [], it_approvals = [],
     it_deliveries = [], it_waiters = 0, it_answers = [], it_reports = [], it_executed = [] \<rparr>"

section \<open>Items of a thread\<close>

fun first_call :: "string \<Rightarrow> thread_item list \<Rightarrow> thread_tool option" where
  "first_call cid [] = None"
| "first_call cid (ThreadTool c # t) = (if tt_id c = cid then Some c else first_call cid t)"
| "first_call cid (_ # t) = first_call cid t"

definition findToolCallItem :: "string \<Rightarrow> string \<Rightarrow> 'h blocks_state \<Rightarrow> thread_tool option" where
  "findToolCallItem bid cid st = (case findBlockById bid st of None \<Rightarrow> None | Some b \<Rightarrow> first_call cid (thread_of b))"

definition open_status :: "thread_tool_status \<Rightarrow> bool" where
  "open_status x \<longleftrightarrow> x = CallPending \<or> x = CallRunning"

definition set_call :: "string \<Rightarrow> string \<Rightarrow> item_set list \<Rightarrow> 'h inline_state \<Rightarrow> 'h inline_state" where
  "set_call bid cid p s = s\<lparr>it_blocks := updateAiThreadItem bid cid p (it_blocks s)\<rparr>"

definition dismissStaleInlineToolCall :: "string \<Rightarrow> string \<Rightarrow> thread_tool_status \<Rightarrow> string \<Rightarrow> 'h inline_state
    \<Rightarrow> bool \<times> 'h inline_state" where
  "dismissStaleInlineToolCall bid cid status result s =
     (case findToolCallItem bid cid (it_blocks s) of
        None \<Rightarrow> (False, s)
      | Some item \<Rightarrow>
          if open_status (tt_status item) then (True, set_call bid cid [ItemStatus status, ItemResult (Some result)] s)
          else (False, s))"

text \<open>Open calls of a block that nobody waits for.\<close>

fun orphans :: "'h inline_state \<Rightarrow> thread_item list \<Rightarrow> string list" where
  "orphans s [] = []"
| "orphans s (ThreadTool c # t) =
     (if open_status (tt_status c) \<and> rget (it_pending s) (tt_id c) = None \<and> tt_id c \<notin> set (it_approving s)
      then tt_id c # orphans s t else orphans s t)"
| "orphans s (_ # t) = orphans s t"

definition dismissOrphanInlineToolCalls :: "inline_config \<Rightarrow> string option \<Rightarrow> 'h inline_state \<Rightarrow> nat \<times> 'h inline_state" where
  "dismissOrphanInlineToolCalls cfg bid s0 =
     (let bs = (if truthy bid
                then (case findBlockById (the bid) (it_blocks s0) of None \<Rightarrow> [] | Some b \<Rightarrow> [b])
                else concat (map snd (bs_blocks (it_blocks s0))));
          visits = concat (map (\<lambda>b. map (Pair (b_id b)) (orphans s0 (thread_of b))) bs)
      in fold (\<lambda>(b, c) (n, s). let (hit, t) = dismissStaleInlineToolCall b c CallRejected (ic_stale cfg) s
                               in (if hit then Suc n else n, t)) visits (0, s0))"

section \<open>Arguments\<close>

definition commandFromUnknown :: "json option \<Rightarrow> string" where
  "commandFromUnknown v = (case v of Some (JString t) \<Rightarrow> js_trim t | _ \<Rightarrow> '''')"

definition or_else :: "string \<Rightarrow> string \<Rightarrow> string" where
  "or_else a b = (if a = '''' then b else a)"

definition parseTerminalExecCommandFromArgs :: "json \<Rightarrow> string" where
  "parseTerminalExecCommandFromArgs args =
     or_else (commandFromUnknown (field ''command'' args))
       (or_else (commandFromUnknown (field ''cmd'' args)) (commandFromUnknown (field ''script'' args)))"

definition parseTerminalExecCommand :: "inline_config \<Rightarrow> string \<Rightarrow> string" where
  "parseTerminalExecCommand cfg argsJson =
     (case ic_parse cfg (or_else argsJson ''{}'') of None \<Rightarrow> '''' | Some j \<Rightarrow> parseTerminalExecCommandFromArgs j)"

definition assessRisk :: "string \<Rightarrow> string \<Rightarrow> danger_level" where
  "assessRisk command environment =
     maxDangerLevel (dc_level (checkCommand command (Some environment)))
       (if environment = ''prod'' then LevelHigh else if environment = ''staging'' then LevelMedium else LevelLow)"

section \<open>Reports\<close>

definition no_decision :: "string \<Rightarrow> decision" where
  "no_decision result = \<lparr> de_approved = False, de_result = result, de_shellBlockId = None, de_exitCode = None \<rparr>"

definition start_report :: "string \<Rightarrow> string \<Rightarrow> string \<Rightarrow> decision \<Rightarrow> (nat \<times> decision) option \<Rightarrow> 'h inline_state \<Rightarrow> 'h inline_state" where
  "start_report conv bid cid d andthen s =
     s\<lparr>it_reports := it_reports s
         @ [\<lparr> rp_conversation = conv, rp_call = cid, rp_result = de_result d, rp_approved = de_approved d \<rparr>],
       it_deliveries := it_deliveries s @ [\<lparr> dl_call = cid, dl_block = bid, dl_then = andthen \<rparr>]\<rparr>"

text \<open>
  The end of \<open>deliverToolResultToBackend\<close>, after all attempts (\<open>failure\<close> is the message of the last
  error), and what \<open>approveInlineTerminalTool\<close> does then.
\<close>

definition delivery_ends :: "int \<Rightarrow> nat \<Rightarrow> string option \<Rightarrow> 'h inline_state \<Rightarrow> 'h inline_state" where
  "delivery_ends now n failure s0 =
     (if n < length (it_deliveries s0) then
        (let d = it_deliveries s0 ! n; bid = dl_block d;
             s1 = s0\<lparr>it_deliveries := take n (it_deliveries s0) @ drop (Suc n) (it_deliveries s0)\<rparr>;
             s2 = (if failure = None \<or> bid = '''' then s1
                   else let msg = the failure in s1\<lparr>it_blocks :=
                     updateAiThreadItem bid (dl_call d) [ItemStatus CallFailed, ItemResult (Some msg)]
                       (updateBlock now bid [SetStatus BlockFailed, SetExitCode (Some 1)]
                         (snd (pushAiThreadItem now bid None None
                           (ThreadMessage \<lparr> tm_id = '''', tm_role = AssistantTurn, tm_content = msg, tm_reasoning = None,
                              tm_parts = None, tm_timestamp = 0 \<rparr>) (it_blocks s1))))\<rparr>)
         in (case dl_then d of
               None \<Rightarrow> s2
             | Some answer \<Rightarrow> s2\<lparr>it_answers := it_answers s2 @ [answer],
                                it_approving := filter (\<lambda>c. c \<noteq> dl_call d) (it_approving s2)\<rparr>))
      else s0)"

section \<open>Approval\<close>

definition start_approval :: "string \<Rightarrow> string \<Rightarrow> string \<Rightarrow> string \<Rightarrow> pending option \<Rightarrow> 'h inline_state \<Rightarrow> 'h inline_state" where
  "start_approval bid cid session command p s =
     (set_call bid cid [ItemCommand (Some command), ItemStatus CallRunning] s)
       \<lparr>it_approving := it_approving s @ [cid],
        it_approvals := it_approvals s
          @ [\<lparr> av_call = cid, av_block = bid, av_session = session, av_command = command, av_pending = p, av_stage = Preparing \<rparr>]\<rparr>"

definition approveStaleInlineToolCall :: "inline_config \<Rightarrow> string \<Rightarrow> string \<Rightarrow> string option \<Rightarrow> 'h inline_state \<Rightarrow> 'h inline_state" where
  "approveStaleInlineToolCall cfg bid cid override s =
     (case findToolCallItem bid cid (it_blocks s) of
        None \<Rightarrow> s
      | Some item \<Rightarrow>
          if \<not> open_status (tt_status item) then s
          else (let session = (case findBlockById bid (it_blocks s) of None \<Rightarrow> '''' | Some b \<Rightarrow> b_sessionId b);
                    command = js_trim (case override of Some c \<Rightarrow> c
                      | None \<Rightarrow> (case tt_command item of Some c \<Rightarrow> c | None \<Rightarrow> parseTerminalExecCommand cfg (tt_args item)));
                    danger = checkCommand command None in
            if session = '''' \<or> command = '''' then snd (dismissStaleInlineToolCall bid cid CallFailed (ic_stale cfg) s)
            else if severe danger
            then snd (dismissStaleInlineToolCall bid cid CallRejected (ic_tooDangerous cfg (dc_level danger)) s)
            else start_approval bid cid session command None s))"

definition approveInlineTerminalTool :: "inline_config \<Rightarrow> string \<Rightarrow> string \<Rightarrow> string option \<Rightarrow> 'h inline_state \<Rightarrow> 'h inline_state" where
  "approveInlineTerminalTool cfg bid cid override s =
     (if cid \<in> set (it_approving s) then s
      else case rget (it_pending s) cid of
        None \<Rightarrow> approveStaleInlineToolCall cfg bid cid override s
      | Some p \<Rightarrow>
          if pi_block p \<noteq> bid then approveStaleInlineToolCall cfg bid cid override s
          else (let command = js_trim (case override of Some c \<Rightarrow> c | None \<Rightarrow> pi_command p) in
            if command = ''''
            then (let d = no_decision (ic_noCommand cfg);
                      s1 = set_call bid cid [ItemStatus CallFailed, ItemResult (Some (ic_noCommand cfg))] s
                  in start_report (pi_conversation p) bid cid d (Some (pi_waiter p, d))
                       (s1\<lparr>it_approving := it_approving s1 @ [cid], it_pending := rdel cid (it_pending s1)\<rparr>))
            else start_approval bid cid (pi_session p) command (Some p) s))"

text \<open>
  An approval advances. Preparing it ends well and the command is given to \<open>executeAiTerminalCommand\<close>, which starts
  it unless its profile forbids it; or preparing it fails.
\<close>

definition set_stage :: "nat \<Rightarrow> stage \<Rightarrow> 'h inline_state \<Rightarrow> 'h inline_state" where
  "set_stage n st s = s\<lparr>it_approvals := (it_approvals s)[n := (it_approvals s ! n)\<lparr>av_stage := st\<rparr>]\<rparr>"

definition end_approval :: "nat \<Rightarrow> 'h inline_state \<Rightarrow> 'h inline_state" where
  "end_approval n s = s\<lparr>it_approvals := take n (it_approvals s) @ drop (Suc n) (it_approvals s)\<rparr>"

definition release :: "string \<Rightarrow> 'h inline_state \<Rightarrow> 'h inline_state" where
  "release cid s = s\<lparr>it_approving := filter (\<lambda>c. c \<noteq> cid) (it_approving s)\<rparr>"

definition ai_may_run :: "string \<Rightarrow> bool" where
  "ai_may_run command \<longleftrightarrow> cp_allowAiExecution (resolveCommandProfile (js_trim command) FromAI)"

definition launch :: "nat \<Rightarrow> 'h inline_state \<Rightarrow> 'h inline_state" where
  "launch n s =
     (if n < length (it_approvals s) \<and> av_stage (it_approvals s ! n) = Preparing
      then (let a = it_approvals s ! n; t = set_stage n Executing s in
        if ai_may_run (av_command a)
        then t\<lparr>it_executed := it_executed t @ [\<lparr> ex_session = av_session a, ex_call = av_call a, ex_command = js_trim (av_command a) \<rparr>]\<rparr>
        else t)
      else s)"

definition prepare_fails :: "nat \<Rightarrow> string \<Rightarrow> 'h inline_state \<Rightarrow> 'h inline_state" where
  "prepare_fails n msg s =
     (if n < length (it_approvals s) \<and> av_stage (it_approvals s ! n) = Preparing
      then (let a = it_approvals s ! n; t = release (av_call a) (end_approval n s) in
        if av_pending a = None then set_call (av_block a) (av_call a) [ItemStatus CallFailed, ItemResult (Some msg)] t else t)
      else s)"

text \<open>How \<open>executeAiTerminalCommand\<close> ends: with a JSON text and, if the command ran, an exit code, block and action; or an error.\<close>

datatype outcome = Ends string "int option" "string option" "string option" | Throws string

definition outcome_patch :: "bool \<Rightarrow> outcome \<Rightarrow> item_set list" where
  "outcome_patch allowed r =
     (case r of
        Throws msg \<Rightarrow> [ItemStatus CallFailed, ItemResult (Some msg)]
      | Ends json code blk act \<Rightarrow>
          if \<not> allowed then [ItemStatus CallFailed, ItemResult (Some json)]
          else [ItemStatus (if code = Some 0 \<or> code = None then CallCompleted else CallFailed), ItemResult (Some json),
                ItemShellBlockId blk, ItemActionId act])"

definition outcome_decision :: "bool \<Rightarrow> outcome \<Rightarrow> decision" where
  "outcome_decision allowed r =
     (case r of
        Throws msg \<Rightarrow> no_decision msg
      | Ends json code blk act \<Rightarrow>
          if \<not> allowed then no_decision json
          else \<lparr> de_approved = True, de_result = json, de_shellBlockId = blk, de_exitCode = code \<rparr>)"

definition execution_ends :: "nat \<Rightarrow> outcome \<Rightarrow> 'h inline_state \<Rightarrow> 'h inline_state" where
  "execution_ends n r s =
     (if n < length (it_approvals s) \<and> av_stage (it_approvals s ! n) = Executing
      then (let a = it_approvals s ! n; allowed = ai_may_run (av_command a);
                t = set_call (av_block a) (av_call a) (outcome_patch allowed r) s in
        if av_pending a = None then release (av_call a) (end_approval n t)
        else set_stage n (Decided (outcome_decision allowed r)) t)
      else s)"

text \<open>After the cards have been redrawn, the call leaves the table and the result is reported.\<close>

definition report_decision :: "nat \<Rightarrow> 'h inline_state \<Rightarrow> 'h inline_state" where
  "report_decision n s =
     (if n < length (it_approvals s) then
        (let a = it_approvals s ! n in
         case (av_pending a, av_stage a) of
           (Some p, Decided d) \<Rightarrow>
             start_report (pi_conversation p) (av_block a) (av_call a) d (Some (pi_waiter p, d))
               (end_approval n (s\<lparr>it_pending := rdel (av_call a) (it_pending s)\<rparr>))
         | _ \<Rightarrow> s)
      else s)"

section \<open>Waiting, rejection, cancellation\<close>

definition waitForInlineToolDecision :: "bool \<Rightarrow> string \<Rightarrow> string \<Rightarrow> string \<Rightarrow> string option \<Rightarrow> string \<Rightarrow> string
    \<Rightarrow> 'h inline_state \<Rightarrow> 'h inline_state" where
  "waitForInlineToolDecision needsApproval bid cid session resource command conv s =
     s\<lparr>it_pending := rput cid \<lparr> pi_block = bid, pi_session = session, pi_resource = resource, pi_command = command,
           pi_conversation = conv, pi_waiter = it_waiters s \<rparr> (it_pending s),
       it_waiters := Suc (it_waiters s),
       it_microtasks := it_microtasks s @ (if needsApproval then [] else [(bid, cid)])\<rparr>"

text \<open>The conversation, block, session and resource of a call, and the settings at the time it comes in.\<close>

record tool_request =
  tq_conversation :: string
  tq_call :: string
  tq_toolName :: string
  tq_args :: string
  tq_block :: string
  tq_session :: string
  tq_resource :: "string option"
  tq_environment :: string
  tq_whitelists :: whitelists
  tq_mode :: "approval_mode option"

definition needs_approval :: "inline_config \<Rightarrow> tool_request \<Rightarrow> bool" where
  "needs_approval cfg q =
     decideInlineTerminalApproval (tq_whitelists q) (tq_mode q) (parseTerminalExecCommand cfg (tq_args q)) (tq_session q)
       (Some (tq_conversation q))"

definition dispatchInlineTerminalPendingTool :: "inline_config \<Rightarrow> tool_request \<Rightarrow> 'h inline_state \<Rightarrow> 'h inline_state" where
  "dispatchInlineTerminalPendingTool cfg q s =
     (let command = parseTerminalExecCommand cfg (tq_args q) in
      waitForInlineToolDecision (needs_approval cfg q) (tq_block q) (tq_call q) (tq_session q) (tq_resource q) command
        (tq_conversation q)
        (set_call (tq_block q) (tq_call q)
          [ItemToolName (tq_toolName q), ItemArgs (tq_args q), ItemCommand (Some command), ItemStatus CallPending,
           ItemRiskLevel (Some (assessRisk command (tq_environment q)))] s))"

definition createInlineTerminalToolCall :: "inline_config \<Rightarrow> int \<Rightarrow> tool_request \<Rightarrow> 'h inline_state \<Rightarrow> 'h inline_state" where
  "createInlineTerminalToolCall cfg now q s =
     (let command = parseTerminalExecCommand cfg (tq_args q) in
      s\<lparr>it_blocks := snd (pushAiThreadItem now (tq_block q) (Some (tq_call q)) None
          (ThreadTool \<lparr> tt_id = tq_call q, tt_toolName = tq_toolName q, tt_args = tq_args q, tt_command = Some command,
             tt_status = CallPending, tt_result = None, tt_shellBlockId = None, tt_actionId = None,
             tt_riskLevel = Some (assessRisk command (tq_environment q)), tt_timestamp = 0 \<rparr>) (it_blocks s))\<rparr>)"

definition rejectInlineTerminalTool :: "inline_config \<Rightarrow> string \<Rightarrow> string \<Rightarrow> 'h inline_state \<Rightarrow> 'h inline_state" where
  "rejectInlineTerminalTool cfg bid cid s =
     (let stale = snd (dismissStaleInlineToolCall bid cid CallRejected (ic_stale cfg) s) in
      case rget (it_pending s) cid of
        None \<Rightarrow> stale
      | Some p \<Rightarrow>
          if pi_block p \<noteq> bid then stale
          else (let d = no_decision (ic_rejected cfg);
                    s1 = set_call bid cid [ItemStatus CallRejected, ItemResult (Some (ic_rejected cfg))] s;
                    s2 = start_report (pi_conversation p) bid cid d None (s1\<lparr>it_pending := rdel cid (it_pending s1)\<rparr>)
                in s2\<lparr>it_answers := it_answers s2 @ [(pi_waiter p, d)]\<rparr>))"

definition cancel_one :: "inline_config \<Rightarrow> string \<Rightarrow> pending \<Rightarrow> 'h inline_state \<Rightarrow> 'h inline_state" where
  "cancel_one cfg cid p s =
     (let d = no_decision (ic_cancelled cfg);
          s1 = start_report (pi_conversation p) (pi_block p) cid d None (s\<lparr>it_answers := it_answers s @ [(pi_waiter p, d)]\<rparr>);
          s2 = set_call (pi_block p) cid [ItemStatus CallRejected, ItemResult (Some (ic_cancelled cfg))] s1
      in s2\<lparr>it_pending := rdel cid (it_pending s2)\<rparr>)"

definition cancelPendingInlineTools :: "inline_config \<Rightarrow> string option \<Rightarrow> 'h inline_state \<Rightarrow> 'h inline_state" where
  "cancelPendingInlineTools cfg bid s =
     (let hit = filter (\<lambda>(cid, p). \<not> truthy bid \<or> pi_block p = the bid) (it_pending s)
      in snd (dismissOrphanInlineToolCalls cfg bid (fold (\<lambda>(cid, p). cancel_one cfg cid p) hit s)))"

definition tryApprovePendingShellAgentEnter :: "inline_config \<Rightarrow> string \<Rightarrow> 'h inline_state \<Rightarrow> bool \<times> 'h inline_state" where
  "tryApprovePendingShellAgentEnter cfg session s =
     (case find (\<lambda>(cid, p). pi_session p = session) (it_pending s) of
        None \<Rightarrow> (False, s)
      | Some (cid, p) \<Rightarrow> (True, approveInlineTerminalTool cfg (pi_block p) cid None s))"

definition cancelInlineToolByActionId :: "inline_config \<Rightarrow> 'h inline_state \<Rightarrow> 'h inline_state" where
  "cancelInlineToolByActionId cfg s = fold (\<lambda>(cid, p). rejectInlineTerminalTool cfg (pi_block p) cid) (it_pending s) s"

section \<open>Runs\<close>

text \<open>
  \<open>Approve\<close> and \<open>Enter\<close> are the user's; a microtask is what a call that needs no approval queues. Other parts of
  the program may change the block store at any time.
\<close>

datatype 'h inline_op =
    Dispatch tool_request
  | CreateCall int tool_request
  | RunMicrotask nat
  | Approve string string "string option"
  | Enter string
  | Reject string string
  | CancelPending "string option"
  | CancelAction
  | SweepOrphans "string option"
  | Launch nat
  | PrepareFails nat string
  | ExecutionEnds nat outcome
  | ReportDecision nat
  | DeliveryEnds int nat "string option"
  | OtherBlocks "'h blocks_op"

definition run_microtask :: "inline_config \<Rightarrow> nat \<Rightarrow> 'h inline_state \<Rightarrow> 'h inline_state" where
  "run_microtask cfg n s =
     (if n < length (it_microtasks s)
      then (let (bid, cid) = it_microtasks s ! n
            in approveInlineTerminalTool cfg bid cid None
                 (s\<lparr>it_microtasks := take n (it_microtasks s) @ drop (Suc n) (it_microtasks s)\<rparr>))
      else s)"

fun inline_step :: "inline_config \<Rightarrow> 'h inline_op \<Rightarrow> 'h inline_state \<Rightarrow> 'h inline_state" where
  "inline_step cfg (Dispatch q) s = dispatchInlineTerminalPendingTool cfg q s"
| "inline_step cfg (CreateCall now q) s = createInlineTerminalToolCall cfg now q s"
| "inline_step cfg (RunMicrotask n) s = run_microtask cfg n s"
| "inline_step cfg (Approve bid cid override) s = approveInlineTerminalTool cfg bid cid override s"
| "inline_step cfg (Enter session) s = snd (tryApprovePendingShellAgentEnter cfg session s)"
| "inline_step cfg (Reject bid cid) s = rejectInlineTerminalTool cfg bid cid s"
| "inline_step cfg (CancelPending bid) s = cancelPendingInlineTools cfg bid s"
| "inline_step cfg CancelAction s = cancelInlineToolByActionId cfg s"
| "inline_step cfg (SweepOrphans bid) s = snd (dismissOrphanInlineToolCalls cfg bid s)"
| "inline_step cfg (Launch n) s = launch n s"
| "inline_step cfg (PrepareFails n msg) s = prepare_fails n msg s"
| "inline_step cfg (ExecutionEnds n r) s = execution_ends n r s"
| "inline_step cfg (ReportDecision n) s = report_decision n s"
| "inline_step cfg (DeliveryEnds now n failure) s = delivery_ends now n failure s"
| "inline_step cfg (OtherBlocks a) s = s\<lparr>it_blocks := blocks_step a (it_blocks s)\<rparr>"

section \<open>Nobody is forgotten\<close>

text \<open>
  Who waits: code whose call is in the table, or whose answer follows a report on its way. A call that is being
  approved, and whose report is not under way, is in the set of calls that no second approval may touch.
\<close>

definition answered :: "'h inline_state \<Rightarrow> nat \<Rightarrow> bool" where
  "answered s k \<longleftrightarrow> (\<exists>x. (k, x) \<in> set (it_answers s))"

definition due :: "'h inline_state \<Rightarrow> nat \<Rightarrow> bool" where
  "due s k \<longleftrightarrow> (\<exists>d \<in> set (it_deliveries s). \<exists>x. dl_then d = Some (k, x))"

definition waiting :: "'h inline_state \<Rightarrow> nat \<Rightarrow> bool" where
  "waiting s k \<longleftrightarrow> (\<exists>c p. rget (it_pending s) c = Some p \<and> pi_waiter p = k)"

definition reported :: "'h inline_state \<Rightarrow> decision \<Rightarrow> bool" where
  "reported s x \<longleftrightarrow> (\<exists>r \<in> set (it_reports s). rp_result r = de_result x \<and> rp_approved r = de_approved x)"

definition busy :: "'h inline_state \<Rightarrow> string list" where
  "busy s = map av_call (it_approvals s) @ map dl_call (filter (\<lambda>d. dl_then d \<noteq> None) (it_deliveries s))"

definition busy_ok :: "'h inline_state \<Rightarrow> bool" where
  "busy_ok s \<longleftrightarrow> distinct (it_approving s) \<and> mset (it_approving s) = mset (busy s)"

definition waiters_ok :: "'h inline_state \<Rightarrow> bool" where
  "waiters_ok s \<longleftrightarrow> (\<forall>k < it_waiters s. answered s k \<or> due s k \<or> waiting s k)"

definition approvals_ok :: "string set \<Rightarrow> 'h inline_state \<Rightarrow> bool" where
  "approvals_ok D s \<longleftrightarrow>
     rwf (it_pending s) \<and> (\<forall>c p. rget (it_pending s) c = Some p \<longrightarrow> c \<in> D)
     \<and> (\<forall>a \<in> set (it_approvals s). \<forall>p. av_pending a = Some p \<longrightarrow>
          av_call a \<in> D \<and> (rget (it_pending s) (av_call a) = Some p \<or> rget (it_pending s) (av_call a) = None \<and> answered s (pi_waiter p)))"

definition answers_ok :: "'h inline_state \<Rightarrow> bool" where
  "answers_ok s \<longleftrightarrow> (\<forall>(k, x) \<in> set (it_answers s). reported s x)
     \<and> (\<forall>d \<in> set (it_deliveries s). \<forall>k x. dl_then d = Some (k, x) \<longrightarrow> reported s x)"

definition inline_inv :: "string set \<Rightarrow> 'h inline_state \<Rightarrow> bool" where
  "inline_inv D s \<longleftrightarrow> busy_ok s \<and> waiters_ok s \<and> approvals_ok D s \<and> answers_ok s"

lemmas inline_parts = busy_ok_def waiters_ok_def approvals_ok_def answers_ok_def

text \<open>The invariant looks at these parts of a state only.\<close>

definition same_control :: "'h inline_state \<Rightarrow> 'h inline_state \<Rightarrow> bool" where
  "same_control s t \<longleftrightarrow> it_pending t = it_pending s \<and> it_approving t = it_approving s \<and> it_deliveries t = it_deliveries s
     \<and> it_waiters t = it_waiters s \<and> it_answers t = it_answers s \<and> it_reports t = it_reports s
     \<and> map (\<lambda>a. (av_call a, av_pending a)) (it_approvals t) = map (\<lambda>a. (av_call a, av_pending a)) (it_approvals s)"

lemma inv_same:
  assumes "same_control s t" "inline_inv D s"
  shows "inline_inv D t"
proof -
  have eq: "it_pending t = it_pending s" "it_approving t = it_approving s" "it_deliveries t = it_deliveries s"
    "it_waiters t = it_waiters s" "it_answers t = it_answers s" "it_reports t = it_reports s"
    and m: "map (\<lambda>a. (av_call a, av_pending a)) (it_approvals t) = map (\<lambda>a. (av_call a, av_pending a)) (it_approvals s)"
    using assms(1) by (simp_all add: same_control_def)
  have calls: "map av_call (it_approvals t) = map av_call (it_approvals s)"
    using arg_cong [OF m, of "map fst"] by (simp add: comp_def)
  have "\<exists>b \<in> set (it_approvals s). av_call b = av_call a \<and> av_pending b = av_pending a" if "a \<in> set (it_approvals t)" for a
  proof -
    have "(av_call a, av_pending a) \<in> (\<lambda>a. (av_call a, av_pending a)) ` set (it_approvals s)"
      using arg_cong [OF m, of set] that by (metis (no_types, lifting) image_eqI set_map)
    then show ?thesis by auto
  qed
  then have "approvals_ok D t" using assms(2) unfolding inline_inv_def approvals_ok_def answered_def eq by metis
  then show ?thesis using assms(2) calls
    by (simp add: inline_inv_def busy_ok_def busy_def waiters_ok_def answers_ok_def answered_def due_def waiting_def reported_def eq)
qed

lemma same_blocks: "same_control s (s\<lparr>it_blocks := b\<rparr>)"
  by (simp add: same_control_def)

lemma same_control_trans: "same_control s t \<Longrightarrow> same_control t u \<Longrightarrow> same_control s u"
  by (simp add: same_control_def)

text \<open>Dismissing touches the block store only.\<close>

definition blocks_only :: "'h inline_state \<Rightarrow> 'h inline_state \<Rightarrow> bool" where
  "blocks_only s t \<longleftrightarrow> (\<exists>b. t = s\<lparr>it_blocks := b\<rparr>)"

lemma blocks_only_refl [simp]: "blocks_only s s"
  by (simp add: blocks_only_def exI [of _ "it_blocks s"])

lemma blocks_only_trans: "blocks_only s t \<Longrightarrow> blocks_only t u \<Longrightarrow> blocks_only s u"
  by (auto simp: blocks_only_def)

lemma blocks_only_set_call [simp]: "blocks_only s (set_call bid cid p s)"
  by (auto simp: blocks_only_def set_call_def)

lemma blocks_only_dismiss [simp]: "blocks_only s (snd (dismissStaleInlineToolCall bid cid st r s))"
  by (simp add: dismissStaleInlineToolCall_def split: option.split)

lemma blocks_only_sweep [simp]: "blocks_only s (snd (dismissOrphanInlineToolCalls cfg bid s))"
proof -
  have "blocks_only s (snd (fold (\<lambda>(b, c) (n, s). let (hit, t) = dismissStaleInlineToolCall b c CallRejected m s
      in (if hit then Suc n else n, t)) vs (n, s)))" for vs m and n :: nat
  proof (induction vs arbitrary: n s)
    case (Cons v vs)
    obtain b c where v: "v = (b, c)" by (cases v)
    obtain hit t where t: "dismissStaleInlineToolCall b c CallRejected m s = (hit, t)" by fastforce
    then have "blocks_only s t" using blocks_only_dismiss [of s b c CallRejected m] by simp
    moreover note Cons.IH [of t "if hit then Suc n else n"]
    ultimately show ?case unfolding v fold_Cons comp_def prod.case t Let_def by (rule blocks_only_trans)
  qed simp
  then show ?thesis by (simp add: dismissOrphanInlineToolCalls_def Let_def)
qed

lemma inv_blocks_only: "blocks_only s t \<Longrightarrow> inline_inv D s \<Longrightarrow> inline_inv D t"
  using inv_same [OF same_blocks] by (auto simp: blocks_only_def)

subsection \<open>What each step does to the control state\<close>

lemma inv_start_approval:
  assumes "inline_inv D s" "cid \<notin> set (it_approving s)" "\<And>p. pend = Some p \<Longrightarrow> rget (it_pending s) cid = Some p"
  shows "inline_inv D (start_approval bid cid session command pend s)"
proof -
  let ?t = "start_approval bid cid session command pend s"
  have t: "it_pending ?t = it_pending s" "it_approving ?t = it_approving s @ [cid]" "it_deliveries ?t = it_deliveries s"
    "it_waiters ?t = it_waiters s" "it_answers ?t = it_answers s" "it_reports ?t = it_reports s"
    "\<exists>a. it_approvals ?t = it_approvals s @ [a] \<and> av_call a = cid \<and> av_pending a = pend"
    by (simp_all add: start_approval_def set_call_def)
  have "busy_ok ?t" using assms(1,2) t(7) by (auto simp: inline_inv_def busy_ok_def busy_def t(2,3))
  moreover have "approvals_ok D ?t"
  proof -
    obtain a where a: "set (it_approvals ?t) = insert a (set (it_approvals s))" "av_call a = cid" "av_pending a = pend"
      using t(7) by fastforce
    have "approvals_ok D s" using assms(1) by (simp add: inline_inv_def)
    then show ?thesis using assms(3) a(2,3) unfolding approvals_ok_def answered_def t(1,5) a(1) by blast
  qed
  ultimately show ?thesis using assms(1)
    by (simp add: inline_inv_def waiters_ok_def answers_ok_def answered_def due_def waiting_def reported_def t(1,3-6))
qed

lemma waiting_rdel:
  assumes "waiting s k" "it_pending t = rdel cid (it_pending s)"
  shows "waiting t k \<or> (\<exists>q. rget (it_pending s) cid = Some q \<and> pi_waiter q = k)"
proof -
  obtain c q where q: "rget (it_pending s) c = Some q" "pi_waiter q = k" using assms(1) by (auto simp: waiting_def)
  show ?thesis
  proof (cases "c = cid")
    case False
    then have "rget (it_pending t) c = Some q" using q(1) by (simp add: assms(2) store_simps)
    then show ?thesis using q(2) unfolding waiting_def by blast
  qed (use q in auto)
qed

lemma inv_answer:
  assumes "inline_inv D s" "rget (it_pending s) cid = Some p"
    and t: "it_pending t = rdel cid (it_pending s)" "it_approving t = it_approving s"
      "\<exists>d. it_deliveries t = it_deliveries s @ [d] \<and> dl_then d = None" "it_waiters t = it_waiters s"
      "it_answers t = it_answers s @ [(pi_waiter p, x)]"
      "\<exists>r. it_reports t = it_reports s @ [r] \<and> rp_result r = de_result x \<and> rp_approved r = de_approved x"
      "it_approvals t = it_approvals s"
  shows "inline_inv D t"
proof -
  have ans: "answered t k \<longleftrightarrow> answered s k \<or> k = pi_waiter p" for k by (auto simp: answered_def t(5))
  from t(3) obtain d where d: "it_deliveries t = it_deliveries s @ [d]" "dl_then d = None" by blast
  then have due: "due t k \<longleftrightarrow> due s k" for k by (simp add: due_def)
  have wait: "waiting s k \<Longrightarrow> waiting t k \<or> k = pi_waiter p" for k
    using waiting_rdel [OF _ t(1)] assms(2) by fastforce
  have rep: "reported s y \<Longrightarrow> reported t y" and repx: "reported t x" for y using t(6) by (auto simp: reported_def)
  have "busy_ok t" using assms(1) t(3) by (auto simp: inline_inv_def busy_ok_def busy_def t(2,7))
  moreover have "waiters_ok t" using assms(1) wait by (auto simp: inline_inv_def waiters_ok_def ans due t(4))
  moreover have "approvals_ok D t"
    using assms(1,2) by (auto simp: inline_inv_def approvals_ok_def ans t(1,7) store_simps split: if_splits)
  moreover have "answers_ok t"
    using assms(1) rep repx t(3) by (auto simp: inline_inv_def answers_ok_def t(5))
  ultimately show ?thesis by (simp add: inline_inv_def)
qed

lemma inv_drop_approval:
  assumes "inline_inv D s" "n < length (it_approvals s)"
  shows "inline_inv D (release (av_call (it_approvals s ! n)) (end_approval n s))"
proof -
  let ?a = "it_approvals s ! n" and ?t = "release (av_call (it_approvals s ! n)) (end_approval n s)"
  have split: "it_approvals s = take n (it_approvals s) @ ?a # drop (Suc n) (it_approvals s)"
    using assms(2) by (rule id_take_nth_drop)
  have t: "it_approvals ?t = take n (it_approvals s) @ drop (Suc n) (it_approvals s)"
    "it_approving ?t = remove1 (av_call ?a) (it_approving s)"
    using assms(1) by (simp_all add: release_def end_approval_def inline_inv_def busy_ok_def distinct_remove1_removeAll removeAll_filter_not_eq eq_commute)
  have "mset (busy s) = add_mset (av_call ?a) (mset (busy ?t))"
    unfolding busy_def t by (subst split) (simp add: release_def end_approval_def)
  then have busy: "busy_ok ?t" using assms(1) by (simp add: inline_inv_def busy_ok_def t(2))
  have "set (it_approvals ?t) \<subseteq> set (it_approvals s)" unfolding t by (auto dest: in_set_takeD in_set_dropD)
  moreover have eq: "it_pending ?t = it_pending s" "it_answers ?t = it_answers s" by (simp_all add: release_def end_approval_def)
  ultimately have "approvals_ok D ?t" using assms(1) unfolding inline_inv_def approvals_ok_def answered_def eq by blast
  with busy show ?thesis using assms(1)
    by (simp add: inline_inv_def waiters_ok_def answers_ok_def answered_def due_def waiting_def reported_def release_def end_approval_def)
qed

text \<open>A report that the answer follows: the call stays in the set until the report has ended.\<close>

lemma inv_report_then:
  assumes "inline_inv D s"
    and only: "\<And>q. rget (it_pending s) cid = Some q \<Longrightarrow> q = p"
    and others: "\<And>a q. a \<in> set (it_approvals t) \<Longrightarrow> av_pending a = Some q \<Longrightarrow> av_call a \<noteq> cid"
    and t: "it_pending t = rdel cid (it_pending s)"
      "\<exists>d. it_deliveries t = it_deliveries s @ [d] \<and> dl_call d = cid \<and> dl_then d = Some (pi_waiter p, x)"
      "it_waiters t = it_waiters s" "it_answers t = it_answers s"
      "\<exists>r. it_reports t = it_reports s @ [r] \<and> rp_result r = de_result x \<and> rp_approved r = de_approved x"
      "set (it_approvals t) \<subseteq> set (it_approvals s)" "busy_ok t"
  shows "inline_inv D t"
proof -
  have ans: "answered t k \<longleftrightarrow> answered s k" for k by (simp add: answered_def t(4))
  from t(2) obtain d where d: "it_deliveries t = it_deliveries s @ [d]" "dl_then d = Some (pi_waiter p, x)" by blast
  then have due: "due t k \<longleftrightarrow> k = pi_waiter p \<or> due s k" for k by (auto simp: due_def)
  have wait: "waiting s k \<Longrightarrow> waiting t k \<or> k = pi_waiter p" for k
    using waiting_rdel [OF _ t(1)] only by fastforce
  have rep: "reported s y \<Longrightarrow> reported t y" and repx: "reported t x" for y using t(5) by (auto simp: reported_def)
  have "waiters_ok t" using assms(1) wait by (auto simp: inline_inv_def waiters_ok_def ans due t(3))
  moreover have "approvals_ok D t"
    using assms(1) others t(6) by (auto simp: inline_inv_def approvals_ok_def ans t(1) store_simps) blast+
  moreover have "answers_ok t"
    using assms(1) rep repx t(2) by (auto simp: inline_inv_def answers_ok_def t(4))
  ultimately show ?thesis using t(7) by (simp add: inline_inv_def)
qed

subsection \<open>Every step keeps the invariant\<close>

lemma inv_dispatch:
  assumes "inline_inv D s" "tq_call q \<notin> D"
  shows "inline_inv (insert (tq_call q) D) (dispatchInlineTerminalPendingTool cfg q s)"
proof -
  let ?c = "tq_call q" and ?t = "dispatchInlineTerminalPendingTool cfg q s"
  obtain p where t: "it_pending ?t = rput ?c p (it_pending s)" "pi_waiter p = it_waiters s" "it_waiters ?t = Suc (it_waiters s)"
    "it_approving ?t = it_approving s" "it_deliveries ?t = it_deliveries s" "it_answers ?t = it_answers s"
    "it_reports ?t = it_reports s" "it_approvals ?t = it_approvals s"
    by (simp add: dispatchInlineTerminalPendingTool_def waitForInlineToolDecision_def Let_def set_call_def)
  have ok: "approvals_ok D s" using assms(1) by (simp add: inline_inv_def)
  then have new: "rget (it_pending s) ?c = None" using assms(2) unfolding approvals_ok_def by (metis not_Some_eq)
  have wait: "waiting s k \<Longrightarrow> waiting ?t k" "waiting ?t (it_waiters s)" for k
  proof -
    have "rget (it_pending ?t) ?c = Some p" by (simp add: t(1) store_simps)
    then show "waiting ?t (it_waiters s)" using t(2) unfolding waiting_def by blast
    assume "waiting s k"
    then obtain c' q' where q': "rget (it_pending s) c' = Some q'" "pi_waiter q' = k" by (auto simp: waiting_def)
    then have "rget (it_pending ?t) c' = Some q'" using new by (auto simp: t(1) store_simps)
    then show "waiting ?t k" using q'(2) unfolding waiting_def by blast
  qed
  have "waiters_ok ?t"
    unfolding waiters_ok_def t(3)
  proof (intro allI impI)
    fix k assume "k < Suc (it_waiters s)"
    then consider "k = it_waiters s" | "k < it_waiters s" by linarith
    then show "answered ?t k \<or> due ?t k \<or> waiting ?t k"
      using wait assms(1) by cases (auto simp: inline_inv_def waiters_ok_def answered_def due_def t(5,6))
  qed
  moreover have "approvals_ok (insert ?c D) ?t"
    unfolding approvals_ok_def
  proof (intro conjI allI ballI impI)
    show "rwf (it_pending ?t)" using ok unfolding approvals_ok_def t(1) by blast
    show "c \<in> insert ?c D" if "rget (it_pending ?t) c = Some p'" for c p'
      using that ok unfolding approvals_ok_def t(1) by (auto simp: store_simps split: if_splits)
    fix a p' assume a: "a \<in> set (it_approvals ?t)" "av_pending a = Some p'"
    then have d: "av_call a \<in> D" and old: "rget (it_pending s) (av_call a) = Some p' \<or> rget (it_pending s) (av_call a) = None \<and> answered s (pi_waiter p')"
      using ok unfolding approvals_ok_def t(8) by blast+
    show "av_call a \<in> insert ?c D" using d by simp
    have "av_call a \<noteq> ?c" using d assms(2) by metis
    then show "rget (it_pending ?t) (av_call a) = Some p' \<or> rget (it_pending ?t) (av_call a) = None \<and> answered ?t (pi_waiter p')"
      using old by (simp add: t(1,6) store_simps answered_def)
  qed
  ultimately show ?thesis using assms(1)
    by (simp add: inline_inv_def busy_ok_def busy_def answers_ok_def reported_def t(4-8))
qed

lemma busy_call:
  assumes "inline_inv D s" "a \<in> set (it_approvals s)"
  shows "av_call a \<in> set (it_approving s)"
proof -
  have "mset (it_approving s) = mset (busy s)" using assms(1) by (simp add: inline_inv_def busy_ok_def)
  then have "set (it_approving s) = set (busy s)" by (rule mset_eq_setD)
  with assms(2) show ?thesis by (simp add: busy_def)
qed

lemma distinct_busy: "inline_inv D s \<Longrightarrow> distinct (map av_call (it_approvals s))"
proof -
  assume "inline_inv D s"
  then have "distinct (busy s)" unfolding inline_inv_def busy_ok_def by (metis mset_eq_imp_distinct_iff)
  then show ?thesis by (simp add: busy_def)
qed

lemma stale_approval:
  "blocks_only s (approveStaleInlineToolCall cfg bid cid override s)
   \<or> (\<exists>session command. \<not> severe (checkCommand command None) \<and> js_trim command = command
        \<and> approveStaleInlineToolCall cfg bid cid override s = start_approval bid cid session command None s)"
proof (cases "findToolCallItem bid cid (it_blocks s)")
  case (Some item)
  define session where "session = (case findBlockById bid (it_blocks s) of None \<Rightarrow> '''' | Some b \<Rightarrow> b_sessionId b)"
  define command where "command = js_trim (case override of Some c \<Rightarrow> c
    | None \<Rightarrow> (case tt_command item of Some c \<Rightarrow> c | None \<Rightarrow> parseTerminalExecCommand cfg (tt_args item)))"
  have "approveStaleInlineToolCall cfg bid cid override s =
     (if \<not> open_status (tt_status item) then s
      else if session = '''' \<or> command = '''' then snd (dismissStaleInlineToolCall bid cid CallFailed (ic_stale cfg) s)
      else if severe (checkCommand command None)
      then snd (dismissStaleInlineToolCall bid cid CallRejected (ic_tooDangerous cfg (dc_level (checkCommand command None))) s)
      else start_approval bid cid session command None s)"
    unfolding approveStaleInlineToolCall_def Some option.case Let_def session_def command_def by (rule refl)
  moreover have "js_trim command = command" by (simp add: command_def)
  ultimately show ?thesis by auto
qed (simp add: approveStaleInlineToolCall_def)

lemma inv_stale:
  assumes "inline_inv D s" "cid \<notin> set (it_approving s)"
  shows "inline_inv D (approveStaleInlineToolCall cfg bid cid override s)"
  using stale_approval [of s cfg bid cid override] inv_blocks_only [OF _ assms(1)] inv_start_approval [OF assms, of None]
  by auto

lemma inv_approve:
  assumes "inline_inv D s"
  shows "inline_inv D (approveInlineTerminalTool cfg bid cid override s)"
proof -
  let ?t = "approveInlineTerminalTool cfg bid cid override s"
  consider "cid \<in> set (it_approving s)"
    | "cid \<notin> set (it_approving s)" "\<not> (\<exists>p. rget (it_pending s) cid = Some p \<and> pi_block p = bid)"
    | p where "cid \<notin> set (it_approving s)" "rget (it_pending s) cid = Some p" "pi_block p = bid"
    by blast
  then show ?thesis
  proof cases
    case 1
    then show ?thesis using assms by (simp add: approveInlineTerminalTool_def)
  next
    case 2
    then have "?t = approveStaleInlineToolCall cfg bid cid override s"
      by (auto simp: approveInlineTerminalTool_def split: option.split)
    then show ?thesis using inv_stale [OF assms 2(1)] by simp
  next
    case 3
    define command where "command = js_trim (case override of Some c \<Rightarrow> c | None \<Rightarrow> pi_command p)"
    show ?thesis
    proof (cases "command = ''''")
      case True
      let ?d = "no_decision (ic_noCommand cfg)"
      have t: "it_pending ?t = rdel cid (it_pending s)" "it_approving ?t = it_approving s @ [cid]"
        "it_deliveries ?t = it_deliveries s @ [\<lparr> dl_call = cid, dl_block = bid, dl_then = Some (pi_waiter p, ?d) \<rparr>]"
        "it_waiters ?t = it_waiters s" "it_answers ?t = it_answers s"
        "\<exists>r. it_reports ?t = it_reports s @ [r] \<and> rp_result r = de_result ?d \<and> rp_approved r = de_approved ?d"
        "it_approvals ?t = it_approvals s"
        using 3 True by (simp_all add: approveInlineTerminalTool_def command_def Let_def start_report_def set_call_def)
      have "busy_ok ?t" using assms 3(1) by (simp add: inline_inv_def busy_ok_def busy_def t(2,3,7))
      then show ?thesis
        using busy_call [OF assms] 3(1,2) by (intro inv_report_then [OF assms, of cid p ?t ?d]) (auto simp: t)
    next
      case False
      then have "?t = start_approval bid cid (pi_session p) command (Some p) s"
        using 3 by (simp add: approveInlineTerminalTool_def command_def Let_def)
      moreover have "inline_inv D (start_approval bid cid (pi_session p) command (Some p) s)"
        by (rule inv_start_approval [OF assms 3(1)]) (use 3(2) in simp)
      ultimately show ?thesis by simp
    qed
  qed
qed

lemma inv_reject:
  assumes "inline_inv D s"
  shows "inline_inv D (rejectInlineTerminalTool cfg bid cid s)"
proof (cases "\<exists>p. rget (it_pending s) cid = Some p \<and> pi_block p = bid")
  case True
  then obtain p where p: "rget (it_pending s) cid = Some p" "pi_block p = bid" by blast
  then show ?thesis
    by (intro inv_answer [OF assms p(1), where x = "no_decision (ic_rejected cfg)"])
      (simp_all add: rejectInlineTerminalTool_def Let_def start_report_def set_call_def)
next
  case False
  then have "rejectInlineTerminalTool cfg bid cid s = snd (dismissStaleInlineToolCall bid cid CallRejected (ic_stale cfg) s)"
    by (auto simp: rejectInlineTerminalTool_def Let_def split: option.split)
  then show ?thesis using inv_blocks_only [OF blocks_only_dismiss assms] by simp
qed

lemma inv_cancel_one:
  assumes "inline_inv D s" "rget (it_pending s) cid = Some p"
  shows "inline_inv D (cancel_one cfg cid p s)"
  by (rule inv_answer [OF assms, where x = "no_decision (ic_cancelled cfg)"])
    (simp_all add: cancel_one_def Let_def start_report_def set_call_def)

lemma inv_cancel_fold:
  "inline_inv D s \<Longrightarrow> distinct (map fst r) \<Longrightarrow> (\<forall>(c, p) \<in> set r. rget (it_pending s) c = Some p)
    \<Longrightarrow> inline_inv D (fold (\<lambda>(c, p). cancel_one cfg c p) r s)"
proof (induction r arbitrary: s)
  case (Cons e r)
  obtain c p where e: "e = (c, p)" by (cases e)
  have pend: "it_pending (cancel_one cfg c p s) = rdel c (it_pending s)"
    by (simp add: cancel_one_def Let_def start_report_def set_call_def)
  have "\<forall>(c', p') \<in> set r. rget (it_pending (cancel_one cfg c p s)) c' = Some p'"
  proof (intro ballI case_prodI2)
    fix x c' p' assume x: "x \<in> set r" "x = (c', p')"
    then have "rget (it_pending s) c' = Some p'" using Cons.prems(3) by fastforce
    moreover have "c' \<in> fst ` set r" using x by force
    then have "c' \<noteq> c" using Cons.prems(2) by (auto simp: e)
    ultimately show "rget (it_pending (cancel_one cfg c p s)) c' = Some p'" by (simp add: pend store_simps)
  qed
  moreover have "inline_inv D (cancel_one cfg c p s)" using Cons.prems(1,3) by (intro inv_cancel_one) (simp_all add: e)
  ultimately show ?case using Cons.IH Cons.prems(2) by (simp add: e)
qed simp

lemma inv_cancel:
  assumes "inline_inv D s"
  shows "inline_inv D (cancelPendingInlineTools cfg bid s)"
proof -
  let ?hit = "filter (\<lambda>(cid, p). \<not> truthy bid \<or> pi_block p = the bid) (it_pending s)"
  have wf: "rwf (it_pending s)" using assms by (simp add: inline_inv_def approvals_ok_def)
  then have "distinct (map fst ?hit)" by (simp add: distinct_map_filter)
  moreover have "\<forall>(c, p) \<in> set ?hit. rget (it_pending s) c = Some p" using wf by auto
  ultimately have "inline_inv D (fold (\<lambda>(c, p). cancel_one cfg c p) ?hit s)" by (rule inv_cancel_fold [OF assms])
  then show ?thesis unfolding cancelPendingInlineTools_def Let_def by (rule inv_blocks_only [OF blocks_only_sweep])
qed

lemma inv_cancel_action:
  assumes "inline_inv D s"
  shows "inline_inv D (cancelInlineToolByActionId cfg s)"
proof -
  have "inline_inv D t \<Longrightarrow> inline_inv D (fold (\<lambda>(c, p). rejectInlineTerminalTool cfg (pi_block p) c) r t)" for r t
    by (induction r arbitrary: t) (auto intro: inv_reject)
  with assms show ?thesis by (simp add: cancelInlineToolByActionId_def)
qed

lemma same_stage: "n < length (it_approvals s) \<Longrightarrow> same_control s (set_stage n st s)"
  by (simp add: same_control_def set_stage_def map_update) (metis (no_types, lifting) list_update_id nth_map)

lemma inv_launch: "inline_inv D s \<Longrightarrow> inline_inv D (launch n s)"
proof -
  assume s: "inline_inv D s"
  show ?thesis
  proof (cases "n < length (it_approvals s) \<and> av_stage (it_approvals s ! n) = Preparing")
    case True
    then have "same_control s (launch n s)"
      using same_stage [of n s Executing] by (simp add: launch_def Let_def same_control_def)
    then show ?thesis using s by (rule inv_same)
  qed (use s in \<open>simp only: launch_def if_False\<close>)
qed

lemma inv_prepare_fails:
  assumes "inline_inv D s"
  shows "inline_inv D (prepare_fails n msg s)"
proof (cases "n < length (it_approvals s) \<and> av_stage (it_approvals s ! n) = Preparing")
  case True
  then have "inline_inv D (release (av_call (it_approvals s ! n)) (end_approval n s))"
    using inv_drop_approval [OF assms] by blast
  with inv_blocks_only [OF blocks_only_set_call this] True show ?thesis by (simp add: prepare_fails_def Let_def)
qed (use assms in \<open>simp only: prepare_fails_def if_False\<close>)

lemma inv_execution_ends: "inline_inv D s \<Longrightarrow> inline_inv D (execution_ends n r s)"
proof -
  assume s: "inline_inv D s"
  show ?thesis
  proof (cases "n < length (it_approvals s) \<and> av_stage (it_approvals s ! n) = Executing")
    case True
    let ?a = "it_approvals s ! n"
    define t where "t = set_call (av_block ?a) (av_call ?a) (outcome_patch (ai_may_run (av_command ?a)) r) s"
    have t: "inline_inv D t" "it_approvals t = it_approvals s"
      using inv_blocks_only [OF blocks_only_set_call s] by (simp_all add: t_def set_call_def)
    then have "inline_inv D (release (av_call ?a) (end_approval n t))"
      using inv_drop_approval [OF t(1), of n] True by simp
    moreover have "inline_inv D (set_stage n st t)" for st
      using inv_same [OF same_stage t(1)] True t(2) by simp
    ultimately show ?thesis using True by (simp add: execution_ends_def Let_def t_def)
  qed (use s in \<open>simp only: execution_ends_def if_False\<close>)
qed

lemma inv_report_decision: "inline_inv D s \<Longrightarrow> inline_inv D (report_decision n s)"
proof -
  assume s: "inline_inv D s"
  show ?thesis
  proof (cases "n < length (it_approvals s) \<and> (\<exists>p d. av_pending (it_approvals s ! n) = Some p \<and> av_stage (it_approvals s ! n) = Decided d)")
    case True
    let ?a = "it_approvals s ! n" and ?t = "report_decision n s"
    obtain p d where a: "n < length (it_approvals s)" "av_pending ?a = Some p" "av_stage ?a = Decided d" using True by blast
    have split: "it_approvals s = take n (it_approvals s) @ ?a # drop (Suc n) (it_approvals s)"
      using a(1) by (rule id_take_nth_drop)
    have t: "it_pending ?t = rdel (av_call ?a) (it_pending s)" "it_approving ?t = it_approving s"
      "it_deliveries ?t = it_deliveries s @ [\<lparr> dl_call = av_call ?a, dl_block = av_block ?a, dl_then = Some (pi_waiter p, d) \<rparr>]"
      "it_waiters ?t = it_waiters s" "it_answers ?t = it_answers s"
      "\<exists>r. it_reports ?t = it_reports s @ [r] \<and> rp_result r = de_result d \<and> rp_approved r = de_approved d"
      "it_approvals ?t = take n (it_approvals s) @ drop (Suc n) (it_approvals s)"
      using a by (simp_all add: report_decision_def Let_def start_report_def end_approval_def)
    have "mset (busy ?t) = mset (busy s)" unfolding busy_def t(3,7) by (subst (3) split) simp
    then have busy: "busy_ok ?t" using s by (simp add: inline_inv_def busy_ok_def t(2))
    have sub: "set (it_approvals ?t) \<subseteq> set (it_approvals s)" unfolding t(7) by (auto dest: in_set_takeD in_set_dropD)
    have "distinct (map av_call (take n (it_approvals s) @ ?a # drop (Suc n) (it_approvals s)))"
      using distinct_busy [OF s] split by simp
    then have others: "av_call b \<noteq> av_call ?a" if "b \<in> set (it_approvals ?t)" for b
      using that unfolding t(7) by (auto simp del: take_map drop_map) (metis image_eqI)+
    have "?a \<in> set (it_approvals s)" using a(1) by simp
    then have "rget (it_pending s) (av_call ?a) = Some p \<or> rget (it_pending s) (av_call ?a) = None"
      using s a(2) by (auto simp: inline_inv_def approvals_ok_def)
    then show ?thesis using others sub busy
      by (intro inv_report_then [OF s, of "av_call ?a" p ?t d]) (auto simp: t(1-6))
  next
    case False
    then have "report_decision n s = s"
      by (auto simp: report_decision_def Let_def split: option.split stage.split)
    then show ?thesis using s by simp
  qed
qed

lemma inv_delivery_ends:
  assumes "inline_inv D s"
  shows "inline_inv D (delivery_ends now n failure s)"
proof (cases "n < length (it_deliveries s)")
  case True
  let ?d = "it_deliveries s ! n" and ?t = "delivery_ends now n failure s"
  have split: "it_deliveries s = take n (it_deliveries s) @ ?d # drop (Suc n) (it_deliveries s)"
    using True by (rule id_take_nth_drop)
  have t: "it_pending ?t = it_pending s" "it_approvals ?t = it_approvals s" "it_waiters ?t = it_waiters s"
    "it_deliveries ?t = take n (it_deliveries s) @ drop (Suc n) (it_deliveries s)" "it_reports ?t = it_reports s"
    "it_answers ?t = it_answers s @ (case dl_then ?d of None \<Rightarrow> [] | Some x \<Rightarrow> [x])"
    "it_approving ?t = (case dl_then ?d of None \<Rightarrow> it_approving s | Some _ \<Rightarrow> filter (\<lambda>c. c \<noteq> dl_call ?d) (it_approving s))"
    using True by (simp_all add: delivery_ends_def Let_def split: option.split)
  have din: "set (it_deliveries s) = insert ?d (set (it_deliveries ?t))" unfolding t(4) by (subst split) simp
  have ans: "answered s k \<or> due s k \<Longrightarrow> answered ?t k \<or> due ?t k" for k
    unfolding answered_def due_def t(6) din by auto
  have mono: "answered s k \<Longrightarrow> answered ?t k" for k unfolding answered_def t(6) by auto
  have "waiters_ok ?t" using assms ans unfolding inline_inv_def waiters_ok_def waiting_def t(1,3) by blast
  moreover have "approvals_ok D ?t" using assms mono unfolding inline_inv_def approvals_ok_def t(1,2) by blast
  moreover have "answers_ok ?t"
  proof -
    have "reported ?t = reported s" by (simp add: fun_eq_iff reported_def t(5))
    moreover have "answers_ok s" using assms by (simp add: inline_inv_def)
    ultimately show ?thesis unfolding answers_ok_def t(6) din by (cases "dl_then ?d") auto
  qed
  moreover have "busy_ok ?t"
  proof -
    have b: "distinct (it_approving s)" "mset (it_approving s) = mset (busy s)" using assms by (simp_all add: inline_inv_def busy_ok_def)
    show ?thesis
    proof (cases "dl_then ?d")
      case None
      have "mset (busy ?t) = mset (busy s)" unfolding busy_def t(2,4) by (subst (3) split) (simp add: None)
      with b show ?thesis by (simp add: busy_ok_def t(7) None)
    next
      case (Some x)
      have "mset (busy s) = add_mset (dl_call ?d) (mset (busy ?t))" unfolding busy_def t(2,4) by (subst split) (simp add: Some)
      moreover have "it_approving ?t = remove1 (dl_call ?d) (it_approving s)"
        using b(1) by (simp add: t(7) Some distinct_remove1_removeAll removeAll_filter_not_eq eq_commute)
      ultimately show ?thesis using b by (simp add: busy_ok_def)
    qed
  qed
  ultimately show ?thesis by (simp add: inline_inv_def)
qed (simp add: delivery_ends_def assms)

subsection \<open>Runs\<close>

fun dispatched :: "'h inline_op \<Rightarrow> string list" where
  "dispatched (Dispatch q) = [tq_call q]"
| "dispatched _ = []"

definition calls_of :: "'h inline_op list \<Rightarrow> string list" where
  "calls_of ops = concat (map dispatched ops)"

lemma inv_inline_step:
  assumes "inline_inv D s" "set (dispatched a) \<inter> D = {}"
  shows "inline_inv (D \<union> set (dispatched a)) (inline_step cfg a s)"
proof (cases a)
  case (Dispatch q)
  with assms inv_dispatch [of D s q cfg] show ?thesis by simp
next
  case (RunMicrotask n)
  have "inline_inv D (s\<lparr>it_microtasks := m\<rparr>)" for m
    by (rule inv_same [OF _ assms(1)]) (simp add: same_control_def)
  then have "inline_inv D (run_microtask cfg n s)"
    using assms(1) by (auto simp: run_microtask_def split: prod.split intro: inv_approve)
  with RunMicrotask show ?thesis by simp
next
  case (Enter session)
  with assms(1) show ?thesis
    by (auto simp: tryApprovePendingShellAgentEnter_def intro: inv_approve split: option.split)
qed (use assms(1) in \<open>auto simp: createInlineTerminalToolCall_def Let_def intro: inv_approve inv_reject inv_cancel inv_cancel_action
      inv_launch inv_prepare_fails inv_execution_ends inv_report_decision inv_delivery_ends
      inv_blocks_only [OF blocks_only_sweep] inv_same [OF same_blocks]\<close>)

lemma inv_inline_run:
  assumes "inline_inv D s" "distinct (calls_of ops)" "set (calls_of ops) \<inter> D = {}"
  shows "inline_inv (D \<union> set (calls_of ops)) (fold (inline_step cfg) ops s)"
  using assms
proof (induction ops arbitrary: D s)
  case (Cons a ops)
  have "inline_inv (D \<union> set (dispatched a)) (inline_step cfg a s)"
    using Cons.prems(1,3) by (intro inv_inline_step) (auto simp: calls_of_def)
  moreover have "distinct (calls_of ops)" "set (calls_of ops) \<inter> (D \<union> set (dispatched a)) = {}"
    using Cons.prems(2,3) by (auto simp: calls_of_def)
  ultimately have "inline_inv (D \<union> set (dispatched a) \<union> set (calls_of ops)) (fold (inline_step cfg) ops (inline_step cfg a s))"
    by (rule Cons.IH)
  then show ?case by (simp add: calls_of_def Un_assoc)
qed (simp add: calls_of_def)

lemma inv_inline_init: "inline_inv {} (inline_init b)"
  by (simp add: inline_inv_def inline_parts inline_init_def busy_def)

lemma cancel_fold_pending: "it_pending (fold (\<lambda>(c, p). cancel_one cfg c p) r s) = fold rdel (map fst r) (it_pending s)"
proof (induction r arbitrary: s)
  case (Cons e r)
  then show ?case by (cases e) (simp add: cancel_one_def Let_def start_report_def set_call_def)
qed simp

lemma cancel_all_empties:
  assumes "rwf (it_pending s)"
  shows "it_pending (cancelPendingInlineTools cfg None s) = []"
proof -
  have none: "rget (fold rdel ks r) k = (if k \<in> set ks then None else rget r k)" for ks k and r :: "pending jrec"
    by (induction ks arbitrary: r) (simp_all add: store_simps)
  have f: "it_pending (cancelPendingInlineTools cfg None s) = fold rdel (map fst (it_pending s)) (it_pending s)"
    using blocks_only_sweep [of "fold (\<lambda>(c, p). cancel_one cfg c p) (it_pending s) s" cfg None]
    by (auto simp: cancelPendingInlineTools_def Let_def blocks_only_def cancel_fold_pending [unfolded case_prod_unfold] case_prod_unfold)
  have "rget (fold rdel (map fst (it_pending s)) (it_pending s)) k = None" for k
    unfolding none by (auto simp: map_of_eq_None_iff)
  then show ?thesis unfolding f by (metis list.exhaust map_of_Cons_code(2) option.distinct(1) surj_pair)
qed


section \<open>Nothing dangerous runs unasked\<close>

fun user_consents :: "'h inline_op \<Rightarrow> bool" where
  "user_consents (Approve bid cid override) = True"
| "user_consents (Enter session) = True"
| "user_consents _ = False"

abbreviation harmless :: "string \<Rightarrow> bool" where
  "harmless command \<equiv> \<not> severe (checkCommand command None)"

definition harmless_inv :: "string set \<Rightarrow> 'h inline_state \<Rightarrow> bool" where
  "harmless_inv D s \<longleftrightarrow>
     (\<forall>(b, c) \<in> set (it_microtasks s). c \<in> D \<and> (\<forall>p. rget (it_pending s) c = Some p \<longrightarrow> harmless (js_trim (pi_command p))))
     \<and> (\<forall>a \<in> set (it_approvals s). harmless (av_command a) \<and> js_trim (av_command a) = av_command a)
     \<and> (\<forall>e \<in> set (it_executed s). harmless (ex_command e))"

text \<open>A step that adds no call, no approval and no execution.\<close>

definition shrinks :: "'h inline_state \<Rightarrow> 'h inline_state \<Rightarrow> bool" where
  "shrinks s t \<longleftrightarrow> set (it_microtasks t) \<subseteq> set (it_microtasks s) \<and> it_executed t = it_executed s
     \<and> av_command ` set (it_approvals t) \<subseteq> av_command ` set (it_approvals s)
     \<and> (\<forall>c p. rget (it_pending t) c = Some p \<longrightarrow> rget (it_pending s) c = Some p)"

lemma shrinks_refl [simp]: "shrinks s s"
  by (simp add: shrinks_def)

lemma shrinks_trans:
  assumes "shrinks s t" "shrinks t u"
  shows "shrinks s u"
proof -
  have "set (it_microtasks u) \<subseteq> set (it_microtasks s)"
    "av_command ` set (it_approvals u) \<subseteq> av_command ` set (it_approvals s)"
    using assms unfolding shrinks_def by (meson order_trans)+
  with assms show ?thesis by (simp add: shrinks_def)
qed

lemma shrinks_blocks: "blocks_only s t \<Longrightarrow> shrinks s t"
  by (auto simp: blocks_only_def shrinks_def)

lemma harmless_shrinks:
  assumes "harmless_inv D s" "shrinks s t"
  shows "harmless_inv D t"
proof -
  have "harmless (av_command a) \<and> js_trim (av_command a) = av_command a" if "a \<in> set (it_approvals t)" for a
  proof -
    have "av_command a \<in> av_command ` set (it_approvals s)" using assms(2) that by (auto simp: shrinks_def)
    then obtain b where "b \<in> set (it_approvals s)" "av_command a = av_command b" by auto
    with assms(1) show ?thesis by (simp add: harmless_inv_def)
  qed
  moreover have "c \<in> D \<and> (\<forall>p. rget (it_pending t) c = Some p \<longrightarrow> harmless (js_trim (pi_command p)))"
    if "(b, c) \<in> set (it_microtasks t)" for b c
  proof -
    from that assms(2) have "(b, c) \<in> set (it_microtasks s)" by (auto simp: shrinks_def)
    with assms(1) have "c \<in> D" "\<forall>p. rget (it_pending s) c = Some p \<longrightarrow> harmless (js_trim (pi_command p))"
      by (auto simp: harmless_inv_def)
    with assms(2) show ?thesis unfolding shrinks_def by blast
  qed
  moreover have "it_executed t = it_executed s" using assms(2) by (simp add: shrinks_def)
  ultimately show ?thesis using assms(1) unfolding harmless_inv_def by auto
qed

lemma parsed_trimmed: "js_trim (parseTerminalExecCommand cfg args) = parseTerminalExecCommand cfg args"
proof -
  have e: "js_trim '''' = ''''" by (simp add: js_trim_def trim_start_def trim_end_def)
  then have "js_trim (commandFromUnknown v) = commandFromUnknown v" for v
    by (simp add: commandFromUnknown_def split: option.split json.split)
  with e show ?thesis
    by (simp add: parseTerminalExecCommand_def parseTerminalExecCommandFromArgs_def or_else_def split: option.split)
qed

lemma harmless_start:
  assumes "harmless_inv D s" "harmless command" "js_trim command = command"
  shows "harmless_inv D (start_approval bid cid session command pend s)"
  using assms by (auto simp: harmless_inv_def start_approval_def set_call_def)

lemma harmless_microtask:
  assumes "harmless_inv D s"
  shows "harmless_inv D (run_microtask cfg n s)"
proof (cases "n < length (it_microtasks s)")
  case True
  obtain bid cid where m: "it_microtasks s ! n = (bid, cid)" by fastforce
  let ?s = "s\<lparr>it_microtasks := take n (it_microtasks s) @ drop (Suc n) (it_microtasks s)\<rparr>"
  have sh: "shrinks s ?s" by (auto simp: shrinks_def dest: in_set_takeD in_set_dropD)
  note ok = harmless_shrinks [OF assms sh]
  have pend: "harmless (js_trim (pi_command p))" if "rget (it_pending s) cid = Some p" for p
    using assms that nth_mem [OF True] unfolding harmless_inv_def m by blast
  have stale: "harmless_inv D (approveStaleInlineToolCall cfg bid cid None ?s)"
    using stale_approval [of ?s cfg bid cid None]
  proof
    show ?thesis if "blocks_only ?s (approveStaleInlineToolCall cfg bid cid None ?s)"
      using harmless_shrinks [OF ok shrinks_blocks [OF that]] .
    assume "\<exists>session command. harmless command \<and> js_trim command = command
        \<and> approveStaleInlineToolCall cfg bid cid None ?s = start_approval bid cid session command None ?s"
    then show ?thesis using harmless_start [OF ok] by auto
  qed
  have live: "harmless_inv D (approveInlineTerminalTool cfg bid cid None ?s)"
    if p: "rget (it_pending s) cid = Some p" "pi_block p = bid" "cid \<notin> set (it_approving s)" for p
  proof (cases "js_trim (pi_command p) = ''''")
    case True
    then have "shrinks ?s (approveInlineTerminalTool cfg bid cid None ?s)"
      using p by (simp add: approveInlineTerminalTool_def Let_def shrinks_def start_report_def set_call_def store_simps)
    then show ?thesis by (rule harmless_shrinks [OF ok])
  next
    case False
    then have "approveInlineTerminalTool cfg bid cid None ?s = start_approval bid cid (pi_session p) (js_trim (pi_command p)) (Some p) ?s"
      using p by (simp add: approveInlineTerminalTool_def Let_def)
    then show ?thesis using harmless_start [OF ok pend [OF p(1)]] by simp
  qed
  have "harmless_inv D (approveInlineTerminalTool cfg bid cid None ?s)"
  proof (cases "cid \<in> set (it_approving s) \<or> \<not> (\<exists>p. rget (it_pending s) cid = Some p \<and> pi_block p = bid)")
    case True
    then have "approveInlineTerminalTool cfg bid cid None ?s = ?s
      \<or> approveInlineTerminalTool cfg bid cid None ?s = approveStaleInlineToolCall cfg bid cid None ?s"
      by (auto simp: approveInlineTerminalTool_def split: option.split)
    with ok stale show ?thesis by auto
  qed (use live in blast)
  then show ?thesis using True by (simp add: run_microtask_def m)
qed (simp add: run_microtask_def assms)

lemma harmless_dispatch:
  assumes "harmless_inv D s" "tq_call q \<notin> D"
  shows "harmless_inv (insert (tq_call q) D) (dispatchInlineTerminalPendingTool cfg q s)"
proof -
  let ?c = "tq_call q" and ?t = "dispatchInlineTerminalPendingTool cfg q s" and ?cmd = "parseTerminalExecCommand cfg (tq_args q)"
  have "harmless ?cmd" if "\<not> needs_approval cfg q"
    using that severe_asks unfolding needs_approval_def decideInlineTerminalApproval_def by blast
  then have new: "c = ?c \<and> harmless (js_trim ?cmd)" if "(b, c) \<in> set (if needs_approval cfg q then [] else [(tq_block q, ?c)])" for b c
    using that by (auto simp: parsed_trimmed split: if_splits)
  obtain p where t: "it_pending ?t = rput ?c p (it_pending s)" "pi_command p = ?cmd"
    "it_microtasks ?t = it_microtasks s @ (if needs_approval cfg q then [] else [(tq_block q, ?c)])"
    "it_approvals ?t = it_approvals s" "it_executed ?t = it_executed s"
    by (simp add: dispatchInlineTerminalPendingTool_def waitForInlineToolDecision_def Let_def set_call_def)
  have "c \<in> insert ?c D \<and> (\<forall>p'. rget (it_pending ?t) c = Some p' \<longrightarrow> harmless (js_trim (pi_command p')))"
    if m: "(b, c) \<in> set (it_microtasks ?t)" for b c
  proof (cases "(b, c) \<in> set (it_microtasks s)")
    case True
    with assms(1) have "c \<in> D" "\<forall>p'. rget (it_pending s) c = Some p' \<longrightarrow> harmless (js_trim (pi_command p'))"
      by (auto simp: harmless_inv_def)
    moreover from this(1) have "c \<noteq> ?c" using assms(2) by metis
    ultimately show ?thesis by (simp add: t(1) store_simps)
  next
    case False
    then have "c = ?c \<and> harmless (js_trim ?cmd)" using new [of b c] m unfolding t(3) by auto
    then show ?thesis by (simp add: t(1,2) store_simps)
  qed
  then show ?thesis using assms(1) unfolding harmless_inv_def t(4,5) by auto
qed

lemma shrinks_steps:
  "shrinks s (set_call bid cid p s)" "shrinks s (snd (dismissStaleInlineToolCall bid cid st r s))"
  "shrinks s (snd (dismissOrphanInlineToolCalls cfg b s))" "shrinks s (rejectInlineTerminalTool cfg bid cid s)"
  "shrinks s (cancel_one cfg cid q s)" "shrinks s (delivery_ends now n failure s)"
proof -
  show "shrinks s (set_call bid cid p s)" "shrinks s (snd (dismissStaleInlineToolCall bid cid st r s))"
    "shrinks s (snd (dismissOrphanInlineToolCalls cfg b s))"
    by (rule shrinks_blocks, simp)+
  have "shrinks s (snd (dismissStaleInlineToolCall bid cid st r s))" for st r by (rule shrinks_blocks) simp
  then show "shrinks s (rejectInlineTerminalTool cfg bid cid s)"
    by (simp add: rejectInlineTerminalTool_def Let_def split: option.split)
      (simp add: shrinks_def start_report_def set_call_def store_simps)
  show "shrinks s (cancel_one cfg cid q s)"
    by (simp add: shrinks_def cancel_one_def Let_def start_report_def set_call_def store_simps)
  show "shrinks s (delivery_ends now n failure s)"
    by (simp add: shrinks_def delivery_ends_def Let_def split: option.split)
qed

lemma shrinks_fold: "(\<And>x t. shrinks t (f x t)) \<Longrightarrow> shrinks s (fold f xs s)"
  by (induction xs arbitrary: s) (auto intro: shrinks_trans)

lemma shrinks_end_approval: "shrinks s (end_approval n s)"
  by (auto simp: shrinks_def end_approval_def dest: in_set_takeD in_set_dropD)

lemma shrinks_release: "shrinks s (release c s)"
  by (simp add: shrinks_def release_def)

lemma shrinks_stage: "n < length (it_approvals s) \<Longrightarrow> shrinks s (set_stage n st s)"
  using set_update_subset_insert [of "it_approvals s" n] by (fastforce simp: shrinks_def set_stage_def)

lemma shrinks_approval_steps:
  "shrinks s (prepare_fails n msg s)" "shrinks s (execution_ends n r s)" "shrinks s (report_decision n s)"
proof -
  have drop: "shrinks s (release c (end_approval n s))" for c and s :: "'a inline_state"
    using shrinks_trans [OF shrinks_end_approval shrinks_release] .
  show "shrinks s (prepare_fails n msg s)"
    using drop [of s "av_call (it_approvals s ! n)"] shrinks_trans [OF _ shrinks_steps(1)]
    by (auto simp: prepare_fails_def Let_def)
  let ?t = "set_call (av_block (it_approvals s ! n)) (av_call (it_approvals s ! n))
    (outcome_patch (ai_may_run (av_command (it_approvals s ! n))) r) s"
  have "it_approvals ?t = it_approvals s" by (simp add: set_call_def)
  then show "shrinks s (execution_ends n r s)"
    using shrinks_trans [OF shrinks_steps(1) drop] shrinks_trans [OF shrinks_steps(1) shrinks_stage [of n ?t]]
    by (auto simp: execution_ends_def Let_def)
  have "shrinks s (start_report c b i d th (end_approval n (s\<lparr>it_pending := rdel i (it_pending s)\<rparr>)))" for c b i d th
    using shrinks_end_approval [of s n] by (auto simp: shrinks_def start_report_def end_approval_def store_simps split: if_splits)
  then show "shrinks s (report_decision n s)"
    by (simp add: report_decision_def Let_def split: option.split stage.split)
qed

lemma harmless_launch:
  assumes "harmless_inv D s"
  shows "harmless_inv D (launch n s)"
proof (cases "n < length (it_approvals s) \<and> av_stage (it_approvals s ! n) = Preparing")
  case True
  then have "harmless_inv D (set_stage n Executing s)" using harmless_shrinks [OF assms shrinks_stage] by blast
  moreover have "harmless (av_command (it_approvals s ! n)) \<and> js_trim (av_command (it_approvals s ! n)) = av_command (it_approvals s ! n)"
    using assms True by (simp add: harmless_inv_def)
  ultimately show ?thesis using True by (auto simp: launch_def Let_def harmless_inv_def set_stage_def)
qed (use assms in \<open>simp only: launch_def if_False\<close>)

lemma harmless_step:
  assumes "harmless_inv D s" "\<not> user_consents a" "set (dispatched a) \<inter> D = {}"
  shows "harmless_inv (D \<union> set (dispatched a)) (inline_step cfg a s)"
proof -
  have sh: "shrinks s t \<Longrightarrow> harmless_inv D t" for t by (rule harmless_shrinks [OF assms(1)])
  show ?thesis
  proof (cases a)
    case (Dispatch q)
    with assms harmless_dispatch [of D s q cfg] show ?thesis by simp
  next
    case (CancelPending bid)
    have "shrinks s (cancelPendingInlineTools cfg bid s)"
      unfolding cancelPendingInlineTools_def Let_def
      by (rule shrinks_trans [OF shrinks_fold shrinks_steps(3)]) (auto simp: shrinks_steps)
    with CancelPending show ?thesis by (simp add: sh)
  next
    case CancelAction
    have "shrinks s (cancelInlineToolByActionId cfg s)"
      unfolding cancelInlineToolByActionId_def by (rule shrinks_fold) (auto simp: shrinks_steps)
    with CancelAction show ?thesis by (simp add: sh)
  qed (use assms(1,2) in \<open>auto simp: harmless_microtask harmless_launch createInlineTerminalToolCall_def Let_def
        intro!: sh shrinks_steps shrinks_approval_steps\<close>, auto simp: shrinks_def)
qed

lemma harmless_run:
  assumes "harmless_inv D s" "\<forall>a \<in> set ops. \<not> user_consents a" "distinct (calls_of ops)" "set (calls_of ops) \<inter> D = {}"
  shows "harmless_inv (D \<union> set (calls_of ops)) (fold (inline_step cfg) ops s)"
  using assms
proof (induction ops arbitrary: D s)
  case (Cons a ops)
  have "harmless_inv (D \<union> set (dispatched a)) (inline_step cfg a s)"
    using Cons.prems by (intro harmless_step) (auto simp: calls_of_def)
  moreover have "distinct (calls_of ops)" "set (calls_of ops) \<inter> (D \<union> set (dispatched a)) = {}"
    using Cons.prems(3,4) by (auto simp: calls_of_def)
  moreover have "\<forall>a \<in> set ops. \<not> user_consents a" using Cons.prems(2) by simp
  ultimately have "harmless_inv (D \<union> set (dispatched a) \<union> set (calls_of ops)) (fold (inline_step cfg) ops (inline_step cfg a s))"
    using Cons.IH by blast
  then show ?case by (simp add: calls_of_def Un_assoc)
qed (simp add: calls_of_def)


section \<open>Cancelling comes too late\<close>

text \<open>
  (C12) A command that was approved and is being prepared runs although it is cancelled before it starts, whatever
  the command and the block store: the waiting code has been told that the user cancelled and the back end too, then
  the command is run and reported a second time, as approved.
\<close>

theorem cancelled_command_still_runs:
  assumes "parseTerminalExecCommand cfg (tq_args q) = command" "command \<noteq> ''''" "ai_may_run command"
    and "s = fold (inline_step cfg) [Dispatch q, Approve (tq_block q) (tq_call q) None, CancelPending None] (inline_init b)"
    and "t = fold (inline_step cfg) [Launch 0, ExecutionEnds 0 (Ends json code blk act), ReportDecision 0] s"
  shows "it_pending s = [] \<and> it_executed s = [] \<and> it_answers s = [(0, no_decision (ic_cancelled cfg))]
    \<and> map rp_result (it_reports s) = [ic_cancelled cfg]
    \<and> it_executed t = [\<lparr> ex_session = tq_session q, ex_call = tq_call q, ex_command = command \<rparr>]
    \<and> map (\<lambda>r. (rp_call r, rp_result r, rp_approved r)) (it_reports t)
        = [(tq_call q, ic_cancelled cfg, False), (tq_call q, json, True)]"
proof -
  have trim: "js_trim command = command" using parsed_trimmed assms(1) by metis
  define p where "p = \<lparr> pi_block = tq_block q, pi_session = tq_session q, pi_resource = tq_resource q, pi_command = command,
    pi_conversation = tq_conversation q, pi_waiter = 0 \<rparr>"
  define s2 where "s2 = fold (inline_step cfg) [Dispatch q, Approve (tq_block q) (tq_call q) None] (inline_init b)"
  have two: "it_pending s2 = [(tq_call q, p)]" "it_executed s2 = []" "it_answers s2 = []" "it_reports s2 = []"
    "it_approvals s2 = [\<lparr> av_call = tq_call q, av_block = tq_block q, av_session = tq_session q, av_command = command,
       av_pending = Some p, av_stage = Preparing \<rparr>]"
    using assms(2) trim
    by (simp_all add: s2_def p_def dispatchInlineTerminalPendingTool_def waitForInlineToolDecision_def assms(1) Let_def
        set_call_def inline_init_def approveInlineTerminalTool_def start_approval_def)
  have "s = cancelPendingInlineTools cfg None s2" by (simp add: assms(4) s2_def)
  then obtain bl where s: "s = (cancel_one cfg (tq_call q) p s2)\<lparr>it_blocks := bl\<rparr>"
    using blocks_only_sweep [of "cancel_one cfg (tq_call q) p s2" cfg None]
    by (auto simp: cancelPendingInlineTools_def two(1) blocks_only_def)
  have three: "it_pending s = []" "it_executed s = []" "it_answers s = [(0, no_decision (ic_cancelled cfg))]"
    "map (\<lambda>r. (rp_call r, rp_result r, rp_approved r)) (it_reports s) = [(tq_call q, ic_cancelled cfg, False)]"
    "map rp_result (it_reports s) = [ic_cancelled cfg]" "it_approvals s = it_approvals s2"
    by (simp_all add: s cancel_one_def Let_def start_report_def set_call_def two no_decision_def p_def)
  have "it_executed t = [\<lparr> ex_session = tq_session q, ex_call = tq_call q, ex_command = command \<rparr>]"
    "map (\<lambda>r. (rp_call r, rp_result r, rp_approved r)) (it_reports t)
        = [(tq_call q, ic_cancelled cfg, False), (tq_call q, json, True)]"
    using assms(3) trim three
    by (simp_all add: assms(5) launch_def two(5) Let_def set_stage_def execution_ends_def set_call_def outcome_decision_def
        report_decision_def start_report_def end_approval_def)
  with three show ?thesis by simp
qed

text \<open>Instances: one call that comes in while reading commands need no approval.\<close>

definition sample_config :: inline_config where
  "sample_config = \<lparr> ic_parse = (\<lambda>t. Some (JObj [(''command'', JString t)])), ic_stale = ''stale'', ic_cancelled = ''cancelled'',
     ic_rejected = ''rejected'', ic_noCommand = ''no command'', ic_tooDangerous = (\<lambda>_. ''dangerous'') \<rparr>"

definition sample_request :: "string \<Rightarrow> tool_request" where
  "sample_request command = \<lparr> tq_conversation = ''c'', tq_call = ''call-1'', tq_toolName = ''omni_terminal_exec'', tq_args = command,
     tq_block = ''blk-1'', tq_session = ''s'', tq_resource = None, tq_environment = ''unknown'', tq_whitelists = no_whitelists,
     tq_mode = Some View \<rparr>"

lemma sample_command: "js_trim c = c \<Longrightarrow> c \<noteq> '''' \<Longrightarrow> parseTerminalExecCommand sample_config c = c"
  by (simp add: parseTerminalExecCommand_def sample_config_def or_else_def parseTerminalExecCommandFromArgs_def field_def
      commandFromUnknown_def)



theorem cancelled_command_still_runs_witness:
  "it_executed (fold (inline_step sample_config)
     [Dispatch (sample_request ''make''), Approve ''blk-1'' ''call-1'' None, CancelPending None, Launch 0,
      ExecutionEnds 0 (Ends ''done'' (Some 0) None None), ReportDecision 0] (inline_init (blocks_init :: unit blocks_state)))
   = [\<lparr> ex_session = ''s'', ex_call = ''call-1'', ex_command = ''make'' \<rparr>]"
proof -
  have trim: "js_trim ''make'' = ''make''" by code_simp
  have c: "parseTerminalExecCommand sample_config (tq_args (sample_request ''make'')) = ''make''"
    by (simp add: sample_request_def) (rule sample_command, simp_all add: trim)
  have r: "ai_may_run ''make''" by code_simp
  have q: "tq_block (sample_request ''make'') = ''blk-1''" "tq_call (sample_request ''make'') = ''call-1''"
    "tq_session (sample_request ''make'') = ''s''" by (simp_all add: sample_request_def)
  from cancelled_command_still_runs [where b = "blocks_init :: unit blocks_state" and json = "''done''" and code = "Some 0"
      and blk = None and act = None, OF c _ r refl refl]
  show ?thesis unfolding q by simp
qed

end
