(* ===== verification/AiModels.thy ===== *)
theory AiModels
  imports Regex MessageParts Agents
begin

text \<open>
  \<^bold>\<open>frontend/src/stores/aiModelsStore.ts\<close> with the helpers of \<^bold>\<open>lib/fetchProviderModels.ts\<close>,
  \<^bold>\<open>lib/ai/resolveApiBaseUrl.ts\<close>, \<^bold>\<open>lib/ai/inferenceBackend.ts\<close>, \<^bold>\<open>lib/aiScenarioModels.ts\<close>,
  \<^bold>\<open>lib/terminalScenarioModels.ts\<close> and \<^bold>\<open>stores/agentSourcesStore.ts\<close>: the providers of models that
  the user has configured, and which of their models answers a request. The saves to the back end and
  the requests for a provider's catalogue are asynchronous: each is an entry of the state from its
  start to its end, and its end is an operation of its own.
\<close>

section \<open>Providers\<close>

datatype api_standard = OpenAi | Anthropic

record api_meta =
  am_created :: "int option"
  am_ownedBy :: "string option"

record api_info =
  ai_id :: string
  ai_created :: "int option"
  ai_ownedBy :: "string option"

text \<open>The argument of \<open>addProvider\<close>: a provider without its identifier and its time of creation.\<close>

record provider_input =
  pv_providerName :: string
  pv_apiStandard :: api_standard
  pv_baseUrl :: string
  pv_appendV1 :: "bool option"
  pv_apiKey :: string
  pv_hasApiKey :: "bool option"
  pv_modelNames :: "string list"
  pv_manualModelNames :: "string list option"
  pv_excludedModelNames :: "string list option"
  pv_disabledModelNames :: "string list option"
  pv_apiModelMeta :: "api_meta jrec option"

record provider = provider_input +
  pv_id :: string
  pv_createdAt :: int

definition names_of :: "string list option \<Rightarrow> string list" where
  "names_of ns = (case ns of None \<Rightarrow> [] | Some xs \<Rightarrow> xs)"

section \<open>Normalisation\<close>

definition normalizeBaseUrl :: "string \<Rightarrow> string" where
  "normalizeBaseUrl url = rev (dropWhile (\<lambda>c. c = CHR ''/'') (rev (js_trim url)))"

definition normalizeAppendV1 :: "bool option \<Rightarrow> bool" where
  "normalizeAppendV1 v = (v \<noteq> Some False)"

text \<open>The test \<open>/(?:^|\/)v\d+$/i\<close>.\<close>

definition ends_with_version :: "string \<Rightarrow> bool" where
  "ends_with_version root =
     (takeWhile is_digit (rev root) \<noteq> [] \<and>
      (case dropWhile is_digit (rev root) of
         [] \<Rightarrow> False
       | c # rest \<Rightarrow> lower_char c = CHR ''v'' \<and> (rest = [] \<or> hd rest = CHR ''/'')))"

definition resolveApiBaseUrl :: "string \<Rightarrow> bool \<Rightarrow> string" where
  "resolveApiBaseUrl base addV1 =
     (let root = normalizeBaseUrl base in
      if root = '''' \<or> \<not> addV1 then root
      else if ends_with_version root then root
      else root @ ''/v1'')"

definition providerApiBaseUrl :: "provider \<Rightarrow> string" where
  "providerApiBaseUrl p = resolveApiBaseUrl (pv_baseUrl p) (normalizeAppendV1 (pv_appendV1 p))"

text \<open>The loop that trims names, drops empty ones and keeps the first of each spelling; \<open>seen\<close> holds
  the lower-case names met so far. \<open>normalizeManualModelNames\<close> and \<open>normalizeExcludedModelNames\<close> are
  the same function.\<close>

fun first_of_each :: "string list \<Rightarrow> string list \<Rightarrow> string list" where
  "first_of_each seen [] = []"
| "first_of_each seen (n # ns) =
     (let t = js_trim n in
      if t = '''' \<or> lower t \<in> set seen then first_of_each seen ns
      else t # first_of_each (lower t # seen) ns)"

definition normalizeDisabledModelNames :: "string list option \<Rightarrow> string list" where
  "normalizeDisabledModelNames ns = first_of_each [] (names_of ns)"

definition pruneDisabledModelNames :: "string list \<Rightarrow> string list option \<Rightarrow> string list" where
  "pruneDisabledModelNames models ns =
     filter (\<lambda>n. lower n \<in> lower ` set models) (normalizeDisabledModelNames ns)"

definition normalizeModelNames :: "string list \<Rightarrow> string list" where
  "normalizeModelNames ns = filter (\<lambda>n. n \<noteq> '''') (map js_trim ns)"

definition findModelName :: "string list \<Rightarrow> string \<Rightarrow> string option" where
  "findModelName models name = find (\<lambda>n. lower n = lower name) models"

definition isManualModel :: "provider \<Rightarrow> string \<Rightarrow> bool" where
  "isManualModel p name = list_ex (\<lambda>n. lower n = lower name) (names_of (pv_manualModelNames p))"

definition getApiModelMeta :: "provider \<Rightarrow> string \<Rightarrow> api_meta option" where
  "getApiModelMeta p name =
     (if isManualModel p name then None
      else (let meta = (case pv_apiModelMeta p of None \<Rightarrow> [] | Some m \<Rightarrow> m) in
            case rget meta name of
              Some x \<Rightarrow> Some x
            | None \<Rightarrow> map_option snd (find (\<lambda>(n, _). lower n = lower name) meta)))"

definition pruneApiModelMeta :: "string list \<Rightarrow> api_meta jrec option \<Rightarrow> api_meta jrec" where
  "pruneApiModelMeta models meta =
     (case meta of
        None \<Rightarrow> []
      | Some m \<Rightarrow>
          fold (\<lambda>name pruned.
              case rget m name of
                Some x \<Rightarrow> rput name x pruned
              | None \<Rightarrow>
                  (case find (\<lambda>(n, _). lower n = lower name) m of
                     Some (_, x) \<Rightarrow> rput name x pruned
                   | None \<Rightarrow> pruned))
            models [])"

section \<open>Catalogues\<close>

definition toApiModelInfo :: "string \<Rightarrow> int option \<Rightarrow> string option \<Rightarrow> api_info" where
  "toApiModelInfo i created owner =
     \<lparr> ai_id = i, ai_created = created,
       ai_ownedBy = (case owner of None \<Rightarrow> None | Some x \<Rightarrow> if js_trim x = '''' then None else Some (js_trim x)) \<rparr>"

fun first_infos :: "string list \<Rightarrow> api_info list \<Rightarrow> api_info list" where
  "first_infos seen [] = []"
| "first_infos seen (x # xs) =
     (let t = js_trim (ai_id x) in
      if t = '''' \<or> lower t \<in> set seen then first_infos seen xs
      else x\<lparr>ai_id := t\<rparr> # first_infos (lower t # seen) xs)"

text \<open>\<open>lc\<close> is \<open>String.prototype.localeCompare\<close> with base sensitivity.\<close>

definition dedupeModels :: "(string \<Rightarrow> string \<Rightarrow> int) \<Rightarrow> api_info list \<Rightarrow> api_info list" where
  "dedupeModels lc items = sort_by (\<lambda>a b. lc (ai_id a) (ai_id b)) (first_infos [] items)"

definition finalizeFetched :: "(string \<Rightarrow> string \<Rightarrow> int) \<Rightarrow> api_info list \<Rightarrow> string + api_info list" where
  "finalizeFetched lc items =
     (let raw = dedupeModels lc items in if raw = [] then Inl ''empty_list'' else Inr raw)"

text \<open>\<open>answer\<close> is what the back end or the provider's server answers: an error text or entries.\<close>

definition fetchProviderModelList ::
  "(string \<Rightarrow> string \<Rightarrow> int) \<Rightarrow> string \<Rightarrow> bool option
     \<Rightarrow> string + (string \<times> int option \<times> string option) list \<Rightarrow> string + api_info list" where
  "fetchProviderModelList lc base addV1 answer =
     (if resolveApiBaseUrl base (addV1 \<noteq> Some False) = '''' then Inl ''invalid_base_url''
      else case answer of
             Inl e \<Rightarrow> Inl e
           | Inr xs \<Rightarrow> finalizeFetched lc (map (\<lambda>(i, created, owner). toApiModelInfo i created owner) xs))"

definition mergeModelCatalog :: "string list \<Rightarrow> api_info list \<Rightarrow> string list" where
  "mergeModelCatalog manual fetched = first_of_each [] (manual @ map ai_id fetched)"

text \<open>The map keeps the last entry of a spelling.\<close>

definition buildApiModelMeta :: "string list \<Rightarrow> string list \<Rightarrow> api_info list \<Rightarrow> api_meta jrec" where
  "buildApiModelMeta models manual fetched =
     fold (\<lambda>name meta.
         if lower name \<in> lower ` set manual then meta
         else case find (\<lambda>x. lower (ai_id x) = lower name) (rev fetched) of
                None \<Rightarrow> meta
              | Some x \<Rightarrow>
                  (let owner = (if truthy (ai_ownedBy x) then ai_ownedBy x else None) in
                   if ai_created x \<noteq> None \<or> truthy owner
                   then rput name \<lparr> am_created = ai_created x, am_ownedBy = owner \<rparr> meta else meta))
       models []"

text \<open>Matching by subsequence, in the settings' search field.\<close>

fun subsequence :: "string \<Rightarrow> string \<Rightarrow> bool" where
  "subsequence t [] = True"
| "subsequence [] (q # qs) = False"
| "subsequence (c # t) (q # qs) = (if c = q then subsequence t qs else subsequence t (q # qs))"

definition fuzzyMatchModelName :: "string \<Rightarrow> string \<Rightarrow> bool" where
  "fuzzyMatchModelName text query =
     (let q = lower (js_trim query); target = lower text in
      q = '''' \<or> index_of target q \<noteq> None \<or> subsequence target q)"

section \<open>The store\<close>

text \<open>
  \<open>ms_saves\<close> are the calls of \<open>commands.aiModelsSave\<close> that have not returned, each with what follows
  it and the providers it was given, \<open>ms_refreshes\<close> the calls of \<open>refreshProviderModelsFromApi\<close> that
  wait, each with the provider it read. \<open>ms_written\<close> logs what was saved with success, \<open>ms_notified\<close>
  counts the notifications of the snapshot. \<open>ms_hydrated\<close> is the flag \<open>hydratedFromDisk\<close> of the module.
\<close>

datatype after_save = Persisted | PersistedAtStart | Migrated "provider list"
datatype save_result = SaveOk | SaveError | SaveThrows

record models_state =
  ms_providers :: "provider list"
  ms_saves :: "(after_save \<times> provider list) list"
  ms_refreshes :: "provider list"
  ms_written :: "provider list list"
  ms_notified :: nat
  ms_hydrated :: bool

definition models_init :: models_state where
  "models_init = \<lparr> ms_providers = [], ms_saves = [], ms_refreshes = [], ms_written = [],
                   ms_notified = 0, ms_hydrated = False \<rparr>"

definition serializeProviderForDisk :: "provider \<Rightarrow> provider" where
  "serializeProviderForDisk p =
     p\<lparr>pv_appendV1 := Some (normalizeAppendV1 (pv_appendV1 p)),
       pv_hasApiKey := nullish (pv_hasApiKey p) (Some (js_trim (pv_apiKey p) \<noteq> '''')),
       pv_manualModelNames := Some (names_of (pv_manualModelNames p)),
       pv_excludedModelNames := Some (names_of (pv_excludedModelNames p)),
       pv_disabledModelNames := Some (names_of (pv_disabledModelNames p)),
       pv_apiModelMeta := nullish (pv_apiModelMeta p) (Some [])\<rparr>"

definition scrub_key :: "provider \<Rightarrow> provider" where
  "scrub_key p = p\<lparr>pv_apiKey := '''',
     pv_hasApiKey := Some (pv_hasApiKey p = Some True \<or> js_trim (pv_apiKey p) \<noteq> '''')\<rparr>"

definition scrubProvidersApiKeysInMemory :: "provider list \<Rightarrow> provider list" where
  "scrubProvidersApiKeysInMemory = map scrub_key"

text \<open>\<open>persistProviders\<close> up to its wait; \<open>can\<close> is \<open>canUseAiBackend()\<close>.\<close>

definition start_save :: "bool \<Rightarrow> after_save \<Rightarrow> provider list \<Rightarrow> models_state \<Rightarrow> models_state" where
  "start_save can continue ps s =
     (if can then s\<lparr>ms_saves := ms_saves s @ [(continue, map serializeProviderForDisk ps)]\<rparr> else s)"

definition same_providers :: "provider list \<Rightarrow> provider list \<Rightarrow> bool" where
  "same_providers saved current =
     (length current = length saved \<and> list_all (\<lambda>p. pv_id p \<in> pv_id ` set saved) current)"

text \<open>\<open>cached\<close> is what \<open>readProvidersCache()\<close> finds.\<close>

definition use_cache :: "provider list \<Rightarrow> models_state \<Rightarrow> models_state" where
  "use_cache cached s =
     (if cached \<noteq> [] \<and> ms_providers s = [] then s\<lparr>ms_providers := cached\<rparr> else s)"

definition after_persist :: "save_result \<Rightarrow> provider list \<Rightarrow> models_state \<Rightarrow> models_state" where
  "after_persist r saved s =
     (let s = s\<lparr>ms_notified := Suc (ms_notified s)\<rparr> in
      if r = SaveOk \<and> same_providers saved (ms_providers s)
      then s\<lparr>ms_providers := scrubProvidersApiKeysInMemory (ms_providers s)\<rparr> else s)"

fun after_returns :: "after_save \<Rightarrow> save_result \<Rightarrow> provider list \<Rightarrow> provider list \<Rightarrow> models_state \<Rightarrow> models_state" where
  "after_returns Persisted r saved cached s = after_persist r saved s"
| "after_returns PersistedAtStart r saved cached s = (after_persist r saved s)\<lparr>ms_hydrated := True\<rparr>"
| "after_returns (Migrated legacy) r saved cached s =
     (case r of
        SaveOk \<Rightarrow> s\<lparr>ms_providers := scrubProvidersApiKeysInMemory legacy, ms_hydrated := True\<rparr>
      | SaveError \<Rightarrow> s\<lparr>ms_hydrated := True\<rparr>
      | SaveThrows \<Rightarrow> use_cache cached s)"

text \<open>The call number \<open>i\<close> returns.\<close>

definition save_returns :: "nat \<Rightarrow> save_result \<Rightarrow> provider list \<Rightarrow> models_state \<Rightarrow> models_state" where
  "save_returns i r cached s =
     (if i < length (ms_saves s)
      then (let (continue, saved) = ms_saves s ! i;
                s = s\<lparr>ms_saves := take i (ms_saves s) @ drop (Suc i) (ms_saves s),
                      ms_written := (if r = SaveOk then ms_written s @ [saved] else ms_written s)\<rparr>
            in after_returns continue r saved cached s)
      else s)"

definition commit :: "bool \<Rightarrow> provider list \<Rightarrow> models_state \<Rightarrow> models_state" where
  "commit can ps s = start_save can Persisted ps (s\<lparr>ms_providers := ps\<rparr>)"

definition find_provider :: "string \<Rightarrow> models_state \<Rightarrow> provider option" where
  "find_provider i s = find (\<lambda>p. pv_id p = i) (ms_providers s)"

definition on_provider :: "string \<Rightarrow> (provider \<Rightarrow> provider) \<Rightarrow> models_state \<Rightarrow> provider list" where
  "on_provider i f s = map_where (\<lambda>p. pv_id p = i) f (ms_providers s)"

definition addProvider :: "bool \<Rightarrow> int \<Rightarrow> string \<Rightarrow> provider_input \<Rightarrow> models_state \<Rightarrow> provider \<times> models_state" where
  "addProvider can now newId input s =
     (let key = js_trim (pv_apiKey input);
          p = \<lparr> pv_providerName = js_trim (pv_providerName input),
                pv_apiStandard = pv_apiStandard input,
                pv_baseUrl = normalizeBaseUrl (pv_baseUrl input),
                pv_appendV1 = Some (normalizeAppendV1 (pv_appendV1 input)),
                pv_apiKey = key,
                pv_hasApiKey = Some (key \<noteq> '''' \<or> pv_hasApiKey input = Some True),
                pv_modelNames = normalizeModelNames (pv_modelNames input),
                pv_manualModelNames = Some (normalizeDisabledModelNames (pv_manualModelNames input)),
                pv_excludedModelNames = None,
                pv_disabledModelNames = Some (normalizeDisabledModelNames (pv_disabledModelNames input)),
                pv_apiModelMeta = pv_apiModelMeta input,
                pv_id = newId, pv_createdAt = now \<rparr>
      in (p, commit can (p # ms_providers s) s))"

definition upsertProviderById :: "bool \<Rightarrow> int \<Rightarrow> string \<Rightarrow> provider_input \<Rightarrow> models_state \<Rightarrow> provider \<times> models_state" where
  "upsertProviderById can now i input s =
     (let existing = find_provider i s;
          key = js_trim (pv_apiKey input);
          p = \<lparr> pv_providerName = js_trim (pv_providerName input),
                pv_apiStandard = pv_apiStandard input,
                pv_baseUrl = normalizeBaseUrl (pv_baseUrl input),
                pv_appendV1 = Some (normalizeAppendV1
                  (nullish (pv_appendV1 input) (Option.bind existing pv_appendV1))),
                pv_apiKey = key,
                pv_hasApiKey = Some (key \<noteq> '''' \<or> pv_hasApiKey input = Some True
                  \<or> Option.bind existing pv_hasApiKey = Some True),
                pv_modelNames = normalizeModelNames (pv_modelNames input),
                pv_manualModelNames = Some (normalizeDisabledModelNames (pv_manualModelNames input)),
                pv_excludedModelNames = Option.bind existing pv_excludedModelNames,
                pv_disabledModelNames = Some (normalizeDisabledModelNames (pv_disabledModelNames input)),
                pv_apiModelMeta = nullish (pv_apiModelMeta input) (Option.bind existing pv_apiModelMeta),
                pv_id = i,
                pv_createdAt = (case existing of None \<Rightarrow> now | Some e \<Rightarrow> pv_createdAt e) \<rparr>
      in (p, commit can (if existing \<noteq> None then on_provider i (\<lambda>_. p) s else p # ms_providers s) s))"

definition removeProvider :: "bool \<Rightarrow> string \<Rightarrow> models_state \<Rightarrow> models_state" where
  "removeProvider can i s = commit can (filter (\<lambda>p. pv_id p \<noteq> i) (ms_providers s)) s"

text \<open>The patch of \<open>updateProvider\<close>: an absent key is \<open>None\<close>.\<close>

record provider_patch =
  pp_providerName :: "string option"
  pp_apiStandard :: "api_standard option"
  pp_baseUrl :: "string option"
  pp_appendV1 :: "bool option"
  pp_apiKey :: "string option"
  pp_hasApiKey :: "bool option"
  pp_modelNames :: "string list option"
  pp_manualModelNames :: "string list option"
  pp_excludedModelNames :: "string list option"
  pp_disabledModelNames :: "string list option"
  pp_apiModelMeta :: "api_meta jrec option"

definition empty_patch :: provider_patch where
  "empty_patch = \<lparr> pp_providerName = None, pp_apiStandard = None, pp_baseUrl = None, pp_appendV1 = None,
     pp_apiKey = None, pp_hasApiKey = None, pp_modelNames = None, pp_manualModelNames = None,
     pp_excludedModelNames = None, pp_disabledModelNames = None, pp_apiModelMeta = None \<rparr>"

definition patched :: "'a option \<Rightarrow> 'a \<Rightarrow> 'a" where
  "patched u x = (case u of None \<Rightarrow> x | Some y \<Rightarrow> y)"

definition patch_provider :: "provider_patch \<Rightarrow> provider \<Rightarrow> provider" where
  "patch_provider u p =
     (let models = patched (map_option normalizeModelNames (pp_modelNames u)) (pv_modelNames p);
          manual = (case pp_manualModelNames u of
                      Some ns \<Rightarrow> Some (normalizeDisabledModelNames (Some ns)) | None \<Rightarrow> pv_manualModelNames p);
          excluded = (case pp_excludedModelNames u of
                      Some ns \<Rightarrow> Some (normalizeDisabledModelNames (Some ns)) | None \<Rightarrow> pv_excludedModelNames p);
          disabled = (case pp_disabledModelNames u of
                      Some ns \<Rightarrow> Some (normalizeDisabledModelNames (Some ns)) | None \<Rightarrow> pv_disabledModelNames p);
          meta = nullish (pp_apiModelMeta u) (pv_apiModelMeta p);
          key = patched (map_option js_trim (pp_apiKey u)) (pv_apiKey p);
          has = (case pp_hasApiKey u of Some b \<Rightarrow> b | None \<Rightarrow> key \<noteq> '''' \<or> pv_hasApiKey p = Some True)
      in p\<lparr>pv_providerName := patched (map_option js_trim (pp_providerName u)) (pv_providerName p),
           pv_apiStandard := patched (pp_apiStandard u) (pv_apiStandard p),
           pv_baseUrl := patched (map_option normalizeBaseUrl (pp_baseUrl u)) (pv_baseUrl p),
           pv_appendV1 := nullish (pp_appendV1 u) (pv_appendV1 p),
           pv_apiKey := key,
           pv_hasApiKey := Some has,
           pv_modelNames := models,
           pv_manualModelNames := Some (pruneDisabledModelNames models manual),
           pv_excludedModelNames := Some (normalizeDisabledModelNames excluded),
           pv_apiModelMeta := Some (pruneApiModelMeta models meta),
           pv_disabledModelNames := Some (pruneDisabledModelNames models disabled)\<rparr>)"

definition updateProvider :: "bool \<Rightarrow> string \<Rightarrow> provider_patch \<Rightarrow> models_state \<Rightarrow> models_state" where
  "updateProvider can i u s = commit can (on_provider i (patch_provider u) s) s"

text \<open>A \<open>Set\<close> of the disabled names: adding one that is there changes nothing.\<close>

definition set_enabled :: "string \<Rightarrow> bool \<Rightarrow> provider \<Rightarrow> provider" where
  "set_enabled name enabled p =
     (if name \<notin> set (pv_modelNames p) then p
      else (let disabled = uniq (names_of (pv_disabledModelNames p)) in
            p\<lparr>pv_disabledModelNames := Some
                (if enabled then filter (\<lambda>n. n \<noteq> name) disabled
                 else if name \<in> set disabled then disabled else disabled @ [name])\<rparr>))"

definition setModelEnabled :: "bool \<Rightarrow> string \<Rightarrow> string \<Rightarrow> bool \<Rightarrow> models_state \<Rightarrow> models_state" where
  "setModelEnabled can i name enabled s = commit can (on_provider i (set_enabled name enabled) s) s"

definition setAllModelsEnabled :: "bool \<Rightarrow> string \<Rightarrow> bool \<Rightarrow> models_state \<Rightarrow> models_state" where
  "setAllModelsEnabled can i enabled s =
     commit can (on_provider i
       (\<lambda>p. p\<lparr>pv_disabledModelNames := Some (if enabled then [] else pv_modelNames p)\<rparr>) s) s"

datatype model_error = EmptyName | NotFound | ModelNotFound | Duplicate | NotManual | NoApiKey | FetchError string

definition addManualModel ::
  "bool \<Rightarrow> string \<Rightarrow> string \<Rightarrow> models_state \<Rightarrow> (model_error + unit) \<times> models_state" where
  "addManualModel can i name s =
     (let t = js_trim name in
      if t = '''' then (Inl EmptyName, s)
      else case find_provider i s of
             None \<Rightarrow> (Inl NotFound, s)
           | Some p \<Rightarrow>
               if list_ex (\<lambda>n. lower n = lower t) (pv_modelNames p) then (Inl Duplicate, s)
               else (Inr (), commit can (on_provider i
                      (\<lambda>q. q\<lparr>pv_modelNames := pv_modelNames p @ [t],
                             pv_manualModelNames := Some (names_of (pv_manualModelNames p) @ [t])\<rparr>) s) s))"

definition without :: "string \<Rightarrow> string list \<Rightarrow> string list" where
  "without name = filter (\<lambda>n. lower n \<noteq> lower name)"

definition removeModel ::
  "bool \<Rightarrow> string \<Rightarrow> string \<Rightarrow> models_state \<Rightarrow> (model_error + unit) \<times> models_state" where
  "removeModel can i name s =
     (case find_provider i s of
        None \<Rightarrow> (Inl NotFound, s)
      | Some p \<Rightarrow>
          (case findModelName (pv_modelNames p) name of
             None \<Rightarrow> (Inl ModelNotFound, s)
           | Some actual \<Rightarrow>
               if actual = '''' then (Inl ModelNotFound, s)
               else
               (let models = without actual (pv_modelNames p);
                    meta = filter (\<lambda>(k, _). lower k \<noteq> lower actual)
                             (case pv_apiModelMeta p of None \<Rightarrow> [] | Some m \<Rightarrow> m)
                in (Inr (), commit can (on_provider i
                     (\<lambda>q. q\<lparr>pv_modelNames := models,
                            pv_manualModelNames := Some (without actual (names_of (pv_manualModelNames p))),
                            pv_disabledModelNames := Some (without actual (names_of (pv_disabledModelNames p))),
                            pv_excludedModelNames :=
                              (if isManualModel p actual then pv_excludedModelNames p
                               else Some (normalizeDisabledModelNames
                                      (Some (names_of (pv_excludedModelNames p) @ [actual])))),
                            pv_apiModelMeta := Some (pruneApiModelMeta models (Some meta))\<rparr>) s) s))))"

definition rename_in :: "string \<Rightarrow> string \<Rightarrow> string list \<Rightarrow> string list" where
  "rename_in old new = map (\<lambda>n. if lower n = lower old then new else n)"

definition renameManualModel ::
  "bool \<Rightarrow> string \<Rightarrow> string \<Rightarrow> string \<Rightarrow> models_state \<Rightarrow> (model_error + unit) \<times> models_state" where
  "renameManualModel can i old new s =
     (let t = js_trim new in
      if t = '''' then (Inl EmptyName, s)
      else case find_provider i s of
             None \<Rightarrow> (Inl NotFound, s)
           | Some p \<Rightarrow>
               (case findModelName (pv_modelNames p) old of
                  None \<Rightarrow> (Inl ModelNotFound, s)
                | Some actual \<Rightarrow>
                    if actual = '''' then (Inl ModelNotFound, s)
                    else if \<not> isManualModel p actual then (Inl NotManual, s)
                    else if list_ex (\<lambda>n. lower n = lower t \<and> n \<noteq> actual) (pv_modelNames p) then (Inl Duplicate, s)
                    else (Inr (), commit can (on_provider i
                           (\<lambda>q. q\<lparr>pv_modelNames := rename_in actual t (pv_modelNames p),
                                  pv_manualModelNames := Some (rename_in actual t (names_of (pv_manualModelNames p))),
                                  pv_disabledModelNames := Some (rename_in actual t (names_of (pv_disabledModelNames p)))\<rparr>)
                           s) s)))"

section \<open>Refreshing a catalogue\<close>

definition refresh_starts :: "string \<Rightarrow> models_state \<Rightarrow> (model_error + unit) \<times> models_state" where
  "refresh_starts i s =
     (case find_provider i s of
        None \<Rightarrow> (Inl NotFound, s)
      | Some p \<Rightarrow> (Inr (), s\<lparr>ms_refreshes := ms_refreshes s @ [p]\<rparr>))"

text \<open>\<open>vault\<close> is the back end's answer for the stored key, empty when it fails.\<close>

definition resolveProviderApiKey :: "bool \<Rightarrow> string \<Rightarrow> provider \<Rightarrow> string" where
  "resolveProviderApiKey can vault p =
     (let inline = js_trim (pv_apiKey p) in
      if inline \<noteq> '''' then inline
      else if pv_hasApiKey p \<noteq> Some True \<or> \<not> can then '''' else js_trim vault)"

definition refreshed :: "provider \<Rightarrow> api_info list \<Rightarrow> provider \<Rightarrow> provider" where
  "refreshed p fetched q =
     (let manual = normalizeDisabledModelNames (pv_manualModelNames p);
          excluded = lower ` set (names_of (pv_excludedModelNames p));
          api = filter (\<lambda>x. lower (ai_id x) \<notin> excluded) fetched;
          models = mergeModelCatalog manual api;
          pruned = pruneDisabledModelNames models (Some manual)
      in q\<lparr>pv_modelNames := models, pv_manualModelNames := Some pruned,
           pv_apiModelMeta := Some (buildApiModelMeta models pruned api),
           pv_disabledModelNames := Some (pruneDisabledModelNames models (pv_disabledModelNames p))\<rparr>)"

text \<open>The call number \<open>k\<close> goes on with the provider it read when it started.\<close>

definition refresh_ends ::
  "bool \<Rightarrow> (string \<Rightarrow> string \<Rightarrow> int) \<Rightarrow> nat \<Rightarrow> string \<Rightarrow> string + (string \<times> int option \<times> string option) list
     \<Rightarrow> models_state \<Rightarrow> (model_error + nat) option \<times> models_state" where
  "refresh_ends can lc k vault answer s =
     (if k < length (ms_refreshes s)
      then (let p = ms_refreshes s ! k;
                s = s\<lparr>ms_refreshes := take k (ms_refreshes s) @ drop (Suc k) (ms_refreshes s)\<rparr>
            in if resolveProviderApiKey can vault p = '''' \<and> pv_hasApiKey p = Some True
               then (Some (Inl NoApiKey), s)
               else case fetchProviderModelList lc (pv_baseUrl p) (pv_appendV1 p) answer of
                      Inl e \<Rightarrow> (Some (Inl (FetchError e)), s)
                    | Inr fetched \<Rightarrow>
                        (Some (Inr (length (pv_modelNames (refreshed p fetched p)))),
                         commit can (on_provider (pv_id p) (refreshed p fetched) s) s))
      else (None, s))"

definition resetProviders :: "bool \<Rightarrow> models_state \<Rightarrow> models_state" where
  "resetProviders can s = commit can [] s"

section \<open>Startup\<close>

record legacy_model =
  lm_name :: string
  lm_apiStandard :: api_standard
  lm_baseUrl :: string
  lm_apiKey :: string
  lm_createdAt :: int

fun standard_text :: "api_standard \<Rightarrow> string" where
  "standard_text OpenAi = ''openai''"
| "standard_text Anthropic = ''anthropic''"

definition legacy_key :: "legacy_model \<Rightarrow> string" where
  "legacy_key m = standard_text (lm_apiStandard m) @ CHR 0x00 # lm_baseUrl m @ CHR 0x00 # lm_apiKey m"

text \<open>A group is its first model and the names of all; its time is the earliest.\<close>

definition add_legacy :: "legacy_model \<Rightarrow> (legacy_model \<times> string list) jrec \<Rightarrow> (legacy_model \<times> string list) jrec" where
  "add_legacy m groups =
     (case rget groups (legacy_key m) of
        Some (g, ns) \<Rightarrow> rput (legacy_key m)
          (g\<lparr>lm_createdAt := min (lm_createdAt g) (lm_createdAt m)\<rparr>, ns @ [lm_name m]) groups
      | None \<Rightarrow> rput (legacy_key m) (m, [lm_name m]) groups)"

definition migrateLegacyModels :: "string list \<Rightarrow> legacy_model list \<Rightarrow> provider list" where
  "migrateLegacyModels ids models =
     map (\<lambda>(i, _, g, ns).
         \<lparr> pv_providerName = hd ns, pv_apiStandard = lm_apiStandard g, pv_baseUrl = lm_baseUrl g,
           pv_appendV1 = Some True, pv_apiKey = lm_apiKey g, pv_hasApiKey = None, pv_modelNames = ns,
           pv_manualModelNames = None, pv_excludedModelNames = None, pv_disabledModelNames = None,
           pv_apiModelMeta = None, pv_id = i, pv_createdAt = lm_createdAt g \<rparr>)
       (zip ids (fold add_legacy models []))"

text \<open>A provider as the file holds it: the standard is any text, the time may be missing.\<close>

record loose_provider =
  lo_provider :: provider
  lo_apiStandard :: string
  lo_createdAt :: "int option"

definition toStrictProvider :: "int \<Rightarrow> loose_provider \<Rightarrow> provider" where
  "toStrictProvider now l =
     (let p = lo_provider l in
      p\<lparr>pv_apiStandard := (if lo_apiStandard l = ''anthropic'' then Anthropic else OpenAi),
        pv_appendV1 := Some (normalizeAppendV1 (pv_appendV1 p)),
        pv_hasApiKey := Some (pv_hasApiKey p = Some True \<or> js_trim (pv_apiKey p) \<noteq> ''''),
        pv_manualModelNames := Some (normalizeDisabledModelNames (pv_manualModelNames p)),
        pv_excludedModelNames := Some (normalizeDisabledModelNames (pv_excludedModelNames p)),
        pv_disabledModelNames := Some (normalizeDisabledModelNames (pv_disabledModelNames p)),
        pv_createdAt := patched (lo_createdAt l) now\<rparr>)"

text \<open>\<open>initAiModelsStore\<close> up to its first wait: whether \<open>commands.aiModelsLoad\<close> is called.\<close>

definition init_starts :: "bool \<Rightarrow> bool \<Rightarrow> provider list \<Rightarrow> models_state \<Rightarrow> bool \<times> models_state" where
  "init_starts can force cached s =
     (if \<not> force \<and> ms_hydrated s then (False, s)
      else if \<not> can then (False, if cached \<noteq> [] then s\<lparr>ms_providers := cached\<rparr> else s)
      else (True, s))"

text \<open>The load returns the file's providers, or fails; \<open>legacy\<close> is what \<open>readLegacyFromLocalStorage()\<close> finds.\<close>

definition init_loaded ::
  "int \<Rightarrow> loose_provider list option \<Rightarrow> provider list \<Rightarrow> provider list \<Rightarrow> models_state \<Rightarrow> models_state" where
  "init_loaded now file legacy cached s =
     (case file of
        None \<Rightarrow> use_cache cached s
      | Some [] \<Rightarrow>
          if legacy \<noteq> []
          then start_save True (Migrated legacy)
                 (map (\<lambda>p. p\<lparr>pv_disabledModelNames := Some (names_of (pv_disabledModelNames p))\<rparr>) legacy) s
          else if cached \<noteq> [] then start_save True PersistedAtStart cached (s\<lparr>ms_providers := cached\<rparr>)
          else s\<lparr>ms_hydrated := True\<rparr>
      | Some ls \<Rightarrow> s\<lparr>ms_providers := map (toStrictProvider now) ls, ms_hydrated := True\<rparr>)"

text \<open>What the \<open>persist\<close> middleware writes to the local storage.\<close>

definition local_copy :: "models_state \<Rightarrow> provider list" where
  "local_copy s = map (\<lambda>p. p\<lparr>pv_apiKey := ''''\<rparr>) (ms_providers s)"

section \<open>Helpers of the settings page\<close>

text \<open>The number of dots and the visible rest.\<close>

definition maskApiKey :: "string \<Rightarrow> bool \<Rightarrow> nat \<times> string" where
  "maskApiKey key has =
     (if key = '''' then (if has then (8, '''') else (0, ''''))
      else if length key \<le> 4 then (length key, '''')
      else (4, drop (length key - 4) key))"

definition defaultBaseUrlFor :: "api_standard \<Rightarrow> string" where
  "defaultBaseUrlFor st =
     (case st of OpenAi \<Rightarrow> ''https://api.openai.com/v1'' | Anthropic \<Rightarrow> ''https://api.anthropic.com'')"

fun split_char :: "char \<Rightarrow> string \<Rightarrow> string list" where
  "split_char d [] = [[]]"
| "split_char d (c # s) =
     (if c = d then [] # split_char d s
      else (case split_char d s of w # ws \<Rightarrow> (c # w) # ws | [] \<Rightarrow> [[c]]))"

fun take_names :: "string list \<Rightarrow> string list \<Rightarrow> string + string list" where
  "take_names seen [] = Inr []"
| "take_names seen (part # ps) =
     (let name = js_trim part in
      if name = '''' then take_names seen ps
      else if lower name \<in> set seen then Inl name
      else map_sum id ((#) name) (take_names (lower name # seen) ps))"

definition parseModelNames :: "string \<Rightarrow> string + string list" where
  "parseModelNames input = take_names [] (split_char CHR '','' input)"

section \<open>Selecting a model\<close>

definition buildModelSelectionId :: "string \<Rightarrow> string \<Rightarrow> string" where
  "buildModelSelectionId i name = i @ ''::'' @ name"

definition parseModelSelectionId :: "string \<Rightarrow> (string \<times> string) option" where
  "parseModelSelectionId sel =
     (case index_of sel ''::'' of
        None \<Rightarrow> None
      | Some k \<Rightarrow> if k = 0 \<or> drop (k + 2) sel = '''' then None else Some (take k sel, drop (k + 2) sel))"

definition isModelEnabled :: "provider \<Rightarrow> string \<Rightarrow> bool" where
  "isModelEnabled p name = (name \<notin> set (names_of (pv_disabledModelNames p)))"

definition countEnabledModels :: "provider \<Rightarrow> nat" where
  "countEnabledModels p = length (filter (isModelEnabled p) (pv_modelNames p))"

record model_config =
  mc_apiStandard :: api_standard
  mc_name :: string
  mc_baseUrl :: string
  mc_apiKey :: string

definition resolveModelSelection :: "provider list \<Rightarrow> string \<Rightarrow> model_config option" where
  "resolveModelSelection ps sel =
     (case parseModelSelectionId sel of
        None \<Rightarrow> None
      | Some (i, name) \<Rightarrow>
          (case find (\<lambda>p. pv_id p = i) ps of
             None \<Rightarrow> None
           | Some p \<Rightarrow>
               if name \<notin> set (pv_modelNames p) \<or> \<not> isModelEnabled p name then None
               else Some \<lparr> mc_apiStandard = pv_apiStandard p, mc_name = name,
                           mc_baseUrl = providerApiBaseUrl p, mc_apiKey = js_trim (pv_apiKey p) \<rparr>))"

definition enabled_ids :: "provider list \<Rightarrow> string list" where
  "enabled_ids ps =
     concat (map (\<lambda>p. map (buildModelSelectionId (pv_id p)) (filter (isModelEnabled p) (pv_modelNames p))) ps)"

definition selection_label :: "provider \<Rightarrow> string \<Rightarrow> string" where
  "selection_label p name =
     pv_providerName p @ '' / '' @ name @ '' ('' @
       (case pv_apiStandard p of Anthropic \<Rightarrow> ''Anthropic'' | OpenAi \<Rightarrow> ''OpenAI'') @ '')''"

definition listModelSelections :: "provider list \<Rightarrow> (string \<times> string) list" where
  "listModelSelections ps =
     concat (map (\<lambda>p. map (\<lambda>name. (buildModelSelectionId (pv_id p) name, selection_label p name))
         (filter (isModelEnabled p) (pv_modelNames p))) ps)"

definition firstModelSelectionId :: "provider list \<Rightarrow> string option" where
  "firstModelSelectionId ps = (case enabled_ids ps of [] \<Rightarrow> None | x # _ \<Rightarrow> Some x)"

text \<open>Agents of other programs that offer models.\<close>

record agent_source =
  as_id :: string
  as_signedIn :: bool
  as_models :: "string list"

definition isAgentSourceSelection :: "agent_source list \<Rightarrow> string \<Rightarrow> bool" where
  "isAgentSourceSelection sources sel =
     (case parseModelSelectionId sel of
        None \<Rightarrow> False
      | Some (i, name) \<Rightarrow> list_ex (\<lambda>a. as_signedIn a \<and> as_id a = i \<and> name \<in> set (as_models a)) sources)"

definition isStructuredBackendId :: "string \<Rightarrow> bool" where
  "isStructuredBackendId i = starts_with i ''http:''"

definition buildHttpBackendId :: "string \<Rightarrow> string \<Rightarrow> string" where
  "buildHttpBackendId i name = ''http:'' @ i @ ''::'' @ name"

record http_provider =
  hp_providerId :: string
  hp_apiStandard :: string
  hp_baseUrl :: string
  hp_apiKey :: string

record backend =
  be_backendId :: string
  be_httpProvider :: http_provider

definition resolveHttpBackendFromSelection :: "provider list \<Rightarrow> string option \<Rightarrow> backend option" where
  "resolveHttpBackendFromSelection ps sel =
     (if \<not> truthy sel then None
      else case parseModelSelectionId (the sel) of
             None \<Rightarrow> None
           | Some (i, name) \<Rightarrow>
               (case resolveModelSelection ps (the sel) of
                  None \<Rightarrow> None
                | Some m \<Rightarrow> Some \<lparr> be_backendId = buildHttpBackendId i name,
                     be_httpProvider = \<lparr> hp_providerId = i, hp_apiStandard = standard_text (mc_apiStandard m),
                       hp_baseUrl = mc_baseUrl m, hp_apiKey = mc_apiKey m \<rparr> \<rparr>))"

definition resolveAgentHttpBackend :: "agent_source list \<Rightarrow> string \<Rightarrow> backend option" where
  "resolveAgentHttpBackend sources sel =
     (case parseModelSelectionId sel of
        None \<Rightarrow> None
      | Some (i, name) \<Rightarrow>
          (case find (\<lambda>a. as_signedIn a \<and> as_id a = i) sources of
             None \<Rightarrow> None
           | Some a \<Rightarrow>
               if name \<notin> set (as_models a) then None
               else Some \<lparr> be_backendId = buildHttpBackendId i name,
                     be_httpProvider = \<lparr> hp_providerId = i, hp_apiStandard = ''openai'',
                       hp_baseUrl = ''https://copilot.tencent.com'', hp_apiKey = '''' \<rparr> \<rparr>))"

definition resolveBackendFromSelection ::
  "agent_source list \<Rightarrow> provider list \<Rightarrow> string option \<Rightarrow> backend option" where
  "resolveBackendFromSelection sources ps sel =
     (if \<not> truthy sel then None
      else case resolveHttpBackendFromSelection ps sel of
             Some b \<Rightarrow> Some b
           | None \<Rightarrow> resolveAgentHttpBackend sources (the sel))"

text \<open>\<open>id?.trim()\<close> as a condition.\<close>

definition trimmed :: "string option \<Rightarrow> string option" where
  "trimmed x = (case x of None \<Rightarrow> None | Some s \<Rightarrow> if js_trim s = '''' then None else Some (js_trim s))"

definition resolveScenarioModelSelectionId ::
  "agent_source list \<Rightarrow> provider list \<Rightarrow> string option \<Rightarrow> string option" where
  "resolveScenarioModelSelectionId sources ps configured =
     (case trimmed configured of
        Some t \<Rightarrow>
          if isStructuredBackendId t \<or> isAgentSourceSelection sources t then Some t
          else if resolveModelSelection ps t \<noteq> None then Some t
          else firstModelSelectionId ps
      | None \<Rightarrow> firstModelSelectionId ps)"

definition resolveConversationModelSelectionId ::
  "agent_source list \<Rightarrow> provider list \<Rightarrow> string option \<Rightarrow> string option \<Rightarrow> string option \<Rightarrow> string option" where
  "resolveConversationModelSelectionId sources ps conv assistantDefault draft =
     (let fromConversation = resolveScenarioModelSelectionId sources ps conv;
          fromDraft = resolveScenarioModelSelectionId sources ps draft
      in if trimmed conv \<noteq> None \<and> truthy fromConversation then fromConversation
         else if trimmed draft \<noteq> None \<and> truthy fromDraft then fromDraft
         else resolveScenarioModelSelectionId sources ps assistantDefault)"

definition resolveTerminalModelSelectionId ::
  "agent_source list \<Rightarrow> provider list \<Rightarrow> string option \<Rightarrow> string option \<Rightarrow> string option" where
  "resolveTerminalModelSelectionId sources ps terminalDefault assistantDefault =
     (case trimmed terminalDefault of
        Some t \<Rightarrow>
          if isStructuredBackendId t then Some t
          else if truthy (resolveScenarioModelSelectionId sources ps (Some t))
          then resolveScenarioModelSelectionId sources ps (Some t)
          else resolveScenarioModelSelectionId sources ps assistantDefault
      | None \<Rightarrow> resolveScenarioModelSelectionId sources ps assistantDefault)"

section \<open>Operations\<close>

datatype models_op =
    AddProvider int string provider_input
  | UpsertProvider int string provider_input
  | RemoveProvider string
  | UpdateProvider string provider_patch
  | SetModelEnabled string string bool
  | SetAllModelsEnabled string bool
  | AddManualModel string string
  | RemoveModel string string
  | RenameManualModel string string string
  | RefreshStarts string
  | RefreshEnds nat string "string + (string \<times> int option \<times> string option) list"
  | ResetProviders
  | SaveReturns nat save_result "provider list"
  | InitStarts bool "provider list"
  | InitLoaded int "loose_provider list option" "provider list" "provider list"

fun models_apply :: "bool \<Rightarrow> (string \<Rightarrow> string \<Rightarrow> int) \<Rightarrow> models_op \<Rightarrow> models_state \<Rightarrow> models_state" where
  "models_apply can lc (AddProvider now i input) s = snd (addProvider can now i input s)"
| "models_apply can lc (UpsertProvider now i input) s = snd (upsertProviderById can now i input s)"
| "models_apply can lc (RemoveProvider i) s = removeProvider can i s"
| "models_apply can lc (UpdateProvider i u) s = updateProvider can i u s"
| "models_apply can lc (SetModelEnabled i n b) s = setModelEnabled can i n b s"
| "models_apply can lc (SetAllModelsEnabled i b) s = setAllModelsEnabled can i b s"
| "models_apply can lc (AddManualModel i n) s = snd (addManualModel can i n s)"
| "models_apply can lc (RemoveModel i n) s = snd (removeModel can i n s)"
| "models_apply can lc (RenameManualModel i n m) s = snd (renameManualModel can i n m s)"
| "models_apply can lc (RefreshStarts i) s = snd (refresh_starts i s)"
| "models_apply can lc (RefreshEnds k vault answer) s = snd (refresh_ends can lc k vault answer s)"
| "models_apply can lc ResetProviders s = resetProviders can s"
| "models_apply can lc (SaveReturns i r cached) s = save_returns i r cached s"
| "models_apply can lc (InitStarts force cached) s = snd (init_starts can force cached s)"
| "models_apply can lc (InitLoaded now file legacy cached) s = init_loaded now file legacy cached s"

section \<open>Invariant\<close>

definition names_ok :: "string list \<Rightarrow> bool" where
  "names_ok ns \<longleftrightarrow> distinct (map lower ns) \<and> (\<forall>n\<in>set ns. n \<noteq> '''' \<and> js_trim n = n)"

text \<open>A provider whose key is in memory is marked as having one, so the mark survives the key.\<close>

definition key_marked :: "provider \<Rightarrow> bool" where
  "key_marked p \<longleftrightarrow> (js_trim (pv_apiKey p) \<noteq> '''' \<longrightarrow> pv_hasApiKey p = Some True)"

definition legacy_ok :: "provider list \<Rightarrow> bool" where
  "legacy_ok ps \<longleftrightarrow> distinct (map pv_id ps) \<and> (\<forall>p\<in>set ps. names_ok (pv_modelNames p))"

definition providers_ok :: "provider list \<Rightarrow> bool" where
  "providers_ok ps \<longleftrightarrow> legacy_ok ps \<and> (\<forall>p\<in>set ps. key_marked p)"

fun pending_ok :: "after_save \<Rightarrow> bool" where
  "pending_ok (Migrated legacy) = legacy_ok legacy"
| "pending_ok _ = True"

definition models_wf :: "models_state \<Rightarrow> bool" where
  "models_wf s \<longleftrightarrow> providers_ok (ms_providers s) \<and> (\<forall>x\<in>set (ms_saves s). pending_ok (fst x))"

text \<open>
  What the callers provide: a new identifier, model names that differ in more than their case (the
  form uses \<open>parseModelNames\<close>), no patch that keeps a key and unmarks it, and sound stored data.
\<close>

fun admissible :: "models_op \<Rightarrow> models_state \<Rightarrow> bool" where
  "admissible (AddProvider now i input) s \<longleftrightarrow>
     i \<notin> pv_id ` set (ms_providers s) \<and> distinct (map lower (normalizeModelNames (pv_modelNames input)))"
| "admissible (UpsertProvider now i input) s \<longleftrightarrow> distinct (map lower (normalizeModelNames (pv_modelNames input)))"
| "admissible (UpdateProvider i u) s \<longleftrightarrow>
     distinct (map lower (normalizeModelNames (names_of (pp_modelNames u))))
     \<and> (pp_hasApiKey u = Some False \<longrightarrow> pp_apiKey u = Some '''')"
| "admissible (SaveReturns i r cached) s \<longleftrightarrow> providers_ok cached"
| "admissible (InitStarts force cached) s \<longleftrightarrow> providers_ok cached"
| "admissible (InitLoaded now file legacy cached) s \<longleftrightarrow>
     legacy_ok (case file of None \<Rightarrow> [] | Some ls \<Rightarrow> map lo_provider ls) \<and> legacy_ok legacy \<and> providers_ok cached"
| "admissible _ s \<longleftrightarrow> True"

inductive models_reach :: "bool \<Rightarrow> (string \<Rightarrow> string \<Rightarrow> int) \<Rightarrow> models_state \<Rightarrow> bool" for can lc where
  ModelsInit: "models_reach can lc models_init"
| ModelsStep: "models_reach can lc s \<Longrightarrow> admissible a s \<Longrightarrow> models_reach can lc (models_apply can lc a s)"

section \<open>Names\<close>

lemma names_of_simps [simp]: "names_of None = []" "names_of (Some ns) = ns"
  by (simp_all add: names_of_def)

lemma patched_simps [simp]: "patched None x = x" "patched (Some y) x = y"
  by (simp_all add: patched_def)

lemma names_ok_Nil [simp]: "names_ok []"
  by (simp add: names_ok_def)

lemma names_ok_filter: "names_ok ns \<Longrightarrow> names_ok (filter P ns)"
  by (auto simp: names_ok_def distinct_map_filter)

lemma names_ok_distinct: "names_ok ns \<Longrightarrow> distinct ns"
  by (auto simp: names_ok_def distinct_map)

lemma first_of_each_fresh: "lower ` set (first_of_each seen ns) \<inter> set seen = {}"
  by (induction seen ns rule: first_of_each.induct) (auto simp: Let_def)

lemma names_ok_first_of_each: "names_ok (first_of_each seen ns)"
proof (induction seen ns rule: first_of_each.induct)
  case (2 seen n ns)
  define t where "t = js_trim n"
  have t: "js_trim t = t" by (simp add: t_def)
  show ?case
  proof (cases "t = '''' \<or> lower t \<in> set seen")
    case True
    with 2 show ?thesis by (simp add: t_def [symmetric] Let_def)
  next
    case False
    with 2 have "names_ok (first_of_each (lower t # seen) ns)" by (simp add: t_def)
    moreover have "lower t \<notin> lower ` set (first_of_each (lower t # seen) ns)"
      using first_of_each_fresh [of "lower t # seen" ns] by auto
    ultimately show ?thesis
      using False t unfolding names_ok_def by (simp add: t_def [symmetric] Let_def)
  qed
qed simp

lemma names_ok_normalize:
  "distinct (map lower (normalizeModelNames ns)) \<Longrightarrow> names_ok (normalizeModelNames ns)"
  by (auto simp: names_ok_def normalizeModelNames_def)

lemma names_ok_snoc:
  "names_ok ns \<Longrightarrow> js_trim t = t \<Longrightarrow> t \<noteq> '''' \<Longrightarrow> \<not> list_ex (\<lambda>n. lower n = lower t) ns \<Longrightarrow> names_ok (ns @ [t])"
  by (auto simp: names_ok_def list_ex_iff)

lemma names_ok_rename:
  assumes "names_ok ns" "actual \<in> set ns" "js_trim t = t" "t \<noteq> ''''"
    and "\<not> list_ex (\<lambda>n. lower n = lower t \<and> n \<noteq> actual) ns"
  shows "names_ok (rename_in actual t ns)"
proof -
  define f where "f = (\<lambda>k. if k = lower actual then lower t else k)"
  have "map lower (rename_in actual t ns) = map f (map lower ns)"
    by (simp add: rename_in_def f_def comp_def)
  moreover have "inj_on f (set (map lower ns))"
  proof (rule inj_onI)
    fix x y assume xy: "x \<in> set (map lower ns)" "y \<in> set (map lower ns)" "f x = f y"
    have *: "k = lower actual" if "k \<in> set (map lower ns)" "k = lower t" for k
      using assms(5) that by (auto simp: list_ex_iff)
    show "x = y"
      using xy(3) * [OF xy(1)] * [OF xy(2)] by (simp add: f_def split: if_splits)
  qed
  ultimately have "distinct (map lower (rename_in actual t ns))"
    using assms(1) by (simp only: names_ok_def distinct_map)
  moreover have "\<forall>n\<in>set (rename_in actual t ns). n \<noteq> '''' \<and> js_trim n = n"
    using assms(1,3,4) by (auto simp: names_ok_def rename_in_def)
  ultimately show ?thesis by (simp add: names_ok_def)
qed

section \<open>The invariant is kept\<close>

lemma legacy_okD: "legacy_ok ps \<Longrightarrow> p \<in> set ps \<Longrightarrow> names_ok (pv_modelNames p)"
  by (simp add: legacy_ok_def)

lemma pv_ids_map_where: "(\<And>p. pv_id (f p) = pv_id p) \<Longrightarrow> map pv_id (map_where P f ps) = map pv_id ps"
  by (simp add: map_map_where_id)

lemma providers_ok_on:
  assumes "providers_ok (ms_providers s)" "\<And>q. pv_id (f q) = i \<or> pv_id (f q) = pv_id q"
    and "\<And>q. q \<in> set (ms_providers s) \<Longrightarrow> pv_id q = i \<Longrightarrow> names_ok (pv_modelNames (f q)) \<and> key_marked (f q)"
  shows "providers_ok (on_provider i f s)"
proof -
  have "map pv_id (on_provider i f s) = map pv_id (ms_providers s)"
    using assms(2) by (auto simp: on_provider_def map_where_def)
  with assms(1,3) show ?thesis
    by (auto simp: providers_ok_def legacy_ok_def on_provider_def set_map_where)
qed

lemma models_wf_commit: "providers_ok ps \<Longrightarrow> models_wf s \<Longrightarrow> models_wf (commit can ps s)"
  by (auto simp: models_wf_def commit_def start_save_def)

lemma find_providerD: "find_provider i s = Some p \<Longrightarrow> p \<in> set (ms_providers s) \<and> pv_id p = i"
  by (auto simp: find_provider_def dest: find_SomeD)

lemma key_marked_scrub: "key_marked (scrub_key p)"
  by (simp add: key_marked_def scrub_key_def js_trim_def trim_start_def trim_end_def)

lemma providers_ok_scrub: "legacy_ok ps \<Longrightarrow> providers_ok (scrubProvidersApiKeysInMemory ps)"
  by (auto simp: providers_ok_def legacy_ok_def scrubProvidersApiKeysInMemory_def comp_def key_marked_scrub)
     (simp_all add: scrub_key_def)

lemma providers_ok_legacy: "providers_ok ps \<Longrightarrow> legacy_ok ps"
  by (simp add: providers_ok_def)

lemma providers_okD: "providers_ok ps \<Longrightarrow> p \<in> set ps \<Longrightarrow> names_ok (pv_modelNames p) \<and> key_marked p"
  by (simp add: providers_ok_def legacy_ok_def)

lemma providers_ok_Cons:
  "providers_ok ps \<Longrightarrow> pv_id p \<notin> pv_id ` set ps \<Longrightarrow> names_ok (pv_modelNames p) \<Longrightarrow> key_marked p \<Longrightarrow> providers_ok (p # ps)"
  by (simp add: providers_ok_def legacy_ok_def)

lemma providers_ok_Nil [simp]: "providers_ok []"
  by (simp add: providers_ok_def legacy_ok_def)

lemma models_wfD: "models_wf s \<Longrightarrow> providers_ok (ms_providers s)"
  by (simp add: models_wf_def)

lemma models_wf_on:
  assumes "models_wf s" "\<And>q. pv_id (f q) = i \<or> pv_id (f q) = pv_id q"
    and "\<And>q. q \<in> set (ms_providers s) \<Longrightarrow> pv_id q = i \<Longrightarrow> names_ok (pv_modelNames q) \<Longrightarrow> key_marked q
           \<Longrightarrow> names_ok (pv_modelNames (f q)) \<and> key_marked (f q)"
  shows "models_wf (commit can (on_provider i f s) s)"
  using assms by (intro models_wf_commit providers_ok_on models_wfD) (auto dest: providers_okD models_wfD)

lemma find_provider_ok: "models_wf s \<Longrightarrow> find_provider i s = Some p \<Longrightarrow> names_ok (pv_modelNames p)"
  by (auto dest!: find_providerD models_wfD providers_okD)

lemma findModelNameD: "findModelName ns name = Some n \<Longrightarrow> n \<in> set ns"
  by (auto simp: findModelName_def dest: find_SomeD)

lemma key_marked_update [simp]:
  "key_marked (q\<lparr>pv_modelNames := a\<rparr>) = key_marked q" "key_marked (q\<lparr>pv_manualModelNames := b\<rparr>) = key_marked q"
  "key_marked (q\<lparr>pv_disabledModelNames := b\<rparr>) = key_marked q" "key_marked (q\<lparr>pv_excludedModelNames := b\<rparr>) = key_marked q"
  "key_marked (q\<lparr>pv_apiModelMeta := m\<rparr>) = key_marked q"
  by (simp_all add: key_marked_def)

lemma models_wf_add:
  assumes "models_wf s" "admissible (AddProvider now i input) s"
  shows "models_wf (snd (addProvider can now i input s))"
  using assms models_wfD [OF assms(1)] names_ok_normalize
  by (auto simp: addProvider_def Let_def key_marked_def intro!: models_wf_commit providers_ok_Cons)

lemma models_wf_upsert:
  assumes "models_wf s" "admissible (UpsertProvider now i input) s"
  shows "models_wf (snd (upsertProviderById can now i input s))"
proof -
  obtain p where p: "upsertProviderById can now i input s =
      (p, commit can (if find_provider i s \<noteq> None then on_provider i (\<lambda>_. p) s else p # ms_providers s) s)"
    "pv_id p = i" "pv_modelNames p = normalizeModelNames (pv_modelNames input)" "key_marked p"
    by (auto simp: upsertProviderById_def Let_def key_marked_def)
  have n: "names_ok (pv_modelNames p)" using assms(2) p(3) names_ok_normalize by simp
  show ?thesis
  proof (cases "find_provider i s")
    case None
    then have "i \<notin> pv_id ` set (ms_providers s)"
      by (auto simp: find_provider_def find_None_iff)
    with None p n assms(1) show ?thesis
      by (auto intro!: models_wf_commit providers_ok_Cons models_wfD)
  next
    case (Some q)
    with p n assms(1) show ?thesis by (auto intro!: models_wf_on)
  qed
qed

lemma key_marked_patch:
  "key_marked p \<Longrightarrow> (pp_hasApiKey u = Some False \<longrightarrow> pp_apiKey u = Some '''') \<Longrightarrow> key_marked (patch_provider u p)"
  by (auto simp: key_marked_def patch_provider_def Let_def js_trim_def trim_start_def trim_end_def split: option.splits bool.splits)

lemma names_ok_patch:
  "names_ok (pv_modelNames p) \<Longrightarrow> distinct (map lower (normalizeModelNames (names_of (pp_modelNames u))))
    \<Longrightarrow> names_ok (pv_modelNames (patch_provider u p))"
  by (cases "pp_modelNames u") (simp_all add: patch_provider_def Let_def names_ok_normalize)

lemma patch_provider_id [simp]: "pv_id (patch_provider u p) = pv_id p"
  by (simp add: patch_provider_def Let_def)

lemma set_enabled_frame [simp]:
  "pv_id (set_enabled n b p) = pv_id p" "pv_modelNames (set_enabled n b p) = pv_modelNames p"
  "key_marked (set_enabled n b p) = key_marked p"
  by (simp_all add: set_enabled_def Let_def)

lemma refreshed_frame [simp]: "pv_id (refreshed p xs q) = pv_id q" "key_marked (refreshed p xs q) = key_marked q"
  by (simp_all add: refreshed_def Let_def)

lemma refreshed_names: "names_ok (pv_modelNames (refreshed p xs q))"
  by (simp add: refreshed_def Let_def mergeModelCatalog_def names_ok_first_of_each)

lemma models_wf_addManual: "models_wf s \<Longrightarrow> models_wf (snd (addManualModel can i n s))"
  by (auto simp: addManualModel_def Let_def find_provider_ok intro!: models_wf_on names_ok_snoc split: option.split)

lemma models_wf_removeModel: "models_wf s \<Longrightarrow> models_wf (snd (removeModel can i n s))"
  by (auto simp: removeModel_def Let_def find_provider_ok without_def intro!: models_wf_on names_ok_filter split: option.split)

lemma models_wf_rename: "models_wf s \<Longrightarrow> models_wf (snd (renameManualModel can i n m s))"
  by (auto simp: renameManualModel_def Let_def find_provider_ok dest!: findModelNameD
      intro!: models_wf_on names_ok_rename split: option.split)

lemma set_take_drop: "set (take i xs @ drop (Suc i) xs) \<subseteq> set xs"
  by (auto dest: in_set_takeD in_set_dropD)

lemma models_wf_returns:
  assumes "models_wf s" "providers_ok cached"
  shows "models_wf (save_returns i r cached s)"
proof (cases "i < length (ms_saves s)")
  case True
  obtain next' saved where n: "ms_saves s ! i = (next', saved)" by (cases "ms_saves s ! i")
  define s' where "s' = s\<lparr>ms_saves := take i (ms_saves s) @ drop (Suc i) (ms_saves s),
    ms_written := (if r = SaveOk then ms_written s @ [saved] else ms_written s)\<rparr>"
  have "\<forall>x\<in>set (ms_saves s'). pending_ok (fst x)"
    using assms(1) set_take_drop [of i "ms_saves s"] by (auto simp: s'_def models_wf_def)
  moreover have "providers_ok (ms_providers s')" using models_wfD [OF assms(1)] by (simp add: s'_def)
  moreover have "pending_ok next'" using assms(1) nth_mem [OF True] n by (auto simp: models_wf_def)
  ultimately have "models_wf (after_returns next' r saved cached s')"
    using assms(2)
    by (cases next'; cases r)
       (auto simp: models_wf_def after_persist_def Let_def use_cache_def providers_ok_scrub providers_ok_legacy)
  then show ?thesis using True n by (simp add: save_returns_def s'_def Let_def)
qed (simp add: save_returns_def assms(1))

lemma key_marked_strict: "key_marked (toStrictProvider now l)"
  by (simp add: key_marked_def toStrictProvider_def Let_def)

lemma toStrictProvider_frame [simp]:
  "pv_id (toStrictProvider now l) = pv_id (lo_provider l)"
  "pv_modelNames (toStrictProvider now l) = pv_modelNames (lo_provider l)"
  by (simp_all add: toStrictProvider_def Let_def)

lemma providers_ok_strict: "legacy_ok (map lo_provider ls) \<Longrightarrow> providers_ok (map (toStrictProvider now) ls)"
  by (auto simp: providers_ok_def legacy_ok_def comp_def key_marked_strict)

lemma models_wf_loaded:
  assumes "models_wf s" "admissible (InitLoaded now file legacy cached) s"
  shows "models_wf (init_loaded now file legacy cached s)"
proof (cases "file")
  case None
  with assms show ?thesis by (simp add: init_loaded_def use_cache_def models_wf_def)
next
  case (Some ls)
  show ?thesis
  proof (cases ls)
    case Nil
    with Some assms show ?thesis by (simp add: init_loaded_def models_wf_def start_save_def)
  next
    case (Cons l ls')
    with Some assms providers_ok_strict [of ls now] show ?thesis by (simp add: init_loaded_def models_wf_def)
  qed
qed

lemma models_wf_refresh_ends: "models_wf s \<Longrightarrow> models_wf (snd (refresh_ends can lc k vault answer s))"
proof -
  assume wf: "models_wf s"
  define s' where "s' = s\<lparr>ms_refreshes := take k (ms_refreshes s) @ drop (Suc k) (ms_refreshes s)\<rparr>"
  have "models_wf s'" using wf by (simp add: s'_def models_wf_def)
  moreover have "models_wf (commit can (on_provider (pv_id p) (refreshed p xs) s') s')" for p xs
    using \<open>models_wf s'\<close> by (auto intro!: models_wf_on refreshed_names)
  ultimately show ?thesis using wf
    by (auto simp: refresh_ends_def Let_def s'_def [symmetric] split: sum.split)
qed

lemma models_wf_step: "models_wf s \<Longrightarrow> admissible a s \<Longrightarrow> models_wf (models_apply can lc a s)"
proof (cases a)
  case (RemoveProvider i)
  assume wf: "models_wf s"
  have "providers_ok (filter P (ms_providers s))" for P
    using models_wfD [OF wf] by (auto simp: providers_ok_def legacy_ok_def distinct_map_filter)
  with RemoveProvider wf show ?thesis by (simp add: removeProvider_def models_wf_commit)
next
  case (UpdateProvider i u)
  assume "models_wf s" "admissible a s"
  with UpdateProvider show ?thesis
    by (auto simp: updateProvider_def intro!: models_wf_on names_ok_patch key_marked_patch)
next
  case (RefreshStarts i)
  assume "models_wf s"
  with RefreshStarts show ?thesis by (simp add: refresh_starts_def models_wf_def split: option.split)
next
  case (InitStarts force cached)
  assume "models_wf s" "admissible a s"
  with InitStarts show ?thesis by (simp add: init_starts_def models_wf_def)
next
  case (SetModelEnabled i n b)
  assume "models_wf s"
  with SetModelEnabled show ?thesis by (auto simp: setModelEnabled_def intro!: models_wf_on)
next
  case (SetAllModelsEnabled i b)
  assume "models_wf s"
  with SetAllModelsEnabled show ?thesis by (auto simp: setAllModelsEnabled_def intro!: models_wf_on)
qed (simp_all add: resetProviders_def models_wf_commit models_wf_add models_wf_upsert
    models_wf_addManual models_wf_removeModel models_wf_rename models_wf_returns models_wf_refresh_ends
    models_wf_loaded)

lemma models_reach_wf: "models_reach can lc s \<Longrightarrow> models_wf s"
  by (induction rule: models_reach.induct) (simp_all add: models_wf_step, simp add: models_init_def models_wf_def)

section \<open>Properties\<close>


definition demo_input :: provider_input where
  "demo_input = \<lparr> pv_providerName = ''Acme'', pv_apiStandard = OpenAi, pv_baseUrl = ''https://acme.test/'',
     pv_appendV1 = None, pv_apiKey = '' k1 '', pv_hasApiKey = None, pv_modelNames = ['' big'', ''small''],
     pv_manualModelNames = Some [''big''], pv_excludedModelNames = None, pv_disabledModelNames = None,
     pv_apiModelMeta = None \<rparr>"

definition demo_models :: models_state where
  "demo_models = snd (addProvider True 5 ''p'' demo_input models_init)"

lemma demo_models_reach: "models_reach True lc demo_models"
proof -
  have "admissible (AddProvider 5 ''p'' demo_input) models_init" by code_simp
  from ModelsStep [OF ModelsInit this] show ?thesis by (simp add: demo_models_def)
qed


subsection \<open>Selections\<close>

lemma index_of_colon:
  assumes "CHR '':'' \<notin> set i" shows "index_of (i @ CHR '':'' # CHR '':'' # rest) ''::'' = Some (length i)"
  using assms by (induction i) (auto simp: starts_with_def)

lemma parse_build:
  "CHR '':'' \<notin> set i \<Longrightarrow> i \<noteq> '''' \<Longrightarrow> name \<noteq> '''' \<Longrightarrow> parseModelSelectionId (buildModelSelectionId i name) = Some (i, name)"
  by (simp add: parseModelSelectionId_def buildModelSelectionId_def index_of_colon)

lemma parse_Some:
  assumes "parseModelSelectionId sel = Some (i, name)"
  shows "sel = buildModelSelectionId i name \<and> i \<noteq> '''' \<and> name \<noteq> ''''"
proof -
  from assms obtain k where k: "index_of sel ''::'' = Some k" "k \<noteq> 0" "drop (k + 2) sel \<noteq> ''''"
    "i = take k sel" "name = drop (k + 2) sel"
    by (auto simp: parseModelSelectionId_def split: option.splits if_splits)
  have "k \<le> length sel" "starts_with (drop k sel) ''::''" using index_of_found [OF k(1)] by blast+
  then obtain t where t: "drop k sel = ''::'' @ t" by (auto simp: starts_with_iff)
  then have "drop (k + 2) sel = t" by (metis add.commute append_Cons append_Nil drop0 drop_Suc_Cons drop_drop numeral_2_eq_2)
  then have "sel = take k sel @ ''::'' @ drop (k + 2) sel" using t append_take_drop_id [of k sel] by simp
  with k show ?thesis by (auto simp: buildModelSelectionId_def)
qed

definition plain_ids :: "provider list \<Rightarrow> bool" where
  "plain_ids ps \<longleftrightarrow> (\<forall>p\<in>set ps. pv_id p \<noteq> '''' \<and> CHR '':'' \<notin> set (pv_id p))"

lemma find_by_id: "distinct (map pv_id ps) \<Longrightarrow> p \<in> set ps \<Longrightarrow> find (\<lambda>q. pv_id q = pv_id p) ps = Some p"
  by (induction ps) auto

lemma resolve_enabled:
  assumes "providers_ok ps" "plain_ids ps" "p \<in> set ps" "name \<in> set (pv_modelNames p)" "isModelEnabled p name"
  shows "resolveModelSelection ps (buildModelSelectionId (pv_id p) name) =
    Some \<lparr> mc_apiStandard = pv_apiStandard p, mc_name = name,
           mc_baseUrl = providerApiBaseUrl p, mc_apiKey = js_trim (pv_apiKey p) \<rparr>"
proof -
  have "name \<noteq> ''''" using providers_okD [OF assms(1,3)] assms(4) by (auto simp: names_ok_def)
  then have "parseModelSelectionId (buildModelSelectionId (pv_id p) name) = Some (pv_id p, name)"
    using assms(2,3) by (simp add: plain_ids_def parse_build)
  moreover have "find (\<lambda>q. pv_id q = pv_id p) ps = Some p"
    using assms(1,3) by (simp add: providers_ok_def legacy_ok_def find_by_id)
  ultimately show ?thesis using assms(4,5) by (simp add: resolveModelSelection_def)
qed

lemma fst_listed: "map fst (listModelSelections ps) = enabled_ids ps"
  by (simp add: listModelSelections_def enabled_ids_def map_concat comp_def)

lemma enabled_ids_iff:
  "sel \<in> set (enabled_ids ps) \<longleftrightarrow>
     (\<exists>p\<in>set ps. \<exists>name\<in>set (pv_modelNames p). isModelEnabled p name \<and> sel = buildModelSelectionId (pv_id p) name)"
  by (auto simp: enabled_ids_def)

lemma resolve_iff_listed:
  assumes "providers_ok ps" "plain_ids ps"
  shows "resolveModelSelection ps sel \<noteq> None \<longleftrightarrow> sel \<in> set (enabled_ids ps)"
proof
  assume "resolveModelSelection ps sel \<noteq> None"
  then obtain i name p where "parseModelSelectionId sel = Some (i, name)" "find (\<lambda>p. pv_id p = i) ps = Some p"
    "name \<in> set (pv_modelNames p)" "isModelEnabled p name"
    by (auto simp: resolveModelSelection_def split: option.splits prod.splits if_splits)
  then show "sel \<in> set (enabled_ids ps)"
    unfolding enabled_ids_iff using parse_Some find_SomeD by fastforce
next
  assume "sel \<in> set (enabled_ids ps)"
  then show "resolveModelSelection ps sel \<noteq> None"
    unfolding enabled_ids_iff using resolve_enabled [OF assms] by auto
qed

lemma distinct_enabled_ids:
  assumes "providers_ok ps" "plain_ids ps" shows "distinct (enabled_ids ps)"
proof -
  have "inj_on (\<lambda>name. buildModelSelectionId i name) A" for i A
    by (auto simp: inj_on_def buildModelSelectionId_def)
  then have one: "distinct (map (buildModelSelectionId (pv_id p)) (filter (isModelEnabled p) (pv_modelNames p)))"
    if "p \<in> set ps" for p
    using providers_okD [OF assms(1) that] names_ok_distinct by (simp add: distinct_map)
  have d: "distinct (map pv_id ps)" using assms(1) by (simp add: providers_ok_def legacy_ok_def)
  have same: "p = q" if "p \<in> set ps" "q \<in> set ps" "n \<in> set (pv_modelNames p)" "m \<in> set (pv_modelNames q)"
      "buildModelSelectionId (pv_id p) n = buildModelSelectionId (pv_id q) m" for p q n m
  proof -
    have "n \<noteq> ''''" "m \<noteq> ''''" using providers_okD [OF assms(1)] that by (auto simp: names_ok_def)
    then have "parseModelSelectionId (buildModelSelectionId (pv_id p) n) = Some (pv_id p, n)"
      "parseModelSelectionId (buildModelSelectionId (pv_id q) m) = Some (pv_id q, m)"
      using that(1,2) assms(2) unfolding plain_ids_def by (blast intro: parse_build)+
    then have "pv_id p = pv_id q" unfolding that(5) by (simp only: option.inject prod.inject)
    moreover have "find (\<lambda>r. pv_id r = pv_id p) ps = Some p" "find (\<lambda>r. pv_id r = pv_id q) ps = Some q"
      by (rule find_by_id [OF d that(1)], rule find_by_id [OF d that(2)])
    ultimately show ?thesis by (metis option.inject)
  qed
  from d show ?thesis using one same
  proof (induction ps)
    case (Cons p ps)
    then have "distinct (enabled_ids ps)" by (simp add: distinct_map)
    moreover have "set (map (buildModelSelectionId (pv_id p)) (filter (isModelEnabled p) (pv_modelNames p)))
        \<inter> set (enabled_ids ps) = {}"
    proof (rule ccontr)
      assume "\<not> ?thesis"
      then obtain n q m where "n \<in> set (pv_modelNames p)" "q \<in> set ps" "m \<in> set (pv_modelNames q)"
        "buildModelSelectionId (pv_id p) n = buildModelSelectionId (pv_id q) m"
        by (auto simp: enabled_ids_iff)
      with Cons.prems(3) [of p q n m] Cons.prems(1) show False by auto
    qed
    moreover have "enabled_ids (p # ps) =
        map (buildModelSelectionId (pv_id p)) (filter (isModelEnabled p) (pv_modelNames p)) @ enabled_ids ps"
      by (simp add: enabled_ids_def)
    ultimately show ?case using Cons.prems(2) [of p] by simp
  qed (simp add: enabled_ids_def)
qed

lemma backend_of_listed:
  assumes "resolveModelSelection ps sel \<noteq> None"
  shows "resolveBackendFromSelection sources ps (Some sel) \<noteq> None"
proof -
  obtain i name where p: "parseModelSelectionId sel = Some (i, name)"
    using assms by (auto simp: resolveModelSelection_def split: option.splits)
  then have "sel \<noteq> ''''" by (auto dest: parse_Some simp: buildModelSelectionId_def)
  with p assms show ?thesis
    by (auto simp: resolveBackendFromSelection_def resolveHttpBackendFromSelection_def)
qed

lemma backend_of_source:
  assumes "distinct (map as_id sources)" "isAgentSourceSelection sources sel"
  shows "resolveBackendFromSelection sources ps (Some sel) \<noteq> None"
proof -
  from assms(2) obtain i name a where a: "parseModelSelectionId sel = Some (i, name)" "a \<in> set sources"
    "as_signedIn a" "as_id a = i" "name \<in> set (as_models a)"
    by (auto simp: isAgentSourceSelection_def list_ex_iff split: option.splits)
  have "sel \<noteq> ''''" using a(1) by (auto dest: parse_Some simp: buildModelSelectionId_def)
  moreover have "find (\<lambda>a. as_signedIn a \<and> as_id a = i) sources = Some a"
    using assms(1) a(2-4) by (induction sources) auto
  ultimately show ?thesis using a
    by (auto simp: resolveBackendFromSelection_def resolveAgentHttpBackend_def split: option.split)
qed

lemma scenario_choice:
  "resolveScenarioModelSelectionId sources ps c = None \<Longrightarrow> enabled_ids ps = []"
  "resolveScenarioModelSelectionId sources ps c = Some sel \<Longrightarrow>
     isStructuredBackendId sel \<or> isAgentSourceSelection sources sel \<or> resolveModelSelection ps sel \<noteq> None
     \<or> sel \<in> set (enabled_ids ps)"
  by (auto simp: resolveScenarioModelSelectionId_def firstModelSelectionId_def split: option.splits if_splits list.splits)

lemma conversation_choice:
  assumes "resolveConversationModelSelectionId sources ps conv dflt draft = r"
  shows "\<exists>c. resolveScenarioModelSelectionId sources ps c = r"
  using assms by (auto simp: resolveConversationModelSelectionId_def Let_def split: if_splits)



text \<open>The test \<open>isStructuredBackendId\<close> accepts the identifier of a back end as a selection, but
  nothing resolves it: with such a selection a conversation has no back end although its model is
  configured and enabled, and no other model is tried.\<close>

theorem backend_identifier_selects_nothing:
  assumes "plain_ids ps" "\<forall>a\<in>set sources. CHR '':'' \<notin> set (as_id a)"
    and "i \<noteq> ''''" "CHR '':'' \<notin> set i" "js_trim (buildHttpBackendId i name) = buildHttpBackendId i name"
  shows "resolveConversationModelSelectionId sources ps (Some (buildHttpBackendId i name)) dflt draft
      = Some (buildHttpBackendId i name)
    \<and> resolveBackendFromSelection sources ps (Some (buildHttpBackendId i name)) = None"
proof -
  define t where "t = buildHttpBackendId i name"
  have t: "t \<noteq> ''''" "isStructuredBackendId t" "js_trim t = t"
    using assms(5) by (simp_all add: t_def buildHttpBackendId_def isStructuredBackendId_def starts_with_def)
  then have "resolveConversationModelSelectionId sources ps (Some t) dflt draft = Some t"
    by (simp add: resolveConversationModelSelectionId_def resolveScenarioModelSelectionId_def trimmed_def Let_def)
  moreover have "CHR '':'' \<in> set j" if "parseModelSelectionId t = Some (j, n)" for j n
  proof (rule ccontr)
    assume j: "\<not> ?thesis"
    have "t = j @ CHR '':'' # CHR '':'' # n" using parse_Some [OF that] by (simp add: buildModelSelectionId_def)
    then have e: "''http'' @ CHR '':'' # (i @ ''::'' @ name) = j @ CHR '':'' # (CHR '':'' # n)"
      by (simp add: t_def buildHttpBackendId_def)
    have "takeWhile ((\<noteq>) CHR '':'') (''http'' @ CHR '':'' # x) = ''http''" for x by simp
    moreover have "takeWhile ((\<noteq>) CHR '':'') (j @ CHR '':'' # y) = j" for y
      using j by (simp add: takeWhile_tail) (metis takeWhile_eq_all_conv)
    ultimately have "j = ''http''" using e by metis
    with e assms(3,4) show False by (cases i) auto
  qed
  then have "resolveBackendFromSelection sources ps (Some t) = None"
    using assms(1,2) t(1)
    by (auto simp: resolveBackendFromSelection_def resolveHttpBackendFromSelection_def resolveModelSelection_def
        resolveAgentHttpBackend_def plain_ids_def dest!: find_SomeD split: option.splits)
  ultimately show ?thesis by (simp add: t_def)
qed

theorem backend_identifier_selects_nothing_witness:
  "resolveBackendFromSelection [] (ms_providers demo_models) (Some ''http:p::small'') = None
   \<and> firstModelSelectionId (ms_providers demo_models) = Some ''p::big''"
proof -
  have "plain_ids (ms_providers demo_models)" "js_trim ''http:p::small'' = ''http:p::small''"
    "firstModelSelectionId (ms_providers demo_models) = Some ''p::big''"
    unfolding plain_ids_def by code_simp+
  then show ?thesis
    using backend_identifier_selects_nothing [of "ms_providers demo_models" "[]" "''p''" "''small''"]
    by (simp add: buildHttpBackendId_def)
qed

subsection \<open>What refreshes and saves overwrite\<close>

lemma find_pv_map_where:
  "(\<And>p. P p \<Longrightarrow> pv_id (f p) = pv_id p) \<Longrightarrow>
     find (\<lambda>p. pv_id p = i) (map_where P f ps) =
       map_option (\<lambda>p. if P p then f p else p) (find (\<lambda>p. pv_id p = i) ps)"
  by (induction ps) (auto simp: map_where_def)

lemma find_on [simp]:
  assumes "\<And>p. pv_id (f p) = pv_id p"
  shows "find_provider i (commit can (on_provider i f s) s') = map_option f (find_provider i s)"
proof -
  have "find_provider i (commit can (on_provider i f s) s') = find (\<lambda>p. pv_id p = i) (on_provider i f s)"
    by (simp add: find_provider_def commit_def start_save_def)
  also have "\<dots> = map_option (\<lambda>p. if pv_id p = i then f p else p) (find_provider i s)"
    unfolding on_provider_def find_provider_def by (rule find_pv_map_where) (rule assms)
  also have "\<dots> = map_option f (find_provider i s)"
    by (cases "find_provider i s") (auto dest: find_providerD)
  finally show ?thesis .
qed

lemma set_first_of_each: "set (first_of_each seen ns) \<subseteq> js_trim ` set ns"
  by (induction seen ns rule: first_of_each.induct) (auto simp: Let_def)

lemma set_first_infos: "ai_id ` set (first_infos seen xs) \<subseteq> js_trim ` ai_id ` set xs"
  by (induction seen xs rule: first_infos.induct) (auto simp: Let_def)

lemma fetched_ids:
  assumes "fetchProviderModelList lc u v (Inr xs) = Inr fetched"
  shows "ai_id ` set fetched \<subseteq> js_trim ` fst ` set xs"
proof -
  have "fetched = dedupeModels lc (map (\<lambda>(i, c, w). toApiModelInfo i c w) xs)"
    using assms by (auto simp: fetchProviderModelList_def finalizeFetched_def Let_def split: if_splits)
  then have "ai_id ` set fetched = ai_id ` set (first_infos [] (map (\<lambda>(i, c, w). toApiModelInfo i c w) xs))"
    by (simp add: dedupeModels_def)
  also have "\<dots> \<subseteq> js_trim ` ai_id ` set (map (\<lambda>(i, c, w). toApiModelInfo i c w) xs)"
    by (rule set_first_infos)
  also have "\<dots> = js_trim ` fst ` set xs" by (force simp: toApiModelInfo_def image_iff)
  finally show ?thesis .
qed

lemma refreshed_models:
  "set (pv_modelNames (refreshed p fetched q)) \<subseteq> js_trim ` (set (names_of (pv_manualModelNames p)) \<union> ai_id ` set fetched)"
proof -
  let ?m = "normalizeDisabledModelNames (pv_manualModelNames p)"
  let ?api = "filter (\<lambda>x. lower (ai_id x) \<notin> lower ` set (names_of (pv_excludedModelNames p))) fetched"
  have m: "set ?m \<subseteq> js_trim ` set (names_of (pv_manualModelNames p))"
    by (simp add: normalizeDisabledModelNames_def set_first_of_each)
  have "set (pv_modelNames (refreshed p fetched q)) \<subseteq> js_trim ` set (?m @ map ai_id ?api)"
    using set_first_of_each [of "[]" "?m @ map ai_id ?api"] by (simp add: refreshed_def Let_def mergeModelCatalog_def)
  also have "\<dots> \<subseteq> js_trim ` (js_trim ` set (names_of (pv_manualModelNames p)) \<union> ai_id ` set fetched)"
    using m by auto
  also have "\<dots> = js_trim ` (set (names_of (pv_manualModelNames p)) \<union> ai_id ` set fetched)"
    by (simp add: image_Un image_image)
  finally show ?thesis .
qed

lemma add_manual_success:
  assumes "addManualModel can i name s = (Inr (), s')"
  obtains p q where "find_provider i s = Some p" "find_provider i s' = Some q"
    "pv_modelNames q = pv_modelNames p @ [js_trim name]" "ms_refreshes s' = ms_refreshes s"
proof -
  from assms obtain p where p: "find_provider i s = Some p"
    "s' = commit can (on_provider i (\<lambda>q. q\<lparr>pv_modelNames := pv_modelNames p @ [js_trim name],
        pv_manualModelNames := Some (names_of (pv_manualModelNames p) @ [js_trim name])\<rparr>) s) s"
    by (auto simp: addManualModel_def Let_def split: if_splits option.splits)
  show thesis
    by (rule that [OF p(1)]) (simp_all add: p commit_def [of can _ s, symmetric], simp_all add: commit_def start_save_def)
qed

text \<open>(C16) A model that the user adds while the catalogue of its provider is being fetched is reported as
  added, and is gone when the answer arrives: the refresh goes on with the provider as it was when it
  started.\<close>

theorem model_added_during_a_refresh_is_lost:
  assumes "refresh_starts i s = (Inr (), s1)" "addManualModel can i name s1 = (Inr (), s2)"
    and "refresh_ends can lc (length (ms_refreshes s)) vault (Inr xs) s2 = (Some (Inr n), s3)"
    and "\<And>p m. find_provider i s = Some p \<Longrightarrow> m \<in> set (names_of (pv_manualModelNames p)) \<Longrightarrow> js_trim m \<noteq> js_trim name"
    and "\<And>x. x \<in> set xs \<Longrightarrow> js_trim (fst x) \<noteq> js_trim name"
  shows "\<exists>q2 q3. find_provider i s2 = Some q2 \<and> js_trim name \<in> set (pv_modelNames q2)
    \<and> find_provider i s3 = Some q3 \<and> js_trim name \<notin> set (pv_modelNames q3)"
proof -
  from assms(1) obtain p where p: "find_provider i s = Some p" "s1 = s\<lparr>ms_refreshes := ms_refreshes s @ [p]\<rparr>"
    by (auto simp: refresh_starts_def split: option.splits)
  from assms(2) obtain q2 where q2: "find_provider i s2 = Some q2" "js_trim name \<in> set (pv_modelNames q2)"
    "ms_refreshes s2 = ms_refreshes s @ [p]"
    by (elim add_manual_success) (auto simp: p(2))
  define s' where "s' = s2\<lparr>ms_refreshes := ms_refreshes s\<rparr>"
  from assms(3) obtain fetched where f: "fetchProviderModelList lc (pv_baseUrl p) (pv_appendV1 p) (Inr xs) = Inr fetched"
    "s3 = commit can (on_provider (pv_id p) (refreshed p fetched) s') s'"
    by (auto simp: refresh_ends_def Let_def q2(3) s'_def split: if_splits sum.splits)
  have "find_provider i s' = Some q2" using q2(1) by (simp add: s'_def find_provider_def)
  moreover have "pv_id p = i" using find_providerD [OF p(1)] by simp
  ultimately have q3: "find_provider i s3 = Some (refreshed p fetched q2)" using f(2) by simp
  have "js_trim name \<notin> set (pv_modelNames (refreshed p fetched q2))"
  proof
    assume "js_trim name \<in> set (pv_modelNames (refreshed p fetched q2))"
    then obtain y where y: "y \<in> set (names_of (pv_manualModelNames p)) \<union> ai_id ` set fetched" "js_trim name = js_trim y"
      using refreshed_models [of p fetched q2] by blast
    then have "y \<in> js_trim ` fst ` set xs" using assms(4) [OF p(1), of y] fetched_ids [OF f(1)] by auto
    then obtain x where "x \<in> set xs" "y = js_trim (fst x)" by blast
    with y(2) assms(5) [of x] show False by simp
  qed
  with q2 q3 show ?thesis by blast
qed

definition demo_refresh :: models_state where
  "demo_refresh = snd (addManualModel False ''p'' '' mine'' (snd (refresh_starts ''p'' demo_models)))"

theorem model_added_during_a_refresh_is_lost_witness:
  "\<exists>q3. find_provider ''p'' (snd (refresh_ends False (\<lambda>_ _. 0) 0 '''' (Inr [(''big'', None, None)]) demo_refresh)) = Some q3
     \<and> ''mine'' \<notin> set (pv_modelNames q3)"
proof -
  have r: "fst (refresh_starts ''p'' demo_models) = Inr ()"
    "fst (addManualModel False ''p'' '' mine'' (snd (refresh_starts ''p'' demo_models))) = Inr ()"
    "fst (refresh_ends False (\<lambda>_ _. 0) 0 '''' (Inr [(''big'', None, None)]) demo_refresh) = Some (Inr 1)"
    "ms_refreshes demo_models = []" "js_trim '' mine'' = ''mine''"
    "map_option (\<lambda>p. names_of (pv_manualModelNames p)) (find_provider ''p'' demo_models) = Some [''big'']"
    "js_trim ''big'' = ''big''"
    by code_simp+
  have e: "(Some (Inr 1), snd (refresh_ends False (\<lambda>_ _. 0) 0 '''' (Inr [(''big'', None, None)]) demo_refresh))
      = refresh_ends False (\<lambda>_ _. 0) 0 '''' (Inr [(''big'', None, None)]) demo_refresh"
    by (metis r(3) prod.collapse)
  have 1: "refresh_starts ''p'' demo_models = (Inr (), snd (refresh_starts ''p'' demo_models))"
    by (metis r(1) prod.collapse)
  have 2: "addManualModel False ''p'' '' mine'' (snd (refresh_starts ''p'' demo_models)) = (Inr (), demo_refresh)"
    unfolding demo_refresh_def by (metis r(2) prod.collapse)
  have 3: "refresh_ends False (\<lambda>_ _. 0) (length (ms_refreshes demo_models)) '''' (Inr [(''big'', None, None)]) demo_refresh
      = (Some (Inr 1), snd (refresh_ends False (\<lambda>_ _. 0) 0 '''' (Inr [(''big'', None, None)]) demo_refresh))"
    unfolding e by (simp add: r(4))
  have 4: "js_trim m \<noteq> js_trim '' mine''"
    if "find_provider ''p'' demo_models = Some p" "m \<in> set (names_of (pv_manualModelNames p))" for p m
    using that r(5-7) by auto
  have 5: "js_trim (fst x) \<noteq> js_trim '' mine''" if "x \<in> set [(''big'', None :: int option, None :: string option)]" for x
    using that r(5,7) by auto
  have "\<exists>q2 q3. find_provider ''p'' demo_refresh = Some q2 \<and> js_trim '' mine'' \<in> set (pv_modelNames q2)
    \<and> find_provider ''p'' (snd (refresh_ends False (\<lambda>_ _. 0) 0 '''' (Inr [(''big'', None, None)]) demo_refresh)) = Some q3
    \<and> js_trim '' mine'' \<notin> set (pv_modelNames q3)"
    by (rule model_added_during_a_refresh_is_lost [OF 1 2 3]) (erule (1) 4, erule 5)
  then show ?thesis unfolding r(5) by blast
qed

text \<open>Names are disabled by their exact spelling but kept by their lower-case form: a model that the
  user disabled is offered again when the catalogue changes its spelling.\<close>

theorem respelled_model_is_enabled_again:
  assumes "pv_disabledModelNames p = Some [d]" "lower x = lower d" "x \<noteq> js_trim d"
    and "x \<in> set (pv_modelNames (refreshed p fetched q))"
  shows "isModelEnabled (refreshed p fetched q) x"
proof -
  have "pv_disabledModelNames (refreshed p fetched q) =
      Some (filter (\<lambda>n. lower n \<in> lower ` set (pv_modelNames (refreshed p fetched q))) (first_of_each [] [d]))"
    by (simp add: refreshed_def Let_def pruneDisabledModelNames_def normalizeDisabledModelNames_def assms(1))
  then show ?thesis using assms(3) by (auto simp: isModelEnabled_def Let_def)
qed

theorem respelled_model_is_enabled_again_witness:
  "let p = (the (find_provider ''p'' demo_models))\<lparr>pv_disabledModelNames := Some [''SMALL'']\<rparr>;
       fetched = [\<lparr> ai_id = ''Small'', ai_created = None, ai_ownedBy = None \<rparr>]
   in isModelEnabled (refreshed p fetched p) ''Small''"
proof -
  let ?p = "(the (find_provider ''p'' demo_models))\<lparr>pv_disabledModelNames := Some [''SMALL'']\<rparr>"
  let ?f = "[\<lparr> ai_id = ''Small'', ai_created = None, ai_ownedBy = None \<rparr>]"
  have "''Small'' \<in> set (pv_modelNames (refreshed ?p ?f ?p))" "lower ''Small'' = lower ''SMALL''"
    "''Small'' \<noteq> js_trim ''SMALL''"
    by code_simp+
  with respelled_model_is_enabled_again [of ?p "''SMALL''" "''Small''" ?f ?p] show ?thesis by simp
qed

text \<open>(C17) A key typed while an earlier save of the same providers is on its way is wiped from memory by the
  success of that save. When its own save then fails, the provider is marked as having a key, the key
  is in no save that succeeded, and memory does not hold it either.\<close>

theorem key_typed_during_a_save_is_lost:
  assumes "find_provider i s = Some p" "ms_saves s = []" "js_trim a \<noteq> ''''" "js_trim b \<noteq> ''''"
    and "s1 = updateProvider True i (empty_patch\<lparr>pp_apiKey := Some a\<rparr>) s"
    and "s2 = updateProvider True i (empty_patch\<lparr>pp_apiKey := Some b\<rparr>) s1"
    and "s3 = save_returns 0 SaveOk [] s2" "s4 = save_returns 0 SaveError [] s3"
  shows "\<exists>q w. find_provider i s2 = Some q \<and> pv_apiKey q = js_trim b
    \<and> (\<exists>q'. find_provider i s4 = Some q' \<and> pv_apiKey q' = '''' \<and> pv_hasApiKey q' = Some True)
    \<and> ms_written s4 = ms_written s @ [w]
    \<and> (\<forall>x\<in>set w. pv_id x = i \<longrightarrow> pv_apiKey x = js_trim a)"
proof -
  let ?u = "empty_patch\<lparr>pp_apiKey := Some a\<rparr>" and ?v = "empty_patch\<lparr>pp_apiKey := Some b\<rparr>"
  let ?ps = "on_provider i (patch_provider ?u) s"
  let ?qs = "map_where (\<lambda>p. pv_id p = i) (patch_provider ?v) ?ps"
  have ids: "map pv_id ?qs = map pv_id ?ps" by (simp add: map_map_where_id)
  have s1: "ms_providers s1 = ?ps" "ms_saves s1 = [(Persisted, map serializeProviderForDisk ?ps)]" "ms_written s1 = ms_written s"
    using assms(2) by (simp_all add: assms(5) updateProvider_def commit_def start_save_def)
  have s2: "ms_providers s2 = ?qs" "ms_saves s2 = ms_saves s1 @ [(Persisted, map serializeProviderForDisk ?qs)]"
    "ms_written s2 = ms_written s"
    by (simp_all add: assms(6) updateProvider_def commit_def start_save_def on_provider_def s1)
  have "same_providers (map serializeProviderForDisk ?ps) ?qs"
  proof -
    have "length ?qs = length ?ps" "pv_id ` set ?qs = pv_id ` set ?ps"
      using ids by (metis length_map, metis list.set_map)
    then show ?thesis
      by (auto simp: same_providers_def list_all_iff serializeProviderForDisk_def image_image)
  qed
  then have s3: "ms_providers s3 = scrubProvidersApiKeysInMemory ?qs" "length (ms_saves s3) = 1"
    "fst (ms_saves s3 ! 0) = Persisted"
    "ms_written s3 = ms_written s @ [map serializeProviderForDisk ?ps]"
    by (simp_all add: assms(7) save_returns_def after_persist_def s1 s2 Let_def)
  have s4: "ms_providers s4 = ms_providers s3" "ms_written s4 = ms_written s3"
    using s3(2,3) by (simp_all add: assms(8) save_returns_def after_persist_def split_beta Let_def)
  have key: "pv_apiKey (patch_provider (empty_patch\<lparr>pp_apiKey := Some k\<rparr>) x) = js_trim k" for k x
    by (simp add: patch_provider_def empty_patch_def Let_def)
  have f1: "find_provider i s1 = Some (patch_provider ?u p)"
    using assms(1) by (simp add: assms(5) updateProvider_def)
  then have f2: "find_provider i s2 = Some (patch_provider ?v (patch_provider ?u p))"
    by (simp add: assms(6) updateProvider_def)
  have scrub: "find (\<lambda>p. pv_id p = i) (map scrub_key ps) = map_option scrub_key (find (\<lambda>p. pv_id p = i) ps)" for ps
    by (induction ps) (auto simp: scrub_key_def)
  have "find_provider i s4 = Some (scrub_key (patch_provider ?v (patch_provider ?u p)))"
    using f2 by (simp add: find_provider_def s4 s3(1) scrubProvidersApiKeysInMemory_def scrub s2(1))
  moreover have "pv_apiKey (scrub_key x) = ''''" "pv_hasApiKey (scrub_key (patch_provider ?v x)) = Some True" for x
    using assms(4) by (simp_all add: scrub_key_def key)
  moreover have "\<forall>x\<in>set (map serializeProviderForDisk ?ps). pv_id x = i \<longrightarrow> pv_apiKey x = js_trim a"
  proof (intro ballI impI)
    fix x assume x: "x \<in> set (map serializeProviderForDisk ?ps)" "pv_id x = i"
    then obtain y where y: "y \<in> set ?ps" "x = serializeProviderForDisk y" by auto
    have e: "pv_id x = pv_id y" "pv_apiKey x = pv_apiKey y" by (simp_all add: y(2) serializeProviderForDisk_def)
    from y(1) have "y \<in> patch_provider ?u ` {z \<in> set (ms_providers s). pv_id z = i}"
      using x(2) unfolding e on_provider_def set_map_where by blast
    then show "pv_apiKey x = js_trim a" unfolding e by (elim imageE) (simp only: key)
  qed
  moreover have "ms_written s4 = ms_written s @ [map serializeProviderForDisk ?ps]" using s4(2) s3(4) by simp
  ultimately show ?thesis using f2 key by blast
qed

definition demo_saved :: models_state where
  "demo_saved = save_returns 0 SaveOk [] demo_models"

theorem key_typed_during_a_save_is_lost_witness:
  "\<exists>q'. find_provider ''p'' (save_returns 0 SaveError [] (save_returns 0 SaveOk []
     (updateProvider True ''p'' (empty_patch\<lparr>pp_apiKey := Some ''k3''\<rparr>)
       (updateProvider True ''p'' (empty_patch\<lparr>pp_apiKey := Some ''k2''\<rparr>) demo_saved)))) = Some q'
     \<and> pv_apiKey q' = ''''"
proof -
  have "find_provider ''p'' demo_saved \<noteq> None" "ms_saves demo_saved = []" "js_trim ''k2'' \<noteq> ''''" "js_trim ''k3'' \<noteq> ''''"
    by code_simp+
  then show ?thesis
    using key_typed_during_a_save_is_lost [of "''p''" demo_saved _ "''k2''" "''k3''" _ _ _ _, OF _ _ _ _ refl refl refl refl]
    by blast
qed

end
