(* ===== verification/Spec2Isabelle.thy ===== *)
theory Spec2Isabelle
  imports ClusterRun DockLayout DockVisit Sync ProtocolTree SqlLex ActionDrafts HistorySync InlineTools AiModels
begin

text \<open>
  OmniPanel is a desktop panel for servers, databases and containers with an assistant that may act on them:
  a React front end in TypeScript (\<open>frontend/src\<close>) over a Tauri and Rust back end. This development models the
  logic of the front end that keeps state or decides: what the assistant may run and after whose consent, its
  conversations and sub-conversations, the layout of the work area, the protocol sidebar, the synchronisation
  of two devices, the scanner of SQL scripts, and the terminal's blocks with their output and their history.

  \<^bold>\<open>Parts and theories.\<close> A theory names its source files at its head; a definition bears the name of the
  function, field or type that it translates, with a prefix on record fields and a changed name only where the
  original would clash with HOL.

  \<^item> \<^bold>\<open>Consent.\<close> \<open>Regex\<close> gives the regular expressions of the guards: an ordered matcher, as JavaScript's, with
    a proof that it agrees with a declarative relation. \<open>CommandPolicy\<close> is \<open>lib/commandGuard.ts\<close> and the
    \<open>modules/terminal/terminal*Approval*\<close>, \<open>*Fingerprint\<close> and \<open>*Whitelist\<close> files: danger rules, the keys
    of a command, whitelists per session and for ever, the three modes. \<open>ToolGate\<close> is \<open>lib/ai/sqlSafety.ts\<close>,
    \<open>toolRisk.ts\<close> and the decision of \<open>toolGate.ts\<close>. \<open>ActionDrafts\<close> is \<open>stores/actionDraftStore.ts\<close> with
    \<open>runWithToolGate\<close>: drafts that wait for the user, their callers' promises, timers, and the executions in
    flight. A tool call passes \<open>decideToolInvocation\<close>; if it has to wait, a draft is queued, and only a choice
    of the user starts it.
  \<^item> \<^bold>\<open>Assistant.\<close> \<open>MessageParts\<close> is \<open>lib/ai/aiMessageParts.ts\<close> (the ordered parts of a message), \<open>Agents\<close> is
    \<open>lib/ai/agents\<close>, \<open>AiStore\<close> and \<open>AiRuns\<close> are \<open>stores/aiStore.ts\<close> (state and actions; runs and their
    invariant), \<open>Orchestration\<close> is \<open>stores/aiOrchestrationStore.ts\<close>, \<open>ClusterRun\<close> is
    \<open>lib/ai/orchestration/clusterCancellation.ts\<close> with the creation and the worker pool of
    \<open>subConversationRunner.ts\<close>. The stores of conversations and of clusters are updated together; a \<open>world\<close>
    record holds both. \<open>AiModels\<close> is \<open>stores/aiModelsStore.ts\<close> with \<open>lib/fetchProviderModels.ts\<close>,
    \<open>lib/aiScenarioModels.ts\<close> and \<open>lib/ai/inferenceBackend.ts\<close>: the configured providers, their saves and
    catalogues, and which model answers a conversation.
  \<^item> \<^bold>\<open>Work area.\<close> \<open>DockLayout\<close> is \<open>components/dock/dockViewLayout.ts\<close>, \<open>DockVisit\<close> is \<open>dockTabVisit.ts\<close>.
  \<^item> \<^bold>\<open>Protocol sidebar.\<close> \<open>ProtocolStore\<close> is \<open>stores/protocolHttpLayoutStore.ts\<close>, \<open>ProtocolTree\<close> is
    \<open>modules/protocol/protocolLayoutTree.ts\<close>, which reads the store's layout.
  \<^item> \<^bold>\<open>Synchronisation.\<close> \<open>Sync\<close> is \<open>stores/clientSyncTombstoneStore.ts\<close> and \<open>modules/clientSync\<close>.
  \<^item> \<^bold>\<open>SQL.\<close> \<open>SqlLex\<close> is \<open>modules/database/sqlIntel/sqlLex.ts\<close>; \<open>ToolGate\<close> compares its own rough splitter with it.
  \<^item> \<^bold>\<open>Terminal.\<close> \<open>TermOutput\<close> is \<open>modules/terminal/terminalOutputModel.ts\<close>, the screen text of a running command;
    \<open>Blocks\<close> is \<open>stores/blocksStore.ts\<close>, the commands and assistant turns of every session; \<open>TermHistory\<close> is
    \<open>terminalHistoryRepo.ts\<close>, \<open>terminalBlockRestore.ts\<close> and \<open>stores/terminalHistoryStore.ts\<close>, blocks as records of
    the database and back; \<open>HistorySync\<close> is \<open>terminalHistorySync.ts\<close>, which subscribes to the block store and
    decides when what is written: its state contains the other two. \<open>CommandProfile\<close> is
    \<open>terminalCommandProfile.ts\<close> with \<open>interactiveCommands.ts\<close> (what the assistant may run at all);
    \<open>InlineTools\<close> is \<open>inlineToolBridge.ts\<close>, the life of a command that the assistant wants to run in a terminal, from
    the decision of \<open>CommandPolicy\<close> over its stages to the report; it changes the items of \<open>Blocks\<close>.
  \<^item> \<^bold>\<open>Shared.\<close> \<open>Prelude\<close> holds the fragment of the JavaScript run time that the sources use (dictionaries in
    insertion order, stable sorting, trimming, decimal numbers, JSON values) and the locale \<open>store_machine\<close>;
    \<open>Descend\<close> the loop that collects an item and everything below it, which two stores use.

  \<^bold>\<open>How the code is translated.\<close> The state of a store is a record, an action a function on it with the guards and
  early returns of the code; a thrown error or a missing result is \<open>None\<close> or a constructor. What the code reads
  from its surroundings (clock, random identifiers, settings, comparison of names by locale, JSON conversion) is
  an argument. An asynchronous operation is cut where it waits: the parts before and after are two steps, and a
  run may put any other step between them. Runs are folds of a step function over a list of operations
  (\<open>ad_step\<close>, \<open>orch_apply\<close>, \<open>blocks_step\<close>, \<open>hsync_step\<close>, \<open>inline_step\<close> and the like) or, for the worker pool, an inductive relation. Strings are lists of
  code units below 256; where the code searches for characters above that range, the theory says so.

  \<^bold>\<open>What the lemmas show.\<close> The interfaces are locales: \<open>store_machine\<close> (an invariant of the initial state that each
  step keeps holds in every run), \<open>cascade\<close> (what a cascading deletion must leave), \<open>keyed_upsert\<close> (updates of
  parts by identifier), \<open>comparator\<close> (what sorting needs of a comparison); each is interpreted on the model's own
  functions. On top of them each theory ends with its properties: invariants of every reachable state
  (distinct identifiers, forests, waiting callers that will be answered), functional descriptions of the
  operations on every branch, agreement with an abstract description (whitelists with the history of grants, the
  merge with last-writer-wins, cuts with the lexer's semicolons), round trips of stored and uploaded data,
  termination, and the inputs on which the code does not do what it means to.

  \<^bold>\<open>Loops and fuel.\<close> Loops over data are structural recursion or have a measure. Climbing from a folder to its
  root may run forever on a cyclic snapshot: \<open>climb\<close> is a \<open>partial_function\<close>, with a proof that it returns on
  every forest and one that it does not return on a cycle. The recursive listing of the sidebar has fuel
  \<open>length folders + 1\<close>, which is enough on every reachable layout, as a forest is no deeper than its number of
  folders. The four rounds of stripping modifiers in front of a command are the code's own bound. The matcher of
  regular expressions unrolls a star at most once per character left.

  \<^bold>\<open>Not modelled.\<close> The back end (\<open>crates\<close>, \<open>src-tauri\<close>) and the generated bindings to it; the plugins and their
  market; React components and hooks, which draw the state modelled here or drive terminals, grids and editors
  of third-party libraries; translations, themes and settings panels; the network transports of synchronisation
  and of the assistant's streaming; parsing of the arguments of the tool that starts sub-conversations. Texts shown
  to the user are left out or are constructors.
\<close>

end
